(* ===== verification/Prelude.thy ===== *)
theory Prelude
  imports
    Main
    "HOL-Library.Word"
    "HOL-Library.Multiset"
    "HOL-Library.List_Lexorder"
    "HOL-Library.Product_Lexorder"
begin

text \<open>
  Shared vocabulary of the development: the machine integers of the Go sources, results with
  errors as values, three-way comparison, the loop shapes of the sources (with the
  non-termination of an unsigned counter made explicit), and the list, map and word lemmas
  that the component theories use.
\<close>

section \<open>Types\<close>

text \<open>
  The widths are those the sources serialize with: a slot and an epoch index take four bytes,
  base tokens, mana and block issuance credits eight. Signed 64 bit values (\<open>int64\<close>) are words
  read with \<^const>\<open>sint\<close>.
\<close>

type_synonym u8 = "8 word"
type_synonym u32 = "32 word"
type_synonym u64 = "64 word"
type_synonym i64 = "64 word"
type_synonym bytes = "8 word list"
type_synonym slot = "32 word"
type_synonym epoch = "32 word"
type_synonym seat = "8 word"
type_synonym base_token = "64 word"
type_synonym mana = "64 word"
type_synonym work_score = "32 word"

text \<open>
  Account and block identifiers are byte arrays of a fixed length. They are compared bytewise from
  the first byte on, which is the order of the numbers they are the big-endian digits of, so an
  identifier is that number.
\<close>

type_synonym account_id = nat
type_synonym block_id = nat

abbreviation max_slot :: slot where
  "max_slot \<equiv> - 1"

named_theorems codec_simps \<open>round trips of the byte encodings\<close>
named_theorems loop_simps \<open>evaluation of the loop combinators\<close>
named_theorems queue_simps \<open>effect of the queue operations on their contents\<close>
named_theorems ledger_simps \<open>effect of the ledger operations on the stored maps\<close>

section \<open>Results: errors as values\<close>

definition bind_res :: "'e + 'a \<Rightarrow> ('a \<Rightarrow> 'e + 'b) \<Rightarrow> 'e + 'b" where
  "bind_res m f = (case m of Inl e \<Rightarrow> Inl e | Inr a \<Rightarrow> f a)"

lemma bind_res_simps [simp]:
  "bind_res (Inl e) f = Inl e"
  "bind_res (Inr a) f = f a"
  by (simp_all add: bind_res_def)

definition lift_err :: "('e \<Rightarrow> 'f) \<Rightarrow> 'e + 'a \<Rightarrow> 'f + 'a" where
  "lift_err f = map_sum f id"

lemma lift_err_simps [simp]: "lift_err f (Inl e) = Inl (f e)" "lift_err f (Inr x) = Inr x"
  by (simp_all add: lift_err_def)

lemma lift_err_eq_Inr: "lift_err f x = Inr a \<longleftrightarrow> x = Inr a"
  by (cases x) simp_all

lemma bind_res_eq_Inr [simp]:
  "bind_res m f = Inr b \<longleftrightarrow> (\<exists>a. m = Inr a \<and> f a = Inr b)"
  by (cases m) auto

lemma bind_res_eq_Inl:
  "bind_res m f = Inl e \<longleftrightarrow> m = Inl e \<or> (\<exists>a. m = Inr a \<and> f a = Inl e)"
  by (cases m) auto

text \<open>A Go call that returns \<open>(value, error)\<close> through the \<open>option\<close> type, with the error it is wrapped into.\<close>

definition or_err :: "'e \<Rightarrow> 'a option \<Rightarrow> 'e + 'a" where
  "or_err e x = (case x of None \<Rightarrow> Inl e | Some a \<Rightarrow> Inr a)"

lemma or_err_simps [simp]:
  "or_err e None = Inl e"
  "or_err e (Some a) = Inr a"
  by (simp_all add: or_err_def)

lemma or_err_eq_Inr [simp]: "or_err e x = Inr a \<longleftrightarrow> x = Some a"
  by (cases x) auto

text \<open>A loop over a list whose body may return an error, which ends the loop.\<close>

fun fold_res :: "('a \<Rightarrow> 's \<Rightarrow> 'e + 's) \<Rightarrow> 'a list \<Rightarrow> 's \<Rightarrow> 'e + 's" where
  "fold_res f [] s = Inr s"
| "fold_res f (x # xs) s = bind_res (f x s) (fold_res f xs)"

lemma fold_res_append [simp]:
  "fold_res f (xs @ ys) s = bind_res (fold_res f xs s) (fold_res f ys)"
  by (induction xs arbitrary: s) (auto simp: bind_res_def split: sum.splits)

lemma fold_res_invariant:
  assumes "fold_res f xs s = Inr t" and "P s"
    and "\<And>x s t. x \<in> set xs \<Longrightarrow> P s \<Longrightarrow> f x s = Inr t \<Longrightarrow> P t"
  shows "P t"
  using assms
proof (induction xs arbitrary: s)
  case (Cons x xs)
  from Cons.prems(1) obtain u where u: "f x s = Inr u" "fold_res f xs u = Inr t" by auto
  have "P u" by (rule Cons.prems(3)[OF _ Cons.prems(2) u(1)]) simp
  from u(2) this show ?case
    by (rule Cons.IH) (rule Cons.prems(3), simp_all)
qed simp

text \<open>A \<open>ForEach\<close> whose callback may end the loop early or panic.\<close>

fun for_each :: "('a \<Rightarrow> 's \<Rightarrow> 'e + ('s \<times> bool)) \<Rightarrow> 'a list \<Rightarrow> 's \<Rightarrow> 'e + 's" where
  "for_each f [] s = Inr s"
| "for_each f (x # xs) s = bind_res (f x s) (\<lambda>(s, continue). if continue then for_each f xs s else Inr s)"

lemma fold_invariant_set:
  assumes "P s" and "\<And>x s. x \<in> set xs \<Longrightarrow> P s \<Longrightarrow> P (f x s)"
  shows "P (fold f xs s)"
  using assms by (induction xs arbitrary: s) auto

section \<open>Three-way comparison\<close>

text \<open>The convention of \<open>bytes.Compare\<close> and of every \<open>Compare\<close> method: -1, 0 or 1.\<close>

definition three_way :: "'a::linorder \<Rightarrow> 'a \<Rightarrow> int" where
  "three_way x y = (if x < y then -1 else if x = y then 0 else 1)"

lemma three_way_simps [simp]:
  "three_way x y = -1 \<longleftrightarrow> x < y"
  "three_way x y = 0 \<longleftrightarrow> x = y"
  "three_way x y = 1 \<longleftrightarrow> y < x"
  by (auto simp: three_way_def)

lemma three_way_range: "three_way x y \<in> {-1, 0, 1}"
  by (simp add: three_way_def)

lemma three_way_flip: "three_way y x = - three_way x y"
  by (auto simp: three_way_def)

text \<open>\<open>bytes.Compare\<close> of the Go standard library: lexicographic, a proper prefix is smaller.\<close>

fun bytes_Compare :: "bytes \<Rightarrow> bytes \<Rightarrow> int" where
  "bytes_Compare [] [] = 0"
| "bytes_Compare [] (y # ys) = -1"
| "bytes_Compare (x # xs) [] = 1"
| "bytes_Compare (x # xs) (y # ys) =
     (if x < y then -1 else if y < x then 1 else bytes_Compare xs ys)"

lemma bytes_Compare_three_way: "bytes_Compare xs ys = three_way xs ys"
  by (induction xs ys rule: bytes_Compare.induct) (auto simp: three_way_def)

section \<open>Loops over unsigned counters\<close>

text \<open>
  The Go loop \<open>for i := lo; i <= hi; i++\<close> on an unsigned counter does not end when \<open>hi\<close> is the
  largest value of the type, because \<open>i++\<close> wraps to zero. \<open>for_up\<close> keeps that: the value
  \<open>None\<close> is a loop that never returns.
\<close>

partial_function (option) for_up ::
  "('w::len word \<Rightarrow> 's \<Rightarrow> 's) \<Rightarrow> 'w word \<Rightarrow> 'w word \<Rightarrow> 's \<Rightarrow> 's option" where
  "for_up body i hi s = (if i \<le> hi then for_up body (i + 1) hi (body i s) else Some s)"

text \<open>The same loop with a \<open>break\<close>: the body also says whether the loop goes on.\<close>

partial_function (option) for_up_while ::
  "('w::len word \<Rightarrow> 's \<Rightarrow> bool \<times> 's) \<Rightarrow> 'w word \<Rightarrow> 'w word \<Rightarrow> 's \<Rightarrow> 's option" where
  "for_up_while body i hi s =
     (if i \<le> hi then
        (if fst (body i s) then for_up_while body (i + 1) hi (snd (body i s))
         else Some (snd (body i s)))
      else Some s)"

text \<open>The values the counter takes when the loop does end.\<close>

definition wrange :: "'w::len word \<Rightarrow> 'w word \<Rightarrow> 'w word list" where
  "wrange lo hi = map word_of_nat [unat lo..<Suc (unat hi)]"

lemma unat_of_nat_small:
  "n < 2 ^ LENGTH('w::len) \<Longrightarrow> unat (word_of_nat n :: 'w word) = n"
  by (simp add: unat_of_nat)

lemma word_Suc_no_wrap:
  fixes i hi :: "'w::len word"
  assumes "i \<le> hi" and "hi \<noteq> -1"
  shows "unat (i + 1) = Suc (unat i)"
proof -
  have "unat hi < unat (-1 :: 'w word)"
    using assms(2) word_order.extremum[of hi] by (simp add: word_less_nat_alt[symmetric] order.not_eq_order_implies_strict)
  with assms(1) have "unat i < unat (-1 :: 'w word)"
    by (simp add: word_le_nat_alt)
  then have "i \<noteq> -1" by auto
  then have "1 + i \<noteq> 0"
    by (metis add.right_neutral add_minus_cancel add.commute)
  then show ?thesis by (simp add: unatSuc add.commute)
qed

lemma set_wrange [simp]: "set (wrange lo hi) = {i. lo \<le> i \<and> i \<le> hi}"
proof -
  have "i \<in> set (wrange lo hi) \<longleftrightarrow> lo \<le> i \<and> i \<le> hi" for i
  proof
    assume "i \<in> set (wrange lo hi)"
    then obtain n where n: "unat lo \<le> n" "n < Suc (unat hi)" "i = word_of_nat n"
      by (auto simp: wrange_def)
    then have "n < 2 ^ LENGTH('a)"
      by (meson less_Suc_eq_le order.strict_trans1 unsigned_less)
    with n(3) have "unat i = n" by (simp add: unat_of_nat_small)
    with n show "lo \<le> i \<and> i \<le> hi" by (simp add: word_le_nat_alt)
  next
    assume "lo \<le> i \<and> i \<le> hi"
    then have "unat i \<in> set [unat lo..<Suc (unat hi)]"
      by (auto simp: word_le_nat_alt simp flip: less_Suc_eq_le)
    then have "word_of_nat (unat i) \<in> set (wrange lo hi)"
      unfolding wrange_def set_map by (rule imageI)
    then show "i \<in> set (wrange lo hi)" by simp
  qed
  then show ?thesis by blast
qed

lemma wrange_empty [simp]: "hi < lo \<Longrightarrow> wrange lo hi = []"
  by (simp add: wrange_def word_less_nat_alt)

lemma wrange_Cons:
  assumes "lo \<le> hi" and "hi \<noteq> -1"
  shows "wrange lo hi = lo # wrange (lo + 1) hi"
proof -
  have "[unat lo..<Suc (unat hi)] = unat lo # [Suc (unat lo)..<Suc (unat hi)]"
    using assms(1) by (simp add: word_le_nat_alt upt_rec)
  then show ?thesis
    using word_Suc_no_wrap[OF assms] by (simp add: wrange_def)
qed

lemma distinct_wrange [simp]:
  fixes lo hi :: "'a::len word"
  shows "distinct (wrange lo hi)"
proof -
  have "inj_on (word_of_nat :: nat \<Rightarrow> 'a word) {unat lo..<Suc (unat hi)}"
  proof (rule inj_onI)
    fix x y
    assume "x \<in> {unat lo..<Suc (unat hi)}" "y \<in> {unat lo..<Suc (unat hi)}"
      and eq: "(word_of_nat x :: 'a word) = word_of_nat y"
    then have "x < 2 ^ LENGTH('a)" "y < 2 ^ LENGTH('a)"
      by (meson atLeastLessThan_iff less_Suc_eq_le order.strict_trans1 unsigned_less)+
    with eq show "x = y" by (metis unat_of_nat_small)
  qed
  then show ?thesis by (simp add: wrange_def distinct_map del: upt_Suc)
qed

text \<open>The termination claims: a bound below the maximum is enough, and it is also necessary.\<close>

lemma for_up_returns [loop_simps]:
  assumes "hi \<noteq> -1"
  shows "for_up body lo hi s = Some (fold body (wrange lo hi) s)"
proof (induction "unat hi + 1 - unat lo" arbitrary: lo s)
  case 0
  then have "\<not> lo \<le> hi" "hi < lo" by (simp_all add: word_le_nat_alt word_less_nat_alt)
  then show ?case by (subst for_up.simps) simp
next
  case (Suc n)
  then have le: "lo \<le> hi" by (simp add: word_le_nat_alt)
  have "n = unat hi + 1 - unat (lo + 1)"
    using Suc.hyps(2) word_Suc_no_wrap[OF le assms] by simp
  then have "for_up body (lo + 1) hi (body lo s) = Some (fold body (wrange (lo + 1) hi) (body lo s))"
    by (rule Suc.hyps(1))
  with le show ?case by (subst for_up.simps) (simp add: wrange_Cons[OF le assms])
qed

lemma for_up_diverges:
  "for_up body lo (-1) s = None"
proof (rule ccontr)
  assume "for_up body lo (-1) s \<noteq> None"
  then obtain t where ret: "for_up body lo (-1) s = Some t" by auto
  have "hi \<noteq> - 1" if "for_up body lo hi s = Some t" for lo hi s
    by (rule for_up.raw_induct[where P = "\<lambda>_ _ hi _ _. hi \<noteq> -1", OF _ that])
       (auto split: if_splits)
  from this[OF ret] show False by simp
qed

text \<open>The breaking loop runs the body on a prefix of the range.\<close>

fun run_while :: "('i \<Rightarrow> 's \<Rightarrow> bool \<times> 's) \<Rightarrow> 'i list \<Rightarrow> 's \<Rightarrow> 's" where
  "run_while body [] s = s"
| "run_while body (i # is) s =
     (if fst (body i s) then run_while body is (snd (body i s)) else snd (body i s))"

lemma for_up_while_returns [loop_simps]:
  assumes "hi \<noteq> -1"
  shows "for_up_while body lo hi s = Some (run_while body (wrange lo hi) s)"
proof (induction "unat hi + 1 - unat lo" arbitrary: lo s)
  case 0
  then have "\<not> lo \<le> hi" "hi < lo" by (simp_all add: word_le_nat_alt word_less_nat_alt)
  then show ?case by (subst for_up_while.simps) simp
next
  case (Suc n)
  then have le: "lo \<le> hi" by (simp add: word_le_nat_alt)
  have "n = unat hi + 1 - unat (lo + 1)"
    using Suc.hyps(2) word_Suc_no_wrap[OF le assms] by simp
  then have "for_up_while body (lo + 1) hi s' = Some (run_while body (wrange (lo + 1) hi) s')" for s'
    by (rule Suc.hyps(1))
  with le show ?case by (subst for_up_while.simps) (simp add: wrange_Cons[OF le assms])
qed

text \<open>The ascending loop with a body that may return an error, which ends the loop.\<close>

definition for_up_res :: "('w::len word \<Rightarrow> 's \<Rightarrow> 'e + 's) \<Rightarrow> 'w word \<Rightarrow> 'w word \<Rightarrow> 's \<Rightarrow> ('e + 's) option" where
  "for_up_res body lo hi s = for_up_while (\<lambda>i r. (\<not> isl (bind_res r (body i)), bind_res r (body i))) lo hi (Inr s)"

lemma for_up_res_returns [loop_simps]:
  assumes "hi \<noteq> -1"
  shows "for_up_res body lo hi s = Some (fold_res body (wrange lo hi) s)"
proof -
  have "run_while (\<lambda>i r. (\<not> isl (bind_res r (body i)), bind_res r (body i))) xs (Inr s) = fold_res body xs s" for xs s
  proof (induction xs arbitrary: s)
    case (Cons x xs)
    then show ?case by (cases "body x s") simp_all
  qed simp
  then show ?thesis by (simp add: for_up_res_def for_up_while_returns[OF assms])
qed

text \<open>The loop \<open>for i := hi; i > lo; i--\<close> always ends: the counter stops at \<open>lo\<close>, before it can wrap.\<close>

lemma unat_pred_less:
  fixes i lo :: "'w::len word"
  assumes "lo < i"
  shows "unat (i - 1) < unat i"
proof -
  from assms have "0 < unat i" by (simp add: word_less_nat_alt)
  moreover from this have "i \<noteq> 0" by auto
  ultimately
  show ?thesis by (simp add: unat_minus_one)
qed

function for_down_res ::
  "('w::len word \<Rightarrow> 's \<Rightarrow> 'e + 's) \<Rightarrow> 'w word \<Rightarrow> 'w word \<Rightarrow> 's \<Rightarrow> 'e + 's" where
  "for_down_res body i lo s =
     (if lo < i then bind_res (body i s) (for_down_res body (i - 1) lo) else Inr s)"
  by pat_completeness auto
termination
proof (relation "measure (\<lambda>(body, i, lo, s). unat i)")
  fix body :: "'w::len word \<Rightarrow> 's \<Rightarrow> 'e + 's" and i lo :: "'w word" and s s' :: 's
  assume "lo < i"
  then have "unat (i - 1) < unat i" by (rule unat_pred_less)
  then show "((body, i - 1, lo, s'), body, i, lo, s) \<in> measure (\<lambda>(body, i, lo, s). unat i)"
    by simp
qed simp

declare for_down_res.simps [simp del]

lemma for_down_res_step: "t < hi \<Longrightarrow> for_down_res f hi t s = bind_res (f hi s) (for_down_res f (hi - 1) t)"
  by (subst for_down_res.simps) simp

lemma for_down_res_stop: "\<not> t < hi \<Longrightarrow> for_down_res f hi t s = Inr s"
  by (subst for_down_res.simps) simp

text \<open>Induction along the values a descending counter takes.\<close>

lemma down_induct [case_names stop step]:
  fixes hi t :: "'w::len word"
  assumes "\<And>hi. \<not> t < hi \<Longrightarrow> P hi" and "\<And>hi. t < hi \<Longrightarrow> (\<And>i. i \<le> hi - 1 \<longleftrightarrow> i < hi) \<Longrightarrow> P (hi - 1) \<Longrightarrow> P hi"
  shows "P hi"
proof (induction "unat hi" arbitrary: hi rule: less_induct)
  case less
  show ?case
  proof (cases "t < hi")
    case True
    have "unat (hi - 1) < unat hi" by (rule unat_pred_less[OF True])
    moreover from this have "hi \<noteq> 0" "0 < unat hi" by auto
    then have "i \<le> hi - 1 \<longleftrightarrow> i < hi" for i unfolding word_le_nat_alt word_less_nat_alt by (simp add: unat_minus_one) linarith
    ultimately show ?thesis using assms(2)[OF True] less by blast
  qed (rule assms(1))
qed

lemma for_down_res_cong:
  assumes "\<And>i. t < i \<Longrightarrow> i \<le> hi \<Longrightarrow> f i = g i"
  shows "for_down_res f hi t s = for_down_res g hi t s"
  using assms
proof (induction hi arbitrary: s rule: down_induct[where t = t])
  case (step hi)
  then have "for_down_res f (hi - 1) t = for_down_res g (hi - 1) t" by (intro ext step.IH) auto
  then show ?case using step.hyps(1) step.prems[of hi] by (subst (1 2) for_down_res.simps) simp
qed (simp add: for_down_res.simps)

lemma for_down_res_invariant:
  assumes "for_down_res f hi t s = Inr s'" and "P s" and "\<And>i s s'. t < i \<Longrightarrow> i \<le> hi \<Longrightarrow> P s \<Longrightarrow> f i s = Inr s' \<Longrightarrow> P s'"
  shows "P s'"
  using assms
proof (induction hi arbitrary: s rule: down_induct[where t = t])
  case (step hi)
  obtain r where r: "f hi s = Inr r" "for_down_res f (hi - 1) t r = Inr s'" using step.prems(1) step.hyps(1) by (auto simp: for_down_res.simps[of _ hi])
  then show ?case using step.IH[OF r(2)] step.prems(2,3) step.hyps by (metis less_imp_le order_refl)
qed (simp add: for_down_res.simps)

text \<open>A descending loop is the loop to an intermediate value followed by the rest.\<close>

lemma for_down_res_split:
  assumes "t \<le> mid" and "mid \<le> hi"
  shows "for_down_res f hi t s = bind_res (for_down_res f hi mid s) (for_down_res f mid t)"
  using assms
proof (induction hi arbitrary: s rule: down_induct[where t = mid])
  case (stop hi)
  then have "hi = mid" by simp
  moreover have "for_down_res f mid mid s = Inr s" by (simp add: for_down_res.simps)
  ultimately show ?case by simp
next
  case (step hi)
  have "for_down_res f (hi - 1) t r = bind_res (for_down_res f (hi - 1) mid r) (for_down_res f mid t)" for r
    by (rule step.IH) (use step.hyps step.prems in auto)
  then have "for_down_res f (hi - 1) t = (\<lambda>r. bind_res (for_down_res f (hi - 1) mid r) (for_down_res f mid t))" by (rule ext)
  moreover have "for_down_res f hi t s = bind_res (f hi s) (for_down_res f (hi - 1) t)" "for_down_res f hi mid s = bind_res (f hi s) (for_down_res f (hi - 1) mid)"
    using step.hyps(1) step.prems(1) by (auto intro!: for_down_res_step)
  ultimately show ?case by (cases "f hi s") simp_all
qed

end
