(* ===== verification/Float64.thy ===== *)
theory Float64
  imports Prelude
begin

text \<open>
  The \<open>float64\<close> operations the sources use, modelled exactly: a float is a signed significand over
  a power of two, and every result is rounded to 53 significant bits, ties to even. The values in
  use are far from the limits of the exponent, so neither overflow nor underflow occurs.
\<close>

section \<open>The operations\<close>

text \<open>The pair \<open>(m, e)\<close> is the value \<open>m / 2 ^ e\<close>; the exponents in use are far from the float range.\<close>

type_synonym f64 = "int \<times> nat"

fun bitlen :: "nat \<Rightarrow> nat" where
  "bitlen n = (if n = 0 then 0 else Suc (bitlen (n div 2)))"

declare bitlen.simps [simp del]

definition rne53 :: "nat \<Rightarrow> nat" where
  "rne53 n =
     (if n < 2 ^ 53 then n
      else
        let s = bitlen n - 53; q = n div 2 ^ s; r = n mod 2 ^ s; half = 2 ^ (s - 1)
        in (if half < r \<or> (r = half \<and> odd q) then Suc q else q) * 2 ^ s)"

definition f64_round :: "int \<Rightarrow> int" where
  "f64_round m = sgn m * int (rne53 (nat \<bar>m\<bar>))"

definition f64_of_int :: "int \<Rightarrow> f64" where
  "f64_of_int n = (f64_round n, 0)"

definition f64_mul :: "f64 \<Rightarrow> f64 \<Rightarrow> f64" where
  "f64_mul x y = (f64_round (fst x * fst y), snd x + snd y)"

definition f64_trunc :: "f64 \<Rightarrow> int" where
  "f64_trunc x = sgn (fst x) * (\<bar>fst x\<bar> div 2 ^ snd x)"

definition f64_ceil :: "f64 \<Rightarrow> int" where
  "f64_ceil x = - ((- fst x) div 2 ^ snd x)"

text \<open>
  The quotient of two non-negative integers, converted to floats first. Enough bits of the exact
  quotient are kept that the rounding sees whether anything follows them.
\<close>

definition f64_div :: "nat \<Rightarrow> nat \<Rightarrow> f64" where
  "f64_div x y =
     (let m = rne53 x; d = rne53 y; k = 55 + bitlen d; n = m * 2 ^ k div d;
          sticky = (if m * 2 ^ k mod d = 0 then 0 else 1)
      in (int (rne53 (2 * n + sticky)), k + 1))"

definition f64_less :: "f64 \<Rightarrow> f64 \<Rightarrow> bool" where
  "f64_less x y \<longleftrightarrow> fst x * 2 ^ snd y < fst y * 2 ^ snd x"

section \<open>Accuracy of the rounding\<close>

lemma ge_div_iff:
  fixes i j d :: int
  assumes "0 < d"
  shows "j \<le> i div d \<longleftrightarrow> j * d \<le> i"
proof
  assume "j \<le> i div d"
  then have "j * d \<le> (i div d) * d" using assms by (simp add: mult_right_mono)
  also have "\<dots> \<le> i" using assms div_mult_mod_eq[of i d] pos_mod_sign[of d i] by linarith
  finally show "j * d \<le> i" .
next
  assume "j * d \<le> i"
  then have "(j * d) div d \<le> i div d" using assms by (rule zdiv_mono1)
  then show "j \<le> i div d" using assms by simp
qed

lemma div_less_iff:
  fixes i j d :: int
  assumes "0 < d"
  shows "i div d < j \<longleftrightarrow> i < j * d"
  using ge_div_iff[OF assms, of j i] by linarith

lemma bitlen_upper: "n < 2 ^ bitlen n"
proof (induction n rule: bitlen.induct)
  case (1 n)
  show ?case
  proof (cases "n = 0")
    case False
    then have "n div 2 < 2 ^ bitlen (n div 2)" using 1 by simp
    then have "n < 2 ^ Suc (bitlen (n div 2))" by simp
    then show ?thesis using False by (subst bitlen.simps) simp
  qed (simp add: bitlen.simps)
qed

lemma bitlen_lower: "n \<noteq> 0 \<Longrightarrow> 2 ^ (bitlen n - 1) \<le> n"
proof (induction n rule: bitlen.induct)
  case (1 n)
  show ?case
  proof (cases "n div 2 = 0")
    case True
    then have "n = 1" using 1(2) by simp
    then show ?thesis by (simp add: bitlen.simps)
  next
    case False
    then have "2 ^ (bitlen (n div 2) - 1) \<le> n div 2" using 1 by simp
    moreover have "bitlen (n div 2) = Suc (bitlen (n div 2) - 1)"
      using False by (subst (1 2) bitlen.simps) simp
    moreover have "bitlen n = Suc (bitlen (n div 2))"
      using 1(2) by (subst bitlen.simps) simp
    ultimately have "2 ^ (bitlen n - 1) \<le> 2 * (n div 2)"
      by (metis diff_Suc_1 mult_le_mono2 power_Suc)
    then show ?thesis by simp
  qed
qed

lemma bitlen_large: "2 ^ k \<le> n \<Longrightarrow> k < bitlen n"
  using bitlen_upper[of n] power_increasing[of "bitlen n" k "2 :: nat"] by linarith

lemma round_half_error:
  fixes n h :: nat
  defines "q \<equiv> n div (2 * h)" and "r \<equiv> n mod (2 * h)"
  assumes "0 < h" and "m = (if h < r \<or> (r = h \<and> odd q) then Suc q else q) * (2 * h)"
  shows "m \<le> n + h" and "n \<le> m + h"
proof -
  have "n = q * (2 * h) + r" unfolding q_def r_def by (rule div_mult_mod_eq[symmetric])
  moreover have "r < 2 * h" using assms(3) by (simp add: r_def)
  ultimately show "m \<le> n + h" and "n \<le> m + h" using assms(4) by (auto split: if_splits)
qed

text \<open>The relative error of one rounding is at most \<open>2 ^ -53\<close>.\<close>

lemma rne53_error:
  shows "rne53 n * 2 ^ 53 \<le> n * (2 ^ 53 + 1)" and "n * (2 ^ 53 - 1) \<le> rne53 n * 2 ^ 53"
proof -
  have "rne53 n * 2 ^ 53 \<le> n * (2 ^ 53 + 1) \<and> n * (2 ^ 53 - 1) \<le> rne53 n * 2 ^ 53"
  proof (cases "n < 2 ^ 53")
    case False
    define s h where "s = bitlen n - 53" and "h = (2 :: nat) ^ (s - 1)"
    have "53 < bitlen n" using False by (intro bitlen_large) simp
    then have s: "0 < s" and len: "bitlen n - 1 = s - 1 + 53" by (auto simp: s_def)
    have h2: "2 ^ s = 2 * h" using s by (simp add: h_def flip: power_Suc)
    have "h * 2 ^ 53 = 2 ^ (bitlen n - 1)" unfolding h_def len by (rule power_add[symmetric])
    also have "\<dots> \<le> n" using False by (intro bitlen_lower) auto
    finally have hn: "h * 2 ^ 53 \<le> n" .
    have "0 < h" by (simp add: h_def)
    moreover have "rne53 n = (if h < n mod (2 * h) \<or> (n mod (2 * h) = h \<and> odd (n div (2 * h)))
                              then Suc (n div (2 * h)) else n div (2 * h)) * (2 * h)"
      unfolding rne53_def Let_def s_def[symmetric] h2 h_def[symmetric] using False by (simp only: if_False)
    ultimately have "rne53 n \<le> n + h" "n \<le> rne53 n + h"
      by (rule round_half_error)+
    with hn show ?thesis by simp
  qed (simp add: rne53_def)
  then show "rne53 n * 2 ^ 53 \<le> n * (2 ^ 53 + 1)" and "n * (2 ^ 53 - 1) \<le> rne53 n * 2 ^ 53"
    by auto
qed

lemma f64_round_error:
  assumes "0 \<le> m"
  shows "f64_round m * 2 ^ 53 \<le> m * (2 ^ 53 + 1)" and "m * (2 ^ 53 - 1) \<le> f64_round m * 2 ^ 53"
proof -
  obtain k where k: "m = int k" using assms nonneg_eq_int by blast
  have r: "f64_round m = int (rne53 k)"
    by (cases "k = 0") (simp_all add: f64_round_def k rne53_def)
  have "int (rne53 k * 2 ^ 53) \<le> int (k * (2 ^ 53 + 1))"
    using rne53_error(1)[of k] by (simp only: of_nat_le_iff)
  then show "f64_round m * 2 ^ 53 \<le> m * (2 ^ 53 + 1)" by (simp add: r[unfolded k] k)
  have "int (k * (2 ^ 53 - 1)) \<le> int (rne53 k * 2 ^ 53)"
    using rne53_error(2)[of k] by (simp only: of_nat_le_iff)
  then show "m * (2 ^ 53 - 1) \<le> f64_round m * 2 ^ 53" by (simp add: r[unfolded k] k)
qed

section \<open>The sign of a quotient\<close>

lemma rne53_pos [simp]: "0 < rne53 n \<longleftrightarrow> 0 < n"
proof
  assume "0 < n"
  then show "0 < rne53 n" using rne53_error(2)[of n] by (cases "rne53 n") auto
next
  assume "0 < rne53 n"
  then show "0 < n" using rne53_error(1)[of n] by (cases n) auto
qed

lemma f64_div_pos:
  assumes "0 < y"
  shows "0 < fst (f64_div x y) \<longleftrightarrow> 0 < x"
proof -
  define m d k where "m = rne53 x" and "d = rne53 y" and "k = 55 + bitlen d"
  have d: "0 < d" using assms by (simp add: d_def)
  have "d < 2 ^ bitlen d" by (rule bitlen_upper)
  also have "\<dots> \<le> (2 :: nat) ^ k" by (simp add: k_def)
  finally have big: "d \<le> 2 ^ k" by simp
  have eq: "fst (f64_div x y) = int (rne53 (2 * (m * 2 ^ k div d) + (if m * 2 ^ k mod d = 0 then 0 else 1)))"
    by (simp only: f64_div_def Let_def m_def d_def k_def fst_conv)
  show ?thesis
  proof
    assume "0 < x"
    then have "0 < m" by (simp add: m_def)
    then have "d \<le> m * 2 ^ k" using big by (metis le_trans mult_le_mono1 mult_1 Suc_leI One_nat_def)
    then have "0 < m * 2 ^ k div d" using d by (simp add: div_greater_zero_iff)
    then show "0 < fst (f64_div x y)" by (simp add: eq)
  next
    assume pos: "0 < fst (f64_div x y)"
    show "0 < x"
    proof (rule ccontr)
      assume "\<not> 0 < x"
      then have "m = 0" by (simp add: m_def rne53_def)
      then have "fst (f64_div x y) = int (rne53 0)" unfolding eq by simp
      then show False using pos by (simp add: rne53_def)
    qed
  qed
qed

lemma f64_not_less_pos: "\<not> f64_less m s \<Longrightarrow> 0 < fst s \<Longrightarrow> 0 < fst m"
proof -
  assume "\<not> f64_less m s" and "0 < fst s"
  then have "0 < fst s * 2 ^ snd m" and "fst s * 2 ^ snd m \<le> fst m * 2 ^ snd s"
    by (simp_all add: f64_less_def)
  then have "0 < fst m * 2 ^ snd s" by simp
  then show ?thesis by (simp add: zero_less_mult_iff)
qed

lemma f64_less_pos: "f64_less m s \<Longrightarrow> 0 < fst m \<Longrightarrow> 0 < fst s"
proof -
  assume less: "f64_less m s" and "0 < fst m"
  then have "0 < fst m * 2 ^ snd s" by simp
  with less have "0 < fst s * 2 ^ snd m" by (simp add: f64_less_def)
  then show ?thesis by (simp add: zero_less_mult_iff)
qed

end
