(* ===== verification/Votes.thy ===== *)
theory Votes
  imports Float64
begin

text \<open>
  The acceptance thresholds of \<open>pkg/votes\<close> and \<open>pkg/core/acceptance\<close>, both computed in
  \<open>float64\<close>. The interface the gadgets rely on is the locale \<open>quorum\<close>.
\<close>

section \<open>The constants\<close>

text \<open>The float literal \<open>0.67\<close>: the multiple of \<open>2 ^ -53\<close> nearest to 67/100.\<close>

definition SuperMajority :: f64 where
  "SuperMajority = (6034823500676465, 53)"

definition bftThreshold :: f64 where
  "bftThreshold = (6034823500676465, 53)"

lemma super_majority_is_nearest:
  "\<bar>100 * 6034823500676465 - 67 * 2 ^ 53 :: int\<bar> * 2 \<le> 100"
  by simp

section \<open>\<open>votes.IsThresholdReached\<close> and \<open>acceptance.ThresholdProvider\<close>\<close>

definition IsThresholdReached :: "int \<Rightarrow> int \<Rightarrow> f64 \<Rightarrow> bool" where
  "IsThresholdReached objectWeight totalWeight threshold =
     (if totalWeight = 0 then False
      else f64_trunc (f64_mul (f64_of_int totalWeight) threshold) < objectWeight)"

definition ThresholdProvider :: "(unit \<Rightarrow> int) \<Rightarrow> unit \<Rightarrow> int" where
  "ThresholdProvider totalWeightProvider =
     (\<lambda>_. max (f64_ceil (f64_mul (f64_of_int (totalWeightProvider ())) bftThreshold)) 1)"

section \<open>Accuracy of the product\<close>

text \<open>The product \<open>n * 0.67\<close>, rounded twice, lies strictly between two thirds of \<open>n\<close> and \<open>n\<close>.\<close>

definition scaled :: "int \<Rightarrow> int" where
  "scaled n = f64_round (f64_round n * 6034823500676465)"

lemma scaled_bounds:
  assumes "0 < n"
  shows "2 * (n * 2 ^ 53) < 3 * scaled n" and "scaled n < n * 2 ^ 53"
proof -
  define a b where "a = f64_round n" and "b = scaled n"
  have a: "a * 2 ^ 53 \<le> n * (2 ^ 53 + 1)" "n * (2 ^ 53 - 1) \<le> a * 2 ^ 53"
    using f64_round_error[of n] assms by (simp_all add: a_def)
  have "0 \<le> a" using a(2) assms by simp
  then have b: "b * 2 ^ 53 \<le> a * 6034823500676465 * (2 ^ 53 + 1)"
    "a * 6034823500676465 * (2 ^ 53 - 1) \<le> b * 2 ^ 53"
    using f64_round_error[of "a * 6034823500676465"] by (simp_all add: a_def b_def scaled_def)
  from a b assms show "2 * (n * 2 ^ 53) < 3 * scaled n" and "scaled n < n * 2 ^ 53"
    unfolding b_def[symmetric] by simp_all
qed

lemma product_is_scaled:
  "f64_mul (f64_of_int n) SuperMajority = (scaled n, 53)"
  "f64_mul (f64_of_int n) bftThreshold = (scaled n, 53)"
  by (simp_all add: f64_mul_def f64_of_int_def SuperMajority_def bftThreshold_def scaled_def)

section \<open>What a consumer of a threshold relies on\<close>

text \<open>
  A committee of \<open>n\<close> seats and a voter count \<open>k\<close>. The laws say that a reached threshold is more than
  two thirds of the committee, that more votes never lose it, and that the whole committee has it.
\<close>

locale quorum =
  fixes reached :: "int \<Rightarrow> int \<Rightarrow> bool"
  assumes supermajority: "0 < n \<Longrightarrow> reached k n \<Longrightarrow> 2 * n < 3 * k"
    and monotone: "reached k n \<Longrightarrow> k \<le> k' \<Longrightarrow> reached k' n"
    and complete: "0 < n \<Longrightarrow> reached n n"
begin

lemma overlap_third:
  assumes "finite C" and "A \<subseteq> C" and "B \<subseteq> C"
    and "reached (int (card A)) (int (card C))" and "reached (int (card B)) (int (card C))"
    and "C \<noteq> {}"
  shows "card C < 3 * card (A \<inter> B)"
proof -
  have pos: "0 < int (card C)" using assms(1,6) by (simp add: card_gt_0_iff)
  have "finite A" "finite B" using assms by (auto intro: finite_subset)
  then have "card A + card B = card (A \<union> B) + card (A \<inter> B)" by (rule card_Un_Int)
  moreover have "card (A \<union> B) \<le> card C" using assms by (intro card_mono) auto
  moreover have "2 * card C < 3 * card A" "2 * card C < 3 * card B"
    using supermajority[OF pos assms(4)] supermajority[OF pos assms(5)] by linarith+
  ultimately show ?thesis by linarith
qed

text \<open>With at most a third of the seats faulty, two quorums share a correct seat.\<close>

lemma common_correct_seat:
  assumes "finite C" and "A \<subseteq> C" and "B \<subseteq> C" and "C \<noteq> {}"
    and "reached (int (card A)) (int (card C))" and "reached (int (card B)) (int (card C))"
    and "F \<subseteq> C" and "3 * card F \<le> card C"
  shows "\<exists>v \<in> A \<inter> B. v \<notin> F"
proof (rule ccontr)
  assume "\<not> (\<exists>v \<in> A \<inter> B. v \<notin> F)"
  then have "A \<inter> B \<subseteq> F" by blast
  moreover have "finite F" using assms(1,7) finite_subset by blast
  ultimately have "card (A \<inter> B) \<le> card F" by (rule card_mono[rotated])
  then show False using overlap_third[OF assms(1-3) assms(5,6,4)] assms(8) by linarith
qed

end

lemma IsThresholdReached_pos:
  assumes "0 < n"
  shows "IsThresholdReached k n SuperMajority \<longleftrightarrow> scaled n div 2 ^ 53 < k"
proof -
  have "0 < scaled n" using scaled_bounds(1)[OF assms] assms by simp
  then show ?thesis
    using assms by (simp add: IsThresholdReached_def product_is_scaled f64_trunc_def)
qed

interpretation votes: quorum "\<lambda>k n. IsThresholdReached k n SuperMajority"
proof
  fix n k :: int
  assume n: "0 < n" and "IsThresholdReached k n SuperMajority"
  then have "scaled n div 2 ^ 53 < k" by (simp add: IsThresholdReached_pos)
  then have "scaled n < k * 2 ^ 53" by (simp only: div_less_iff zero_less_power zero_less_numeral)
  with scaled_bounds(1)[OF n] show "2 * n < 3 * k" by simp
next
  fix n :: int
  assume n: "0 < n"
  then have "scaled n div 2 ^ 53 < n" using scaled_bounds(2)[OF n] by (simp only: div_less_iff zero_less_power zero_less_numeral)
  with n show "IsThresholdReached n n SuperMajority" by (simp add: IsThresholdReached_pos)
qed (auto simp: IsThresholdReached_def split: if_splits)

lemma ThresholdProvider_eq:
  "ThresholdProvider (\<lambda>_. n) () = max (- ((- scaled n) div 2 ^ 53)) 1"
  by (simp add: ThresholdProvider_def product_is_scaled f64_ceil_def)

interpretation provider: quorum "\<lambda>k n. ThresholdProvider (\<lambda>_. n) () \<le> k"
proof
  fix n k :: int
  assume n: "0 < n" and "ThresholdProvider (\<lambda>_. n) () \<le> k"
  then have "- k \<le> (- scaled n) div 2 ^ 53" by (simp add: ThresholdProvider_eq)
  then have "- k * 2 ^ 53 \<le> - scaled n" by (simp only: ge_div_iff zero_less_power zero_less_numeral)
  with scaled_bounds(1)[OF n] show "2 * n < 3 * k" by simp
next
  fix n :: int
  assume n: "0 < n"
  then have "- n * 2 ^ 53 \<le> - scaled n" using scaled_bounds(2)[OF n] by simp
  then have "- n \<le> (- scaled n) div 2 ^ 53" by (simp only: ge_div_iff zero_less_power zero_less_numeral)
  with n show "ThresholdProvider (\<lambda>_. n) () \<le> n" by (simp add: ThresholdProvider_eq)
qed auto

section \<open>The exact thresholds of every possible committee\<close>

text \<open>Seats are numbered by a \<open>uint8\<close>, so a committee has at most 256 of them.\<close>

lemma scaled_close:
  assumes "0 < n" and "n < 2 ^ 53"
  shows "\<bar>100 * scaled n - 67 * n * 2 ^ 53\<bar> \<le> 200 * n"
proof -
  have "f64_round n = n" using assms by (simp add: f64_round_def rne53_def)
  then have "scaled n = f64_round (n * 6034823500676465)" by (simp add: scaled_def)
  then have "scaled n * 2 ^ 53 \<le> n * 6034823500676465 * (2 ^ 53 + 1)"
    and "n * 6034823500676465 * (2 ^ 53 - 1) \<le> scaled n * 2 ^ 53"
    using f64_round_error[of "n * 6034823500676465"] assms by simp_all
  then show ?thesis using assms by simp
qed

lemma scaled_digits:
  assumes "0 < n" and "n < 2 ^ 40" and "67 * n mod 100 \<noteq> 0"
  shows "scaled n div 2 ^ 53 = 67 * n div 100"
    and "- ((- scaled n) div 2 ^ 53) = 67 * n div 100 + 1"
proof -
  define q r where "q = 67 * n div 100" and "r = 67 * n mod 100"
  have "67 * n = 100 * q + r" "1 \<le> r" "r \<le> 99"
    using assms(3) pos_mod_bound[of 100 "67 * n"] pos_mod_sign[of 100 "67 * n"]
    by (simp_all add: q_def r_def)
  moreover have "\<bar>100 * scaled n - 67 * n * 2 ^ 53\<bar> \<le> 200 * n"
    using assms by (intro scaled_close) auto
  ultimately have lo: "q * 2 ^ 53 < scaled n" and hi: "scaled n < (q + 1) * 2 ^ 53"
    using assms(1,2) by simp_all
  from lo hi show "scaled n div 2 ^ 53 = 67 * n div 100"
    unfolding q_def[symmetric] by (intro int_div_pos_eq[of _ _ _ "scaled n - q * 2 ^ 53"]) auto
  from lo hi show "- ((- scaled n) div 2 ^ 53) = 67 * n div 100 + 1"
    unfolding q_def[symmetric]
    using int_div_pos_eq[of "- scaled n" "2 ^ 53" "- (q + 1)" "(q + 1) * 2 ^ 53 - scaled n"] by simp
qed

text \<open>The two committee sizes at which 67 percent is a whole number of seats.\<close>

lemma scaled_whole: "scaled 100 = 67 * 2 ^ 53" "scaled 200 = 134 * 2 ^ 53"
  by (simp_all add: scaled_def f64_round_def rne53_def Let_def bitlen.simps)

lemma whole_sizes:
  assumes "0 < n" and "n \<le> 256" and "67 * n mod 100 = (0 :: int)"
  shows "n = 100 \<or> n = 200"
proof -
  have "(100 :: int) dvd 67 * n" using assms(3) by (simp add: dvd_eq_mod_eq_0)
  then obtain m where "67 * n = 100 * m" by blast
  then have "n = 100 * (3 * m - 2 * n)" by simp
  then obtain k where "n = 100 * k" by blast
  with assms(1,2) show ?thesis by auto
qed

section \<open>Properties\<close>

text \<open>C2: Two sets of seats of one committee that both reach \<open>IsThresholdReached\<close> with the
  supermajority threshold share a seat outside any set of at most a third of the committee: with
  less than a third of faulty seats, two decisions always have a correct voter in common.\<close>

theorem threshold_quorums_intersect:
  assumes "finite C" and "C \<noteq> {}" and "A \<subseteq> C" and "B \<subseteq> C"
    and "IsThresholdReached (int (card A)) (int (card C)) SuperMajority"
    and "IsThresholdReached (int (card B)) (int (card C)) SuperMajority"
    and "F \<subseteq> C" and "3 * card F \<le> card C"
  shows "\<exists>v \<in> A \<inter> B. v \<notin> F"
  using votes.common_correct_seat[OF assms(1,3,4,2,5,6,7,8)] .

theorem threshold_quorums_intersect_witness:
  "\<exists>v \<in> {0, 1, 2} \<inter> {1, 2, 3 :: nat}. v \<notin> {1}"
proof (rule threshold_quorums_intersect[of "{0, 1, 2, 3}"])
  have "IsThresholdReached 3 4 SuperMajority"
    using scaled_digits(1)[of 4] by (simp add: IsThresholdReached_pos)
  then show "IsThresholdReached (int (card {0, 1, 2 :: nat})) (int (card {0, 1, 2, 3 :: nat})) SuperMajority"
    "IsThresholdReached (int (card {1, 2, 3 :: nat})) (int (card {0, 1, 2, 3 :: nat})) SuperMajority"
    by simp_all
qed auto

text \<open>C3: For every committee size from 1 to 256 the float computations decide exactly as 67 percent
  does on integers: \<open>IsThresholdReached\<close> asks for more than 67 percent of the seats,
  \<open>ThresholdProvider\<close> for at least 67 percent.\<close>

theorem thresholds_exact:
  assumes "1 \<le> n" and "n \<le> 256"
  shows "(IsThresholdReached k n SuperMajority \<longleftrightarrow> 67 * n < 100 * k) \<and>
    (ThresholdProvider (\<lambda>_. n) () \<le> k \<longleftrightarrow> 67 * n \<le> 100 * k)"
proof (cases "67 * n mod 100 = 0")
  case True
  then have "n = 100 \<or> n = 200" using assms by (intro whole_sizes) auto
  then show ?thesis by (auto simp: IsThresholdReached_pos ThresholdProvider_eq scaled_whole)
next
  case False
  then have "IsThresholdReached k n SuperMajority \<longleftrightarrow> 67 * n div 100 < k"
    and "ThresholdProvider (\<lambda>_. n) () \<le> k \<longleftrightarrow> max (67 * n div 100 + 1) 1 \<le> k"
    using assms scaled_digits[of n] by (auto simp: IsThresholdReached_pos ThresholdProvider_eq)
  moreover have "67 * n = 100 * (67 * n div 100) + 67 * n mod 100" by simp
  moreover have "0 < 67 * n mod 100" "67 * n mod 100 < 100"
    using False pos_mod_sign[of 100 "67 * n"] by (auto simp: less_le)
  ultimately show ?thesis using assms by linarith
qed

theorem thresholds_exact_witness:
  "IsThresholdReached 67 100 SuperMajority = False \<and> ThresholdProvider (\<lambda>_. 100) () \<le> 67"
  using thresholds_exact[of 100 67] by simp

end
