(* ===== verification/Weight.thy ===== *)
theory Weight
  imports Prelude
begin

text \<open>
  \<open>pkg/core/acceptance\<close>, \<open>pkg/core/weight\<close> and \<open>pkg/core/vote\<close>: the acceptance state, the
  immutable multi-tiered weight \<open>Value\<close> and its order, the mutable \<open>Weight\<close> with its voters and
  its \<open>OnUpdate\<close> event, and votes. A triggered event is appended to the record's log.
\<close>

section \<open>Acceptance states\<close>

datatype State = Pending | Accepted | Rejected

definition IsPending :: "State \<Rightarrow> bool" where
  "IsPending c \<longleftrightarrow> c = Pending"

definition IsAccepted :: "State \<Rightarrow> bool" where
  "IsAccepted c \<longleftrightarrow> c = Accepted"

definition IsRejected :: "State \<Rightarrow> bool" where
  "IsRejected c \<longleftrightarrow> c = Rejected"

lemmas state_tests = IsPending_def IsAccepted_def IsRejected_def

text \<open>The order in which the states decide between conflicts.\<close>

fun decision_rank :: "State \<Rightarrow> nat" where
  "decision_rank Rejected = 0"
| "decision_rank Pending = 1"
| "decision_rank Accepted = 2"

lemma decision_rank_inject: "decision_rank c = decision_rank d \<Longrightarrow> c = d"
  by (cases c; cases d) auto

instantiation State :: linorder
begin

definition less_eq_State :: "State \<Rightarrow> State \<Rightarrow> bool" where
  "less_eq_State c d \<longleftrightarrow> decision_rank c \<le> decision_rank d"

definition less_State :: "State \<Rightarrow> State \<Rightarrow> bool" where
  "less_State c d \<longleftrightarrow> decision_rank c < decision_rank d"

instance
  by standard (auto simp: less_eq_State_def less_State_def intro: decision_rank_inject)

end

section \<open>Comparisons\<close>

type_synonym Comparison = int

definition Lighter :: Comparison where "Lighter = -1"
definition Equal :: Comparison where "Equal = 0"
definition Heavier :: Comparison where "Heavier = 1"

lemmas comparison_defs = Lighter_def Equal_def Heavier_def

section \<open>The immutable \<open>Value\<close>\<close>

record Value =
  cumulativeWeight :: i64
  validatorsWeight :: i64
  acceptanceState :: State

definition Value_zero :: Value where
  "Value_zero = \<lparr>cumulativeWeight = 0, validatorsWeight = 0, acceptanceState = Pending\<rparr>"

definition Value_SetCumulativeWeight :: "i64 \<Rightarrow> Value \<Rightarrow> Value" where
  "Value_SetCumulativeWeight w v = v\<lparr>cumulativeWeight := w\<rparr>"

definition Value_AddCumulativeWeight :: "i64 \<Rightarrow> Value \<Rightarrow> Value" where
  "Value_AddCumulativeWeight w v = v\<lparr>cumulativeWeight := cumulativeWeight v + w\<rparr>"

definition Value_RemoveCumulativeWeight :: "i64 \<Rightarrow> Value \<Rightarrow> Value" where
  "Value_RemoveCumulativeWeight w v = v\<lparr>cumulativeWeight := cumulativeWeight v - w\<rparr>"

definition Value_SetValidatorsWeight :: "i64 \<Rightarrow> Value \<Rightarrow> Value" where
  "Value_SetValidatorsWeight w v = v\<lparr>validatorsWeight := w\<rparr>"

definition Value_SetAcceptanceState :: "State \<Rightarrow> Value \<Rightarrow> Value" where
  "Value_SetAcceptanceState c v = v\<lparr>acceptanceState := c\<rparr>"

definition compareAcceptanceState :: "Value \<Rightarrow> Value \<Rightarrow> Comparison" where
  "compareAcceptanceState v other =
     (if IsAccepted (acceptanceState v) \<and> \<not> IsAccepted (acceptanceState other) then Heavier
      else if IsRejected (acceptanceState other) \<and> \<not> IsRejected (acceptanceState v) then Heavier
      else if IsAccepted (acceptanceState other) \<and> \<not> IsAccepted (acceptanceState v) then Lighter
      else if IsRejected (acceptanceState v) \<and> \<not> IsRejected (acceptanceState other) then Lighter
      else Equal)"

definition compareValidatorsWeight :: "Value \<Rightarrow> Value \<Rightarrow> Comparison" where
  "compareValidatorsWeight v other =
     (if sint (validatorsWeight other) < sint (validatorsWeight v) then Heavier
      else if sint (validatorsWeight v) < sint (validatorsWeight other) then Lighter
      else Equal)"

definition compareCumulativeWeight :: "Value \<Rightarrow> Value \<Rightarrow> Comparison" where
  "compareCumulativeWeight v other =
     (if sint (cumulativeWeight other) < sint (cumulativeWeight v) then Heavier
      else if sint (cumulativeWeight v) < sint (cumulativeWeight other) then Lighter
      else Equal)"

definition Value_Compare :: "Value \<Rightarrow> Value \<Rightarrow> Comparison" where
  "Value_Compare v other =
     (let result = compareAcceptanceState v other in
      if result \<noteq> 0 then result
      else let result = compareValidatorsWeight v other in
      if result \<noteq> 0 then result
      else let result = compareCumulativeWeight v other in
      if result \<noteq> 0 then result
      else 0)"

text \<open>The specification: lexicographic on the tiers, the decision first.\<close>

definition tiers :: "Value \<Rightarrow> State \<times> int \<times> int" where
  "tiers v = (acceptanceState v, sint (validatorsWeight v), sint (cumulativeWeight v))"

lemma compareAcceptanceState_three_way:
  "compareAcceptanceState v w = three_way (acceptanceState v) (acceptanceState w)"
  by (cases "acceptanceState v"; cases "acceptanceState w")
     (simp_all add: compareAcceptanceState_def state_tests comparison_defs three_way_def less_State_def)

lemma Value_Compare_tiers: "Value_Compare v w = three_way (tiers v) (tiers w)"
  by (simp add: Value_Compare_def compareAcceptanceState_three_way compareValidatorsWeight_def
      compareCumulativeWeight_def comparison_defs three_way_def tiers_def Let_def)

lemma tiers_inject: "tiers v = tiers w \<Longrightarrow> v = (w :: Value)"
  by (cases v; cases w) (auto simp: tiers_def intro: signed_word_eqI)

section \<open>The contract of a \<open>Compare\<close> method\<close>

text \<open>What a sorted container relies on: a total preorder given by the sign of the comparison.\<close>

locale comparator =
  fixes cmp :: "'a \<Rightarrow> 'a \<Rightarrow> int"
  assumes cmp_range: "cmp x y \<in> {-1, 0, 1}"
    and cmp_flip: "cmp y x = - cmp x y"
    and cmp_trans: "cmp x y \<le> 0 \<Longrightarrow> cmp y z \<le> 0 \<Longrightarrow> cmp x z \<le> 0"
begin

lemma cmp_refl [simp]: "cmp x x = 0"
  using cmp_flip[of x x] by simp

lemma cmp_total: "cmp x y \<le> 0 \<or> cmp y x \<le> 0"
  using cmp_flip[of x y] by linarith

lemma cmp_strict_trans: "cmp x y < 0 \<Longrightarrow> cmp y z \<le> 0 \<Longrightarrow> cmp x z < 0"
  using cmp_trans[of y z x] cmp_flip[of x y] cmp_flip[of x z] cmp_flip[of z x] by linarith

lemma cmp_equivalent: "cmp x y = 0 \<Longrightarrow> cmp y z = 0 \<Longrightarrow> cmp x z = 0"
  using cmp_trans[of x y z] cmp_trans[of z y x] cmp_flip[of x y] cmp_flip[of y z] cmp_flip[of x z]
  by linarith

end

lemma comparator_key: "comparator (\<lambda>x y. three_way (key x) (key y))"
  by unfold_locales (auto simp: three_way_def split: if_splits)

interpretation value_order: comparator Value_Compare
proof -
  have key: "Value_Compare = (\<lambda>v w. three_way (tiers v) (tiers w))"
    by (simp add: fun_eq_iff Value_Compare_tiers)
  show "comparator Value_Compare" unfolding key by (rule comparator_key)
qed

section \<open>The mutable \<open>Weight\<close>\<close>

record Weight =
  OnUpdate :: "Value list"
  Voters :: "seat set"
  val :: Value

definition Weight_New :: Weight where
  "Weight_New = \<lparr>OnUpdate = [], Voters = {}, val = Value_zero\<rparr>"

definition Trigger :: "Value \<Rightarrow> Weight \<Rightarrow> Weight" where
  "Trigger v w = w\<lparr>OnUpdate := OnUpdate w @ [v]\<rparr>"

definition SetCumulativeWeight :: "i64 \<Rightarrow> Weight \<Rightarrow> Weight" where
  "SetCumulativeWeight c w =
     (if cumulativeWeight (val w) \<noteq> c then
        (let w = w\<lparr>val := Value_SetCumulativeWeight c (val w)\<rparr> in Trigger (val w) w)
      else w)"

definition AddCumulativeWeight :: "i64 \<Rightarrow> Weight \<Rightarrow> Weight" where
  "AddCumulativeWeight delta w =
     (if delta \<noteq> 0 then
        (let w = w\<lparr>val := Value_AddCumulativeWeight delta (val w)\<rparr> in Trigger (val w) w)
      else w)"

definition RemoveCumulativeWeight :: "i64 \<Rightarrow> Weight \<Rightarrow> Weight" where
  "RemoveCumulativeWeight delta w =
     (if delta \<noteq> 0 then
        (let w = w\<lparr>val := Value_RemoveCumulativeWeight delta (val w)\<rparr> in Trigger (val w) w)
      else w)"

definition updateValidatorsWeight :: "Weight \<Rightarrow> (Value \<times> bool) \<times> Weight" where
  "updateValidatorsWeight w =
     (let newValidatorWeight = word_of_nat (card (Voters w)) in
      if validatorsWeight (val w) \<noteq> newValidatorWeight then
        (let w = w\<lparr>val := Value_SetValidatorsWeight newValidatorWeight (val w)\<rparr>
         in ((val w, True), w))
      else ((val w, False), w))"

definition AddVoter :: "seat \<Rightarrow> Weight \<Rightarrow> Weight" where
  "AddVoter s w =
     (if s \<notin> Voters w then
        (let ((newValue, valueUpdated), w) = updateValidatorsWeight (w\<lparr>Voters := insert s (Voters w)\<rparr>)
         in if valueUpdated then Trigger newValue w else w)
      else w)"

definition DeleteVoter :: "seat \<Rightarrow> Weight \<Rightarrow> Weight" where
  "DeleteVoter s w =
     (if s \<in> Voters w then
        (let ((newValue, valueUpdated), w) = updateValidatorsWeight (w\<lparr>Voters := Voters w - {s}\<rparr>)
         in if valueUpdated then Trigger newValue w else w)
      else w)"

definition setAcceptanceState :: "State \<Rightarrow> Weight \<Rightarrow> State \<times> Weight" where
  "setAcceptanceState c w =
     (let previousState = acceptanceState (val w) in
      (previousState,
       if previousState \<noteq> c then w\<lparr>val := Value_SetAcceptanceState c (val w)\<rparr> else w))"

definition SetAcceptanceState :: "State \<Rightarrow> Weight \<Rightarrow> State \<times> Weight" where
  "SetAcceptanceState c w =
     (let (previousState, w) = setAcceptanceState c w in
      (previousState, if previousState \<noteq> c then Trigger (val w) w else w))"

definition WithAcceptanceState :: "State \<Rightarrow> Weight \<Rightarrow> Weight" where
  "WithAcceptanceState c w = snd (setAcceptanceState c w)"

text \<open>\<open>Compare\<close> on pointers: \<open>None\<close> is the nil \<open>Weight\<close>.\<close>

fun Weight_Compare :: "Weight option \<Rightarrow> Weight option \<Rightarrow> Comparison" where
  "Weight_Compare None None = Equal"
| "Weight_Compare None (Some other) = Heavier"
| "Weight_Compare (Some w) None = Lighter"
| "Weight_Compare (Some w) (Some other) = Value_Compare (val w) (val other)"

section \<open>Operations on a \<open>Weight\<close> as a trace\<close>

datatype weight_op =
    OpSetCumulative i64 | OpAddCumulative i64 | OpRemoveCumulative i64
  | OpAddVoter seat | OpDeleteVoter seat | OpSetAcceptance State | OpWithAcceptance State

fun weight_step :: "weight_op \<Rightarrow> Weight \<Rightarrow> Weight" where
  "weight_step (OpSetCumulative c) w = SetCumulativeWeight c w"
| "weight_step (OpAddCumulative d) w = AddCumulativeWeight d w"
| "weight_step (OpRemoveCumulative d) w = RemoveCumulativeWeight d w"
| "weight_step (OpAddVoter s) w = AddVoter s w"
| "weight_step (OpDeleteVoter s) w = DeleteVoter s w"
| "weight_step (OpSetAcceptance c) w = snd (SetAcceptanceState c w)"
| "weight_step (OpWithAcceptance c) w = WithAcceptanceState c w"

text \<open>\<open>WithAcceptanceState\<close> is meant for a weight that is being built and announces nothing.\<close>

fun silent :: "weight_op \<Rightarrow> bool" where
  "silent (OpWithAcceptance c) = True"
| "silent _ = False"

lemmas weight_op_defs =
  SetCumulativeWeight_def AddCumulativeWeight_def RemoveCumulativeWeight_def AddVoter_def
  DeleteVoter_def SetAcceptanceState_def WithAcceptanceState_def setAcceptanceState_def updateValidatorsWeight_def
  Trigger_def Value_SetCumulativeWeight_def Value_AddCumulativeWeight_def
  Value_RemoveCumulativeWeight_def Value_SetValidatorsWeight_def Value_SetAcceptanceState_def

lemma Value_update_id [simp]:
  "v\<lparr>cumulativeWeight := c\<rparr> = v \<longleftrightarrow> c = cumulativeWeight (v :: Value)"
  "v\<lparr>validatorsWeight := c\<rparr> = v \<longleftrightarrow> c = validatorsWeight v"
  "v\<lparr>acceptanceState := st\<rparr> = v \<longleftrightarrow> st = acceptanceState v"
  by (cases v; auto)+

text \<open>An operation announces its result exactly when it changes the value, unless it is silent.\<close>

lemma weight_step_events:
  "OnUpdate (weight_step a w) =
     OnUpdate w @ (if silent a \<or> val (weight_step a w) = val w then [] else [val (weight_step a w)])"
  by (cases a) (simp_all add: weight_op_defs Let_def)

text \<open>A silent operation changes the acceptance state only.\<close>

definition unannounced :: "Weight \<Rightarrow> Value \<Rightarrow> bool" where
  "unannounced w v \<longleftrightarrow> val w = v\<lparr>acceptanceState := acceptanceState (val w)\<rparr>"

lemma weight_step_silent: "silent a \<Longrightarrow> unannounced w v \<Longrightarrow> unannounced (weight_step a w) v"
  by (cases a) (auto simp: unannounced_def weight_op_defs Let_def intro!: Value.equality dest: arg_cong[of _ _ cumulativeWeight] arg_cong[of _ _ validatorsWeight])

lemma weight_run_events:
  "unannounced (fold weight_step as Weight_New) (last (Value_zero # OnUpdate (fold weight_step as Weight_New)))"
proof (induction as rule: rev_induct)
  case Nil
  then show ?case by (simp add: unannounced_def Weight_New_def)
next
  case (snoc a as)
  let ?w = "fold weight_step as Weight_New"
  show ?case
  proof (cases "silent a")
    case True
    then show ?thesis using snoc weight_step_silent[OF True] by (simp add: weight_step_events[of a ?w])
  next
    case False
    then show ?thesis using snoc by (cases "val (weight_step a ?w) = val ?w") (simp_all add: weight_step_events[of a ?w] unannounced_def)
  qed
qed

lemma weight_run_announced:
  "\<forall>a \<in> set as. \<not> silent a \<Longrightarrow> val (fold weight_step as Weight_New) = last (Value_zero # OnUpdate (fold weight_step as Weight_New))"
proof (induction as rule: rev_induct)
  case (snoc a as)
  then show ?case by (simp add: weight_step_events[of a "fold weight_step as Weight_New"])
qed (simp add: Weight_New_def)

definition counts_voters :: "Weight \<Rightarrow> bool" where
  "counts_voters w \<longleftrightarrow> validatorsWeight (val w) = word_of_nat (card (Voters w))"

lemma counts_voters_step: "counts_voters w \<Longrightarrow> counts_voters (weight_step a w)"
  by (cases a) (simp_all add: counts_voters_def weight_op_defs Let_def)

lemma counts_voters_run: "counts_voters w \<Longrightarrow> counts_voters (fold weight_step as w)"
  by (induction as arbitrary: w) (auto intro: counts_voters_step)

lemma card_seats: "card (S :: seat set) \<le> 256"
  using card_mono[of "UNIV :: seat set" S] by (simp add: card_word)

lemma seats_as_weight: "sint (word_of_nat (card (S :: seat set)) :: i64) = int (card S)"
  using card_seats[of S] by (simp add: signed_of_nat signed_take_bit_int_eq_self)

section \<open>Votes\<close>

record 'rank Vote =
  Voter :: seat
  Rank :: 'rank
  liked :: bool

definition NewVote :: "seat \<Rightarrow> 'rank \<Rightarrow> 'rank Vote" where
  "NewVote voter rank = \<lparr>Voter = voter, Rank = rank, liked = True\<rparr>"

definition IsLiked :: "'rank Vote \<Rightarrow> bool" where
  "IsLiked v = liked v"

definition WithLiked :: "bool \<Rightarrow> 'rank Vote \<Rightarrow> 'rank Vote" where
  "WithLiked l v = \<lparr>Voter = Voter v, Rank = Rank v, liked = l\<rparr>"

definition MockedRank_Compare :: "int \<Rightarrow> int \<Rightarrow> int" where
  "MockedRank_Compare m other = (if m < other then -1 else if other < m then 1 else 0)"

section \<open>Properties\<close>

text \<open>\<open>Value.Compare\<close> is the lexicographic order on acceptance state (rejected before pending
  before accepted), validators weight and cumulative weight, both read as signed 64 bit numbers:
  it returns exactly the three-way comparison of those keys, and 0 only for equal values.\<close>

theorem Value_Compare_lexicographic:
  "Value_Compare v w = three_way (tiers v) (tiers w) \<and> (Value_Compare v w = 0 \<longleftrightarrow> v = w)"
  by (auto simp: Value_Compare_tiers dest: tiers_inject)

text \<open>C1: After any sequence of operations on a new \<open>Weight\<close>, \<open>WithAcceptanceState\<close> included, the validators
  weight is the number of voters, and the value is the last one announced through \<open>OnUpdate\<close> up to the
  acceptance state; it is exactly that one if \<open>WithAcceptanceState\<close> was not called. The next operation
  announces its new value exactly when it changes the value, but \<open>WithAcceptanceState\<close> sets the state and
  announces nothing.\<close>

theorem Weight_announces_changes:
  fixes ops :: "weight_op list"
  defines "w \<equiv> fold weight_step ops Weight_New"
  shows "sint (validatorsWeight (val w)) = int (card (Voters w)) \<and>
    val w = (last (Value_zero # OnUpdate w))\<lparr>acceptanceState := acceptanceState (val w)\<rparr> \<and>
    ((\<forall>c. OpWithAcceptance c \<notin> set ops) \<longrightarrow> val w = last (Value_zero # OnUpdate w)) \<and>
    OnUpdate (weight_step a w) =
      OnUpdate w @ (if silent a \<or> val (weight_step a w) = val w then [] else [val (weight_step a w)]) \<and>
    val (weight_step (OpWithAcceptance c) w) = (val w)\<lparr>acceptanceState := c\<rparr>"
proof -
  have "counts_voters w" unfolding w_def
    by (rule counts_voters_run) (simp add: counts_voters_def Weight_New_def Value_zero_def)
  moreover have "\<forall>a \<in> set ops. \<not> silent a" if "\<forall>c. OpWithAcceptance c \<notin> set ops"
    using that by (metis silent.elims(2))
  moreover have "val (weight_step (OpWithAcceptance c) w) = (val w)\<lparr>acceptanceState := c\<rparr>"
    by (auto simp: weight_op_defs Let_def)
  ultimately show ?thesis
    using weight_run_events[of ops] weight_run_announced[of ops] weight_step_events[of a w]
    by (simp add: counts_voters_def seats_as_weight unannounced_def w_def)
qed

theorem Weight_announces_changes_witness:
  "let w = fold weight_step [OpAddVoter 3, OpSetCumulative 5] Weight_New in
   val w = last (Value_zero # OnUpdate w) \<and> sint (validatorsWeight (val w)) = 1 \<and>
   OnUpdate (weight_step (OpWithAcceptance Accepted) w) = OnUpdate w \<and>
   val (weight_step (OpWithAcceptance Accepted) w) = \<lparr>cumulativeWeight = 5, validatorsWeight = 1, acceptanceState = Accepted\<rparr>"
proof -
  define w where "w = fold weight_step [OpAddVoter 3, OpSetCumulative 5] Weight_New"
  have w: "Voters w = {3}" "val w = \<lparr>cumulativeWeight = 5, validatorsWeight = 1, acceptanceState = Pending\<rparr>"
    by (simp_all add: w_def weight_op_defs Weight_New_def Value_zero_def Let_def)
  note t = Weight_announces_changes[of "[OpAddVoter 3, OpSetCumulative 5]" "OpWithAcceptance Accepted" Accepted, folded w_def]
  have "val w = last (Value_zero # OnUpdate w)" using t by simp
  moreover have "sint (validatorsWeight (val w)) = 1" using t[THEN conjunct1] w(1) by simp
  moreover have "OnUpdate (weight_step (OpWithAcceptance Accepted) w) = OnUpdate w"
    using t[THEN conjunct2, THEN conjunct2, THEN conjunct2, THEN conjunct1] by simp
  moreover have "val (weight_step (OpWithAcceptance Accepted) w) = \<lparr>cumulativeWeight = 5, validatorsWeight = 1, acceptanceState = Accepted\<rparr>"
    using t[THEN conjunct2, THEN conjunct2, THEN conjunct2, THEN conjunct2] by (simp add: w(2))
  ultimately show ?thesis unfolding Let_def w_def by blast
qed

text \<open>On pointers, \<open>Weight.Compare\<close> is antisymmetric and transitive, and a nil weight is
  heavier than every other weight: the opposite of the convention of \<open>Conflict.Compare\<close>.\<close>

theorem Weight_Compare_nil_heaviest:
  "Weight_Compare None (Some w) = Heavier \<and> Weight_Compare (Some w) None = Lighter \<and>
   Weight_Compare x y = - Weight_Compare y x"
  by (cases x; cases y) (simp_all add: comparison_defs value_order.cmp_flip[symmetric])

end
