(* ===== verification/SlotFinalization.thy ===== *)
theory SlotFinalization
  imports Votes
begin

text \<open>
  \<open>pkg/votes/slottracker\<close> and \<open>totalweightslotgadget\<close>: who has voted for which slot, and the
  finalization of slots by a supermajority of the committee. The loops count with a 32 bit slot,
  so an operation is \<open>None\<close> when its loop never ends (a vote for the last slot of the type).
\<close>

section \<open>The slot tracker\<close>

record 'id SlotTracker =
  votesPerIdentity :: "'id \<rightharpoonup> slot"
  votersPerSlot :: "slot \<rightharpoonup> 'id set"

definition NewSlotTracker :: "'id SlotTracker" where
  "NewSlotTracker = \<lparr>votesPerIdentity = Map.empty, votersPerSlot = Map.empty\<rparr>"

text \<open>\<open>GetOrCreate\<close>: the set of the slot, and the tracker in which it exists.\<close>

definition slotVoters :: "slot \<Rightarrow> 'id SlotTracker \<Rightarrow> 'id set \<times> 'id SlotTracker" where
  "slotVoters slot s =
     (case votersPerSlot s slot of
        Some ids \<Rightarrow> (ids, s)
      | None \<Rightarrow> ({}, s\<lparr>votersPerSlot := (votersPerSlot s)(slot \<mapsto> {})\<rparr>))"

definition addSlotVoter :: "'id \<Rightarrow> slot \<Rightarrow> 'id SlotTracker \<Rightarrow> 'id SlotTracker" where
  "addSlotVoter voterID i s =
     (let (ids, s) = slotVoters i s
      in s\<lparr>votersPerSlot := (votersPerSlot s)(i \<mapsto> insert voterID ids)\<rparr>)"

definition TrackVotes ::
  "slot \<Rightarrow> 'id \<Rightarrow> slot \<Rightarrow> 'id SlotTracker \<Rightarrow> ((slot \<times> slot \<times> bool) \<times> 'id SlotTracker) option" where
  "TrackVotes slot voterID cutoffIndex s =
     (let (voters, s) = slotVoters slot s in
      if voterID \<in> voters then Some ((0, 0, False), s)
      else
        let previousSlot = (case votesPerIdentity s voterID of None \<Rightarrow> 0 | Some currentSlot \<Rightarrow> currentSlot);
            updated = previousSlot < slot;
            updatedSlot = (if updated then slot else previousSlot);
            s = s\<lparr>votesPerIdentity := (votesPerIdentity s)(voterID \<mapsto> updatedSlot)\<rparr>
        in
          if \<not> updated then Some ((previousSlot, previousSlot, False), s)
          else map_option (Pair (previousSlot, updatedSlot, True))
                 (for_up (addSlotVoter voterID) (max cutoffIndex previousSlot + 1) updatedSlot s))"

definition Voters :: "slot \<Rightarrow> 'id SlotTracker \<Rightarrow> 'id set" where
  "Voters slot s = (case votersPerSlot s slot of None \<Rightarrow> {} | Some ids \<Rightarrow> ids)"

definition EvictSlot :: "slot \<Rightarrow> 'id SlotTracker \<Rightarrow> 'id SlotTracker" where
  "EvictSlot slotToEvict s =
     (case votersPerSlot s slotToEvict of
        None \<Rightarrow> s
      | Some identities \<Rightarrow>
          let prune = (\<lambda>identity. identity \<in> identities \<and>
                (case votesPerIdentity s identity of None \<Rightarrow> False | Some latest \<Rightarrow> latest \<le> slotToEvict))
          in s\<lparr>votesPerIdentity := (\<lambda>identity. if prune identity then None else votesPerIdentity s identity),
               votersPerSlot := (votersPerSlot s)(slotToEvict := None)\<rparr>)"

section \<open>What the tracker records\<close>

lemma Voters_slotVoters [simp]:
  "fst (slotVoters j s) = Voters j s"
  "Voters i (snd (slotVoters j s)) = Voters i s"
  "votesPerIdentity (snd (slotVoters j s)) = votesPerIdentity s"
  by (auto simp: slotVoters_def Voters_def split: option.splits)

lemma addSlotVoter_simps [simp]:
  "votesPerIdentity (addSlotVoter v i s) = votesPerIdentity s"
  "Voters j (addSlotVoter v i s) = (if j = i then insert v (Voters i s) else Voters j s)"
  by (auto simp: addSlotVoter_def slotVoters_def Voters_def split: option.splits)

lemma fold_addSlotVoter [simp]:
  "votesPerIdentity (fold (addSlotVoter v) is s) = votesPerIdentity s"
  "Voters j (fold (addSlotVoter v) is s) = (if j \<in> set is then insert v (Voters j s) else Voters j s)"
  by (induction "is" arbitrary: s) auto

lemma Voters_votesPerIdentity_update [simp]:
  "Voters j (s\<lparr>votesPerIdentity := m\<rparr>) = Voters j s"
  by (simp add: Voters_def)

definition latestVote :: "'id \<Rightarrow> 'id SlotTracker \<Rightarrow> slot" where
  "latestVote v s = (case votesPerIdentity s v of None \<Rightarrow> 0 | Some l \<Rightarrow> l)"

lemma max_Suc_le_iff:
  fixes a b i hi :: slot
  assumes "a < hi"
  shows "a + 1 \<le> i \<longleftrightarrow> a < i"
  using assms by unat_arith

text \<open>The effect of a vote, as one case distinction.\<close>

lemma TrackVotes_effect:
  assumes "slot \<noteq> max_slot" and "cutoff \<noteq> max_slot"
  obtains s' where
    "TrackVotes slot v cutoff s =
       Some (if v \<in> Voters slot s then (0, 0, False)
             else if latestVote v s < slot then (latestVote v s, slot, True)
             else (latestVote v s, latestVote v s, False), s')"
    "\<And>j. Voters j s' =
       (if v \<notin> Voters slot s \<and> latestVote v s < j \<and> cutoff < j \<and> j \<le> slot
        then insert v (Voters j s) else Voters j s)"
    "\<And>u. latestVote u s' =
       (if u = v \<and> v \<notin> Voters slot s then max (latestVote v s) slot else latestVote u s)"
proof -
  obtain s1 where s1: "s1 = snd (slotVoters slot s)" by simp
  then have slotVoters: "slotVoters slot s = (Voters slot s, s1)" by (simp add: prod_eq_iff)
  have s1_simps: "Voters j s1 = Voters j s" "votesPerIdentity s1 = votesPerIdentity s"
    "latestVote u s1 = latestVote u s" for j u
    by (simp_all add: s1 latestVote_def)
  consider (known) "v \<in> Voters slot s" | (old) "v \<notin> Voters slot s" "\<not> latestVote v s < slot"
    | (new) "v \<notin> Voters slot s" "latestVote v s < slot" by blast
  then show thesis
  proof cases
    case known
    then show ?thesis
      by (intro that[of s1]) (simp_all add: TrackVotes_def slotVoters s1_simps latestVote_def)
  next
    case old
    let ?s = "s1\<lparr>votesPerIdentity := (votesPerIdentity s)(v \<mapsto> latestVote v s)\<rparr>"
    from old have "slot \<le> latestVote v s" by simp
    with old show ?thesis
      by (intro that[of ?s])
         (auto simp: TrackVotes_def slotVoters s1_simps latestVote_def Let_def max_def)
  next
    case new
    let ?lo = "max cutoff (latestVote v s) + 1"
    let ?s = "fold (addSlotVoter v) (wrange ?lo slot) (s1\<lparr>votesPerIdentity := (votesPerIdentity s)(v \<mapsto> slot)\<rparr>)"
    have lo: "?lo \<le> j \<longleftrightarrow> latestVote v s < j \<and> cutoff < j" if "j \<le> slot" for j
    proof -
      have "max cutoff (latestVote v s) < max_slot"
        using assms(2) order.strict_trans1[OF _ new(2), of _ ] new(2) assms(1)
        by (auto simp: max_def word_order.not_eq_extremum intro: order.strict_trans)
      from max_Suc_le_iff[OF this, of j] show ?thesis by auto
    qed
    show ?thesis
    proof (rule that[of ?s])
      show "TrackVotes slot v cutoff s =
        Some (if v \<in> Voters slot s then (0, 0, False)
             else if latestVote v s < slot then (latestVote v s, slot, True)
             else (latestVote v s, latestVote v s, False), ?s)"
        using new assms(1)
        by (simp add: TrackVotes_def slotVoters s1_simps latestVote_def[symmetric] Let_def for_up_returns)
    qed (use new lo in \<open>auto simp: s1_simps latestVote_def\<close>)
  qed
qed

lemma TrackVotes_result:
  assumes "slot \<noteq> max_slot" and "cutoff \<noteq> max_slot"
    and "TrackVotes slot v cutoff s = Some ((prev, latest, updated), s')"
  shows "updated \<longleftrightarrow> v \<notin> Voters slot s \<and> latestVote v s < slot"
    and "updated \<Longrightarrow> prev = latestVote v s \<and> latest = slot"
    and "Voters j s' =
       (if v \<notin> Voters slot s \<and> latestVote v s < j \<and> cutoff < j \<and> j \<le> slot
        then insert v (Voters j s) else Voters j s)"
    and "latestVote u s' =
       (if u = v \<and> v \<notin> Voters slot s then max (latestVote v s) slot else latestVote u s)"
proof -
  obtain t where t:
    "TrackVotes slot v cutoff s =
       Some (if v \<in> Voters slot s then (0, 0, False)
             else if latestVote v s < slot then (latestVote v s, slot, True)
             else (latestVote v s, latestVote v s, False), t)"
    "\<And>j. Voters j t =
       (if v \<notin> Voters slot s \<and> latestVote v s < j \<and> cutoff < j \<and> j \<le> slot
        then insert v (Voters j s) else Voters j s)"
    "\<And>u. latestVote u t =
       (if u = v \<and> v \<notin> Voters slot s then max (latestVote v s) slot else latestVote u s)"
    by (rule TrackVotes_effect[OF assms(1,2), of v s]) blast
  from t(1) assms(3) have [simp]: "t = s'" by simp
  show "updated \<longleftrightarrow> v \<notin> Voters slot s \<and> latestVote v s < slot"
    and "updated \<Longrightarrow> prev = latestVote v s \<and> latest = slot"
    using t(1) assms(3) by (auto split: if_splits)
  show "Voters j s' =
       (if v \<notin> Voters slot s \<and> latestVote v s < j \<and> cutoff < j \<and> j \<le> slot
        then insert v (Voters j s) else Voters j s)"
    and "latestVote u s' =
       (if u = v \<and> v \<notin> Voters slot s then max (latestVote v s) slot else latestVote u s)"
    using t(2)[of j] t(3)[of u] by simp_all
qed

text \<open>
  The invariant for a cutoff below which nothing is recorded: the voters of a slot have a latest
  vote of at least that slot, and above the cutoff these are all of them.
\<close>

definition tracker_inv :: "slot \<Rightarrow> 'id SlotTracker \<Rightarrow> bool" where
  "tracker_inv cutoff s \<longleftrightarrow>
     (\<forall>i. finite (Voters i s)) \<and>
     (\<forall>i v. v \<in> Voters i s \<longrightarrow> i \<le> latestVote v s) \<and>
     (\<forall>i v. cutoff < i \<longrightarrow> i \<le> latestVote v s \<longrightarrow> v \<in> Voters i s)"

lemma tracker_inv_New: "tracker_inv cutoff NewSlotTracker"
  by (auto simp: tracker_inv_def NewSlotTracker_def Voters_def latestVote_def)

lemma tracker_inv_mono: "tracker_inv c s \<Longrightarrow> c \<le> d \<Longrightarrow> tracker_inv d s"
  by (auto simp: tracker_inv_def)

lemma tracker_inv_Voters:
  "tracker_inv c s \<Longrightarrow> c < i \<Longrightarrow> Voters i s = {v. i \<le> latestVote v s}"
  by (auto simp: tracker_inv_def)

lemma tracker_inv_antimono:
  assumes "tracker_inv c s" and "c < i" and "i \<le> j"
  shows "Voters j s \<subseteq> Voters i s"
  using assms by (auto simp: tracker_inv_Voters)

lemma tracker_inv_TrackVotes:
  assumes "tracker_inv c s" and "c \<le> cutoff"
    and "TrackVotes slot v cutoff s = Some (r, s')" and "slot \<noteq> max_slot" and "cutoff \<noteq> max_slot"
  shows "tracker_inv cutoff s'"
    and "latestVote u s' = (if u = v then max (latestVote v s) slot else latestVote u s)"
proof -
  have inv: "finite (Voters i s)" "v \<in> Voters i s \<Longrightarrow> i \<le> latestVote v s"
    "cutoff < i \<Longrightarrow> i \<le> latestVote v s \<Longrightarrow> v \<in> Voters i s" for i v
    using tracker_inv_mono[OF assms(1,2)] by (auto simp: tracker_inv_def)
  obtain prev latest updated where r: "r = (prev, latest, updated)" by (cases r) auto
  note voters = TrackVotes_result(3)[OF assms(4,5) assms(3)[unfolded r]]
  note latest = TrackVotes_result(4)[OF assms(4,5) assms(3)[unfolded r]]
  show latest': "latestVote u s' = (if u = v then max (latestVote v s) slot else latestVote u s)" for u
    using inv(2)[of v slot] by (auto simp: latest max_def)
  show "tracker_inv cutoff s'"
    unfolding tracker_inv_def
  proof (intro conjI allI impI)
    show "finite (Voters i s')" for i using inv(1) by (simp add: voters)
    show "i \<le> latestVote u s'" if "u \<in> Voters i s'" for i u
      using that inv(2)[of u i] by (auto simp: voters latest' max_def split: if_splits)
    show "u \<in> Voters i s'" if "cutoff < i" "i \<le> latestVote u s'" for i u
    proof (cases "u = v \<and> latestVote v s < i")
      case True
      moreover from this that have "i \<le> slot" by (auto simp: latest' max_def split: if_splits)
      moreover from calculation have "v \<notin> Voters slot s" using inv(2)[of v slot] by auto
      ultimately show ?thesis using that(1) by (simp add: voters)
    next
      case False
      with that have "i \<le> latestVote u s" by (auto simp: latest' split: if_splits)
      with that(1) inv(3) show ?thesis by (simp add: voters)
    qed
  qed
qed

section \<open>The gadget\<close>

text \<open>
  The field \<open>seatCount\<close> is the answer of \<open>SeatCount\<close> of the seat manager, which the code asks for on every refresh; it is
  the same for the whole run, as it is with the proof of authority.
\<close>

record 'id Gadget =
  slotTrackers :: "slot \<rightharpoonup> 'id SlotTracker"
  seatCount :: int
  lastFinalizedSlot :: slot
  latestFinalizedSlotSetting :: slot
  optsSlotFinalizationThreshold :: f64
  SlotFinalized :: "slot list"

definition setLastFinalizedSlot :: "slot \<Rightarrow> 'id Gadget \<Rightarrow> 'id Gadget" where
  "setLastFinalizedSlot i g = g\<lparr>lastFinalizedSlot := i, latestFinalizedSlotSetting := i\<rparr>"

definition refreshSlotFinalization ::
  "'id SlotTracker \<Rightarrow> slot \<Rightarrow> slot \<Rightarrow> 'id Gadget \<Rightarrow> (slot list \<times> 'id Gadget) option" where
  "refreshSlotFinalization tracker previousLatestSlotIndex newLatestSlotIndex g =
     (let committeeTotalSeats = seatCount g in
      for_up_while
        (\<lambda>i (finalizedSlots, g).
           let attestorsTotalSeats = int (card (Voters i tracker)) in
           if \<not> IsThresholdReached attestorsTotalSeats committeeTotalSeats (optsSlotFinalizationThreshold g)
           then (False, (finalizedSlots, g))
           else (True, (finalizedSlots @ [i], setLastFinalizedSlot i g)))
        (max (lastFinalizedSlot g) previousLatestSlotIndex + 1) newLatestSlotIndex ([], g))"

text \<open>The block enters with the slot of its ID, the slot of its commitment and its issuer.\<close>

definition trackVotes :: "slot \<Rightarrow> slot \<Rightarrow> 'id \<Rightarrow> 'id Gadget \<Rightarrow> 'id Gadget option" where
  "trackVotes blockSlot commitmentSlot issuerID g =
     (let tracker = (case slotTrackers g blockSlot of None \<Rightarrow> NewSlotTracker | Some t \<Rightarrow> t) in
      case TrackVotes commitmentSlot issuerID (lastFinalizedSlot g) tracker of
        None \<Rightarrow> None
      | Some ((prevLatestSlot, latestSlot, updated), tracker) \<Rightarrow>
          let g = g\<lparr>slotTrackers := (slotTrackers g)(blockSlot \<mapsto> tracker)\<rparr> in
          if \<not> updated then Some g
          else
            map_option
              (\<lambda>(finalizedSlots, g).
                 fold (\<lambda>finalizedSlot g.
                         g\<lparr>SlotFinalized := SlotFinalized g @ [finalizedSlot],
                           slotTrackers := (slotTrackers g)(finalizedSlot := None)\<rparr>)
                      finalizedSlots g)
              (refreshSlotFinalization tracker prevLatestSlot latestSlot g))"

section \<open>Finalization proceeds slot by slot\<close>

lemma Suc_slot_le_iff: "l \<noteq> max_slot \<Longrightarrow> l + 1 \<le> i \<longleftrightarrow> l < (i :: slot)"
  by (simp add: max_Suc_le_iff word_order.not_eq_extremum)

lemma slot_less_Suc: "l \<noteq> max_slot \<Longrightarrow> l < (l + 1 :: slot)"
  by (simp add: Suc_slot_le_iff[symmetric])

lemma below_max_slot: "l \<le> m \<Longrightarrow> m \<noteq> max_slot \<Longrightarrow> (l :: slot) \<noteq> max_slot"
  by (auto simp: word_order.not_eq_extremum)

lemma last_wrange:
  fixes l m :: slot
  assumes "l \<le> m" and "m \<noteq> max_slot"
  shows "last (l # wrange (l + 1) m) = m"
proof (cases "l = m")
  case True
  then show ?thesis using slot_less_Suc[OF assms(2)] by simp
next
  case False
  with assms(1) have "l < m" by simp
  then have "l \<noteq> max_slot" using below_max_slot[OF assms] by simp
  with \<open>l < m\<close> have "unat (l + 1) \<le> unat m" by (simp add: Suc_slot_le_iff flip: word_le_nat_alt)
  then show ?thesis by (simp add: wrange_def)
qed

lemma takeWhile_wrange:
  fixes l hi :: slot
  assumes "l \<noteq> max_slot" and "hi \<noteq> max_slot"
  shows "\<exists>m. takeWhile R (wrange (l + 1) hi) = wrange (l + 1) m \<and> l \<le> m \<and> m \<noteq> max_slot \<and>
    (m < hi \<longrightarrow> \<not> R (m + 1))"
  using assms(1)
proof (induction "unat hi - unat l" arbitrary: l)
  case 0
  then have "hi \<le> l" by (simp add: word_le_nat_alt)
  with slot_less_Suc[OF 0(2)] have "hi < l + 1" "l < l + 1" by auto
  with 0(2) \<open>hi \<le> l\<close> show ?case by (intro exI[of _ l]) auto
next
  case (Suc n)
  then have lt: "l < hi" by (simp add: word_less_nat_alt)
  then have le: "l + 1 \<le> hi" using Suc.prems by (simp add: Suc_slot_le_iff)
  have "l < l + 1" using Suc.prems by (rule slot_less_Suc)
  have Cons: "wrange (l + 1) hi = (l + 1) # wrange (l + 1 + 1) hi" by (rule wrange_Cons[OF le assms(2)])
  show ?case
  proof (cases "R (l + 1)")
    case True
    have "l + 1 \<noteq> max_slot" by (rule below_max_slot[OF le assms(2)])
    moreover have "n = unat hi - unat (l + 1)"
      using Suc.hyps(2) word_Suc_no_wrap[of l hi] lt assms(2) by simp
    ultimately obtain m where "takeWhile R (wrange (l + 1 + 1) hi) = wrange (l + 1 + 1) m"
      "l + 1 \<le> m" "m \<noteq> max_slot" "m < hi \<longrightarrow> \<not> R (m + 1)"
      using Suc.hyps(1) by blast
    with True \<open>l < l + 1\<close> show ?thesis
      by (intro exI[of _ m]) (auto simp: Cons wrange_Cons[of "l + 1" m])
  next
    case False
    with \<open>l < l + 1\<close> Suc.prems show ?thesis by (intro exI[of _ l]) (simp add: Cons)
  qed
qed

lemma finalize_prefix:
  fixes l p hi :: slot
  assumes "l \<noteq> max_slot" and "hi \<noteq> max_slot" and "p < hi"
    and anti: "\<And>i j. l < i \<Longrightarrow> i \<le> j \<Longrightarrow> R j \<Longrightarrow> R i"
    and below: "\<And>i. l < i \<Longrightarrow> i \<le> p \<Longrightarrow> \<not> R i"
    and above: "\<And>i. l < i \<Longrightarrow> hi < i \<Longrightarrow> \<not> R i"
  obtains m where "takeWhile R (wrange (max l p + 1) hi) = wrange (l + 1) m"
    and "l \<le> m" and "m \<noteq> max_slot" and "\<And>i. m < i \<Longrightarrow> \<not> R i"
proof (cases "l < p")
  case True
  have none: "\<not> R i" if "l < i" for i
  proof (cases "i \<le> p")
    case False
    then have "p \<le> i" by simp
    with anti[of p i] below[of p] True show ?thesis by blast
  qed (use that below in blast)
  have "p \<noteq> max_slot" using assms(2,3) by (intro below_max_slot[of p hi]) auto
  then have "l < p + 1" using True slot_less_Suc[of p] by (meson order.strict_trans)
  then have "takeWhile R (wrange (p + 1) hi) = []"
    using none by (subst wrange_Cons) (use assms(2,3) \<open>p \<noteq> max_slot\<close> in \<open>auto simp: Suc_slot_le_iff\<close>)
  moreover have "l < l + 1" using assms(1) by (rule slot_less_Suc)
  ultimately show thesis using True none assms(1) by (intro that[of l]) (auto simp: max_def)
next
  case False
  obtain m where m: "takeWhile R (wrange (l + 1) hi) = wrange (l + 1) m" "l \<le> m" "m \<noteq> max_slot"
    "m < hi \<longrightarrow> \<not> R (m + 1)"
    using takeWhile_wrange[OF assms(1,2), of R] by blast
  have "\<not> R i" if "m < i" for i
  proof
    assume "R i"
    with above[of i] m(2) that have "i \<le> hi" by (meson not_le order.strict_trans1)
    with that have "m < hi" by (rule order.strict_trans2)
    moreover have "l < m + 1" using m(2) slot_less_Suc[OF m(3)] by (rule order.strict_trans1)
    moreover have "m + 1 \<le> i" using that m(3) by (simp add: Suc_slot_le_iff)
    ultimately show False using anti[of "m + 1" i] \<open>R i\<close> m(4) by blast
  qed
  with m False show thesis by (intro that[of m]) (auto simp: max_def)
qed

section \<open>The gadget over a sequence of confirmed blocks\<close>

text \<open>\<open>quorumFor\<close>: the voters of the slot in the tracker reach the threshold of the gadget's committee.\<close>

definition quorumFor :: "int \<Rightarrow> 'id SlotTracker \<Rightarrow> slot \<Rightarrow> bool" where
  "quorumFor seats t i = IsThresholdReached (int (card (Voters i t))) seats SuperMajority"

lemma quorumFor_mono:
  assumes "quorumFor seats t j" and "Voters j t \<subseteq> Voters i t'" and "finite (Voters i t')"
  shows "quorumFor seats t' i"
  unfolding quorumFor_def
  by (rule votes.monotone[OF assms(1)[unfolded quorumFor_def]]) (simp add: card_mono[OF assms(3,2)])

lemma run_while_takeWhile:
  assumes "optsSlotFinalizationThreshold g = SuperMajority"
  shows "run_while
      (\<lambda>i (finalizedSlots, g).
         let attestorsTotalSeats = int (card (Voters i tracker)) in
         if \<not> IsThresholdReached attestorsTotalSeats seats (optsSlotFinalizationThreshold g)
         then (False, (finalizedSlots, g))
         else (True, (finalizedSlots @ [i], setLastFinalizedSlot i g))) is (acc, g) =
    (acc @ takeWhile (quorumFor seats tracker) is,
     let xs = takeWhile (quorumFor seats tracker) is in
     if xs = [] then g else setLastFinalizedSlot (last xs) g)"
  using assms
  by (induction "is" arbitrary: acc g) (auto simp: quorumFor_def setLastFinalizedSlot_def Let_def)

lemma refreshSlotFinalization_takeWhile:
  assumes "optsSlotFinalizationThreshold g = SuperMajority" and "new \<noteq> max_slot"
  shows "refreshSlotFinalization tracker prev new g =
    (let xs = takeWhile (quorumFor (seatCount g) tracker) (wrange (max (lastFinalizedSlot g) prev + 1) new) in
     Some (xs, if xs = [] then g else setLastFinalizedSlot (last xs) g))"
  using assms by (simp add: refreshSlotFinalization_def for_up_while_returns run_while_takeWhile[unfolded Let_def] Let_def)

definition forgetTrackers :: "slot list \<Rightarrow> 'id Gadget \<Rightarrow> 'id Gadget" where
  "forgetTrackers =
     fold (\<lambda>finalizedSlot g.
             g\<lparr>SlotFinalized := SlotFinalized g @ [finalizedSlot],
               slotTrackers := (slotTrackers g)(finalizedSlot := None)\<rparr>)"

lemma forgetTrackers_simps [simp]:
  "SlotFinalized (forgetTrackers xs g) = SlotFinalized g @ xs"
  "slotTrackers (forgetTrackers xs g) b = (if b \<in> set xs then None else slotTrackers g b)"
  "lastFinalizedSlot (forgetTrackers xs g) = lastFinalizedSlot g"
  "latestFinalizedSlotSetting (forgetTrackers xs g) = latestFinalizedSlotSetting g"
  "seatCount (forgetTrackers xs g) = seatCount g"
  "optsSlotFinalizationThreshold (forgetTrackers xs g) = optsSlotFinalizationThreshold g"
  unfolding forgetTrackers_def by (induction xs arbitrary: g) auto

type_synonym 'id vote_block = "slot \<times> slot \<times> 'id"

text \<open>The issuers of blocks of one slot that commit to at least the given slot.\<close>

definition supporters :: "'id vote_block set \<Rightarrow> slot \<Rightarrow> slot \<Rightarrow> 'id set" where
  "supporters H b i = {v. \<exists>c. (b, c, v) \<in> H \<and> i \<le> c}"

definition tracker_ok :: "'id vote_block set \<Rightarrow> int \<Rightarrow> slot \<Rightarrow> slot \<Rightarrow> 'id SlotTracker \<Rightarrow> bool" where
  "tracker_ok H seats l b t \<longleftrightarrow>
     tracker_inv l t \<and> (\<forall>i. l < i \<longrightarrow> \<not> quorumFor seats t i) \<and>
     (\<forall>v. 0 < latestVote v t \<longrightarrow> (b, latestVote v t, v) \<in> H)"

definition backed :: "'id vote_block set \<Rightarrow> int \<Rightarrow> slot \<Rightarrow> bool" where
  "backed H seats i \<longleftrightarrow>
     (\<exists>b. IsThresholdReached (int (card (supporters H b i))) seats SuperMajority)"

definition gadget_inv :: "'id vote_block set \<Rightarrow> slot \<Rightarrow> 'id Gadget \<Rightarrow> bool" where
  "gadget_inv H start g \<longleftrightarrow>
     optsSlotFinalizationThreshold g = SuperMajority \<and> 0 \<le> seatCount g \<and> finite H \<and>
     lastFinalizedSlot g \<noteq> max_slot \<and> start \<le> lastFinalizedSlot g \<and>
     latestFinalizedSlotSetting g = lastFinalizedSlot g \<and>
     SlotFinalized g = wrange (start + 1) (lastFinalizedSlot g) \<and>
     (\<forall>i\<in>set (SlotFinalized g). backed H (seatCount g) i) \<and>
     (\<forall>b t. slotTrackers g b = Some t \<longrightarrow> tracker_ok H (seatCount g) (lastFinalizedSlot g) b t)"

lemma finite_supporters: "finite H \<Longrightarrow> finite (supporters H b i)"
  by (rule finite_subset[of _ "(\<lambda>(b, c, v). v) ` H"]) (force simp: supporters_def)+

lemma wrange_append:
  fixes a b c :: slot
  assumes "a \<noteq> max_slot" "b \<noteq> max_slot" "a \<le> b" "b \<le> c"
  shows "wrange (a + 1) b @ wrange (b + 1) c = wrange (a + 1) c"
proof -
  have "unat (a + 1) = Suc (unat a)" "unat (b + 1) = Suc (unat b)"
    using word_Suc_no_wrap[OF assms(3,2)] word_Suc_no_wrap[OF order.refl assms(2)] by auto
  moreover have "[Suc (unat a)..<Suc (unat b)] @ [Suc (unat b)..<Suc (unat c)] = [Suc (unat a)..<Suc (unat c)]"
    using upt_add_eq_append[of "Suc (unat a)" "Suc (unat b)" "unat c - unat b"] assms(3,4)
    by (simp add: word_le_nat_alt del: upt_Suc)
  ultimately show ?thesis by (simp add: wrange_def del: upt_Suc flip: map_append)
qed

fun runBlocks :: "'id vote_block list \<Rightarrow> 'id Gadget \<Rightarrow> 'id Gadget option" where
  "runBlocks [] g = Some g"
| "runBlocks ((blockSlot, commitmentSlot, issuerID) # bs) g =
     (case trackVotes blockSlot commitmentSlot issuerID g of None \<Rightarrow> None | Some g \<Rightarrow> runBlocks bs g)"

lemma tracker_ok_New: "0 \<le> seats \<Longrightarrow> tracker_ok H seats l b NewSlotTracker"
proof -
  assume seats: "0 \<le> seats"
  have "\<not> quorumFor seats NewSlotTracker i" for i
    using votes.supermajority[of seats 0] seats
    by (cases "seats = 0") (auto simp: quorumFor_def NewSlotTracker_def Voters_def IsThresholdReached_def)
  then show ?thesis
    using tracker_inv_New[of l] by (auto simp: tracker_ok_def NewSlotTracker_def latestVote_def)
qed

lemma tracker_ok_mono:
  "tracker_ok H seats l b t \<Longrightarrow> l \<le> m \<Longrightarrow> H \<subseteq> H' \<Longrightarrow> tracker_ok H' seats m b t"
  by (auto simp: tracker_ok_def intro: tracker_inv_mono)

lemma backed_mono:
  assumes "finite H'" and "V \<subseteq> supporters H' b i"
    and "IsThresholdReached (int (card V)) seats SuperMajority"
  shows "IsThresholdReached (int (card (supporters H' b i))) seats SuperMajority"
  by (rule votes.monotone[OF assms(3)]) (simp add: card_mono[OF finite_supporters[OF assms(1)] assms(2)])

text \<open>A vote that moves the voter on: the slots that get finalized, and the tracker afterwards.\<close>

lemma vote_finalizes:
  assumes t: "tracker_ok H seats l b t" and c: "c \<noteq> max_slot" and l: "l \<noteq> max_slot"
    and tv: "TrackVotes c v l t = Some ((p, c', True), t')"
  obtains m where "c' = c"
    and "takeWhile (quorumFor seats t') (wrange (max l p + 1) c) = wrange (l + 1) m"
    and "l \<le> m" and "m \<noteq> max_slot" and "tracker_ok (insert (b, c, v) H) seats m b t'"
    and "\<And>i. i \<in> set (wrange (l + 1) m) \<Longrightarrow> quorumFor seats t' i"
    and "\<And>i. l < i \<Longrightarrow> Voters i t' \<subseteq> supporters (insert (b, c, v) H) b i"
proof -
  have inv: "tracker_inv l t" and none: "\<And>i. l < i \<Longrightarrow> \<not> quorumFor seats t i"
    and hist: "\<And>v. 0 < latestVote v t \<Longrightarrow> (b, latestVote v t, v) \<in> H"
    using t by (auto simp: tracker_ok_def)
  have p: "p = latestVote v t" "c' = c" "latestVote v t < c"
    using TrackVotes_result(1,2)[OF c l tv] by auto
  have voters: "Voters j t' = Voters j t" if "j \<le> latestVote v t \<or> c < j" for j
    using that by (auto simp: TrackVotes_result(3)[OF c l tv])
  note inv' = tracker_inv_TrackVotes[OF inv order.refl tv c l]
  have fin: "finite (Voters i t')" for i using inv'(1) by (simp add: tracker_inv_def)
  have same: "quorumFor seats t' i \<longleftrightarrow> quorumFor seats t i" if "i \<le> p \<or> c < i" for i
    using voters[of i] that by (simp add: p quorumFor_def)
  have hist': "(b, latestVote u t', u) \<in> insert (b, c, v) H" if "0 < latestVote u t'" for u
    using that hist[of u] p(3) by (auto simp: inv'(2) max_def split: if_splits)
  obtain m where m: "takeWhile (quorumFor seats t') (wrange (max l p + 1) c) = wrange (l + 1) m"
    "l \<le> m" "m \<noteq> max_slot" "\<And>i. m < i \<Longrightarrow> \<not> quorumFor seats t' i"
  proof (rule finalize_prefix[of l c p "quorumFor seats t'"])
    show "quorumFor seats t' i" if "l < i" "i \<le> j" "quorumFor seats t' j" for i j
      using quorumFor_mono[OF that(3) tracker_inv_antimono[OF inv'(1) that(1,2)] fin] .
    show "\<not> quorumFor seats t' i" if "l < i" "i \<le> p" for i
      using same[of i] none[OF that(1)] that(2) by auto
    show "\<not> quorumFor seats t' i" if "l < i" "c < i" for i
      using same[of i] none[OF that(1)] that(2) by auto
  qed (use c l p(1,3) in \<open>simp_all\<close>)
  show thesis
  proof (rule that[OF p(2) m(1-3)])
    show "tracker_ok (insert (b, c, v) H) seats m b t'"
      unfolding tracker_ok_def using tracker_inv_mono[OF inv'(1) m(2)] m(4) hist' by blast
    show "quorumFor seats t' i" if "i \<in> set (wrange (l + 1) m)" for i
      using that m(1) set_takeWhileD by metis
    show "Voters i t' \<subseteq> supporters (insert (b, c, v) H) b i" if "l < i" for i
    proof
      fix u assume "u \<in> Voters i t'"
      then have "i \<le> latestVote u t'" using inv'(1) by (auto simp: tracker_inv_def)
      moreover from this that have "0 < latestVote u t'"
        by (simp add: word_less_nat_alt word_le_nat_alt)
      ultimately show "u \<in> supporters (insert (b, c, v) H) b i"
        unfolding supporters_def using hist' by blast
    qed
  qed
qed

lemma backed_insert:
  assumes "finite H" and "backed H seats i"
  shows "backed (insert x H) seats i"
proof -
  obtain b where reached: "IsThresholdReached (int (card (supporters H b i))) seats SuperMajority"
    using assms(2) unfolding backed_def by blast
  have sub: "supporters H b i \<subseteq> supporters (insert x H) b i" by (auto simp: supporters_def)
  have "finite (insert x H)" using assms(1) by simp
  from backed_mono[OF this sub reached] show ?thesis unfolding backed_def by blast
qed

text \<open>Recording a tracker of the block's slot and finalizing up to \<open>m\<close> keeps the invariant.\<close>

lemma gadget_inv_advance:
  fixes g :: "'id Gadget"
  defines "l \<equiv> lastFinalizedSlot g"
  assumes inv: "gadget_inv H start g" and H: "H' = insert x H"
    and t: "tracker_ok H' (seatCount g) m b t" and m: "l \<le> m" "m \<noteq> max_slot"
    and new: "\<And>i. i \<in> set (wrange (l + 1) m) \<Longrightarrow> backed H' (seatCount g) i"
    and g': "g' = g\<lparr>slotTrackers := (slotTrackers g)(b \<mapsto> t), lastFinalizedSlot := m,
                     latestFinalizedSlotSetting := m\<rparr>"
  shows "gadget_inv H' start (forgetTrackers (wrange (l + 1) m) g')"
proof -
  have parts: "optsSlotFinalizationThreshold g = SuperMajority" "0 \<le> seatCount g" "finite H"
    "l \<noteq> max_slot" "start \<le> l" "SlotFinalized g = wrange (start + 1) l"
    and old: "\<And>i. i \<in> set (SlotFinalized g) \<Longrightarrow> backed H (seatCount g) i"
    and trackers: "\<And>b t. slotTrackers g b = Some t \<Longrightarrow> tracker_ok H (seatCount g) l b t"
    using inv unfolding gadget_inv_def l_def by blast+
  have "start \<noteq> max_slot" using below_max_slot[OF parts(5,4)] .
  then have log: "SlotFinalized g @ wrange (l + 1) m = wrange (start + 1) m"
    using parts(4-6) m wrange_append[of start l m] by simp
  have all: "backed H' (seatCount g) i" if "i \<in> set (wrange (start + 1) m)" for i
    using that new backed_insert[OF parts(3) old, of i x] unfolding log[symmetric] H by fastforce
  have ok: "tracker_ok H' (seatCount g) m b' t'"
    if "slotTrackers (forgetTrackers (wrange (l + 1) m) g') b' = Some t'" for b' t'
    using that t tracker_ok_mono[OF trackers m(1), of b' t' H'] unfolding g' H
    by (auto split: if_splits)
  show ?thesis
    unfolding gadget_inv_def using parts m all ok log
    by (auto simp: g' H simp del: set_wrange)
qed

lemma trackVotes_step:
  assumes inv: "gadget_inv H start g" and c: "c \<noteq> max_slot"
  shows "\<exists>g'. trackVotes b c v g = Some g' \<and> gadget_inv (insert (b, c, v) H) start g' \<and>
    seatCount g' = seatCount g"
proof -
  define t where "t = (case slotTrackers g b of None \<Rightarrow> NewSlotTracker | Some t \<Rightarrow> t)"
  define H' where "H' = insert (b, c, v) H"
  define l where "l = lastFinalizedSlot g"
  have l: "l \<noteq> max_slot" and finH: "finite H'" and seats: "0 \<le> seatCount g"
    and opts: "optsSlotFinalizationThreshold g = SuperMajority"
    and setting: "latestFinalizedSlotSetting g = l"
    using inv by (simp_all add: gadget_inv_def H'_def l_def)
  have t: "tracker_ok H (seatCount g) l b t"
    using inv tracker_ok_New[OF seats] unfolding gadget_inv_def t_def l_def by (auto split: option.splits)
  obtain p c' u t' where tv: "TrackVotes c v l t = Some ((p, c', u), t')"
    by (rule TrackVotes_effect[OF c l, of v t]) (metis prod.collapse)
  show ?thesis
  proof (cases u)
    case False
    then have "\<not> (v \<notin> Voters c t \<and> latestVote v t < c)" using TrackVotes_result(1)[OF c l tv] by simp
    then have "Voters j t' = Voters j t" "latestVote w t' = latestVote w t" for j w
      using TrackVotes_result(3,4)[OF c l tv] by (auto simp: max_def)
    moreover have "tracker_inv l t'"
      using tracker_inv_TrackVotes(1)[OF _ order.refl tv c l] t by (simp add: tracker_ok_def)
    ultimately have "tracker_ok H' (seatCount g) l b t'"
      using t by (auto simp: tracker_ok_def quorumFor_def H'_def)
    moreover have "wrange (l + 1) l = []" using slot_less_Suc[OF l] by simp
    moreover have same: "g\<lparr>slotTrackers := m\<rparr> =
        g\<lparr>slotTrackers := m, lastFinalizedSlot := l, latestFinalizedSlotSetting := l\<rparr>" for m
      using setting by (intro Gadget.equality) (simp_all add: l_def)
    ultimately have "gadget_inv H' start (g\<lparr>slotTrackers := (slotTrackers g)(b \<mapsto> t')\<rparr>)"
      using gadget_inv_advance[OF inv H'_def _ _ _ _ same, of b t'] l
      by (simp add: l_def[symmetric] forgetTrackers_def)
    then show ?thesis
      using False tv by (simp add: trackVotes_def t_def[symmetric] l_def[symmetric] H'_def)
  next
    case True
    obtain m where c': "c' = c"
      and xs: "takeWhile (quorumFor (seatCount g) t') (wrange (max l p + 1) c) = wrange (l + 1) m"
      and m: "l \<le> m" "m \<noteq> max_slot" "tracker_ok H' (seatCount g) m b t'"
      and new: "\<And>i. i \<in> set (wrange (l + 1) m) \<Longrightarrow> quorumFor (seatCount g) t' i"
        "\<And>i. l < i \<Longrightarrow> Voters i t' \<subseteq> supporters H' b i"
      unfolding H'_def by (rule vote_finalizes[OF t c l tv[unfolded eqTrueI[OF True]]]) blast
    have backed: "backed H' (seatCount g) i" if "i \<in> set (wrange (l + 1) m)" for i
      using backed_mono[OF finH new(2)] new(1)[OF that] that l
      unfolding backed_def quorumFor_def by (auto simp: Suc_slot_le_iff)
    let ?g = "g\<lparr>slotTrackers := (slotTrackers g)(b \<mapsto> t')\<rparr>"
    have advanced: "(if wrange (l + 1) m = [] then ?g else setLastFinalizedSlot (last (wrange (l + 1) m)) ?g) =
      ?g\<lparr>lastFinalizedSlot := m, latestFinalizedSlotSetting := m\<rparr>"
      using last_wrange[OF m(1,2)] setting by (auto simp: setLastFinalizedSlot_def l_def split: if_splits)
    have "trackVotes b c v g = Some (forgetTrackers (wrange (l + 1) m)
        (if wrange (l + 1) m = [] then ?g else setLastFinalizedSlot (last (wrange (l + 1) m)) ?g))"
      using tv True opts c
      by (simp add: trackVotes_def t_def[symmetric] l_def[symmetric] c' refreshSlotFinalization_takeWhile
          xs Let_def forgetTrackers_def)
    with gadget_inv_advance[OF inv H'_def, of m b t'] m backed show ?thesis
      unfolding advanced by (simp add: l_def[symmetric] H'_def)
  qed
qed

lemma runBlocks_inv:
  assumes "gadget_inv H start g" and "\<forall>(b, c, v) \<in> set bs. c \<noteq> max_slot"
  shows "\<exists>g'. runBlocks bs g = Some g' \<and> gadget_inv (H \<union> set bs) start g' \<and> seatCount g' = seatCount g"
  using assms
proof (induction bs arbitrary: g H)
  case (Cons x bs)
  obtain b c v where x: "x = (b, c, v)" by (cases x)
  with Cons.prems(2) have "c \<noteq> max_slot" by auto
  from trackVotes_step[OF Cons.prems(1) this, of b v] obtain g1 where g1:
    "trackVotes b c v g = Some g1" "gadget_inv (insert (b, c, v) H) start g1" "seatCount g1 = seatCount g"
    by blast
  from Cons.IH[OF g1(2)] Cons.prems(2) g1 show ?case by (auto simp: x)
qed auto

text \<open>A gadget as \<open>NewProvider\<close> and \<open>HookInitialized\<close> leave it.\<close>

definition initialGadget :: "int \<Rightarrow> slot \<Rightarrow> 'id Gadget" where
  "initialGadget seats latestFinalized =
     \<lparr>slotTrackers = Map.empty, seatCount = seats, lastFinalizedSlot = latestFinalized,
      latestFinalizedSlotSetting = latestFinalized, optsSlotFinalizationThreshold = SuperMajority,
      SlotFinalized = []\<rparr>"

lemma gadget_inv_initial:
  assumes "0 \<le> seats" and "start \<noteq> max_slot"
  shows "gadget_inv {} start (initialGadget seats start)"
  using assms slot_less_Suc[of start] by (simp add: gadget_inv_def initialGadget_def)

text \<open>A sequence of votes on one tracker.\<close>

fun trackAll :: "(slot \<times> 'id \<times> slot) list \<Rightarrow> 'id SlotTracker \<Rightarrow> 'id SlotTracker option" where
  "trackAll [] s = Some s"
| "trackAll ((slot, v, cutoff) # vs) s =
     (case TrackVotes slot v cutoff s of None \<Rightarrow> None | Some (_, s) \<Rightarrow> trackAll vs s)"

lemma trackAll_inv:
  assumes "tracker_inv c s" and "sorted (c # map (\<lambda>(s, v, cutoff). cutoff) vs)"
    and "\<forall>(s, v, cutoff) \<in> set vs. s \<noteq> max_slot \<and> cutoff \<noteq> max_slot"
  shows "\<exists>t. trackAll vs s = Some t \<and> tracker_inv (last (c # map (\<lambda>(s, v, cutoff). cutoff) vs)) t \<and>
    (\<forall>u i. i \<le> latestVote u t \<longleftrightarrow> i \<le> latestVote u s \<or> (\<exists>s c. (s, u, c) \<in> set vs \<and> i \<le> s))"
  using assms
proof (induction vs arbitrary: c s)
  case (Cons x vs)
  obtain sl v cut where x: "x = (sl, v, cut)" by (cases x)
  with Cons.prems have ok: "sl \<noteq> max_slot" "cut \<noteq> max_slot" "c \<le> cut" by auto
  obtain r s1 where tv: "TrackVotes sl v cut s = Some (r, s1)"
    by (rule TrackVotes_effect[OF ok(1,2), of v s]) blast
  note inv = tracker_inv_TrackVotes[OF Cons.prems(1) ok(3) tv ok(1,2)]
  have "sorted (cut # map (\<lambda>(s, v, cutoff). cutoff) vs)" using Cons.prems(2) by (simp add: x)
  then obtain t where t: "trackAll vs s1 = Some t"
    "tracker_inv (last (cut # map (\<lambda>(s, v, cutoff). cutoff) vs)) t"
    "\<And>u i. i \<le> latestVote u t \<longleftrightarrow> i \<le> latestVote u s1 \<or> (\<exists>s c. (s, u, c) \<in> set vs \<and> i \<le> s)"
    using Cons.IH[OF inv(1)] Cons.prems(3) by auto
  show ?case
    using t tv inv(2) by (auto simp: x le_max_iff_disj)
qed simp

section \<open>Properties\<close>

text \<open>C4: Whatever blocks are confirmed, in whatever order (no commitment to the last slot of the
  32 bit type), the slot gadget of a fixed committee terminates on each of them, announces every
  slot after the initially finalized one exactly once and in order up to its last finalized slot,
  which is also the stored one, and every announced slot has a supermajority of issuers whose
  blocks of one and the same slot commit to it or to a later slot.\<close>

theorem finalization_in_order:
  assumes "0 \<le> seats" and "start \<noteq> max_slot" and "\<forall>(b, c, v) \<in> set bs. c \<noteq> max_slot"
  shows "\<exists>g. runBlocks bs (initialGadget seats start) = Some g \<and>
    SlotFinalized g = wrange (start + 1) (lastFinalizedSlot g) \<and>
    latestFinalizedSlotSetting g = lastFinalizedSlot g \<and>
    (\<forall>i \<in> set (SlotFinalized g). \<exists>b.
       IsThresholdReached (int (card {v. \<exists>c. (b, c, v) \<in> set bs \<and> i \<le> c})) seats SuperMajority)"
  using runBlocks_inv[OF gadget_inv_initial[OF assms(1,2)] assms(3)]
  unfolding gadget_inv_def backed_def supporters_def by (auto simp: initialGadget_def)

theorem finalization_in_order_witness:
  "\<exists>g. runBlocks [(7, 5, 1), (7, 4, 2), (7, 5, 3)] (initialGadget 4 (3 :: slot)) = Some (g :: nat Gadget) \<and>
    SlotFinalized g = wrange (3 + 1) (lastFinalizedSlot g) \<and>
    latestFinalizedSlotSetting g = lastFinalizedSlot g \<and>
    (\<forall>i \<in> set (SlotFinalized g). \<exists>b.
       IsThresholdReached (int (card {v. \<exists>c. (b, c, v) \<in> set [(7 :: slot, 5, 1), (7, 4, 2), (7, 5, 3 :: nat)] \<and> i \<le> c})) 4 SuperMajority)"
  by (rule finalization_in_order) auto

text \<open>C5: A slot tracker that has seen any votes, with cutoffs that never decrease, holds above the
  last cutoff exactly the voters with a vote for the slot or a later one, and recording the votes
  terminates.\<close>

theorem tracker_holds_voters:
  assumes "sorted (map (\<lambda>(s, v, cutoff). cutoff) vs)"
    and "\<forall>(s, v, cutoff) \<in> set vs. s \<noteq> max_slot \<and> cutoff < i"
  shows "\<exists>t. trackAll vs NewSlotTracker = Some t \<and>
    Voters i t = {v. \<exists>s cutoff. (s, v, cutoff) \<in> set vs \<and> i \<le> s}"
proof (cases "vs = []")
  case True
  then show ?thesis by (simp add: NewSlotTracker_def Voters_def)
next
  case False
  let ?cs = "map (\<lambda>(s, v, cutoff). cutoff) vs"
  have cs: "\<forall>c\<in>set (0 # ?cs). c < i"
    using assms(2) False by (cases vs) (auto simp: word_less_nat_alt)
  then have "\<forall>(s, v, cutoff) \<in> set vs. s \<noteq> max_slot \<and> cutoff \<noteq> max_slot"
    using assms(2) by (fastforce simp: word_order.not_eq_extremum)
  moreover have "sorted (0 # ?cs)" using assms(1) by simp
  ultimately obtain t where t: "trackAll vs NewSlotTracker = Some t" "tracker_inv (last (0 # ?cs)) t"
    "\<And>u i. i \<le> latestVote u t \<longleftrightarrow> i \<le> latestVote u NewSlotTracker \<or> (\<exists>s c. (s, u, c) \<in> set vs \<and> i \<le> s)"
    using trackAll_inv[OF tracker_inv_New, of 0 vs] by blast
  have "last (0 # ?cs) < i" using cs last_in_set[of "0 # ?cs"] by blast
  moreover from cs have "0 < i" by simp
  then have "\<not> i \<le> latestVote u NewSlotTracker" for u :: 'a
    by (auto simp: NewSlotTracker_def latestVote_def)
  ultimately show ?thesis using tracker_inv_Voters[OF t(2)] t(1,3) by auto
qed

theorem tracker_holds_voters_witness:
  "\<exists>t. trackAll [(5, 1 :: nat, 0), (3, 2, 1), (4, 2, 1)] NewSlotTracker = Some t \<and>
    Voters 4 t = {v. \<exists>s cutoff. (s, v, cutoff) \<in> set [(5 :: slot, 1, 0 :: slot), (3, 2, 1), (4, 2, 1)] \<and> 4 \<le> s}"
  by (rule tracker_holds_voters) auto

text \<open>C6: A vote for a new slot above the cutoff is recorded in finite time unless the slot is the
  largest value of its 32 bit type, for which the loop over the slots never ends.\<close>

theorem TrackVotes_returns_iff:
  assumes "v \<notin> Voters slot t" and "latestVote v t < slot" and "cutoff < slot"
  shows "TrackVotes slot v cutoff t = None \<longleftrightarrow> slot = max_slot"
proof
  assume none: "TrackVotes slot v cutoff t = None"
  have "cutoff \<noteq> max_slot"
    using order.strict_trans2[OF assms(3) word_order.extremum] by (simp add: word_order.not_eq_extremum)
  then show "slot = max_slot"
    using none TrackVotes_effect[of slot cutoff v t] by (metis option.distinct(1))
next
  assume slot: "slot = max_slot"
  obtain s1 where "slotVoters slot t = (Voters slot t, s1)" and "votesPerIdentity s1 = votesPerIdentity t"
    by (metis Voters_slotVoters(1,3) prod.collapse)
  with assms slot show "TrackVotes slot v cutoff t = None"
    by (simp add: TrackVotes_def for_up_diverges latestVote_def Let_def)
qed

theorem TrackVotes_returns_iff_witness:
  "TrackVotes max_slot (2 :: nat) 0 NewSlotTracker = None"
  using TrackVotes_returns_iff[of 2 max_slot NewSlotTracker 0]
  by (simp add: NewSlotTracker_def Voters_def latestVote_def word_gt_0)

end
