(* ===== verification/GoHeap.thy ===== *)
theory GoHeap
  imports Prelude
begin

text \<open>
  The Go standard library package \<open>container/heap\<close> on a slice, as the scheduler queues use it:
  \<open>Push\<close>, \<open>Pop\<close> and \<open>Remove\<close> with the sifting loops \<open>up\<close> and \<open>down\<close>. Elements are ordered by an
  integer key (the issuing time of a block); \<open>Less\<close> is strict. The theory proves that the heap
  order is kept, that the elements are kept as a multiset and that \<open>Pop\<close> returns an oldest one.
\<close>

section \<open>The algorithms\<close>

definition Less :: "('a \<Rightarrow> int) \<Rightarrow> 'a list \<Rightarrow> nat \<Rightarrow> nat \<Rightarrow> bool" where
  "Less key h i j \<longleftrightarrow> key (h ! i) < key (h ! j)"

definition Swap :: "nat \<Rightarrow> nat \<Rightarrow> 'a list \<Rightarrow> 'a list" where
  "Swap i j h = h[i := h ! j, j := h ! i]"

definition parent :: "nat \<Rightarrow> nat" where
  "parent j = (j - 1) div 2"

lemma parent_less [simp]: "0 < k \<Longrightarrow> parent k < k"
  by (auto simp: parent_def)

lemma parent_eq_self [simp]: "parent k = k \<longleftrightarrow> k = 0"
  by (auto simp: parent_def)

lemma not_less_parent [simp]: "\<not> k < parent k"
  by (auto simp: parent_def)

lemma parent_bound [simp]: "k < n \<Longrightarrow> parent k < n"
  by (auto simp: parent_def)

lemma parent_iff: "0 < k \<Longrightarrow> parent k = i \<longleftrightarrow> k = 2 * i + 1 \<or> k = 2 * i + 2"
  by (auto simp: parent_def)

function heap_up :: "('a \<Rightarrow> int) \<Rightarrow> nat \<Rightarrow> 'a list \<Rightarrow> 'a list" where
  "heap_up key j h =
     (let i = parent j in
      if i = j \<or> \<not> Less key h j i then h else heap_up key i (Swap i j h))"
  by pat_completeness auto
termination
proof (relation "measure (\<lambda>(key, j, h). j)")
  fix key :: "'a \<Rightarrow> int" and j i :: nat and h :: "'a list"
  assume "i = parent j" "\<not> (i = j \<or> \<not> Less key h j i)"
  then have "0 < j" "i = parent j" by (auto simp: neq0_conv[symmetric] simp del: neq0_conv)
  then show "((key, i, Swap i j h), key, j, h) \<in> measure (\<lambda>(key, j, h). j)" by simp
qed simp

text \<open>The loop of \<open>down\<close>, with the index at which it ends.\<close>

function down_loop :: "('a \<Rightarrow> int) \<Rightarrow> nat \<Rightarrow> nat \<Rightarrow> 'a list \<Rightarrow> nat \<times> 'a list" where
  "down_loop key i n h =
     (let j1 = 2 * i + 1 in
      if n \<le> j1 then (i, h)
      else
        let j2 = j1 + 1; j = (if j2 < n \<and> Less key h j2 j1 then j2 else j1) in
        if \<not> Less key h j i then (i, h) else down_loop key j n (Swap i j h))"
  by pat_completeness auto
termination by (relation "measure (\<lambda>(key, i, n, h). n - i)") (auto split: if_splits)

declare heap_up.simps [simp del] down_loop.simps [simp del]

definition heap_down :: "('a \<Rightarrow> int) \<Rightarrow> nat \<Rightarrow> nat \<Rightarrow> 'a list \<Rightarrow> bool \<times> 'a list" where
  "heap_down key i0 n h = (let (i, h) = down_loop key i0 n h in (i0 < i, h))"

definition heap_Push :: "('a \<Rightarrow> int) \<Rightarrow> 'a \<Rightarrow> 'a list \<Rightarrow> 'a list" where
  "heap_Push key x h = (let h = h @ [x] in heap_up key (length h - 1) h)"

definition heap_Pop :: "('a \<Rightarrow> int) \<Rightarrow> 'a list \<Rightarrow> 'a \<times> 'a list" where
  "heap_Pop key h =
     (let n = length h - 1; h = Swap 0 n h; h = snd (heap_down key 0 n h)
      in (h ! n, take n h))"

definition heap_Remove :: "('a \<Rightarrow> int) \<Rightarrow> nat \<Rightarrow> 'a list \<Rightarrow> 'a \<times> 'a list" where
  "heap_Remove key i h =
     (let n = length h - 1;
          h = (if n \<noteq> i then
                 let h = Swap i n h; (moved, h) = heap_down key i n h
                 in if \<not> moved then heap_up key i h else h
               else h)
      in (h ! n, take n h))"

section \<open>The heap order\<close>

text \<open>The order on the first \<open>n\<close> elements, and the order with one exception.\<close>

definition heap_ordered :: "('a \<Rightarrow> int) \<Rightarrow> nat \<Rightarrow> 'a list \<Rightarrow> bool" where
  "heap_ordered key n h \<longleftrightarrow> (\<forall>k < n. 0 < k \<longrightarrow> key (h ! parent k) \<le> key (h ! k))"

abbreviation is_heap :: "('a \<Rightarrow> int) \<Rightarrow> 'a list \<Rightarrow> bool" where
  "is_heap key h \<equiv> heap_ordered key (length h) h"

definition ordered_but_up :: "('a \<Rightarrow> int) \<Rightarrow> nat \<Rightarrow> nat \<Rightarrow> 'a list \<Rightarrow> bool" where
  "ordered_but_up key n j h \<longleftrightarrow>
     (\<forall>k < n. 0 < k \<longrightarrow> k \<noteq> j \<longrightarrow> key (h ! parent k) \<le> key (h ! k)) \<and>
     (\<forall>k < n. 0 < k \<longrightarrow> parent k = j \<longrightarrow> 0 < j \<longrightarrow> key (h ! parent j) \<le> key (h ! k))"

definition ordered_but_down :: "('a \<Rightarrow> int) \<Rightarrow> nat \<Rightarrow> nat \<Rightarrow> 'a list \<Rightarrow> bool" where
  "ordered_but_down key n i h \<longleftrightarrow>
     (\<forall>k < n. 0 < k \<longrightarrow> parent k \<noteq> i \<longrightarrow> key (h ! parent k) \<le> key (h ! k)) \<and>
     (\<forall>k < n. 0 < k \<longrightarrow> parent k = i \<longrightarrow> 0 < i \<longrightarrow> key (h ! parent i) \<le> key (h ! k))"

lemma length_Swap [simp]: "length (Swap i j h) = length h"
  by (simp add: Swap_def)

lemma nth_Swap:
  "i < length h \<Longrightarrow> j < length h \<Longrightarrow> k < length h \<Longrightarrow>
   Swap i j h ! k = (if k = i then h ! j else if k = j then h ! i else h ! k)"
  by (auto simp: Swap_def nth_list_update)

lemma mset_Swap [simp]: "i < length h \<Longrightarrow> j < length h \<Longrightarrow> mset (Swap i j h) = mset h"
  unfolding Swap_def by (rule mset_swap)

lemma heap_up_length [simp]: "length (heap_up key j h) = length h"
  by (induction key j h rule: heap_up.induct) (subst heap_up.simps, auto simp: Let_def)

lemma heap_up_mset: "j < length h \<Longrightarrow> mset (heap_up key j h) = mset h"
proof (induction key j h rule: heap_up.induct)
  case (1 key j h)
  then show ?case by (subst heap_up.simps) (auto simp: Let_def)
qed

lemma heap_up_nth_above:
  "j < k \<Longrightarrow> k < length h \<Longrightarrow> heap_up key j h ! k = h ! k"
proof (induction key j h rule: heap_up.induct)
  case (1 key j h)
  then show ?case by (subst heap_up.simps) (auto simp: Let_def nth_Swap)
qed

lemma up_swap:
  assumes inv: "ordered_but_up key n j h" and j: "0 < j" "j < n" "n \<le> length h"
    and less: "key (h ! j) < key (h ! parent j)"
  shows "ordered_but_up key n (parent j) (Swap (parent j) j h)"
proof -
  have p: "parent j < j" using j(1) by simp
  then have nth: "Swap (parent j) j h ! k = (if k = parent j then h ! j else if k = j then h ! parent j else h ! k)"
    if "k < n" for k using nth_Swap[of "parent j" h j k] j that by auto
  have order: "key (h ! parent k) \<le> key (h ! k)" if "k < n" "0 < k" "k \<noteq> j" for k
    using inv that by (simp add: ordered_but_up_def)
  have skip: "key (h ! parent j) \<le> key (h ! k)" if "k < n" "0 < k" "parent k = j" for k
    using inv that j(1) by (auto simp: ordered_but_up_def)
  show ?thesis
    unfolding ordered_but_up_def
  proof (intro conjI allI impI)
    fix k assume k: "k < n" "0 < k" "k \<noteq> parent j"
    have pk: "parent k < n" using k(1) parent_less[OF k(2)] by simp
    show "key (Swap (parent j) j h ! parent k) \<le> key (Swap (parent j) j h ! k)"
      using order[OF k(1,2)] skip[OF k(1,2)] less k(3) p
      by (auto simp: nth[OF k(1)] nth[OF pk])
  next
    fix k assume k: "k < n" "0 < k" "parent k = parent j" "0 < parent j"
    have pp: "parent (parent j) < parent j" using k(4) by simp
    have "key (h ! parent (parent j)) \<le> key (h ! parent j)"
      using order[of "parent j"] k(4) p j(2) by simp
    moreover have "key (h ! parent j) \<le> key (h ! k)" if "k \<noteq> j" using order[OF k(1,2) that] k(3) by simp
    moreover have "k \<noteq> parent j" using parent_less[OF k(2)] k(3) by auto
    moreover have "parent (parent j) < n" using pp p j(2) by simp
    ultimately show "key (Swap (parent j) j h ! parent (parent j)) \<le> key (Swap (parent j) j h ! k)"
      using nth[OF k(1)] nth[of "parent (parent j)"] pp p by (cases "k = j") auto
  qed
qed

lemma heap_up_ordered:
  "ordered_but_up key n j h \<Longrightarrow> j < n \<Longrightarrow> n \<le> length h \<Longrightarrow> heap_ordered key n (heap_up key j h)"
proof (induction key j h rule: heap_up.induct)
  case (1 key j h)
  show ?case
  proof (cases "parent j = j \<or> \<not> Less key h j (parent j)")
    case True
    then have "heap_up key j h = h" by (subst heap_up.simps) (simp add: Let_def)
    moreover have "heap_ordered key n h"
      using 1(2) True by (auto simp: heap_ordered_def ordered_but_up_def Less_def)
    ultimately show ?thesis by simp
  next
    case False
    then have j: "0 < j" by simp
    from False have less: "key (h ! j) < key (h ! parent j)" by (simp add: Less_def)
    have "parent j < n" using 1(3) parent_less[OF j] by simp
    with 1(1)[OF refl False up_swap[OF 1(2) j 1(3,4) less]] 1(4) False show ?thesis
      by (subst heap_up.simps) (simp add: Let_def)
  qed
qed

lemma down_loop_length [simp]: "length (snd (down_loop key i n h)) = length h"
  by (induction key i n h rule: down_loop.induct) (subst down_loop.simps, auto simp: Let_def)

lemma down_loop_mset: "n \<le> length h \<Longrightarrow> mset (snd (down_loop key i n h)) = mset h"
proof (induction key i n h rule: down_loop.induct)
  case (1 key i n h)
  then show ?case by (subst down_loop.simps) (auto simp: Let_def)
qed

lemma down_loop_beyond:
  "n \<le> k \<Longrightarrow> k < length h \<Longrightarrow> snd (down_loop key i n h) ! k = h ! k"
proof (induction key i n h rule: down_loop.induct)
  case (1 key i n h)
  then show ?case by (subst down_loop.simps) (auto simp: Let_def nth_Swap)
qed

text \<open>The child that \<open>down\<close> follows is a least child.\<close>

lemma down_child:
  fixes h :: "'a list"
  assumes "2 * i + 1 < n" and "j = (if 2 * i + 1 + 1 < n \<and> Less key h (2 * i + 1 + 1) (2 * i + 1) then 2 * i + 1 + 1 else 2 * i + 1)"
  shows "j < n" and "parent j = i" and "i < j"
    and "\<And>k. k < n \<Longrightarrow> 0 < k \<Longrightarrow> parent k = i \<Longrightarrow> key (h ! j) \<le> key (h ! k)"
  using assms by (auto simp: parent_iff Less_def split: if_splits)

lemma down_swap:
  assumes inv: "ordered_but_down key n i h" and j: "j < n" "parent j = i" "i < j" "n \<le> length h"
    and least: "\<And>k. k < n \<Longrightarrow> 0 < k \<Longrightarrow> parent k = i \<Longrightarrow> key (h ! j) \<le> key (h ! k)"
    and less: "key (h ! j) < key (h ! i)"
  shows "ordered_but_down key n j (Swap i j h)"
proof -
  have nth: "Swap i j h ! k = (if k = i then h ! j else if k = j then h ! i else h ! k)"
    if "k < n" for k using nth_Swap[of i h j k] j that by auto
  have order: "key (h ! parent k) \<le> key (h ! k)" if "k < n" "0 < k" "parent k \<noteq> i" for k
    using inv that by (simp add: ordered_but_down_def)
  have skip: "key (h ! parent i) \<le> key (h ! j)" if "0 < i"
    using inv that j by (auto simp: ordered_but_down_def)
  show ?thesis
    unfolding ordered_but_down_def
  proof (intro conjI allI impI)
    fix k assume k: "k < n" "0 < k" "parent k \<noteq> j"
    have pk: "parent k < n" using k(1) by simp
    have "k = i \<Longrightarrow> key (h ! parent i) \<le> key (h ! j)" using skip k(2) by simp
    moreover have "k = i \<Longrightarrow> parent k \<noteq> i" using parent_less[OF k(2)] by simp
    ultimately show "key (Swap i j h ! parent k) \<le> key (Swap i j h ! k)"
      using order[OF k(1,2)] least[OF k(1,2)] less k(3) j(2)
      by (auto simp: nth[OF k(1)] nth[OF pk])
  next
    fix k assume k: "k < n" "0 < k" "parent k = j" "0 < j"
    have "k \<noteq> i" "k \<noteq> j" using parent_less[OF k(2)] j(3) k(3) by auto
    moreover have "key (h ! j) \<le> key (h ! k)" using order[OF k(1,2)] k(3) j(3) by auto
    ultimately show "key (Swap i j h ! parent j) \<le> key (Swap i j h ! k)"
      using nth[OF k(1)] nth[of i] j by simp
  qed
qed

lemma down_loop_ordered:
  "ordered_but_down key n i h \<Longrightarrow> i < n \<or> n = 0 \<Longrightarrow> n \<le> length h \<Longrightarrow>
   heap_ordered key n (snd (down_loop key i n h))"
proof (induction key i n h rule: down_loop.induct)
  case (1 key i n h)
  show ?case
  proof (cases "n \<le> 2 * i + 1")
    case True
    then have "heap_ordered key n h"
      using 1(2) by (auto simp: heap_ordered_def ordered_but_down_def parent_iff)
    with True show ?thesis by (subst down_loop.simps) (simp add: Let_def)
  next
    case False
    define j where "j = (if 2 * i + 1 + 1 < n \<and> Less key h (2 * i + 1 + 1) (2 * i + 1) then 2 * i + 1 + 1 else 2 * i + 1)"
    from False have "2 * i + 1 < n" by simp
    note child = down_child[OF this j_def]
    have unfold: "down_loop key i n h = (if \<not> Less key h j i then (i, h) else down_loop key j n (Swap i j h))"
      using False by (subst down_loop.simps) (simp add: Let_def j_def)
    show ?thesis
    proof (cases "Less key h j i")
      case True
      then have less: "key (h ! j) < key (h ! i)" by (simp add: Less_def)
      have swap: "ordered_but_down key n j (Swap i j h)"
        by (rule down_swap[OF 1(2) child(1,2,3) 1(4) _ less]) (rule child(4))
      have "heap_ordered key n (snd (down_loop key j n (Swap i j h)))"
        by (rule 1(1)[OF refl False refl refl, folded j_def]) (use True swap child(1) 1(4) in simp_all)
      with True show ?thesis by (simp add: unfold)
    next
      case False
      then have "key (h ! i) \<le> key (h ! k)" if "k < n" "0 < k" "parent k = i" for k
        using child(4)[OF that] by (simp add: Less_def)
      then have "heap_ordered key n h"
        using 1(2) by (auto simp: heap_ordered_def ordered_but_down_def)
      with False show ?thesis by (simp add: unfold)
    qed
  qed
qed

section \<open>\<open>Push\<close>, \<open>Pop\<close> and \<open>Remove\<close>\<close>

lemma heap_root_least:
  "heap_ordered key n h \<Longrightarrow> k < n \<Longrightarrow> key (h ! 0) \<le> key (h ! k)"
proof (induction k rule: less_induct)
  case (less k)
  show ?case
  proof (cases "k = 0")
    case False
    then have "key (h ! 0) \<le> key (h ! parent k)" using less by simp
    also have "\<dots> \<le> key (h ! k)" using less.prems False by (simp add: heap_ordered_def)
    finally show ?thesis .
  qed simp
qed

lemma heap_Push_correct:
  assumes "is_heap key h"
  shows "is_heap key (heap_Push key x h)" and "mset (heap_Push key x h) = add_mset x (mset h)"
    and "length (heap_Push key x h) = Suc (length h)"
proof -
  have "ordered_but_up key (length (h @ [x])) (length h) (h @ [x])"
    using assms by (auto simp: ordered_but_up_def heap_ordered_def nth_append less_Suc_eq parent_iff)
  from heap_up_ordered[OF this] show "is_heap key (heap_Push key x h)"
    by (simp add: heap_Push_def)
qed (simp_all add: heap_Push_def heap_up_mset)

lemma mset_take_nth: "n < length h \<Longrightarrow> length h = Suc n \<Longrightarrow> mset h = add_mset (h ! n) (mset (take n h))"
  by (metis append.right_neutral drop_all id_take_nth_drop mset.simps(2) mset_append order.refl union_mset_add_mset_right mset_zero_iff add_0_right)

lemma heap_ordered_take: "heap_ordered key n h \<Longrightarrow> n \<le> length h \<Longrightarrow> is_heap key (take n h)"
  by (auto simp: heap_ordered_def)

lemma heap_Pop_correct:
  assumes "is_heap key h" and "h \<noteq> []" and "heap_Pop key h = (x, h')"
  shows "x = h ! 0" and "mset h = add_mset x (mset h')" and "is_heap key h'"
    and "length h = Suc (length h')"
proof -
  define n where "n = length h - 1"
  have n: "length h = Suc n" using assms(2) by (cases h) (auto simp: n_def)
  define g where "g = snd (down_loop key 0 n (Swap 0 n h))"
  have res: "x = g ! n" "h' = take n g"
    using assms(3) by (auto simp: heap_Pop_def heap_down_def g_def n_def Let_def split: prod.splits)
  have g: "length g = Suc n" "g ! n = h ! 0"
    using n by (simp_all add: g_def down_loop_beyond nth_Swap)
  have "ordered_but_down key n 0 (Swap 0 n h)"
    using assms(1) n by (auto simp: ordered_but_down_def heap_ordered_def nth_Swap)
  then have "heap_ordered key n g" unfolding g_def using n by (intro down_loop_ordered) auto
  then show "is_heap key h'" unfolding res by (rule heap_ordered_take) (simp add: g)
  show "x = h ! 0" by (simp add: res g)
  have "mset g = mset h" using n by (simp add: g_def down_loop_mset)
  then show "mset h = add_mset x (mset h')" using mset_take_nth[of n g] g by (simp add: res)
  show "length h = Suc (length h')" using n g by (simp add: res)
qed

lemma heap_ordered_but_up: "heap_ordered key n h \<Longrightarrow> ordered_but_up key n j h"
  unfolding heap_ordered_def ordered_but_up_def by (auto, meson order.strict_trans order_trans parent_less)

lemma sift_ordered:
  assumes inv: "heap_ordered key (Suc n) h" and i: "i < n" and len: "length h = Suc n"
    and g: "g = (let h = Swap i n h; (moved, h) = heap_down key i n h
                 in if \<not> moved then heap_up key i h else h)"
  shows "heap_ordered key n g"
proof -
  define h1 where "h1 = Swap i n h"
  have nth: "h1 ! k = (if k = i then h ! n else h ! k)" if "k < n" for k
    using that i len by (simp add: h1_def nth_Swap)
  have order: "key (h ! parent k) \<le> key (h ! k)" if "k < n" "0 < k" for k
    using inv that by (simp add: heap_ordered_def)
  have kids: "key (h ! parent i) \<le> key (h ! k)" if "k < n" "0 < k" "parent k = i" "0 < i" for k
    using order[of k] order[of i] that i by auto
  obtain j g1 where loop: "down_loop key i n h1 = (j, g1)" by fastforce
  have g': "g = (if \<not> i < j then heap_up key i g1 else g1)"
    using g loop by (simp add: heap_down_def h1_def Let_def)
  have len1: "length h1 = Suc n" "length g1 = Suc n"
    using len arg_cong[OF loop, of "\<lambda>p. length (snd p)"] by (simp_all add: h1_def)
  show ?thesis
  proof (cases "0 < i \<and> key (h1 ! i) < key (h1 ! parent i)")
    case True
    have "parent i \<noteq> i" using True by simp
    then have above: "key (h1 ! i) < key (h1 ! k)" if "k < n" "0 < k" "parent k = i" for k
      using True kids[OF that] nth[OF that(1)] nth[of "parent i"] i that parent_less[OF that(2)] by auto
    then have "down_loop key i n h1 = (i, h1)"
      by (subst down_loop.simps) (auto simp: Let_def Less_def parent_iff not_less intro: less_imp_le)
    with loop have g1: "j = i" "g1 = h1" by auto
    have "ordered_but_up key n i h1"
      unfolding ordered_but_up_def
    proof (intro conjI allI impI)
      fix k assume k: "k < n" "0 < k"
      { assume "k \<noteq> i"
        then show "key (h1 ! parent k) \<le> key (h1 ! k)"
          using order[OF k] above[OF k] nth[OF k(1)] nth[of "parent k"] k
          by (cases "parent k = i") (auto intro: less_imp_le) }
      { assume "parent k = i"
        then show "key (h1 ! parent i) \<le> key (h1 ! k)"
          using kids[OF k] True nth[OF k(1)] nth[of "parent i"] i parent_less[OF k(2)] by auto }
    qed
    then show ?thesis using g' g1 i len1 by (auto intro: heap_up_ordered)
  next
    case False
    have "ordered_but_down key n i h1"
      unfolding ordered_but_down_def
    proof (intro conjI allI impI)
      fix k assume k: "k < n" "0 < k" "parent k \<noteq> i"
      then show "key (h1 ! parent k) \<le> key (h1 ! k)"
        using order[OF k(1,2)] False nth[OF k(1)] nth[of "parent k"] by (cases "k = i") auto
    next
      fix k assume k: "k < n" "0 < k" "parent k = i" "0 < i"
      then show "key (h1 ! parent i) \<le> key (h1 ! k)"
        using kids[OF k] nth[OF k(1)] nth[of "parent i"] i parent_less[OF k(2)] by auto
    qed
    then have "heap_ordered key n g1"
      using down_loop_ordered[of key n i h1] loop i len1 by simp
    then show ?thesis
      using g' i len1 by (auto intro!: heap_up_ordered heap_ordered_but_up)
  qed
qed

lemma heap_Remove_correct:
  assumes "is_heap key h" and "i < length h" and "heap_Remove key i h = (x, h')"
  shows "x = h ! i" and "mset h = add_mset x (mset h')" and "is_heap key h'"
    and "length h = Suc (length h')"
proof -
  define n where "n = length h - 1"
  have n: "length h = Suc n" using assms(2) by (simp add: n_def)
  define g where "g = (if n \<noteq> i then
      (let h = Swap i n h; (moved, h) = heap_down key i n h
       in if \<not> moved then heap_up key i h else h) else h)"
  have res: "x = g ! n" "h' = take n g"
    using assms(3) by (auto simp: heap_Remove_def g_def n_def Let_def)
  have ord: "heap_ordered key (Suc n) h" using assms(1) by (simp add: n)
  have g: "length g = Suc n" "mset g = mset h" "g ! n = h ! i" "heap_ordered key n g"
  proof -
    have "length g = Suc n \<and> mset g = mset h \<and> g ! n = h ! i \<and> heap_ordered key n g"
    proof (cases "n = i")
      case True
      then show ?thesis using n ord by (simp add: g_def heap_ordered_def)
    next
      case False
      then have i: "i < n" using assms(2) n by simp
      have eq: "g = (let h = Swap i n h; (moved, h) = heap_down key i n h
         in if \<not> moved then heap_up key i h else h)" using False by (simp add: g_def)
      obtain j g1 where loop: "down_loop key i n (Swap i n h) = (j, g1)" by fastforce
      have "length g1 = Suc n" "mset g1 = mset h" "g1 ! n = h ! i"
        using arg_cong[OF loop, of "\<lambda>p. length (snd p)"] arg_cong[OF loop, of "\<lambda>p. mset (snd p)"]
          arg_cong[OF loop, of "\<lambda>p. snd p ! n"] n i
        by (simp_all add: down_loop_mset down_loop_beyond nth_Swap)
      moreover have "g = (if \<not> i < j then heap_up key i g1 else g1)"
        using eq loop by (simp add: heap_down_def Let_def)
      ultimately show ?thesis
        using sift_ordered[OF ord i n eq] i by (simp add: heap_up_mset heap_up_nth_above)
    qed
    then show "length g = Suc n" "mset g = mset h" "g ! n = h ! i" "heap_ordered key n g" by auto
  qed
  show "x = h ! i" by (simp add: res g)
  show "is_heap key h'" unfolding res by (rule heap_ordered_take[OF g(4)]) (simp add: g)
  show "mset h = add_mset x (mset h')" using mset_take_nth[of n g] g by (simp add: res)
  show "length h = Suc (length h')" using n g by (simp add: res)
qed

section \<open>What a queue relies on\<close>

text \<open>
  A priority queue on a slice: the invariant, the elements as a multiset, the front as an element
  of least key, and removal at an index.
\<close>

locale inbox_heap =
  fixes key :: "'a \<Rightarrow> int"
    and push :: "'a \<Rightarrow> 'a list \<Rightarrow> 'a list"
    and pop :: "'a list \<Rightarrow> 'a \<times> 'a list"
    and remove_at :: "nat \<Rightarrow> 'a list \<Rightarrow> 'a \<times> 'a list"
    and inv :: "'a list \<Rightarrow> bool"
  assumes inv_empty: "inv []"
    and push_inv: "inv h \<Longrightarrow> inv (push x h)"
    and push_mset: "inv h \<Longrightarrow> mset (push x h) = add_mset x (mset h)"
    and pop_front: "inv h \<Longrightarrow> h \<noteq> [] \<Longrightarrow> pop h = (x, h') \<Longrightarrow> x = h ! 0"
    and pop_inv: "inv h \<Longrightarrow> h \<noteq> [] \<Longrightarrow> pop h = (x, h') \<Longrightarrow> inv h'"
    and pop_mset: "inv h \<Longrightarrow> h \<noteq> [] \<Longrightarrow> pop h = (x, h') \<Longrightarrow> mset h = add_mset x (mset h')"
    and remove_nth: "inv h \<Longrightarrow> i < length h \<Longrightarrow> remove_at i h = (x, h') \<Longrightarrow> x = h ! i"
    and remove_inv: "inv h \<Longrightarrow> i < length h \<Longrightarrow> remove_at i h = (x, h') \<Longrightarrow> inv h'"
    and remove_mset: "inv h \<Longrightarrow> i < length h \<Longrightarrow> remove_at i h = (x, h') \<Longrightarrow> mset h = add_mset x (mset h')"
    and front_least: "inv h \<Longrightarrow> x \<in> set h \<Longrightarrow> key (h ! 0) \<le> key x"
begin

lemma push_set: "inv h \<Longrightarrow> set (push x h) = insert x (set h)"
  using push_mset[of h x] by (metis set_mset_add_mset_insert set_mset_mset)

lemma pop_oldest:
  assumes "inv h" and "h \<noteq> []" and "pop h = (x, h')"
  shows "x \<in> set h" and "\<forall>y \<in> set h. key x \<le> key y" and "set h' \<subseteq> set h"
proof -
  have "mset h = add_mset x (mset h')" by (rule pop_mset[OF assms])
  then have "set h = insert x (set h')" by (metis set_mset_add_mset_insert set_mset_mset)
  then show "x \<in> set h" and "set h' \<subseteq> set h" by auto
  show "\<forall>y \<in> set h. key x \<le> key y" using pop_front[OF assms] front_least[OF assms(1)] by simp
qed

lemma size_push: "inv h \<Longrightarrow> length (push x h) = Suc (length h)"
  by (metis push_mset size_add_mset size_mset)

lemma size_pop: "inv h \<Longrightarrow> h \<noteq> [] \<Longrightarrow> pop h = (x, h') \<Longrightarrow> length h = Suc (length h')"
  by (metis pop_mset size_add_mset size_mset)

lemma size_remove: "inv h \<Longrightarrow> i < length h \<Longrightarrow> remove_at i h = (x, h') \<Longrightarrow> length h = Suc (length h')"
  by (metis remove_mset size_add_mset size_mset)

end

interpretation go_heap: inbox_heap key "heap_Push key" "heap_Pop key" "heap_Remove key" "is_heap key"
  for key :: "'a \<Rightarrow> int"
proof
  show "is_heap key []" by (simp add: heap_ordered_def)
  fix h :: "'a list" and x
  assume "is_heap key h" "x \<in> set h"
  then show "key (h ! 0) \<le> key x" by (metis heap_root_least in_set_conv_nth)
qed (fact heap_Push_correct heap_Pop_correct heap_Remove_correct)+

end
