(* ===== verification/Queues.thy ===== *)
theory Queues
  imports GoHeap
begin

text \<open>
  The block queues of the deficit round robin scheduler
  (\<open>pkg/protocol/engine/congestioncontrol/scheduler/drr/issuerqueue.go\<close> and \<open>validatorqueue.go\<close>):
  blocks wait as submitted and, once their parents are eligible, as ready in a heap ordered by
  issuing time. A shrinking map is the list of its values in the order \<open>ForEach\<close> visits them; every
  statement holds for every such order. A panic is \<open>None\<close>.
\<close>

section \<open>Blocks as the scheduler sees them\<close>

text \<open>Issuing times are nanoseconds.\<close>

record block =
  ID :: block_id
  IssuerID :: account_id
  IssuingTime :: int
  WorkScore :: work_score
  IsValidationBlock :: bool
  Parents :: "block_id list"

text \<open>
  The submitted blocks by ID: \<open>Get\<close>, \<open>Set\<close> of a new key and \<open>Delete\<close>. The list is one of the orders in which Go
  may iterate over the map.
\<close>

definition submittedHas :: "block_id \<Rightarrow> block list \<Rightarrow> bool" where
  "submittedHas i bs \<longleftrightarrow> i \<in> ID ` set bs"

definition submittedDelete :: "block_id \<Rightarrow> block list \<Rightarrow> block list" where
  "submittedDelete i bs = filter (\<lambda>b. ID b \<noteq> i) bs"

text \<open>The loop over the submitted blocks at the start of \<open>RemoveTail\<close>.\<close>

definition oldestSubmitted :: "block list \<Rightarrow> block option" where
  "oldestSubmitted bs =
     fold (\<lambda>b old. case old of
             None \<Rightarrow> Some b
           | Some old \<Rightarrow> if IssuingTime b < IssuingTime old then Some b else Some old) bs None"

text \<open>The newest ready block, the last one among equals; \<open>None\<close> is the index -1.\<close>

definition tail :: "block list \<Rightarrow> nat option" where
  "tail h =
     (if length h = 0 then None
      else Some (fold (\<lambda>i tail. if \<not> Less IssuingTime h i tail then i else tail) [0..<length h] 0))"

section \<open>\<open>IssuerQueue\<close>\<close>

record IssuerQueue =
  issuerID :: account_id
  submitted :: "block list"
  inbox :: "block list"
  qsize :: i64
  work :: i64

definition NewIssuerQueue :: "account_id \<Rightarrow> IssuerQueue" where
  "NewIssuerQueue issuer = \<lparr>issuerID = issuer, submitted = [], inbox = [], qsize = 0, work = 0\<rparr>"

definition IssuerQueue_Size :: "IssuerQueue option \<Rightarrow> int" where
  "IssuerQueue_Size q = (case q of None \<Rightarrow> 0 | Some q \<Rightarrow> sint (qsize q))"

definition IssuerQueue_Work :: "IssuerQueue option \<Rightarrow> work_score" where
  "IssuerQueue_Work q = (case q of None \<Rightarrow> 0 | Some q \<Rightarrow> ucast (work q))"

definition IssuerQueue_Submit :: "block \<Rightarrow> IssuerQueue \<Rightarrow> (bool \<times> IssuerQueue) option" where
  "IssuerQueue_Submit b q =
     (if issuerID q \<noteq> IssuerID b then None
      else if submittedHas (ID b) (submitted q) then Some (False, q)
      else Some (True, q\<lparr>submitted := submitted q @ [b], qsize := qsize q + 1,
                         work := work q + ucast (WorkScore b)\<rparr>))"

definition IssuerQueue_Unsubmit :: "block \<Rightarrow> IssuerQueue \<Rightarrow> bool \<times> IssuerQueue" where
  "IssuerQueue_Unsubmit b q =
     (if \<not> submittedHas (ID b) (submitted q) then (False, q)
      else (True, q\<lparr>submitted := submittedDelete (ID b) (submitted q), qsize := qsize q - 1,
                    work := work q - ucast (WorkScore b)\<rparr>))"

definition IssuerQueue_Ready :: "block \<Rightarrow> IssuerQueue \<Rightarrow> bool \<times> IssuerQueue" where
  "IssuerQueue_Ready b q =
     (if \<not> submittedHas (ID b) (submitted q) then (False, q)
      else (True, q\<lparr>submitted := submittedDelete (ID b) (submitted q),
                    inbox := heap_Push IssuingTime b (inbox q)\<rparr>))"

definition IssuerQueue_IDs :: "IssuerQueue \<Rightarrow> block_id list" where
  "IssuerQueue_IDs q = map ID (submitted q) @ map ID (inbox q)"

definition IssuerQueue_Front :: "IssuerQueue option \<Rightarrow> block option" where
  "IssuerQueue_Front q =
     (case q of None \<Rightarrow> None | Some q \<Rightarrow> if length (inbox q) = 0 then None else Some (inbox q ! 0))"

definition IssuerQueue_PopFront :: "IssuerQueue \<Rightarrow> block option \<times> IssuerQueue" where
  "IssuerQueue_PopFront q =
     (if length (inbox q) = 0 then (None, q)
      else let (blk, h) = heap_Pop IssuingTime (inbox q)
           in (Some blk, q\<lparr>inbox := h, qsize := qsize q - 1, work := work q - ucast (WorkScore blk)\<rparr>))"

definition IssuerQueue_dropInboxTail :: "nat \<Rightarrow> IssuerQueue \<Rightarrow> block option \<times> IssuerQueue" where
  "IssuerQueue_dropInboxTail t q =
     (let (blk, h) = heap_Remove IssuingTime t (inbox q)
      in (Some blk, q\<lparr>inbox := h, qsize := qsize q - 1, work := work q - ucast (WorkScore blk)\<rparr>))"

definition IssuerQueue_RemoveTail :: "IssuerQueue \<Rightarrow> block option \<times> IssuerQueue" where
  "IssuerQueue_RemoveTail q =
     (case (oldestSubmitted (submitted q), tail (inbox q)) of
        (Some oldest, None) \<Rightarrow> (Some oldest, snd (IssuerQueue_Unsubmit oldest q))
      | (Some oldest, Some t) \<Rightarrow>
          if IssuingTime (inbox q ! t) > IssuingTime oldest
          then (Some oldest, snd (IssuerQueue_Unsubmit oldest q))
          else IssuerQueue_dropInboxTail t q
      | (None, None) \<Rightarrow> (None, q)
      | (None, Some t) \<Rightarrow> IssuerQueue_dropInboxTail t q)"

section \<open>\<open>ValidatorQueue\<close>\<close>

text \<open>The token bucket and the channels of the queue are part of the scheduling loop.\<close>

record ValidatorQueue =
  accountID :: account_id
  vsubmitted :: "block list"
  vinbox :: "block list"
  vsize :: i64
  vblockChan :: "block option"

definition NewValidatorQueue :: "account_id \<Rightarrow> ValidatorQueue" where
  "NewValidatorQueue account = \<lparr>accountID = account, vsubmitted = [], vinbox = [], vsize = 0, vblockChan = None\<rparr>"

definition ValidatorQueue_Size :: "ValidatorQueue option \<Rightarrow> int" where
  "ValidatorQueue_Size q = (case q of None \<Rightarrow> 0 | Some q \<Rightarrow> sint (vsize q))"

definition ValidatorQueue_Unsubmit :: "block \<Rightarrow> ValidatorQueue \<Rightarrow> bool \<times> ValidatorQueue" where
  "ValidatorQueue_Unsubmit b q =
     (if \<not> submittedHas (ID b) (vsubmitted q) then (False, q)
      else (True, q\<lparr>vsubmitted := submittedDelete (ID b) (vsubmitted q), vsize := vsize q - 1\<rparr>))"

definition ValidatorQueue_Ready :: "block \<Rightarrow> ValidatorQueue \<Rightarrow> bool \<times> ValidatorQueue" where
  "ValidatorQueue_Ready b q =
     (if \<not> submittedHas (ID b) (vsubmitted q) then (False, q)
      else (True, q\<lparr>vsubmitted := submittedDelete (ID b) (vsubmitted q),
                    vinbox := heap_Push IssuingTime b (vinbox q)\<rparr>))"

definition ValidatorQueue_PopFront :: "ValidatorQueue \<Rightarrow> block option \<times> ValidatorQueue" where
  "ValidatorQueue_PopFront q =
     (if length (vinbox q) = 0 then (None, q)
      else let (blk, h) = heap_Pop IssuingTime (vinbox q)
           in (Some blk, q\<lparr>vinbox := h, vsize := vsize q - 1\<rparr>))"

definition ValidatorQueue_dropInboxTail :: "nat \<Rightarrow> ValidatorQueue \<Rightarrow> block option \<times> ValidatorQueue" where
  "ValidatorQueue_dropInboxTail t q =
     (let (blk, h) = heap_Remove IssuingTime t (vinbox q)
      in (Some blk, q\<lparr>vinbox := h, vsize := vsize q - 1\<rparr>))"

definition ValidatorQueue_RemoveTail :: "ValidatorQueue \<Rightarrow> block option \<times> ValidatorQueue" where
  "ValidatorQueue_RemoveTail q =
     (case (oldestSubmitted (vsubmitted q), tail (vinbox q)) of
        (Some oldest, None) \<Rightarrow> (Some oldest, snd (ValidatorQueue_Unsubmit oldest q))
      | (Some oldest, Some t) \<Rightarrow>
          if IssuingTime (vinbox q ! t) > IssuingTime oldest
          then (Some oldest, snd (ValidatorQueue_Unsubmit oldest q))
          else ValidatorQueue_dropInboxTail t q
      | (None, None) \<Rightarrow> (None, q)
      | (None, Some t) \<Rightarrow> ValidatorQueue_dropInboxTail t q)"

definition ValidatorQueue_Submit ::
  "block \<Rightarrow> int \<Rightarrow> ValidatorQueue \<Rightarrow> ((block option \<times> bool) \<times> ValidatorQueue) option" where
  "ValidatorQueue_Submit b maxBuffer q =
     (if accountID q \<noteq> IssuerID b then None
      else if submittedHas (ID b) (vsubmitted q) then Some ((None, False), q)
      else
        let q = q\<lparr>vsubmitted := vsubmitted q @ [b], vsize := vsize q + 1\<rparr> in
        if sint (vsize q) > maxBuffer then
          let (dropped, q) = ValidatorQueue_RemoveTail q in Some ((dropped, True), q)
        else Some ((None, True), q))"

section \<open>\<open>ValidatorBuffer\<close>\<close>

record ValidatorBuffer =
  buffer :: "account_id \<rightharpoonup> ValidatorQueue"
  bsize :: int

definition NewValidatorBuffer :: ValidatorBuffer where
  "NewValidatorBuffer = \<lparr>buffer = Map.empty, bsize = 0\<rparr>"

definition ValidatorBuffer_Set :: "account_id \<Rightarrow> ValidatorQueue \<Rightarrow> ValidatorBuffer \<Rightarrow> ValidatorBuffer" where
  "ValidatorBuffer_Set account q b = b\<lparr>buffer := (buffer b)(account \<mapsto> q)\<rparr>"

definition ValidatorBuffer_Submit ::
  "block \<Rightarrow> int \<Rightarrow> ValidatorBuffer \<Rightarrow> ((block option \<times> bool) \<times> ValidatorBuffer) option" where
  "ValidatorBuffer_Submit blk maxBuffer b =
     (case buffer b (IssuerID blk) of
        None \<Rightarrow> Some ((None, False), b)
      | Some validatorQueue \<Rightarrow>
          (case ValidatorQueue_Submit blk maxBuffer validatorQueue of
             None \<Rightarrow> None
           | Some ((droppedBlock, wasSubmitted), q) \<Rightarrow>
               let b = b\<lparr>buffer := (buffer b)(IssuerID blk \<mapsto> q)\<rparr>;
                   b = (if wasSubmitted then b\<lparr>bsize := bsize b + 1\<rparr> else b);
                   b = (if droppedBlock \<noteq> None then b\<lparr>bsize := bsize b - 1\<rparr> else b)
               in Some ((droppedBlock, wasSubmitted), b)))"

definition ValidatorBuffer_Delete :: "account_id \<Rightarrow> ValidatorBuffer \<Rightarrow> ValidatorBuffer" where
  "ValidatorBuffer_Delete account b =
     (case buffer b account of
        None \<Rightarrow> b
      | Some q \<Rightarrow> b\<lparr>bsize := bsize b - ValidatorQueue_Size (Some q), buffer := (buffer b)(account := None)\<rparr>)"

section \<open>The oldest submitted and the newest ready block\<close>

lemma oldestSubmitted_fold:
  "fold (\<lambda>b old. case old of None \<Rightarrow> Some b
           | Some old \<Rightarrow> if IssuingTime b < IssuingTime old then Some b else Some old) bs (Some x) = Some y \<Longrightarrow>
   y \<in> insert x (set bs) \<and> (\<forall>b \<in> insert x (set bs). IssuingTime y \<le> IssuingTime b)"
proof (induction bs arbitrary: x)
  case (Cons b bs)
  let ?x = "if IssuingTime b < IssuingTime x then b else x"
  from Cons.prems have "y \<in> insert ?x (set bs) \<and> (\<forall>b \<in> insert ?x (set bs). IssuingTime y \<le> IssuingTime b)"
    by (intro Cons.IH) (simp split: if_splits)
  then show ?case by (auto split: if_splits)
qed simp

lemma fold_oldest_Some:
  "\<exists>y. fold (\<lambda>b old. case old of None \<Rightarrow> Some b
           | Some old \<Rightarrow> if IssuingTime b < IssuingTime old then Some b else Some old) bs (Some x) = Some y"
  by (induction bs arbitrary: x) auto

lemma oldestSubmitted_None [simp]: "oldestSubmitted bs = None \<longleftrightarrow> bs = []"
  using fold_oldest_Some by (cases bs) (force simp: oldestSubmitted_def)+

lemma oldestSubmitted_Some:
  assumes "oldestSubmitted bs = Some y"
  shows "y \<in> set bs" and "\<forall>b \<in> set bs. IssuingTime y \<le> IssuingTime b"
proof -
  obtain x xs where bs: "bs = x # xs" using assms by (cases bs) (auto simp: oldestSubmitted_def)
  with assms oldestSubmitted_fold[of xs x y]
  show "y \<in> set bs" and "\<forall>b \<in> set bs. IssuingTime y \<le> IssuingTime b"
    by (auto simp: oldestSubmitted_def)
qed

lemma tail_None [simp]: "tail h = None \<longleftrightarrow> h = []"
  by (simp add: tail_def)

lemma tail_oldest_Nil [simp]: "tail [] = None" "oldestSubmitted [] = None"
  by simp_all

lemma tail_fold:
  "fold (\<lambda>i t. if \<not> Less IssuingTime h i t then i else t) is s \<in> insert s (set is) \<and>
   (\<forall>i \<in> insert s (set is). IssuingTime (h ! i) \<le>
      IssuingTime (h ! fold (\<lambda>i t. if \<not> Less IssuingTime h i t then i else t) is s))"
proof (induction "is" arbitrary: s)
  case (Cons i "is")
  let ?s = "if \<not> Less IssuingTime h i s then i else s"
  from Cons.IH[of ?s] show ?case by (auto simp: Less_def split: if_splits)
qed simp

lemma tail_Some:
  assumes "tail h = Some t"
  shows "t < length h" and "\<forall>b \<in> set h. IssuingTime b \<le> IssuingTime (h ! t)"
proof -
  from assms have h: "h \<noteq> []"
    and t: "t = fold (\<lambda>i t. if \<not> Less IssuingTime h i t then i else t) [0..<length h] 0"
    by (auto simp: tail_def split: if_splits)
  from tail_fold[of h "[0..<length h]" 0] h show "t < length h" unfolding t[symmetric] by auto
  from tail_fold[of h "[0..<length h]" 0] have "\<forall>i < length h. IssuingTime (h ! i) \<le> IssuingTime (h ! t)"
    unfolding t[symmetric] by simp
  then show "\<forall>b \<in> set h. IssuingTime b \<le> IssuingTime (h ! t)" by (metis in_set_conv_nth)
qed

section \<open>The submitted blocks as a multiset\<close>

lemma filter_absent_ID: "i \<notin> ID ` set bs \<Longrightarrow> filter (\<lambda>b. ID b \<noteq> i) bs = bs"
  by (induction bs) auto

lemma submittedDelete_mset:
  assumes "distinct (map ID bs)" and "b \<in> set bs"
  shows "mset bs = add_mset b (mset (submittedDelete (ID b) bs))"
proof -
  obtain xs ys where bs: "bs = xs @ b # ys" using assms(2) by (meson split_list)
  then have "ID b \<notin> ID ` set xs" "ID b \<notin> ID ` set ys" using assms(1) by auto
  then have "submittedDelete (ID b) bs = xs @ ys"
    by (simp add: bs submittedDelete_def filter_absent_ID)
  then show ?thesis by (simp add: bs)
qed

lemma submittedDelete_distinct:
  "distinct (map ID bs) \<Longrightarrow> distinct (map ID (submittedDelete i bs))"
  by (simp add: submittedDelete_def distinct_map_filter)

lemma set_submittedDelete [simp]: "set (submittedDelete i bs) = {b \<in> set bs. ID b \<noteq> i}"
  by (auto simp: submittedDelete_def)

lemma submittedHas_in:
  assumes "inj_on ID U" and "set bs \<subseteq> U" and "b \<in> U"
  shows "submittedHas (ID b) bs \<longleftrightarrow> b \<in> set bs"
  using assms by (auto simp: submittedHas_def inj_on_def)

section \<open>The contract of a block queue\<close>

datatype queue_op = QSubmit block | QUnsubmit block | QReady block | QPopFront | QRemoveTail

text \<open>
  One operation on a queue, with the blocks that have entered and the blocks that have left it so
  far. A submission may drop a block to make room.
\<close>

definition leave :: "block option \<Rightarrow> block multiset \<Rightarrow> block multiset" where
  "leave b out = (case b of None \<Rightarrow> out | Some b \<Rightarrow> add_mset b out)"

fun queue_step ::
  "(block \<Rightarrow> 'q \<Rightarrow> ((block option \<times> bool) \<times> 'q) option) \<Rightarrow> (block \<Rightarrow> 'q \<Rightarrow> bool \<times> 'q) \<Rightarrow>
   (block \<Rightarrow> 'q \<Rightarrow> bool \<times> 'q) \<Rightarrow> ('q \<Rightarrow> block option \<times> 'q) \<Rightarrow> ('q \<Rightarrow> block option \<times> 'q) \<Rightarrow>
   queue_op \<Rightarrow> 'q \<times> block multiset \<times> block multiset \<Rightarrow> ('q \<times> block multiset \<times> block multiset) option" where
  "queue_step submit unsubmit ready pop dropTail (QSubmit b) (q, inn, out) =
     map_option (\<lambda>((dropped, r), q). (q, if r then add_mset b inn else inn, leave dropped out)) (submit b q)"
| "queue_step submit unsubmit ready pop dropTail (QUnsubmit b) (q, inn, out) =
     (let (r, q) = unsubmit b q in Some (q, inn, if r then add_mset b out else out))"
| "queue_step submit unsubmit ready pop dropTail (QReady b) (q, inn, out) = Some (snd (ready b q), inn, out)"
| "queue_step submit unsubmit ready pop dropTail QPopFront (q, inn, out) =
     (let (b, q) = pop q in Some (q, inn, leave b out))"
| "queue_step submit unsubmit ready pop dropTail QRemoveTail (q, inn, out) =
     (let (b, q) = dropTail q in Some (q, inn, leave b out))"

fun op_blocks :: "queue_op \<Rightarrow> block set" where
  "op_blocks (QSubmit b) = {b}"
| "op_blocks (QUnsubmit b) = {b}"
| "op_blocks (QReady b) = {b}"
| "op_blocks QPopFront = {}"
| "op_blocks QRemoveTail = {}"

fun run_opt :: "('a \<Rightarrow> 's \<Rightarrow> 's option) \<Rightarrow> 'a list \<Rightarrow> 's \<Rightarrow> 's option" where
  "run_opt f [] s = Some s"
| "run_opt f (x # xs) s = (case f x s of None \<Rightarrow> None | Some s \<Rightarrow> run_opt f xs s)"

locale block_queue =
  fixes ok :: "block set \<Rightarrow> 'q \<Rightarrow> bool" and content :: "'q \<Rightarrow> block multiset"
    and submit :: "block \<Rightarrow> 'q \<Rightarrow> ((block option \<times> bool) \<times> 'q) option"
    and unsubmit :: "block \<Rightarrow> 'q \<Rightarrow> bool \<times> 'q" and ready :: "block \<Rightarrow> 'q \<Rightarrow> bool \<times> 'q"
    and pop_front :: "'q \<Rightarrow> block option \<times> 'q" and remove_tail :: "'q \<Rightarrow> block option \<times> 'q"
  assumes submit_law: "inj_on ID U \<Longrightarrow> ok U q \<Longrightarrow> b \<in> U \<Longrightarrow> submit b q = Some ((d, r), q') \<Longrightarrow>
        ok U q' \<and> leave d (content q') = (if r then add_mset b (content q) else content q)"
    and unsubmit_law: "inj_on ID U \<Longrightarrow> ok U q \<Longrightarrow> b \<in> U \<Longrightarrow> unsubmit b q = (r, q') \<Longrightarrow>
        ok U q' \<and> content q = (if r then add_mset b (content q') else content q')"
    and ready_law: "inj_on ID U \<Longrightarrow> ok U q \<Longrightarrow> b \<in> U \<Longrightarrow> ready b q = (r, q') \<Longrightarrow>
        ok U q' \<and> content q' = content q"
    and pop_law: "ok U q \<Longrightarrow> pop_front q = (d, q') \<Longrightarrow> ok U q' \<and> content q = leave d (content q')"
    and remove_law: "ok U q \<Longrightarrow> remove_tail q = (d, q') \<Longrightarrow>
        ok U q' \<and> content q = leave d (content q') \<and> (d = None \<longrightarrow> content q = {#})"
begin

abbreviation step where
  "step \<equiv> queue_step submit unsubmit ready pop_front remove_tail"

lemma leave_move: "leave d M + N = M + leave d N"
  by (auto simp: leave_def split: option.splits)

lemma step_conserves:
  assumes U: "inj_on ID U" "op_blocks a \<subseteq> U" and ok: "ok U q" and bal: "inn = content q + out"
    and step: "step a (q, inn, out) = Some (q', inn', out')"
  shows "ok U q' \<and> inn' = content q' + out'"
proof (cases a)
  case (QSubmit b)
  then obtain d r where s: "submit b q = Some ((d, r), q')"
    and io: "inn' = (if r then add_mset b inn else inn)" "out' = leave d out"
    using step by auto
  from submit_law[OF U(1) ok _ s] QSubmit U(2)
  have "ok U q' \<and> leave d (content q') = (if r then add_mset b (content q) else content q)" by simp
  then show ?thesis using io bal by (auto simp: leave_move[symmetric] split: if_splits)
next
  case (QUnsubmit b)
  then show ?thesis
    using step bal U(2) unsubmit_law[OF U(1) ok, of b] by (auto simp: Let_def split: prod.splits if_splits)
next
  case (QReady b)
  then show ?thesis
    using step bal U(2) ready_law[OF U(1) ok, of b] by (cases "ready b q") auto
next
  case QPopFront
  then show ?thesis
    using step bal pop_law[OF ok] by (auto simp: leave_move Let_def split: prod.splits)
next
  case QRemoveTail
  then show ?thesis
    using step bal remove_law[OF ok] by (auto simp: leave_move Let_def split: prod.splits)
qed

lemma run_conserves:
  assumes "inj_on ID U" and "\<forall>a \<in> set as. op_blocks a \<subseteq> U" and "ok U q" and "inn = content q + out"
    and "run_opt step as (q, inn, out) = Some (q', inn', out')"
  shows "ok U q' \<and> inn' = content q' + out'"
  using assms
proof (induction as arbitrary: q inn out)
  case (Cons a as)
  then obtain q1 inn1 out1 where s: "step a (q, inn, out) = Some (q1, inn1, out1)"
    and r: "run_opt step as (q1, inn1, out1) = Some (q', inn', out')"
    by (auto split: option.splits)
  from step_conserves[OF Cons.prems(1) _ Cons.prems(3,4) s] Cons.prems(2)
  have "ok U q1" "inn1 = content q1 + out1" by auto
  then show ?case using Cons.IH[OF Cons.prems(1) _ _ _ r] Cons.prems(2) by simp
qed simp

end

section \<open>\<open>IssuerQueue\<close> keeps the contract\<close>

definition iq_content :: "IssuerQueue \<Rightarrow> block multiset" where
  "iq_content q = mset (submitted q) + mset (inbox q)"

text \<open>The counters are the number and the work of the blocks, at the width of the counters.\<close>

definition iq_ok :: "block set \<Rightarrow> IssuerQueue \<Rightarrow> bool" where
  "iq_ok U q \<longleftrightarrow>
     distinct (map ID (submitted q)) \<and> is_heap IssuingTime (inbox q) \<and>
     set_mset (iq_content q) \<subseteq> {b \<in> U. IssuerID b = issuerID q} \<and>
     qsize q = word_of_nat (size (iq_content q)) \<and>
     work q = (\<Sum>b \<in># iq_content q. ucast (WorkScore b))"

lemma iq_ok_New: "iq_ok U (NewIssuerQueue issuer)"
  by (simp add: iq_ok_def iq_content_def NewIssuerQueue_def heap_ordered_def)

lemma iq_Submit:
  assumes "inj_on ID U" and "iq_ok U q" and "b \<in> U" and "IssuerQueue_Submit b q = Some (r, q')"
  shows "iq_ok U q' \<and> iq_content q' = (if r then add_mset b (iq_content q) else iq_content q)"
proof (cases "b \<in> set (submitted q)")
  case True
  then have "r = False \<and> q' = q"
    using assms(4) by (auto simp: IssuerQueue_Submit_def submittedHas_def split: if_splits)
  then show ?thesis using assms(2) by simp
next
  case False
  have "\<not> submittedHas (ID b) (submitted q)"
    using False submittedHas_in[OF assms(1) _ assms(3), of "submitted q"] assms(2)
    by (auto simp: iq_ok_def iq_content_def)
  then show ?thesis using assms
    by (auto simp: iq_ok_def iq_content_def IssuerQueue_Submit_def submittedHas_def algebra_simps
        split: if_splits)
qed

lemma iq_submitted_iff:
  assumes "inj_on ID U" and "iq_ok U q" and "b \<in> U"
  shows "submittedHas (ID b) (submitted q) \<longleftrightarrow> b \<in> set (submitted q)"
  using submittedHas_in[OF assms(1) _ assms(3), of "submitted q"] assms(2)
  by (auto simp: iq_ok_def iq_content_def)

lemma iq_ok_removed:
  assumes "iq_ok U q" and "iq_content q = add_mset b (iq_content q')" and "issuerID q' = issuerID q"
    and "qsize q' = qsize q - 1" and "work q' = work q - ucast (WorkScore b)"
    and "distinct (map ID (submitted q'))" and "is_heap IssuingTime (inbox q')"
  shows "iq_ok U q'"
  using assms by (auto simp: iq_ok_def)

lemma iq_Unsubmit_in:
  assumes "iq_ok U q" and "b \<in> set (submitted q)" and "IssuerQueue_Unsubmit b q = (r, q')"
  shows "r \<and> iq_ok U q' \<and> iq_content q = add_mset b (iq_content q')"
proof -
  have m: "mset (submitted q) = add_mset b (mset (submittedDelete (ID b) (submitted q)))"
    using assms(1,2) by (intro submittedDelete_mset) (auto simp: iq_ok_def)
  from assms(2,3) have q': "r" "q' = q\<lparr>submitted := submittedDelete (ID b) (submitted q),
      qsize := qsize q - 1, work := work q - ucast (WorkScore b)\<rparr>"
    by (auto simp: IssuerQueue_Unsubmit_def submittedHas_def split: if_splits)
  have c: "iq_content q = add_mset b (iq_content q')" by (simp add: iq_content_def q' m)
  have "iq_ok U q'"
    by (rule iq_ok_removed[OF assms(1) c]) (use assms(1) q' in \<open>simp_all add: iq_ok_def submittedDelete_distinct\<close>)
  with c q'(1) show ?thesis by blast
qed

lemma iq_Unsubmit:
  assumes "inj_on ID U" and "iq_ok U q" and "b \<in> U" and "IssuerQueue_Unsubmit b q = (r, q')"
  shows "iq_ok U q' \<and> iq_content q = (if r then add_mset b (iq_content q') else iq_content q')"
proof (cases "b \<in> set (submitted q)")
  case True
  with iq_Unsubmit_in[OF assms(2) True assms(4)] show ?thesis by simp
next
  case False
  then show ?thesis using assms iq_submitted_iff[OF assms(1-3)] by (simp add: IssuerQueue_Unsubmit_def)
qed

lemma iq_Ready:
  assumes "inj_on ID U" and "iq_ok U q" and "b \<in> U" and "IssuerQueue_Ready b q = (r, q')"
  shows "iq_ok U q' \<and> iq_content q' = iq_content q"
proof (cases "b \<in> set (submitted q)")
  case True
  have m: "mset (submitted q) = add_mset b (mset (submittedDelete (ID b) (submitted q)))"
    using assms(2) True by (intro submittedDelete_mset) (auto simp: iq_ok_def)
  have heap: "is_heap IssuingTime (inbox q)" using assms(2) by (simp add: iq_ok_def)
  have q': "q' = q\<lparr>submitted := submittedDelete (ID b) (submitted q), inbox := heap_Push IssuingTime b (inbox q)\<rparr>"
    using assms(4) True by (auto simp: IssuerQueue_Ready_def submittedHas_def split: if_splits)
  have c: "iq_content q' = iq_content q" by (simp add: iq_content_def q' m go_heap.push_mset[OF heap])
  then show ?thesis
    using assms(2) go_heap.push_inv[OF heap] by (auto simp: iq_ok_def q' submittedDelete_distinct)
next
  case False
  then show ?thesis using assms iq_submitted_iff[OF assms(1-3)] by (simp add: IssuerQueue_Ready_def)
qed

lemma iq_take_inbox:
  assumes "iq_ok U q" and "mset (inbox q) = add_mset b (mset h)" and "is_heap IssuingTime h"
    and "q' = q\<lparr>inbox := h, qsize := qsize q - 1, work := work q - ucast (WorkScore b)\<rparr>"
  shows "iq_ok U q' \<and> iq_content q = add_mset b (iq_content q')"
proof -
  have c: "iq_content q = add_mset b (iq_content q')" by (simp add: iq_content_def assms(2,4))
  have "iq_ok U q'"
    by (rule iq_ok_removed[OF assms(1) c]) (use assms in \<open>simp_all add: iq_ok_def\<close>)
  with c show ?thesis by blast
qed

lemma iq_PopFront:
  assumes "iq_ok U q" and "IssuerQueue_PopFront q = (d, q')"
  shows "iq_ok U q' \<and> iq_content q = leave d (iq_content q')"
proof (cases "inbox q = []")
  case True
  then show ?thesis using assms by (simp add: IssuerQueue_PopFront_def leave_def)
next
  case False
  have heap: "is_heap IssuingTime (inbox q)" using assms(1) by (simp add: iq_ok_def)
  obtain b h where p: "heap_Pop IssuingTime (inbox q) = (b, h)" by fastforce
  with False assms(2) have "d = Some b"
    "q' = q\<lparr>inbox := h, qsize := qsize q - 1, work := work q - ucast (WorkScore b)\<rparr>"
    by (auto simp: IssuerQueue_PopFront_def)
  with iq_take_inbox[OF assms(1) go_heap.pop_mset[OF heap False p] go_heap.pop_inv[OF heap False p]]
  show ?thesis by (simp add: leave_def)
qed

lemma iq_dropInboxTail:
  assumes "iq_ok U q" and "tail (inbox q) = Some t" and "IssuerQueue_dropInboxTail t q = (d, q')"
  shows "d = Some (inbox q ! t) \<and> iq_ok U q' \<and> iq_content q = leave d (iq_content q')"
proof -
  have heap: "is_heap IssuingTime (inbox q)" using assms(1) by (simp add: iq_ok_def)
  have t: "t < length (inbox q)" by (rule tail_Some(1)[OF assms(2)])
  obtain b h where p: "heap_Remove IssuingTime t (inbox q) = (b, h)" by fastforce
  with assms(3) have "d = Some b"
    "q' = q\<lparr>inbox := h, qsize := qsize q - 1, work := work q - ucast (WorkScore b)\<rparr>"
    by (auto simp: IssuerQueue_dropInboxTail_def)
  with iq_take_inbox[OF assms(1) go_heap.remove_mset[OF heap t p] go_heap.remove_inv[OF heap t p]]
    go_heap.remove_nth[OF heap t p] show ?thesis by (simp add: leave_def)
qed

lemma IssuerQueue_RemoveTail_cases:
  "(\<exists>old. oldestSubmitted (submitted q) = Some old \<and>
      IssuerQueue_RemoveTail q = (Some old, snd (IssuerQueue_Unsubmit old q)) \<and>
      (\<forall>t. tail (inbox q) = Some t \<longrightarrow> IssuingTime old < IssuingTime (inbox q ! t))) \<or>
   (\<exists>t. tail (inbox q) = Some t \<and> IssuerQueue_RemoveTail q = IssuerQueue_dropInboxTail t q \<and>
      (\<forall>old. oldestSubmitted (submitted q) = Some old \<longrightarrow> IssuingTime (inbox q ! t) \<le> IssuingTime old)) \<or>
   (submitted q = [] \<and> inbox q = [] \<and> IssuerQueue_RemoveTail q = (None, q))"
  by (cases "oldestSubmitted (submitted q)"; cases "tail (inbox q)")
     (auto simp: IssuerQueue_RemoveTail_def)

lemma iq_RemoveTail:
  assumes "iq_ok U q" and "IssuerQueue_RemoveTail q = (d, q')"
  shows "iq_ok U q' \<and> iq_content q = leave d (iq_content q') \<and> (d = None \<longrightarrow> iq_content q = {#})"
  using IssuerQueue_RemoveTail_cases[of q]
proof (elim disjE exE conjE)
  fix old assume old: "oldestSubmitted (submitted q) = Some old"
    "IssuerQueue_RemoveTail q = (Some old, snd (IssuerQueue_Unsubmit old q))"
  obtain r q1 where u: "IssuerQueue_Unsubmit old q = (r, q1)" by fastforce
  with iq_Unsubmit_in[OF assms(1) oldestSubmitted_Some(1)[OF old(1)] u] old assms(2)
  show ?thesis by (auto simp: leave_def)
next
  fix t assume "tail (inbox q) = Some t" "IssuerQueue_RemoveTail q = IssuerQueue_dropInboxTail t q"
  with iq_dropInboxTail[OF assms(1)] assms(2) show ?thesis by auto
next
  assume "submitted q = []" "inbox q = []" "IssuerQueue_RemoveTail q = (None, q)"
  with assms show ?thesis by (simp add: leave_def iq_content_def)
qed

interpretation issuer_queue: block_queue iq_ok iq_content
  "\<lambda>b q. map_option (\<lambda>(r, q). ((None, r), q)) (IssuerQueue_Submit b q)"
  IssuerQueue_Unsubmit IssuerQueue_Ready IssuerQueue_PopFront IssuerQueue_RemoveTail
  by unfold_locales (auto simp: leave_def dest: iq_Submit iq_Unsubmit iq_Ready iq_PopFront iq_RemoveTail)

section \<open>\<open>ValidatorQueue\<close> keeps the contract\<close>

definition vq_content :: "ValidatorQueue \<Rightarrow> block multiset" where
  "vq_content q = mset (vsubmitted q) + mset (vinbox q)"

definition vq_ok :: "block set \<Rightarrow> ValidatorQueue \<Rightarrow> bool" where
  "vq_ok U q \<longleftrightarrow>
     distinct (map ID (vsubmitted q)) \<and> is_heap IssuingTime (vinbox q) \<and>
     set_mset (vq_content q) \<subseteq> {b \<in> U. IssuerID b = accountID q} \<and>
     vsize q = word_of_nat (size (vq_content q))"

lemma vq_ok_New: "vq_ok U (NewValidatorQueue issuer)"
  by (simp add: vq_ok_def vq_content_def NewValidatorQueue_def heap_ordered_def)

lemma vq_submitted_iff:
  assumes "inj_on ID U" and "vq_ok U q" and "b \<in> U"
  shows "submittedHas (ID b) (vsubmitted q) \<longleftrightarrow> b \<in> set (vsubmitted q)"
  using submittedHas_in[OF assms(1) _ assms(3), of "vsubmitted q"] assms(2)
  by (auto simp: vq_ok_def vq_content_def)

lemma vq_ok_removed:
  assumes "vq_ok U q" and "vq_content q = add_mset b (vq_content q')" and "accountID q' = accountID q"
    and "vsize q' = vsize q - 1"
    and "distinct (map ID (vsubmitted q'))" and "is_heap IssuingTime (vinbox q')"
  shows "vq_ok U q'"
  using assms by (auto simp: vq_ok_def)

lemma vq_Unsubmit_in:
  assumes "vq_ok U q" and "b \<in> set (vsubmitted q)" and "ValidatorQueue_Unsubmit b q = (r, q')"
  shows "r \<and> vq_ok U q' \<and> vq_content q = add_mset b (vq_content q')"
proof -
  have m: "mset (vsubmitted q) = add_mset b (mset (submittedDelete (ID b) (vsubmitted q)))"
    using assms(1,2) by (intro submittedDelete_mset) (auto simp: vq_ok_def)
  from assms(2,3) have q': "r" "q' = q\<lparr>vsubmitted := submittedDelete (ID b) (vsubmitted q),
      vsize := vsize q - 1\<rparr>"
    by (auto simp: ValidatorQueue_Unsubmit_def submittedHas_def split: if_splits)
  have c: "vq_content q = add_mset b (vq_content q')" by (simp add: vq_content_def q' m)
  have "vq_ok U q'"
    by (rule vq_ok_removed[OF assms(1) c]) (use assms(1) q' in \<open>simp_all add: vq_ok_def submittedDelete_distinct\<close>)
  with c q'(1) show ?thesis by blast
qed

lemma vq_Unsubmit:
  assumes "inj_on ID U" and "vq_ok U q" and "b \<in> U" and "ValidatorQueue_Unsubmit b q = (r, q')"
  shows "vq_ok U q' \<and> vq_content q = (if r then add_mset b (vq_content q') else vq_content q')"
proof (cases "b \<in> set (vsubmitted q)")
  case True
  with vq_Unsubmit_in[OF assms(2) True assms(4)] show ?thesis by simp
next
  case False
  then show ?thesis using assms vq_submitted_iff[OF assms(1-3)] by (simp add: ValidatorQueue_Unsubmit_def)
qed

lemma vq_Ready:
  assumes "inj_on ID U" and "vq_ok U q" and "b \<in> U" and "ValidatorQueue_Ready b q = (r, q')"
  shows "vq_ok U q' \<and> vq_content q' = vq_content q"
proof (cases "b \<in> set (vsubmitted q)")
  case True
  have m: "mset (vsubmitted q) = add_mset b (mset (submittedDelete (ID b) (vsubmitted q)))"
    using assms(2) True by (intro submittedDelete_mset) (auto simp: vq_ok_def)
  have heap: "is_heap IssuingTime (vinbox q)" using assms(2) by (simp add: vq_ok_def)
  have q': "q' = q\<lparr>vsubmitted := submittedDelete (ID b) (vsubmitted q), vinbox := heap_Push IssuingTime b (vinbox q)\<rparr>"
    using assms(4) True by (auto simp: ValidatorQueue_Ready_def submittedHas_def split: if_splits)
  have c: "vq_content q' = vq_content q" by (simp add: vq_content_def q' m go_heap.push_mset[OF heap])
  then show ?thesis
    using assms(2) go_heap.push_inv[OF heap] by (auto simp: vq_ok_def q' submittedDelete_distinct)
next
  case False
  then show ?thesis using assms vq_submitted_iff[OF assms(1-3)] by (simp add: ValidatorQueue_Ready_def)
qed

lemma vq_take_inbox:
  assumes "vq_ok U q" and "mset (vinbox q) = add_mset b (mset h)" and "is_heap IssuingTime h"
    and "q' = q\<lparr>vinbox := h, vsize := vsize q - 1\<rparr>"
  shows "vq_ok U q' \<and> vq_content q = add_mset b (vq_content q')"
proof -
  have c: "vq_content q = add_mset b (vq_content q')" by (simp add: vq_content_def assms(2,4))
  have "vq_ok U q'"
    by (rule vq_ok_removed[OF assms(1) c]) (use assms in \<open>simp_all add: vq_ok_def\<close>)
  with c show ?thesis by blast
qed

lemma vq_PopFront:
  assumes "vq_ok U q" and "ValidatorQueue_PopFront q = (d, q')"
  shows "vq_ok U q' \<and> vq_content q = leave d (vq_content q')"
proof (cases "vinbox q = []")
  case True
  then show ?thesis using assms by (simp add: ValidatorQueue_PopFront_def leave_def)
next
  case False
  have heap: "is_heap IssuingTime (vinbox q)" using assms(1) by (simp add: vq_ok_def)
  obtain b h where p: "heap_Pop IssuingTime (vinbox q) = (b, h)" by fastforce
  with False assms(2) have "d = Some b"
    "q' = q\<lparr>vinbox := h, vsize := vsize q - 1\<rparr>"
    by (auto simp: ValidatorQueue_PopFront_def)
  with vq_take_inbox[OF assms(1) go_heap.pop_mset[OF heap False p] go_heap.pop_inv[OF heap False p]]
  show ?thesis by (simp add: leave_def)
qed

lemma vq_dropInboxTail:
  assumes "vq_ok U q" and "tail (vinbox q) = Some t" and "ValidatorQueue_dropInboxTail t q = (d, q')"
  shows "d = Some (vinbox q ! t) \<and> vq_ok U q' \<and> vq_content q = leave d (vq_content q')"
proof -
  have heap: "is_heap IssuingTime (vinbox q)" using assms(1) by (simp add: vq_ok_def)
  have t: "t < length (vinbox q)" by (rule tail_Some(1)[OF assms(2)])
  obtain b h where p: "heap_Remove IssuingTime t (vinbox q) = (b, h)" by fastforce
  with assms(3) have "d = Some b"
    "q' = q\<lparr>vinbox := h, vsize := vsize q - 1\<rparr>"
    by (auto simp: ValidatorQueue_dropInboxTail_def)
  with vq_take_inbox[OF assms(1) go_heap.remove_mset[OF heap t p] go_heap.remove_inv[OF heap t p]]
    go_heap.remove_nth[OF heap t p] show ?thesis by (simp add: leave_def)
qed

lemma ValidatorQueue_RemoveTail_cases:
  "(\<exists>old. oldestSubmitted (vsubmitted q) = Some old \<and>
      ValidatorQueue_RemoveTail q = (Some old, snd (ValidatorQueue_Unsubmit old q)) \<and>
      (\<forall>t. tail (vinbox q) = Some t \<longrightarrow> IssuingTime old < IssuingTime (vinbox q ! t))) \<or>
   (\<exists>t. tail (vinbox q) = Some t \<and> ValidatorQueue_RemoveTail q = ValidatorQueue_dropInboxTail t q \<and>
      (\<forall>old. oldestSubmitted (vsubmitted q) = Some old \<longrightarrow> IssuingTime (vinbox q ! t) \<le> IssuingTime old)) \<or>
   (vsubmitted q = [] \<and> vinbox q = [] \<and> ValidatorQueue_RemoveTail q = (None, q))"
  by (cases "oldestSubmitted (vsubmitted q)"; cases "tail (vinbox q)")
     (auto simp: ValidatorQueue_RemoveTail_def)

lemma vq_RemoveTail:
  assumes "vq_ok U q" and "ValidatorQueue_RemoveTail q = (d, q')"
  shows "vq_ok U q' \<and> vq_content q = leave d (vq_content q') \<and> (d = None \<longrightarrow> vq_content q = {#})"
  using ValidatorQueue_RemoveTail_cases[of q]
proof (elim disjE exE conjE)
  fix old assume old: "oldestSubmitted (vsubmitted q) = Some old"
    "ValidatorQueue_RemoveTail q = (Some old, snd (ValidatorQueue_Unsubmit old q))"
  obtain r q1 where u: "ValidatorQueue_Unsubmit old q = (r, q1)" by fastforce
  with vq_Unsubmit_in[OF assms(1) oldestSubmitted_Some(1)[OF old(1)] u] old assms(2)
  show ?thesis by (auto simp: leave_def)
next
  fix t assume "tail (vinbox q) = Some t" "ValidatorQueue_RemoveTail q = ValidatorQueue_dropInboxTail t q"
  with vq_dropInboxTail[OF assms(1)] assms(2) show ?thesis by auto
next
  assume "vsubmitted q = []" "vinbox q = []" "ValidatorQueue_RemoveTail q = (None, q)"
  with assms show ?thesis by (simp add: leave_def vq_content_def)
qed

lemma vq_Submit:
  assumes U: "inj_on ID U" and ok: "vq_ok U q" and b: "b \<in> U"
    and sub: "ValidatorQueue_Submit b maxBuffer q = Some ((d, r), q')"
  shows "vq_ok U q' \<and> leave d (vq_content q') = (if r then add_mset b (vq_content q) else vq_content q)"
proof (cases "b \<in> set (vsubmitted q)")
  case True
  then have "r = False \<and> d = None \<and> q' = q"
    using sub by (auto simp: ValidatorQueue_Submit_def submittedHas_def split: if_splits)
  then show ?thesis using ok by (simp add: leave_def)
next
  case False
  then have no: "\<not> submittedHas (ID b) (vsubmitted q)" by (simp add: vq_submitted_iff[OF U ok b])
  define q1 where "q1 = q\<lparr>vsubmitted := vsubmitted q @ [b], vsize := vsize q + 1\<rparr>"
  have issuer: "accountID q = IssuerID b" using sub by (auto simp: ValidatorQueue_Submit_def split: if_splits)
  have c: "vq_content q1 = add_mset b (vq_content q)" by (simp add: vq_content_def q1_def)
  moreover have "vq_ok U q1"
    using ok no issuer b c by (auto simp: vq_ok_def q1_def vq_content_def submittedHas_def algebra_simps)
  moreover have "r \<and> (d = None \<and> q' = q1 \<or> ValidatorQueue_RemoveTail q1 = (d, q'))"
    using sub no issuer
    by (auto simp: ValidatorQueue_Submit_def q1_def Let_def split: if_splits prod.splits)
  ultimately show ?thesis using vq_RemoveTail[of U q1 d q'] by (auto simp: leave_def)
qed

interpretation validator_queue: block_queue vq_ok vq_content "\<lambda>b. ValidatorQueue_Submit b maxBuffer"
  ValidatorQueue_Unsubmit ValidatorQueue_Ready ValidatorQueue_PopFront ValidatorQueue_RemoveTail
  for maxBuffer :: int
  by unfold_locales (auto dest: vq_Submit vq_Unsubmit vq_Ready vq_PopFront vq_RemoveTail)

section \<open>No operation panics on blocks of the queue's issuer\<close>

abbreviation iq_step where
  "iq_step \<equiv> queue_step (\<lambda>b q. map_option (\<lambda>(r, q). ((None, r), q)) (IssuerQueue_Submit b q))
     IssuerQueue_Unsubmit IssuerQueue_Ready IssuerQueue_PopFront IssuerQueue_RemoveTail"

abbreviation vq_step where
  "vq_step maxBuffer \<equiv> queue_step (\<lambda>b. ValidatorQueue_Submit b maxBuffer)
     ValidatorQueue_Unsubmit ValidatorQueue_Ready ValidatorQueue_PopFront ValidatorQueue_RemoveTail"

lemma issuerID_kept [simp]:
  "issuerID (snd (IssuerQueue_Unsubmit b q)) = issuerID q"
  "issuerID (snd (IssuerQueue_Ready b q)) = issuerID q"
  "issuerID (snd (IssuerQueue_PopFront q)) = issuerID q"
  "issuerID (snd (IssuerQueue_dropInboxTail t q)) = issuerID q"
  "issuerID (snd (IssuerQueue_RemoveTail q)) = issuerID q"
  by (auto simp: IssuerQueue_Unsubmit_def IssuerQueue_Ready_def IssuerQueue_PopFront_def
      IssuerQueue_dropInboxTail_def IssuerQueue_RemoveTail_def Let_def split: prod.splits option.splits)

lemma accountID_kept [simp]:
  "accountID (snd (ValidatorQueue_Unsubmit b q)) = accountID q"
  "accountID (snd (ValidatorQueue_Ready b q)) = accountID q"
  "accountID (snd (ValidatorQueue_PopFront q)) = accountID q"
  "accountID (snd (ValidatorQueue_dropInboxTail t q)) = accountID q"
  "accountID (snd (ValidatorQueue_RemoveTail q)) = accountID q"
  by (auto simp: ValidatorQueue_Unsubmit_def ValidatorQueue_Ready_def ValidatorQueue_PopFront_def
      ValidatorQueue_dropInboxTail_def ValidatorQueue_RemoveTail_def Let_def split: prod.splits option.splits)

lemma iq_step_returns:
  assumes "\<forall>b \<in> op_blocks a. IssuerID b = issuerID q"
  shows "\<exists>q' inn' out'. iq_step a (q, inn, out) = Some (q', inn', out') \<and> issuerID q' = issuerID q"
  using assms
  by (cases a) (auto simp: IssuerQueue_Submit_def Let_def case_prod_beta)

lemma vq_step_returns:
  assumes "\<forall>b \<in> op_blocks a. IssuerID b = accountID q"
  shows "\<exists>q' inn' out'. vq_step maxBuffer a (q, inn, out) = Some (q', inn', out') \<and> accountID q' = accountID q"
  using assms
  by (cases a) (auto simp: ValidatorQueue_Submit_def Let_def case_prod_beta)

lemma run_returns:
  assumes "\<And>a q inn out. a \<in> set as \<Longrightarrow> P q \<Longrightarrow>
      \<exists>q' inn' out'. f a (q, inn, out) = Some (q', inn', out') \<and> P q'" and "P q"
  shows "\<exists>q' inn' out'. run_opt f as (q, inn, out) = Some (q', inn', out') \<and> P q'"
  using assms
proof (induction as arbitrary: q inn out)
  case (Cons a as)
  obtain q1 inn1 out1 where "f a (q, inn, out) = Some (q1, inn1, out1)" "P q1"
    using Cons.prems(1)[of a q inn out] Cons.prems(2) by auto
  moreover have "\<exists>q' inn' out'. run_opt f as (q1, inn1, out1) = Some (q', inn', out') \<and> P q'"
    by (rule Cons.IH) (use Cons.prems(1) \<open>P q1\<close> in auto)
  ultimately show ?case by simp
qed simp

section \<open>Properties\<close>

text \<open>C7: Whatever sequence of submit, unsubmit, ready, pop and drop operations runs on a new issuer
  queue with blocks of its issuer (whose IDs identify them), no operation panics, every block that
  entered is still in the queue or has left it exactly once, and the counters \<open>size\<close> and \<open>work\<close>
  are the number and the total work of the blocks in the queue.\<close>

theorem issuer_queue_conserves_blocks:
  assumes "inj_on ID (\<Union>a \<in> set ops. op_blocks a)"
    and "\<forall>a \<in> set ops. \<forall>b \<in> op_blocks a. IssuerID b = issuer"
  shows "\<exists>q inn out. run_opt iq_step ops (NewIssuerQueue issuer, {#}, {#}) = Some (q, inn, out) \<and>
    inn = iq_content q + out \<and> qsize q = word_of_nat (size (iq_content q)) \<and>
    work q = (\<Sum>b \<in># iq_content q. ucast (WorkScore b))"
proof -
  have "\<exists>q inn out. run_opt iq_step ops (NewIssuerQueue issuer, {#}, {#}) = Some (q, inn, out) \<and> issuerID q = issuer"
  proof (rule run_returns[where P = "\<lambda>q :: IssuerQueue. issuerID q = issuer"])
    fix a inn out and q :: IssuerQueue assume "a \<in> set ops" "issuerID q = issuer"
    with iq_step_returns[of a q inn out] assms(2)
    show "\<exists>q' inn' out'. iq_step a (q, inn, out) = Some (q', inn', out') \<and> issuerID q' = issuer" by simp
  qed (simp add: NewIssuerQueue_def)
  then obtain q inn out where r: "run_opt iq_step ops (NewIssuerQueue issuer, {#}, {#}) = Some (q, inn, out)"
    by blast
  from issuer_queue.run_conserves[OF assms(1) _ iq_ok_New _ r]
  have "iq_ok (\<Union>a \<in> set ops. op_blocks a) q \<and> inn = iq_content q + out"
    by (auto simp: iq_content_def NewIssuerQueue_def)
  with r show ?thesis by (auto simp: iq_ok_def)
qed

definition exampleBlock :: "nat \<Rightarrow> int \<Rightarrow> block" where
  "exampleBlock i t = \<lparr>ID = i, IssuerID = 1, IssuingTime = t, WorkScore = 5, IsValidationBlock = False, Parents = []\<rparr>"

theorem issuer_queue_conserves_blocks_witness:
  "\<exists>q inn out. run_opt iq_step [QSubmit (exampleBlock 1 10), QSubmit (exampleBlock 2 20), QReady (exampleBlock 1 10), QPopFront]
      (NewIssuerQueue 1, {#}, {#}) = Some (q, inn, out) \<and>
    inn = iq_content q + out \<and> qsize q = word_of_nat (size (iq_content q)) \<and>
    work q = (\<Sum>b \<in># iq_content q. ucast (WorkScore b))"
  by (rule issuer_queue_conserves_blocks) (auto simp: exampleBlock_def)

text \<open>The same conservation holds for a validator queue, where a submission that exceeds the
  buffer size drops a block, and the counter \<open>size\<close> is the number of blocks in the queue.\<close>

theorem validator_queue_conserves_blocks:
  assumes "inj_on ID (\<Union>a \<in> set ops. op_blocks a)"
    and "\<forall>a \<in> set ops. \<forall>b \<in> op_blocks a. IssuerID b = account"
  shows "\<exists>q inn out. run_opt (vq_step maxBuffer) ops (NewValidatorQueue account, {#}, {#}) = Some (q, inn, out) \<and>
    inn = vq_content q + out \<and> vsize q = word_of_nat (size (vq_content q))"
proof -
  have "\<exists>q inn out. run_opt (vq_step maxBuffer) ops (NewValidatorQueue account, {#}, {#}) = Some (q, inn, out) \<and> accountID q = account"
  proof (rule run_returns[where P = "\<lambda>q :: ValidatorQueue. accountID q = account"])
    fix a inn out and q :: ValidatorQueue assume "a \<in> set ops" "accountID q = account"
    with vq_step_returns[of a q maxBuffer inn out] assms(2)
    show "\<exists>q' inn' out'. vq_step maxBuffer a (q, inn, out) = Some (q', inn', out') \<and> accountID q' = account" by simp
  qed (simp add: NewValidatorQueue_def)
  then obtain q inn out where
    r: "run_opt (vq_step maxBuffer) ops (NewValidatorQueue account, {#}, {#}) = Some (q, inn, out)" by blast
  from validator_queue.run_conserves[OF assms(1) _ vq_ok_New _ r]
  have "vq_ok (\<Union>a \<in> set ops. op_blocks a) q \<and> inn = vq_content q + out"
    by (auto simp: vq_content_def NewValidatorQueue_def)
  with r show ?thesis by (auto simp: vq_ok_def)
qed

theorem validator_queue_conserves_blocks_witness:
  "\<exists>q inn out. run_opt (vq_step 1) [QSubmit (exampleBlock 1 10), QSubmit (exampleBlock 2 20), QReady (exampleBlock 2 20)]
      (NewValidatorQueue 1, {#}, {#}) = Some (q, inn, out) \<and>
    inn = vq_content q + out \<and> vsize q = word_of_nat (size (vq_content q))"
  by (rule validator_queue_conserves_blocks) (auto simp: exampleBlock_def)

text \<open>On a well-formed issuer queue, \<open>PopFront\<close> returns a ready block of the earliest issuing
  time, and nothing exactly when no block is ready; \<open>RemoveTail\<close> returns a submitted block of the
  earliest issuing time when the newest ready block is newer than it or there is none, otherwise
  a ready block of the latest issuing time, and nothing exactly when the queue is empty.\<close>

theorem queue_ends:
  assumes "iq_ok U q"
  shows "(case fst (IssuerQueue_PopFront q) of
      None \<Rightarrow> inbox q = []
    | Some b \<Rightarrow> b \<in> set (inbox q) \<and> (\<forall>c \<in> set (inbox q). IssuingTime b \<le> IssuingTime c)) \<and>
   (case fst (IssuerQueue_RemoveTail q) of
      None \<Rightarrow> submitted q = [] \<and> inbox q = []
    | Some b \<Rightarrow>
        b \<in> set (submitted q) \<and> (\<forall>c \<in> set (submitted q). IssuingTime b \<le> IssuingTime c) \<and>
          (inbox q = [] \<or> (\<exists>n \<in> set (inbox q). IssuingTime b < IssuingTime n)) \<or>
        b \<in> set (inbox q) \<and> (\<forall>c \<in> set (inbox q). IssuingTime c \<le> IssuingTime b) \<and>
          (\<forall>c \<in> set (submitted q). IssuingTime b \<le> IssuingTime c))"
proof
  have heap: "is_heap IssuingTime (inbox q)" using assms by (simp add: iq_ok_def)
  show "case fst (IssuerQueue_PopFront q) of
      None \<Rightarrow> inbox q = []
    | Some b \<Rightarrow> b \<in> set (inbox q) \<and> (\<forall>c \<in> set (inbox q). IssuingTime b \<le> IssuingTime c)"
    using go_heap.pop_oldest[OF heap _ surjective_pairing]
    by (simp add: IssuerQueue_PopFront_def Let_def case_prod_beta)
next
  show "case fst (IssuerQueue_RemoveTail q) of
      None \<Rightarrow> submitted q = [] \<and> inbox q = []
    | Some b \<Rightarrow>
        b \<in> set (submitted q) \<and> (\<forall>c \<in> set (submitted q). IssuingTime b \<le> IssuingTime c) \<and>
          (inbox q = [] \<or> (\<exists>n \<in> set (inbox q). IssuingTime b < IssuingTime n)) \<or>
        b \<in> set (inbox q) \<and> (\<forall>c \<in> set (inbox q). IssuingTime c \<le> IssuingTime b) \<and>
          (\<forall>c \<in> set (submitted q). IssuingTime b \<le> IssuingTime c)"
    using IssuerQueue_RemoveTail_cases[of q]
  proof (elim disjE exE conjE)
    fix t assume t: "tail (inbox q) = Some t" "IssuerQueue_RemoveTail q = IssuerQueue_dropInboxTail t q"
      "\<forall>old. oldestSubmitted (submitted q) = Some old \<longrightarrow> IssuingTime (inbox q ! t) \<le> IssuingTime old"
    then have "fst (IssuerQueue_RemoveTail q) = Some (inbox q ! t)"
      using iq_dropInboxTail[OF assms t(1) surjective_pairing] by simp
    moreover have "\<forall>c \<in> set (submitted q). IssuingTime (inbox q ! t) \<le> IssuingTime c"
      using t(3) oldestSubmitted_Some(2)[of "submitted q"]
      by (cases "oldestSubmitted (submitted q)") force+
    ultimately show ?thesis using tail_Some[OF t(1)] by simp
  next
    fix old assume old: "oldestSubmitted (submitted q) = Some old"
      "IssuerQueue_RemoveTail q = (Some old, snd (IssuerQueue_Unsubmit old q))"
      "\<forall>t. tail (inbox q) = Some t \<longrightarrow> IssuingTime old < IssuingTime (inbox q ! t)"
    have "inbox q = [] \<or> (\<exists>n \<in> set (inbox q). IssuingTime old < IssuingTime n)"
      using old(3) tail_Some(1) by (cases "tail (inbox q)") (auto intro: nth_mem)
    then show ?thesis using old oldestSubmitted_Some[OF old(1)] by simp
  qed simp
qed

definition exampleQueue :: IssuerQueue where
  "exampleQueue = \<lparr>issuerID = 1, submitted = [exampleBlock 2 20], inbox = [exampleBlock 1 10], qsize = 2, work = 10\<rparr>"

theorem queue_ends_witness:
  "\<exists>b. fst (IssuerQueue_PopFront exampleQueue) = Some b \<and> b \<in> set (inbox exampleQueue) \<and>
     (\<forall>c \<in> set (inbox exampleQueue). IssuingTime b \<le> IssuingTime c)"
proof -
  have "iq_ok {exampleBlock 1 10, exampleBlock 2 20} exampleQueue"
    by (simp add: iq_ok_def iq_content_def exampleQueue_def exampleBlock_def heap_ordered_def)
  from queue_ends[OF this] show ?thesis
    by (auto simp: exampleQueue_def split: option.splits)
qed

end
