(* ===== verification/GoRing.thy ===== *)
theory GoRing
  imports Prelude
begin

text \<open>
  The Go standard library package \<open>container/ring\<close>, as the scheduler buffer uses it: a store of
  ring elements with their next and previous elements, and \<open>Link\<close> with its assignments in the
  order of the library. A ring is the list of its elements in the order of \<open>Next\<close>.
\<close>

section \<open>The store of ring elements\<close>

record ring_store =
  nxt :: "nat \<Rightarrow> nat"
  prv :: "nat \<Rightarrow> nat"

text \<open>\<open>ring.New(1)\<close> at a fresh address: an element that is its own neighbour.\<close>

definition ring_New :: "nat \<Rightarrow> ring_store \<Rightarrow> ring_store" where
  "ring_New p st = st\<lparr>nxt := (nxt st)(p := p), prv := (prv st)(p := p)\<rparr>"

definition ring_Link :: "nat \<Rightarrow> nat \<Rightarrow> ring_store \<Rightarrow> nat \<times> ring_store" where
  "ring_Link r s st =
     (let n = nxt st r; p = prv st s;
          st = st\<lparr>nxt := (nxt st)(r := s)\<rparr>;
          st = st\<lparr>prv := (prv st)(s := r)\<rparr>;
          st = st\<lparr>prv := (prv st)(n := p)\<rparr>;
          st = st\<lparr>nxt := (nxt st)(p := n)\<rparr>
      in (n, st))"

section \<open>Rings as lists\<close>

lemma last_notin_butlast:
  assumes "distinct xs" and "xs \<noteq> []"
  shows "last xs \<notin> set (butlast xs)"
proof -
  have "distinct (butlast xs @ [last xs])" using assms by simp
  then show ?thesis unfolding distinct_append by simp
qed

definition linked :: "ring_store \<Rightarrow> nat \<Rightarrow> nat \<Rightarrow> bool" where
  "linked st x y \<longleftrightarrow> nxt st x = y \<and> prv st y = x"

definition is_ring :: "ring_store \<Rightarrow> nat list \<Rightarrow> bool" where
  "is_ring st xs \<longleftrightarrow> xs \<noteq> [] \<and> distinct xs \<and> successively (linked st) (xs @ [hd xs])"

lemma is_ring_singleton: "is_ring st [x] \<longleftrightarrow> linked st x x"
  by (simp add: is_ring_def)

lemma is_ring_rotate: "is_ring st (x # xs) \<Longrightarrow> is_ring st (xs @ [x])"
  by (cases xs) (auto simp: is_ring_def successively_append_iff successively_Cons hd_append)

lemma is_ring_hd:
  assumes "is_ring st (x # xs)"
  shows "nxt st x = hd (xs @ [x])" and "prv st (hd (xs @ [x])) = x"
  using assms by (cases xs; simp add: is_ring_def linked_def)+

text \<open>Following \<open>Next\<close> once around the ring.\<close>

lemma is_ring_walk:
  "is_ring st xs \<Longrightarrow> (nxt st ^^ n) (hd xs) = hd (rotate n xs)"
proof (induction n)
  case (Suc n)
  let ?ys = "rotate n xs"
  have "is_ring st ?ys"
  proof (induction n)
    case (Suc n)
    then show ?case using is_ring_rotate by (cases "rotate n xs") auto
  qed (simp add: Suc.prems)
  then obtain y ys where ys: "?ys = y # ys" "is_ring st (y # ys)" by (cases ?ys) (auto simp: is_ring_def)
  have "(nxt st ^^ Suc n) (hd xs) = nxt st (hd ?ys)" using Suc by simp
  also have "\<dots> = hd (ys @ [y])" using is_ring_hd(1)[OF ys(2)] by (simp add: ys)
  finally show ?case by (simp add: ys)
qed simp

lemma successively_agree:
  "\<forall>x \<in> set (butlast xs). nxt st' x = nxt st x \<Longrightarrow> \<forall>x \<in> set (tl xs). prv st' x = prv st x \<Longrightarrow>
   successively (linked st') xs \<longleftrightarrow> successively (linked st) xs"
  by (induction xs rule: induct_list012) (auto simp: linked_def)

lemma is_ring_last:
  assumes "is_ring st xs"
  shows "nxt st (last xs) = hd xs" and "prv st (hd xs) = last xs"
  using assms by (auto simp: is_ring_def successively_append_iff linked_def)

text \<open>Linking a fresh element before the first one puts it at the end of the round.\<close>

lemma ring_insert_last:
  assumes ring: "is_ring st xs" and p: "p \<notin> set xs"
  shows "fst (ring_Link p (hd xs) (ring_New p st)) = p"
    and "is_ring (snd (ring_Link p (hd xs) (ring_New p st))) (xs @ [p])"
proof -
  let ?st = "snd (ring_Link p (hd xs) (ring_New p st))"
  have xs: "xs \<noteq> []" "distinct xs" "successively (linked st) xs"
    using ring by (auto simp: is_ring_def successively_append_iff)
  have ne: "p \<noteq> hd xs" "p \<noteq> last xs" using p xs(1) by auto
  show "fst (ring_Link p (hd xs) (ring_New p st)) = p"
    by (simp add: ring_Link_def ring_New_def Let_def)
  have nxt: "nxt ?st x = (if x = last xs then p else if x = p then hd xs else nxt st x)" for x
    using ne is_ring_last(2)[OF ring] by (simp add: ring_Link_def ring_New_def Let_def)
  have prv: "prv ?st x = (if x = p then last xs else if x = hd xs then p else prv st x)" for x
    using ne is_ring_last(2)[OF ring] by (simp add: ring_Link_def ring_New_def Let_def)
  have "last xs \<notin> set (butlast xs)"
    by (rule last_notin_butlast[OF xs(2,1)])
  moreover have "hd xs \<notin> set (tl xs)" using xs(1,2) by (cases xs) auto
  moreover have "p \<notin> set (tl xs)" "p \<notin> set (butlast xs)"
    using p by (auto dest: in_set_butlastD list.set_sel(2)[OF xs(1)])
  ultimately have "successively (linked ?st) xs"
    using xs(3) by (subst successively_agree[where st = st]) (auto simp: nxt prv)
  then show "is_ring ?st (xs @ [p])"
    using xs p ne by (auto simp: is_ring_def successively_append_iff linked_def nxt prv)
qed

text \<open>Unlinking the first element of a ring of at least two.\<close>

lemma ring_unlink_first:
  assumes ring: "is_ring st (x # y # zs)"
  shows "is_ring (snd (ring_Link (prv st x) (nxt st x) st)) (y # zs)"
proof -
  let ?l = "last (y # zs)"
  have n: "nxt st x = y" "prv st y = x" using is_ring_hd[OF ring] by simp_all
  have l: "prv st x = ?l" "nxt st ?l = x" using is_ring_last[OF ring] by simp_all
  let ?st = "snd (ring_Link (prv st x) (nxt st x) st)"
  have dist: "distinct (y # zs)" "x \<notin> set (y # zs)" using ring by (auto simp: is_ring_def)
  have "successively (linked st) ((y # zs) @ [x])" using ring by (simp add: is_ring_def)
  then have succ: "successively (linked st) (y # zs)" unfolding successively_append_iff by blast
  have "?l \<in> set (y # zs)" by simp
  then have ne: "x \<noteq> ?l" using dist(2) by metis
  have nxt: "nxt ?st u = (if u = x then x else if u = ?l then y else nxt st u)" for u
    using ne by (simp add: ring_Link_def Let_def n l del: last.simps)
  have prv: "prv ?st u = (if u = x then x else if u = y then ?l else prv st u)" for u
    using ne by (simp add: ring_Link_def Let_def n l del: last.simps)
  have "?l \<notin> set (butlast (y # zs))"
    by (rule last_notin_butlast[OF dist(1)]) simp
  then have "successively (linked ?st) (y # zs)"
    using succ dist by (subst successively_agree[where st = st]) (auto simp: nxt prv dest: in_set_butlastD split: if_splits)
  moreover have "linked ?st ?l y" using ne dist by (simp add: linked_def nxt prv del: last.simps)
  ultimately have "successively (linked ?st) ((y # zs) @ [y])"
    unfolding successively_append_iff by simp
  then show ?thesis using dist by (simp add: is_ring_def)
qed

text \<open>
  Linking the predecessor of another element \<open>r\<close> to the second element of the ring cuts out the
  elements between the first one and \<open>r\<close>, and leaves \<open>r\<close> in the ring.
\<close>

lemma ring_unlink_other:
  assumes ring: "is_ring st (x # ys @ r # zs)"
  shows "is_ring (snd (ring_Link (prv st r) (nxt st x) st)) (x # r # zs)"
proof -
  let ?q = "last (x # ys)" and ?n = "hd (ys @ [r])"
  have dist: "distinct (x # ys @ r # zs)" using ring by (simp add: is_ring_def)
  have succ: "successively (linked st) ((x # ys) @ r # zs @ [x])" using ring by (simp add: is_ring_def)
  then have "linked st ?q r" and tail: "successively (linked st) (r # zs @ [x])"
    unfolding successively_append_iff by auto
  then have q: "prv st r = ?q" "nxt st ?q = r" by (simp_all add: linked_def)
  have "linked st x ?n" using succ by (cases ys) auto
  then have n: "nxt st x = ?n" "prv st ?n = x" by (simp_all add: linked_def)
  let ?st = "snd (ring_Link (prv st r) (nxt st x) st)"
  have nxt: "nxt ?st u = (if u = x then r else if u = ?q then ?n else nxt st u)" for u
    by (simp add: ring_Link_def Let_def n q del: last.simps)
  have prv: "prv ?st u = (if u = r then x else if u = ?n then ?q else prv st u)" for u
    by (simp add: ring_Link_def Let_def n q del: last.simps)
  have "?q \<in> set (x # ys)" by (rule last_in_set) simp
  then have notin: "x \<notin> set (r # zs)" "?q \<notin> set (r # zs)" "r \<notin> set (zs @ [x])"
    using dist by (auto simp del: last.simps)
  have "?n \<in> insert r (set ys)" by (cases ys) auto
  then have "?n \<notin> set (zs @ [x])" using dist by auto
  then have "successively (linked ?st) (r # zs @ [x])"
    using tail notin
    by (subst successively_agree[where st = st]) (auto simp: nxt prv butlast_append simp del: last.simps)
  moreover have "linked ?st x r" by (simp add: linked_def nxt prv)
  ultimately show ?thesis using dist by (simp add: is_ring_def)
qed

end
