(* ===== verification/Buffer.thy ===== *)
theory Buffer
  imports Queues GoRing Float64
begin

text \<open>
  The buffer of issuer queues of the deficit round robin scheduler
  (\<open>pkg/protocol/engine/congestioncontrol/scheduler/drr/drrbuffer.go\<close>): the ring of issuer queues,
  the index of active issuers and the count of buffered blocks. A ring element is an address; its
  queue is looked up by that address, so two queues are the same pointer when their addresses are
  equal. \<open>None\<close> is an operation that does not return: a panic or an endless loop. The token bucket
  (\<open>waitTime\<close>, \<open>updateTokenBucket\<close>, \<open>deductTokens\<close>) is pure timing and not modelled.
\<close>

section \<open>The buffer and its ring\<close>

record BufferQueue =
  activeIssuers :: "account_id \<rightharpoonup> nat"
  ring :: "nat option"
  store :: ring_store
  queues :: "nat \<Rightarrow> IssuerQueue"
  fresh :: nat
  buffered :: int
  blockChan :: "block option"

definition NewBufferQueue :: BufferQueue where
  "NewBufferQueue =
     \<lparr>activeIssuers = Map.empty, ring = None, store = \<lparr>nxt = id, prv = id\<rparr>,
      queues = (\<lambda>_. NewIssuerQueue 0), fresh = 0, buffered = 0, blockChan = None\<rparr>"

definition setQueue :: "nat \<Rightarrow> IssuerQueue \<Rightarrow> BufferQueue \<Rightarrow> BufferQueue" where
  "setQueue e q b = b\<lparr>queues := (queues b)(e := q)\<rparr>"

definition BufferQueue_IssuerQueue :: "account_id \<Rightarrow> BufferQueue \<Rightarrow> IssuerQueue option" where
  "BufferQueue_IssuerQueue issuer b =
     (case activeIssuers b issuer of None \<Rightarrow> None | Some e \<Rightarrow> Some (queues b e))"

definition ringInsert :: "IssuerQueue \<Rightarrow> BufferQueue \<Rightarrow> nat \<times> BufferQueue" where
  "ringInsert v b =
     (let p = fresh b;
          b = setQueue p v (b\<lparr>store := ring_New p (store b), fresh := p + 1\<rparr>)
      in case ring b of
           None \<Rightarrow> (p, b\<lparr>ring := Some p\<rparr>)
         | Some r \<Rightarrow> let (n, st) = ring_Link p r (store b) in (n, b\<lparr>store := st\<rparr>))"

definition ringRemove :: "nat \<Rightarrow> BufferQueue \<Rightarrow> BufferQueue option" where
  "ringRemove r b =
     (case ring b of
        None \<Rightarrow> None
      | Some c \<Rightarrow>
          let n = nxt (store b) c in
          if r = c \<and> n = c then Some (b\<lparr>ring := None\<rparr>)
          else
            let b = (if r = c then b\<lparr>ring := Some n\<rparr> else b)
            in Some (b\<lparr>store := snd (ring_Link (prv (store b) r) n (store b))\<rparr>))"

definition Next :: "BufferQueue \<Rightarrow> nat option \<times> BufferQueue" where
  "Next b =
     (case ring b of
        None \<Rightarrow> (None, b)
      | Some r \<Rightarrow> let n = nxt (store b) r in (Some n, b\<lparr>ring := Some n\<rparr>))"

definition Current :: "BufferQueue \<Rightarrow> nat option" where
  "Current b = ring b"

section \<open>Issuers\<close>

definition CreateIssuerQueue :: "account_id \<Rightarrow> BufferQueue \<Rightarrow> nat \<times> BufferQueue" where
  "CreateIssuerQueue issuer b =
     (let (e, b) = ringInsert (NewIssuerQueue issuer) b
      in (e, b\<lparr>activeIssuers := (activeIssuers b)(issuer \<mapsto> e)\<rparr>))"

datatype buffer_error = IssuerQueueDoesNotExist

definition GetIssuerQueue :: "account_id \<Rightarrow> BufferQueue \<Rightarrow> buffer_error + nat" where
  "GetIssuerQueue issuer b =
     (case activeIssuers b issuer of None \<Rightarrow> Inl IssuerQueueDoesNotExist | Some e \<Rightarrow> Inr e)"

definition InsertIssuer :: "account_id \<Rightarrow> BufferQueue \<Rightarrow> BufferQueue" where
  "InsertIssuer issuer b =
     (case activeIssuers b issuer of
        Some _ \<Rightarrow> b
      | None \<Rightarrow>
          let (e, b) = ringInsert (NewIssuerQueue issuer) b
          in b\<lparr>activeIssuers := (activeIssuers b)(issuer \<mapsto> e)\<rparr>)"

definition RemoveIssuer :: "account_id \<Rightarrow> BufferQueue \<Rightarrow> BufferQueue option" where
  "RemoveIssuer issuer b =
     (case activeIssuers b issuer of
        None \<Rightarrow> Some b
      | Some e \<Rightarrow>
          let b = b\<lparr>buffered := buffered b - IssuerQueue_Size (Some (queues b e))\<rparr>
          in map_option (\<lambda>b. b\<lparr>activeIssuers := (activeIssuers b)(issuer := None)\<rparr>) (ringRemove e b))"

section \<open>Blocks\<close>

text \<open>The search of \<open>dropTail\<close> for the longest queue scaled by the issuer's quantum.\<close>

partial_function (option) dropScan ::
  "(account_id \<Rightarrow> i64) \<Rightarrow> nat option \<Rightarrow> nat \<Rightarrow> nat \<Rightarrow> f64 option \<Rightarrow> account_id \<Rightarrow> BufferQueue \<Rightarrow>
   (account_id \<times> BufferQueue) option" where
  "dropScan quantumFunc ringStart start q maxScale maxIssuerID b =
     (let iq = queues b q;
          issuerQuantum = quantumFunc (issuerID iq);
          scale = f64_div (unat (IssuerQueue_Work (Some iq))) (nat (sint issuerQuantum));
          larger = 0 < sint issuerQuantum \<and>
            (case maxScale of None \<Rightarrow> True | Some m \<Rightarrow> f64_less m scale);
          maxScale' = (if larger then Some scale else maxScale);
          maxIssuerID' = (if larger then issuerID iq else maxIssuerID)
      in
        if \<not> 0 < sint issuerQuantum \<and> 0 < IssuerQueue_Size (Some iq)
        then Some (issuerID iq, b\<lparr>ring := ringStart\<rparr>)
        else
          let (q', b) = Next b in
          if q' = Some start then Some (maxIssuerID', b)
          else dropScan quantumFunc ringStart start (the q') maxScale' maxIssuerID' b)"

partial_function (option) dropLoop ::
  "(account_id \<Rightarrow> i64) \<Rightarrow> int \<Rightarrow> nat option \<Rightarrow> nat \<Rightarrow> block list \<Rightarrow> BufferQueue \<Rightarrow>
   (block list \<times> BufferQueue) option" where
  "dropLoop quantumFunc maxBuffer ringStart start droppedBlocks b =
     (if maxBuffer < buffered b then
        Option.bind (dropScan quantumFunc ringStart start start None 0 b) (\<lambda>(maxIssuerID, b).
          case activeIssuers b maxIssuerID of
            None \<Rightarrow> dropLoop quantumFunc maxBuffer ringStart start droppedBlocks b
          | Some e \<Rightarrow>
              let (dropped, q) = IssuerQueue_RemoveTail (queues b e); b = setQueue e q b in
              (case dropped of
                 None \<Rightarrow> dropLoop quantumFunc maxBuffer ringStart start droppedBlocks b
               | Some blk \<Rightarrow>
                   dropLoop quantumFunc maxBuffer ringStart start (droppedBlocks @ [blk])
                     (b\<lparr>buffered := buffered b - 1\<rparr>)))
      else Some (droppedBlocks, b))"

definition dropTail :: "(account_id \<Rightarrow> i64) \<Rightarrow> int \<Rightarrow> BufferQueue \<Rightarrow> (block list \<times> BufferQueue) option" where
  "dropTail quantumFunc maxBuffer b =
     (case Current b of
        None \<Rightarrow> if maxBuffer < buffered b then None else Some ([], b)
      | Some start \<Rightarrow> dropLoop quantumFunc maxBuffer (ring b) start [] b)"

definition BufferQueue_Submit ::
  "block \<Rightarrow> nat \<Rightarrow> (account_id \<Rightarrow> i64) \<Rightarrow> int \<Rightarrow> BufferQueue \<Rightarrow> ((block list \<times> bool) \<times> BufferQueue) option" where
  "BufferQueue_Submit blk issuerQueue quantumFunc maxBuffer b =
     (case IssuerQueue_Submit blk (queues b issuerQueue) of
        None \<Rightarrow> None
      | Some (False, q) \<Rightarrow> Some (([], False), setQueue issuerQueue q b)
      | Some (True, q) \<Rightarrow>
          let b = setQueue issuerQueue q b; b = b\<lparr>buffered := buffered b + 1\<rparr> in
          if maxBuffer < buffered b
          then map_option (\<lambda>(dropped, b). ((dropped, True), b)) (dropTail quantumFunc maxBuffer b)
          else Some (([], True), b))"

definition BufferQueue_Unsubmit :: "block \<Rightarrow> BufferQueue \<Rightarrow> bool \<times> BufferQueue" where
  "BufferQueue_Unsubmit blk b =
     (case activeIssuers b (IssuerID blk) of
        None \<Rightarrow> (False, b)
      | Some e \<Rightarrow>
          let (r, q) = IssuerQueue_Unsubmit blk (queues b e); b = setQueue e q b in
          if \<not> r then (False, b) else (True, b\<lparr>buffered := buffered b - 1\<rparr>))"

definition BufferQueue_Ready :: "block \<Rightarrow> BufferQueue \<Rightarrow> bool \<times> BufferQueue" where
  "BufferQueue_Ready blk b =
     (case activeIssuers b (IssuerID blk) of
        None \<Rightarrow> (False, b)
      | Some e \<Rightarrow> let (r, q) = IssuerQueue_Ready blk (queues b e) in (r, setQueue e q b))"

definition BufferQueue_PopFront :: "BufferQueue \<Rightarrow> block option \<times> BufferQueue" where
  "BufferQueue_PopFront b =
     (case Current b of
        None \<Rightarrow> (None, b)
      | Some e \<Rightarrow>
          let (blk, q) = IssuerQueue_PopFront (queues b e); b = setQueue e q b in
          (case blk of None \<Rightarrow> (None, b) | Some blk \<Rightarrow> (Some blk, b\<lparr>buffered := buffered b - 1\<rparr>)))"

section \<open>Walking the ring\<close>

text \<open>The loop \<open>for q := start; ; { ...; q = b.Next(); if q == start { break } }\<close> with its accumulator.\<close>

partial_function (option) ringLoop ::
  "(IssuerQueue \<Rightarrow> 'a \<Rightarrow> 'a) \<Rightarrow> nat \<Rightarrow> nat \<Rightarrow> 'a \<Rightarrow> BufferQueue \<Rightarrow> ('a \<times> BufferQueue) option" where
  "ringLoop f start q acc b =
     (let acc = f (queues b q) acc; (q', b) = Next b in
      if q' = Some start then Some (acc, b) else ringLoop f start (the q') acc b)"

definition ReadyBlocksCount :: "BufferQueue \<Rightarrow> (int \<times> BufferQueue) option" where
  "ReadyBlocksCount b =
     (case Current b of
        None \<Rightarrow> Some (0, b)
      | Some start \<Rightarrow> ringLoop (\<lambda>q n. n + int (length (inbox q))) start start 0 b)"

definition TotalBlocksCount :: "BufferQueue \<Rightarrow> (int \<times> BufferQueue) option" where
  "TotalBlocksCount b =
     (case Current b of
        None \<Rightarrow> Some (0, b)
      | Some start \<Rightarrow>
          ringLoop (\<lambda>q n. n + int (length (inbox q)) + int (length (submitted q))) start start 0 b)"

definition IssuerIDs :: "BufferQueue \<Rightarrow> (account_id list \<times> BufferQueue) option" where
  "IssuerIDs b =
     (case Current b of
        None \<Rightarrow> Some ([], b)
      | Some start \<Rightarrow> ringLoop (\<lambda>q ids. ids @ [issuerID q]) start start [] b)"

section \<open>The invariant of the buffer\<close>

definition ring_of :: "BufferQueue \<Rightarrow> nat list \<Rightarrow> bool" where
  "ring_of b xs \<longleftrightarrow> (case ring b of None \<Rightarrow> xs = [] | Some r \<Rightarrow> is_ring (store b) xs \<and> hd xs = r)"

definition issuerAt :: "BufferQueue \<Rightarrow> nat \<Rightarrow> account_id" where
  "issuerAt b e = issuerID (queues b e)"

definition blocksAt :: "BufferQueue \<Rightarrow> nat \<Rightarrow> block multiset" where
  "blocksAt b e = iq_content (queues b e)"

text \<open>
  The ring from the current element on is \<open>xs\<close>, its queues are well formed, the index of active
  issuers is exactly the ring, and the counter is the number of blocks in all queues.
\<close>

definition buf_inv :: "block set \<Rightarrow> nat list \<Rightarrow> BufferQueue \<Rightarrow> bool" where
  "buf_inv U xs b \<longleftrightarrow>
     ring_of b xs \<and> (\<forall>e \<in> set xs. e < fresh b \<and> iq_ok U (queues b e)) \<and>
     distinct (map (issuerAt b) xs) \<and>
     (\<forall>i e. activeIssuers b i = Some e \<longleftrightarrow> e \<in> set xs \<and> issuerAt b e = i) \<and>
     buffered b = (\<Sum>e \<leftarrow> xs. int (size (blocksAt b e)))"

lemma ring_of_distinct: "ring_of b xs \<Longrightarrow> distinct xs"
  by (auto simp: ring_of_def is_ring_def split: option.splits)

lemma ring_of_hd: "ring_of b (x # xs) \<Longrightarrow> ring b = Some x"
  by (auto simp: ring_of_def split: option.splits)

lemma ring_of_Nil [simp]: "ring_of b [] \<longleftrightarrow> ring b = None"
  by (auto simp: ring_of_def is_ring_def split: option.splits)

lemma ring_of_cong: "ring b' = ring b \<Longrightarrow> store b' = store b \<Longrightarrow> ring_of b' xs \<longleftrightarrow> ring_of b xs"
  by (simp add: ring_of_def split: option.splits)

lemma buf_inv_New: "buf_inv U [] NewBufferQueue"
  by (simp add: buf_inv_def NewBufferQueue_def)

lemma buf_inv_active:
  "buf_inv U xs b \<Longrightarrow> activeIssuers b i = Some e \<Longrightarrow> e \<in> set xs \<and> issuerAt b e = i \<and> iq_ok U (queues b e)"
  by (auto simp: buf_inv_def)

lemma buf_inv_activeI: "buf_inv U xs b \<Longrightarrow> e \<in> set xs \<Longrightarrow> activeIssuers b (issuerAt b e) = Some e"
  by (simp add: buf_inv_def)

text \<open>\<open>Next\<close> rotates the ring.\<close>

lemma Next_rotates:
  assumes "ring_of b (x # xs)"
  shows "Next b = (Some (hd (xs @ [x])), b\<lparr>ring := Some (hd (xs @ [x]))\<rparr>)"
    and "ring_of (b\<lparr>ring := Some (hd (xs @ [x]))\<rparr>) (xs @ [x])"
proof -
  have r: "ring b = Some x" "is_ring (store b) (x # xs)"
    using assms by (auto simp: ring_of_def split: option.splits)
  then show "Next b = (Some (hd (xs @ [x])), b\<lparr>ring := Some (hd (xs @ [x]))\<rparr>)"
    using is_ring_hd(1)[OF r(2)] by (simp add: Next_def Let_def)
  show "ring_of (b\<lparr>ring := Some (hd (xs @ [x]))\<rparr>) (xs @ [x])"
    using is_ring_rotate[OF r(2)] by (simp add: ring_of_def)
qed

text \<open>A walk around the ring visits every queue once and ends where it began.\<close>

lemma ringLoop_visits:
  assumes "ring_of b (ys @ zs)" and "zs @ ys = start # rest" and "ys \<noteq> []"
    and "ring b = Some (hd ys)"
  shows "ringLoop f start (hd ys) acc b =
    Some (fold (\<lambda>e. f (queues b e)) ys acc, b\<lparr>ring := Some start\<rparr>)"
  using assms
proof (induction ys arbitrary: zs acc b)
  case (Cons y ys)
  have ring: "ring_of b (y # ys @ zs)" using Cons.prems(1) by simp
  let ?b = "b\<lparr>ring := Some (hd (ys @ zs @ [y]))\<rparr>"
  have step: "Next b = (Some (hd (ys @ zs @ [y])), ?b)"
    using Next_rotates(1)[OF ring] by simp
  have ring': "ring_of ?b (ys @ zs @ [y])" using Next_rotates(2)[OF ring] by simp
  have dist: "distinct (y # ys @ zs)" by (rule ring_of_distinct[OF ring])
  have start: "start = hd (zs @ y # ys)" using Cons.prems(2) by simp
  show ?case
  proof (cases "ys = []")
    case True
    then have "hd (ys @ zs @ [y]) = start" using start by simp
    then show ?thesis by (subst ringLoop.simps) (simp add: step Let_def True)
  next
    case False
    then have h: "hd (ys @ zs @ [y]) = hd ys" by simp
    have "hd ys \<noteq> start"
    proof
      assume "hd ys = start"
      moreover have "hd ys \<in> set ys" using False by simp
      moreover have "start \<in> set (zs @ [y])" unfolding start by (cases zs) auto
      ultimately show False using dist by auto
    qed
    moreover have "ringLoop f start (hd ys) (f (queues b y) acc) ?b =
      Some (fold (\<lambda>e. f (queues ?b e)) ys (f (queues b y) acc), ?b\<lparr>ring := Some start\<rparr>)"
      by (rule Cons.IH[OF _ _ False, of ?b "zs @ [y]"]) (use ring' Cons.prems(2) h in simp_all)
    ultimately show ?thesis by (subst ringLoop.simps) (simp add: step Let_def h)
  qed
qed simp

lemma ringLoop_fold:
  assumes "ring_of b (x # xs)"
  shows "ringLoop f x x acc b = Some (fold (\<lambda>e. f (queues b e)) (x # xs) acc, b)"
proof -
  have "ring b = Some x" by (rule ring_of_hd[OF assms])
  then have "b\<lparr>ring := Some x\<rparr> = b" by simp
  with ringLoop_visits[of b "x # xs" "[]" x xs f acc] assms \<open>ring b = Some x\<close> show ?thesis by simp
qed

section \<open>Operations on one queue\<close>

lemma sum_list_update_one:
  fixes f g :: "nat \<Rightarrow> int"
  assumes "distinct xs" and "e \<in> set xs" and "\<And>x. x \<noteq> e \<Longrightarrow> g x = f x"
  shows "(\<Sum>x \<leftarrow> xs. g x) = (\<Sum>x \<leftarrow> xs. f x) - f e + g e"
proof -
  obtain ys zs where xs: "xs = ys @ e # zs" using assms(2) by (meson split_list)
  then have "e \<notin> set ys" "e \<notin> set zs" using assms(1) by auto
  then have "map g ys = map f ys" "map g zs = map f zs"
    by (auto intro!: map_cong assms(3))
  then show ?thesis by (simp add: xs del: map_eq_conv)
qed

lemma buf_inv_update:
  assumes inv: "buf_inv U xs b" and e: "e \<in> set xs" and ok: "iq_ok U q"
    and same: "issuerID q = issuerAt b e"
    and b': "b' = (setQueue e q b)\<lparr>buffered := n\<rparr>"
    and n: "n = buffered b - int (size (blocksAt b e)) + int (size (iq_content q))"
  shows "buf_inv U xs b'"
proof -
  have ring: "ring_of b xs" using inv by (simp add: buf_inv_def)
  have issuers: "issuerAt b' = issuerAt b" using same by (auto simp: issuerAt_def b' setQueue_def)
  have "(\<Sum>x \<leftarrow> xs. int (size (blocksAt b' x))) =
      (\<Sum>x \<leftarrow> xs. int (size (blocksAt b x))) - int (size (blocksAt b e)) + int (size (blocksAt b' e))"
    by (rule sum_list_update_one[OF ring_of_distinct[OF ring] e]) (simp add: blocksAt_def b' setQueue_def)
  moreover have "blocksAt b' e = iq_content q" by (simp add: blocksAt_def b' setQueue_def)
  moreover have "ring_of b' xs" using ring ring_of_cong[of b' b xs] by (simp add: b' setQueue_def)
  ultimately show ?thesis
    using inv ok n unfolding buf_inv_def issuers by (auto simp: b' setQueue_def)
qed

lemma buf_inv_same_size:
  assumes "buf_inv U xs b" and "e \<in> set xs" and "iq_ok U q" and "issuerID q = issuerAt b e"
    and "size (iq_content q) = size (blocksAt b e)"
  shows "buf_inv U xs (setQueue e q b)"
  by (rule buf_inv_update[OF assms(1-4)]) (simp_all add: setQueue_def assms(5))

lemma buf_inv_Ready:
  assumes "inj_on ID U" and "buf_inv U xs b" and "blk \<in> U"
  shows "buf_inv U xs (snd (BufferQueue_Ready blk b))"
proof (cases "activeIssuers b (IssuerID blk)")
  case (Some e)
  note e = buf_inv_active[OF assms(2) Some]
  obtain r q where q: "IssuerQueue_Ready blk (queues b e) = (r, q)" by fastforce
  have "issuerID q = issuerAt b e" using issuerID_kept(2)[of blk "queues b e"] q by (simp add: issuerAt_def)
  with iq_Ready[OF assms(1) _ assms(3) q] e show ?thesis
    by (auto simp: BufferQueue_Ready_def Some q blocksAt_def intro: buf_inv_same_size[OF assms(2)])
qed (simp add: BufferQueue_Ready_def assms)

lemma buf_inv_Unsubmit:
  assumes "inj_on ID U" and "buf_inv U xs b" and "blk \<in> U"
  shows "buf_inv U xs (snd (BufferQueue_Unsubmit blk b))"
proof (cases "activeIssuers b (IssuerID blk)")
  case (Some e)
  note e = buf_inv_active[OF assms(2) Some]
  obtain r q where q: "IssuerQueue_Unsubmit blk (queues b e) = (r, q)" by fastforce
  have id: "issuerID q = issuerAt b e" using issuerID_kept(1)[of blk "queues b e"] q by (simp add: issuerAt_def)
  note u = iq_Unsubmit[OF assms(1) _ assms(3) q]
  show ?thesis
  proof (cases r)
    case True
    with u e have "iq_ok U q" "blocksAt b e = add_mset blk (iq_content q)" by (auto simp: blocksAt_def)
    with True e id show ?thesis
      by (auto simp: BufferQueue_Unsubmit_def Some q setQueue_def intro!: buf_inv_update[OF assms(2), of e q])
  next
    case False
    with u e id show ?thesis
      by (auto simp: BufferQueue_Unsubmit_def Some q blocksAt_def intro: buf_inv_same_size[OF assms(2)])
  qed
qed (simp add: BufferQueue_Unsubmit_def assms)

lemma buf_inv_PopFront:
  assumes "buf_inv U xs b"
  shows "buf_inv U xs (snd (BufferQueue_PopFront b))"
proof (cases xs)
  case Nil
  then have "ring b = None" using assms by (simp add: buf_inv_def)
  then show ?thesis using assms by (simp add: BufferQueue_PopFront_def Current_def)
next
  case (Cons e ys)
  then have r: "ring b = Some e" and ok: "iq_ok U (queues b e)" and e: "e \<in> set xs"
    using assms ring_of_hd[of b e ys] by (auto simp: buf_inv_def)
  obtain d q where q: "IssuerQueue_PopFront (queues b e) = (d, q)" by fastforce
  have id: "issuerID q = issuerAt b e" using issuerID_kept(3)[of "queues b e"] q by (simp add: issuerAt_def)
  note p = iq_PopFront[OF ok q]
  show ?thesis
  proof (cases d)
    case None
    with p id e show ?thesis
      by (auto simp: BufferQueue_PopFront_def Current_def r q leave_def blocksAt_def
          intro: buf_inv_same_size[OF assms])
  next
    case (Some blk)
    with p have "iq_ok U q" "blocksAt b e = add_mset blk (iq_content q)"
      by (auto simp: leave_def blocksAt_def)
    with Some id e show ?thesis
      by (auto simp: BufferQueue_PopFront_def Current_def r q setQueue_def intro!: buf_inv_update[OF assms, of e q])
  qed
qed

text \<open>A submission that does not exceed the buffer.\<close>

lemma buf_inv_submit_queue:
  assumes "inj_on ID U" and "buf_inv U xs b" and "blk \<in> U" and "e \<in> set xs"
    and "IssuerQueue_Submit blk (queues b e) = Some (True, q)"
  shows "buf_inv U xs ((setQueue e q b)\<lparr>buffered := buffered b + 1\<rparr>)"
proof -
  have ok: "iq_ok U (queues b e)" using assms(2,4) by (auto simp: buf_inv_def)
  from iq_Submit[OF assms(1) ok assms(3,5)]
  have "iq_ok U q" "iq_content q = add_mset blk (blocksAt b e)" by (auto simp: blocksAt_def)
  moreover have "issuerID q = issuerAt b e"
    using assms(5) by (auto simp: IssuerQueue_Submit_def issuerAt_def split: if_splits)
  ultimately show ?thesis by (intro buf_inv_update[OF assms(2,4)]) auto
qed

section \<open>Creating and removing issuers\<close>

lemma ringInsert_ring:
  assumes "ring_of b xs" and "\<forall>e \<in> set xs. e < fresh b"
  shows "fst (ringInsert q b) = fresh b" and "ring_of (snd (ringInsert q b)) (xs @ [fresh b])"
proof -
  have p: "fresh b \<notin> set xs" using assms(2) by auto
  have "fst (ringInsert q b) = fresh b \<and> ring_of (snd (ringInsert q b)) (xs @ [fresh b])"
  proof (cases "ring b")
    case None
    then have "xs = []" using assms(1) by (simp add: ring_of_def)
    then show ?thesis
      by (simp add: ringInsert_def Let_def None setQueue_def ring_of_def is_ring_singleton linked_def ring_New_def)
  next
    case (Some r)
    then have r: "is_ring (store b) xs" "hd xs = r" using assms(1) by (simp_all add: ring_of_def)
    then have "xs \<noteq> []" by (simp add: is_ring_def)
    then show ?thesis
      using ring_insert_last[OF r(1) p] r(2)
      by (simp add: ringInsert_def Let_def Some setQueue_def ring_of_def case_prod_beta)
  qed
  then show "fst (ringInsert q b) = fresh b" and "ring_of (snd (ringInsert q b)) (xs @ [fresh b])" by auto
qed

lemma ringInsert_rest:
  "queues (snd (ringInsert q b)) = (queues b)(fresh b := q)"
  "activeIssuers (snd (ringInsert q b)) = activeIssuers b"
  "fresh (snd (ringInsert q b)) = fresh b + 1"
  "buffered (snd (ringInsert q b)) = buffered b"
  by (auto simp: ringInsert_def Let_def setQueue_def case_prod_beta split: option.splits)

lemma buf_inv_Create:
  assumes inv: "buf_inv U xs b" and i: "activeIssuers b i = None"
  shows "fst (CreateIssuerQueue i b) = fresh b"
    and "buf_inv U (xs @ [fresh b]) (snd (CreateIssuerQueue i b))"
proof -
  let ?p = "fresh b" and ?b = "snd (CreateIssuerQueue i b)"
  have ring: "ring_of b xs" and bound: "\<forall>e \<in> set xs. e < ?p" using inv by (auto simp: buf_inv_def)
  show "fst (CreateIssuerQueue i b) = ?p"
    using ringInsert_ring(1)[OF ring bound] by (simp add: CreateIssuerQueue_def case_prod_beta Let_def)
  have b: "queues ?b = (queues b)(?p := NewIssuerQueue i)" "activeIssuers ?b = (activeIssuers b)(i \<mapsto> ?p)"
    "fresh ?b = ?p + 1" "buffered ?b = buffered b"
    using ringInsert_rest ringInsert_ring(1)[OF ring bound]
    by (simp_all add: CreateIssuerQueue_def case_prod_beta Let_def)
  have r: "ring_of ?b (xs @ [?p])"
    using ringInsert_ring(2)[OF ring bound, of "NewIssuerQueue i"]
      ring_of_cong[of ?b "snd (ringInsert (NewIssuerQueue i) b)" "xs @ [?p]"]
    by (simp add: CreateIssuerQueue_def case_prod_beta Let_def)
  have old: "issuerAt ?b e = issuerAt b e" "blocksAt ?b e = blocksAt b e" if "e \<in> set xs" for e
    using that bound by (auto simp: issuerAt_def blocksAt_def b)
  have new: "issuerAt ?b ?p = i" "blocksAt ?b ?p = {#}"
    by (simp_all add: issuerAt_def blocksAt_def b NewIssuerQueue_def iq_content_def)
  have fresh_issuer: "issuerAt b e \<noteq> i" if "e \<in> set xs" for e
    using buf_inv_activeI[OF inv that] i by auto
  show "buf_inv U (xs @ [?p]) ?b"
    unfolding buf_inv_def
  proof (intro conjI allI ballI)
    show "ring_of ?b (xs @ [?p])" by (rule r)
    show "e < fresh ?b" "iq_ok U (queues ?b e)" if "e \<in> set (xs @ [?p])" for e
      using that bound inv iq_ok_New by (auto simp: b buf_inv_def)
    have "map (issuerAt ?b) xs = map (issuerAt b) xs" using old(1) by simp
    then show "distinct (map (issuerAt ?b) (xs @ [?p]))"
      using inv new(1) fresh_issuer old(1)
      by (auto simp: buf_inv_def simp del: map_eq_conv)
    show "activeIssuers ?b j = Some e \<longleftrightarrow> e \<in> set (xs @ [?p]) \<and> issuerAt ?b e = j" for j e
      using inv old(1) new(1) fresh_issuer bound by (auto simp: b buf_inv_def)
    have "map (\<lambda>e. int (size (blocksAt ?b e))) xs = map (\<lambda>e. int (size (blocksAt b e))) xs"
      using old(2) by simp
    then show "buffered ?b = (\<Sum>e \<leftarrow> xs @ [?p]. int (size (blocksAt ?b e)))"
      using inv new(2) by (simp add: b buf_inv_def del: map_eq_conv)
  qed
qed

lemma iq_Size:
  assumes "iq_ok U q" and "size (iq_content q) < 2 ^ 63"
  shows "IssuerQueue_Size (Some q) = int (size (iq_content q))"
  using assms by (simp add: IssuerQueue_Size_def iq_ok_def signed_of_nat signed_take_bit_int_eq_self)

text \<open>Removing the issuer at the front of the ring.\<close>

lemma buf_inv_Remove_current:
  assumes inv: "buf_inv U (x # xs) b" and small: "size (blocksAt b x) < 2 ^ 63"
  shows "\<exists>b'. RemoveIssuer (issuerAt b x) b = Some b' \<and> buf_inv U xs b' \<and> queues b' = queues b"
proof -
  have ring: "ring b = Some x" "is_ring (store b) (x # xs)"
    using inv ring_of_hd[of b x xs] by (auto simp: buf_inv_def ring_of_def)
  have act: "activeIssuers b (issuerAt b x) = Some x" and ok: "iq_ok U (queues b x)"
    using inv by (auto simp: buf_inv_def)
  have size: "IssuerQueue_Size (Some (queues b x)) = int (size (blocksAt b x))"
    using iq_Size[OF ok] small by (simp add: blocksAt_def)
  have "issuerAt b x \<notin> issuerAt b ` set xs" using inv by (simp add: buf_inv_def)
  then have dist: "x \<notin> set xs" "\<forall>e \<in> set xs. issuerAt b e \<noteq> issuerAt b x"
    by (metis imageI)+
  define b1 where "b1 = b\<lparr>buffered := buffered b - int (size (blocksAt b x))\<rparr>"
  obtain b2 where b2: "ringRemove x b1 = Some b2" "ring_of b2 xs" "queues b2 = queues b"
    "activeIssuers b2 = activeIssuers b" "buffered b2 = buffered b1" "fresh b2 = fresh b"
  proof (cases xs)
    case Nil
    then have "nxt (store b) x = x" using is_ring_hd(1)[OF ring(2)] by simp
    then show ?thesis
      using ring Nil by (intro that[of "b1\<lparr>ring := None\<rparr>"]) (auto simp: ringRemove_def b1_def Let_def)
  next
    case (Cons y ys)
    then have n: "nxt (store b) x = y" "y \<noteq> x" using is_ring_hd(1)[OF ring(2)] ring(2) by (auto simp: is_ring_def)
    show ?thesis
      using n ring ring_unlink_first[of "store b" x y ys] Cons
      by (intro that[of "b1\<lparr>ring := Some y, store := snd (ring_Link (prv (store b) x) y (store b))\<rparr>"])
         (auto simp: ringRemove_def b1_def Let_def ring_of_def)
  qed
  let ?b = "b2\<lparr>activeIssuers := (activeIssuers b2)(issuerAt b x := None)\<rparr>"
  have "RemoveIssuer (issuerAt b x) b = Some ?b"
    using b2(1) act size by (simp add: RemoveIssuer_def Let_def b1_def)
  moreover have "issuerAt ?b = issuerAt b" "blocksAt ?b = blocksAt b"
    by (simp_all add: fun_eq_iff issuerAt_def blocksAt_def b2)
  then have "buf_inv U xs ?b"
    using inv b2 dist ring_of_cong[of ?b b2 xs]
    by (auto simp: buf_inv_def b1_def split: if_splits)
  ultimately show ?thesis using b2(3) by auto
qed

text \<open>Removing any other issuer.\<close>

lemma RemoveIssuer_other:
  assumes inv: "buf_inv U (x # ys @ r # zs) b"
  shows "\<exists>b'. RemoveIssuer (issuerAt b r) b = Some b' \<and> ring_of b' (x # r # zs) \<and>
    activeIssuers b' = (activeIssuers b)(issuerAt b r := None) \<and> queues b' = queues b"
proof -
  have ring: "ring b = Some x" "is_ring (store b) (x # ys @ r # zs)"
    using inv ring_of_hd[of b x "ys @ r # zs"] by (auto simp: buf_inv_def ring_of_def)
  have act: "activeIssuers b (issuerAt b r) = Some r" using inv by (auto simp: buf_inv_def)
  have "r \<noteq> x" using ring(2) by (auto simp: is_ring_def)
  with act ring ring_unlink_other[OF ring(2)] show ?thesis
    by (simp add: RemoveIssuer_def Let_def ringRemove_def ring_of_def)
qed

section \<open>Dropping from the longest queue\<close>

text \<open>
  A queue whose counters hold what they count: the number of its blocks fits the counter, their
  work fits the 32 bit work score, and no block is free of work.
\<close>

definition totalWork :: "block multiset \<Rightarrow> nat" where
  "totalWork M = (\<Sum>x \<in># M. unat (WorkScore x))"

definition countable_queue :: "block set \<Rightarrow> IssuerQueue \<Rightarrow> bool" where
  "countable_queue U q \<longleftrightarrow>
     iq_ok U q \<and> size (iq_content q) < 2 ^ 63 \<and> totalWork (iq_content q) < 2 ^ 32 \<and>
     (\<forall>x \<in># iq_content q. 0 < WorkScore x)"

lemma work_as_nat: "(\<Sum>x \<in># M. ucast (WorkScore x) :: i64) = word_of_nat (totalWork M)"
  by (induction M) (simp_all add: totalWork_def flip: unsigned_of_nat)

lemma iq_Work:
  assumes "countable_queue U q"
  shows "unat (IssuerQueue_Work (Some q)) = totalWork (iq_content q)"
proof -
  have "work q = word_of_nat (totalWork (iq_content q))"
    using assms by (simp add: countable_queue_def iq_ok_def work_as_nat)
  moreover have small: "totalWork (iq_content q) < 2 ^ 32" using assms by (simp add: countable_queue_def)
  then have "take_bit 64 (totalWork (iq_content q)) = totalWork (iq_content q)"
    by (intro take_bit_nat_eq_self) simp
  ultimately have "IssuerQueue_Work (Some q) = word_of_nat (totalWork (iq_content q))"
    by (simp add: IssuerQueue_Work_def unsigned_of_nat)
  then show ?thesis using small by (simp add: unat_of_nat)
qed

lemma totalWork_pos:
  assumes "\<forall>x \<in># M. 0 < WorkScore x"
  shows "0 < totalWork M \<longleftrightarrow> M \<noteq> {#}"
  using assms by (induction M) (auto simp: totalWork_def unat_gt_0 word_gt_0)

lemma countable_queue_facts:
  assumes "countable_queue U q"
  shows "0 < IssuerQueue_Size (Some q) \<longleftrightarrow> iq_content q \<noteq> {#}"
    and "0 < n \<Longrightarrow> 0 < fst (f64_div (unat (IssuerQueue_Work (Some q))) n) \<longleftrightarrow> iq_content q \<noteq> {#}"
proof -
  show "0 < IssuerQueue_Size (Some q) \<longleftrightarrow> iq_content q \<noteq> {#}"
    using assms iq_Size[of U q] by (auto simp: countable_queue_def nonempty_has_size)
  show "0 < fst (f64_div (unat (IssuerQueue_Work (Some q))) n) \<longleftrightarrow> iq_content q \<noteq> {#}" if "0 < n"
    using assms f64_div_pos[OF that] totalWork_pos[of "iq_content q"]
    by (simp add: iq_Work[OF assms]) (simp add: countable_queue_def)
qed

text \<open>What the scan has found so far: a scale above zero comes from a queue with blocks.\<close>

definition scale_pos :: "f64 option \<Rightarrow> bool" where
  "scale_pos maxScale \<longleftrightarrow> (case maxScale of None \<Rightarrow> False | Some m \<Rightarrow> 0 < fst m)"

definition found :: "BufferQueue \<Rightarrow> nat set \<Rightarrow> f64 option \<Rightarrow> account_id \<Rightarrow> bool" where
  "found b E maxScale maxIssuer \<longleftrightarrow>
     (scale_pos maxScale \<longrightarrow> (\<exists>e \<in> E. issuerAt b e = maxIssuer \<and> blocksAt b e \<noteq> {#}))"

lemma dropScan_finds:
  assumes "ring_of b (ys @ zs)" and "start = hd (zs @ ys)" and "ys \<noteq> []" and "ring b = Some (hd ys)"
    and "\<forall>e \<in> set (ys @ zs). countable_queue U (queues b e)"
    and "found b (set (ys @ zs)) maxScale maxIssuer"
    and "(\<exists>e \<in> set ys. blocksAt b e \<noteq> {#}) \<or> scale_pos maxScale"
  shows "\<exists>e \<in> set (ys @ zs). blocksAt b e \<noteq> {#} \<and>
    dropScan qf (Some start) start (hd ys) maxScale maxIssuer b = Some (issuerAt b e, b\<lparr>ring := Some start\<rparr>)"
  using assms
proof (induction ys arbitrary: zs b maxScale maxIssuer)
  case (Cons y ys)
  have ring: "ring_of b (y # ys @ zs)" using Cons.prems(1) by simp
  let ?b = "b\<lparr>ring := Some (hd (ys @ zs @ [y]))\<rparr>"
  have step: "Next b = (Some (hd (ys @ zs @ [y])), ?b)"
    using Next_rotates(1)[OF ring] by simp
  have ring': "ring_of ?b (ys @ zs @ [y])" using Next_rotates(2)[OF ring] by simp
  have start: "start = hd (zs @ y # ys)" using Cons.prems(2) by simp
  have dist: "distinct (y # ys @ zs)" by (rule ring_of_distinct[OF ring])
  define Q where "Q = sint (qf (issuerAt b y))"
  define scale where "scale = f64_div (unat (IssuerQueue_Work (Some (queues b y)))) (nat Q)"
  define larger where "larger = (0 < Q \<and> (case maxScale of None \<Rightarrow> True | Some m \<Rightarrow> f64_less m scale))"
  define maxScale' where "maxScale' = (if larger then Some scale else maxScale)"
  define maxIssuer' where "maxIssuer' = (if larger then issuerAt b y else maxIssuer)"
  have cq: "countable_queue U (queues b y)" using Cons.prems(5) by simp
  have size: "0 < IssuerQueue_Size (Some (queues b y)) \<longleftrightarrow> blocksAt b y \<noteq> {#}"
    using countable_queue_facts(1)[OF cq] by (simp add: blocksAt_def)
  have pos: "0 < Q \<Longrightarrow> 0 < fst scale \<longleftrightarrow> blocksAt b y \<noteq> {#}"
    using countable_queue_facts(2)[OF cq] by (simp add: blocksAt_def scale_def)
  have unfold: "dropScan qf (Some start) start y maxScale maxIssuer b =
     (if \<not> 0 < Q \<and> blocksAt b y \<noteq> {#} then Some (issuerAt b y, b\<lparr>ring := Some start\<rparr>)
      else if hd (ys @ zs @ [y]) = start then Some (maxIssuer', ?b)
      else dropScan qf (Some start) start (hd (ys @ zs @ [y])) maxScale' maxIssuer' ?b)"
    by (subst dropScan.simps)
       (simp only: Let_def step size[symmetric] Q_def issuerAt_def larger_def maxScale'_def maxIssuer'_def
         scale_def prod.case option.inject option.sel)
  show ?case
  proof (cases "\<not> 0 < Q \<and> blocksAt b y \<noteq> {#}")
    case True
    then show ?thesis by (intro bexI[of _ y]) (simp_all add: unfold)
  next
    case False
    have found': "found b (set (y # ys @ zs)) maxScale' maxIssuer'"
      using Cons.prems(6) pos by (auto simp: found_def scale_pos_def maxScale'_def maxIssuer'_def larger_def)
    have some': "(\<exists>e \<in> set ys. blocksAt b e \<noteq> {#}) \<or> scale_pos maxScale'"
      using Cons.prems(7) False pos f64_not_less_pos[of _ scale] f64_less_pos[of _ scale]
      by (auto simp: scale_pos_def maxScale'_def larger_def split: option.splits if_splits)
    show ?thesis
    proof (cases "ys = []")
      case True
      then have "hd (ys @ zs @ [y]) = start" using start by simp
      moreover from some' True have "scale_pos maxScale'" by simp
      with found' True obtain e where "e \<in> set (y # zs)" "issuerAt b e = maxIssuer'" "blocksAt b e \<noteq> {#}"
        by (auto simp: found_def)
      ultimately show ?thesis using False True by (intro bexI[of _ e]) (auto simp: unfold)
    next
      case ys: False
      then have h: "hd (ys @ zs @ [y]) = hd ys" by simp
      have "hd ys \<noteq> start"
      proof
        assume "hd ys = start"
        moreover have "hd ys \<in> set ys" using ys by simp
        moreover have "start \<in> set (zs @ [y])" unfolding start by (cases zs) auto
        ultimately show False using dist by auto
      qed
      moreover have "\<exists>e \<in> set (ys @ zs @ [y]). blocksAt ?b e \<noteq> {#} \<and>
        dropScan qf (Some start) start (hd ys) maxScale' maxIssuer' ?b = Some (issuerAt ?b e, ?b\<lparr>ring := Some start\<rparr>)"
        by (rule Cons.IH)
           (use ring' Cons.prems(2,5) h ys found' some' in
             \<open>auto simp: found_def blocksAt_def issuerAt_def\<close>)
      ultimately show ?thesis using False by (auto simp: unfold h blocksAt_def issuerAt_def)
    qed
  qed
qed simp

definition allBlocks :: "BufferQueue \<Rightarrow> nat list \<Rightarrow> block multiset" where
  "allBlocks b xs = (\<Sum>e \<leftarrow> xs. blocksAt b e)"

lemma allBlocks_size: "int (size (allBlocks b xs)) = (\<Sum>e \<leftarrow> xs. int (size (blocksAt b e)))"
  by (induction xs) (auto simp: allBlocks_def)

lemma allBlocks_empty: "allBlocks b xs = {#} \<longleftrightarrow> (\<forall>e \<in> set xs. blocksAt b e = {#})"
  by (induction xs) (auto simp: allBlocks_def)

lemma allBlocks_replace:
  assumes "distinct xs" and "e \<in> set xs" and "\<And>x. x \<noteq> e \<Longrightarrow> blocksAt b' x = blocksAt b x"
    and "blocksAt b e = add_mset blk (blocksAt b' e)"
  shows "allBlocks b xs = add_mset blk (allBlocks b' xs)"
proof -
  obtain ys zs where xs: "xs = ys @ e # zs" using assms(2) by (meson split_list)
  then have "e \<notin> set ys" "e \<notin> set zs" using assms(1) by auto
  then have "map (blocksAt b') ys = map (blocksAt b) ys" "map (blocksAt b') zs = map (blocksAt b) zs"
    by (auto intro!: map_cong assms(3))
  then show ?thesis by (simp add: xs allBlocks_def assms(4) del: map_eq_conv)
qed

lemma countable_queue_shrinks:
  assumes "countable_queue U q" and "iq_content q = add_mset blk (iq_content q')" and "iq_ok U q'"
  shows "countable_queue U q'"
  using assms by (auto simp: countable_queue_def totalWork_def)

lemma dropLoop_step:
  assumes inv: "buf_inv U (x # xs) b" and cq: "\<forall>e \<in> set (x # xs). countable_queue U (queues b e)"
    and over: "0 \<le> maxBuffer" "maxBuffer < buffered b"
  obtains blk b' where "dropLoop qf maxBuffer (Some x) x acc b = dropLoop qf maxBuffer (Some x) x (acc @ [blk]) b'"
    and "buf_inv U (x # xs) b'" and "\<forall>e \<in> set (x # xs). countable_queue U (queues b' e)"
    and "buffered b' = buffered b - 1" and "allBlocks b (x # xs) = add_mset blk (allBlocks b' (x # xs))"
proof -
  have ring: "ring_of b (x # xs)" using inv by (simp add: buf_inv_def)
  then have same: "b\<lparr>ring := Some x\<rparr> = b" using ring_of_hd by simp
  have "buffered b = int (size (allBlocks b (x # xs)))"
    using inv by (simp only: buf_inv_def allBlocks_size)
  with over have "allBlocks b (x # xs) \<noteq> {#}" by auto
  then have "\<exists>e \<in> set (x # xs). blocksAt b e \<noteq> {#}" by (simp only: allBlocks_empty) blast
  then obtain e where e: "e \<in> set (x # xs)" "blocksAt b e \<noteq> {#}"
    "dropScan qf (Some x) x x None 0 b = Some (issuerAt b e, b)"
    using dropScan_finds[of b "x # xs" "[]" x U None 0 qf] ring cq ring_of_hd[OF ring]
    by (auto simp: found_def scale_pos_def same)
  have act: "activeIssuers b (issuerAt b e) = Some e" by (rule buf_inv_activeI[OF inv e(1)])
  have ok: "iq_ok U (queues b e)" using buf_inv_active[OF inv act] by simp
  obtain d q where q: "IssuerQueue_RemoveTail (queues b e) = (d, q)" by fastforce
  note r = iq_RemoveTail[OF ok q]
  then obtain blk where d: "d = Some blk" using e(2) by (cases d) (auto simp: blocksAt_def)
  have content: "blocksAt b e = add_mset blk (iq_content q)" using r d by (simp add: leave_def blocksAt_def)
  have id: "issuerID q = issuerAt b e" using issuerID_kept(5)[of "queues b e"] q by (simp add: issuerAt_def)
  let ?b = "(setQueue e q b)\<lparr>buffered := buffered b - 1\<rparr>"
  show thesis
  proof (rule that[of blk ?b])
    show "dropLoop qf maxBuffer (Some x) x acc b = dropLoop qf maxBuffer (Some x) x (acc @ [blk]) ?b"
      using over(2) by (subst dropLoop.simps) (simp add: e(3) act q d setQueue_def)
    show "buf_inv U (x # xs) ?b"
      by (rule buf_inv_update[OF inv e(1) _ id refl]) (use r content in auto)
    show "\<forall>e \<in> set (x # xs). countable_queue U (queues ?b e)"
      using cq r content e(1) countable_queue_shrinks[of U "queues b e" blk q]
      by (auto simp: setQueue_def blocksAt_def)
    show "allBlocks b (x # xs) = add_mset blk (allBlocks ?b (x # xs))"
      by (rule allBlocks_replace[OF ring_of_distinct[OF ring] e(1)])
         (use content in \<open>simp_all add: blocksAt_def setQueue_def\<close>)
  qed simp
qed

lemma dropLoop_drops:
  assumes "buf_inv U (x # xs) b" and "\<forall>e \<in> set (x # xs). countable_queue U (queues b e)" and "0 \<le> maxBuffer"
  shows "\<exists>ds b'. dropLoop qf maxBuffer (Some x) x acc b = Some (acc @ ds, b') \<and>
    buf_inv U (x # xs) b' \<and> buffered b' = min (buffered b) maxBuffer \<and>
    allBlocks b (x # xs) = allBlocks b' (x # xs) + mset ds"
  using assms(1,2)
proof (induction "nat (buffered b - maxBuffer)" arbitrary: acc b)
  case 0
  then have "\<not> maxBuffer < buffered b" by simp
  then show ?case using 0 by (subst dropLoop.simps) (auto simp: min_def)
next
  case (Suc n)
  then have over: "maxBuffer < buffered b" by simp
  obtain blk b1 where b1: "dropLoop qf maxBuffer (Some x) x acc b = dropLoop qf maxBuffer (Some x) x (acc @ [blk]) b1"
    "buf_inv U (x # xs) b1" "\<forall>e \<in> set (x # xs). countable_queue U (queues b1 e)"
    "buffered b1 = buffered b - 1" "allBlocks b (x # xs) = add_mset blk (allBlocks b1 (x # xs))"
    by (rule dropLoop_step[OF Suc.prems assms(3) over])
  have "n = nat (buffered b1 - maxBuffer)" using Suc.hyps(2) b1(4) by simp
  from Suc.hyps(1)[OF this b1(2,3), of "acc @ [blk]"] obtain ds b' where
    "dropLoop qf maxBuffer (Some x) x (acc @ [blk]) b1 = Some ((acc @ [blk]) @ ds, b')"
    "buf_inv U (x # xs) b'" "buffered b' = min (buffered b1) maxBuffer"
    "allBlocks b1 (x # xs) = allBlocks b' (x # xs) + mset ds" by blast
  then show ?case using b1 over by (intro exI[of _ "blk # ds"] exI[of _ b']) auto
qed

section \<open>A counter that is too large\<close>

lemma dropScan_returns:
  assumes "ring_of b (ys @ zs)" and "start = hd (zs @ ys)" and "ys \<noteq> []" and "ring b = Some (hd ys)"
  shows "\<exists>i. dropScan qf (Some start) start (hd ys) maxScale maxIssuer b = Some (i, b\<lparr>ring := Some start\<rparr>)"
  using assms
proof (induction ys arbitrary: zs b maxScale maxIssuer)
  case (Cons y ys)
  have ring: "ring_of b (y # ys @ zs)" using Cons.prems(1) by simp
  let ?b = "b\<lparr>ring := Some (hd (ys @ zs @ [y]))\<rparr>"
  have step: "Next b = (Some (hd (ys @ zs @ [y])), ?b)"
    using Next_rotates(1)[OF ring] by simp
  have ring': "ring_of ?b (ys @ zs @ [y])" using Next_rotates(2)[OF ring] by simp
  have start: "start = hd (zs @ y # ys)" using Cons.prems(2) by simp
  show ?case
  proof (cases "ys = []")
    case True
    then have "hd (ys @ zs @ [y]) = start" using start by simp
    then show ?thesis by (subst dropScan.simps) (simp add: step Let_def True)
  next
    case False
    then have h: "hd (ys @ zs @ [y]) = hd ys" by simp
    have "\<exists>i. dropScan qf (Some start) start (hd ys) ms mi ?b = Some (i, ?b\<lparr>ring := Some start\<rparr>)" for ms mi
      by (rule Cons.IH[where zs = "zs @ [y]"]) (use ring' start h False in \<open>simp_all add: hd_append\<close>)
    then have "\<exists>i. dropScan qf (Some start) start (hd ys) ms mi (b\<lparr>ring := Some (hd ys)\<rparr>) =
        Some (i, b\<lparr>ring := Some start\<rparr>)" for ms mi
      using h by simp
    then show ?thesis
      by (subst dropScan.simps) (auto simp: step Let_def h)
  qed
qed simp

lemma dropLoop_stuck:
  assumes scan: "\<exists>i. dropScan qf (Some x) x x None 0 b = Some (i, b)"
    and empty: "\<forall>i e. activeIssuers b i = Some e \<longrightarrow> submitted (queues b e) = [] \<and> inbox (queues b e) = []"
    and over: "maxBuffer < buffered b"
  shows "dropLoop qf maxBuffer (Some x) x acc b = None"
proof (rule ccontr)
  assume "dropLoop qf maxBuffer (Some x) x acc b \<noteq> None"
  then obtain r where r: "dropLoop qf maxBuffer (Some x) x acc b = Some r" by auto
  have "\<not> (q = qf \<and> m = maxBuffer \<and> rs = Some x \<and> st = x \<and> c = b)"
    if "dropLoop q m rs st a c = Some r" for q m rs st a c
  proof (rule dropLoop.raw_induct[where P = "\<lambda>q m rs st a c _. \<not> (q = qf \<and> m = maxBuffer \<and> rs = Some x \<and> st = x \<and> c = b)", OF _ that])
    fix loop :: "(account_id \<Rightarrow> i64) \<Rightarrow> int \<Rightarrow> nat option \<Rightarrow> nat \<Rightarrow> block list \<Rightarrow> BufferQueue \<Rightarrow> (block list \<times> BufferQueue) option"
      and q m rs st a c y
    assume ih: "\<And>q m rs st a c y. loop q m rs st a c = Some y \<Longrightarrow>
        \<not> (q = qf \<and> m = maxBuffer \<and> rs = Some x \<and> st = x \<and> c = b)"
      and step: "(if m < buffered c then
        Option.bind (dropScan q rs st st None 0 c) (\<lambda>(maxIssuerID, b).
          case activeIssuers b maxIssuerID of
            None \<Rightarrow> loop q m rs st a b
          | Some e \<Rightarrow>
              let (dropped, iq) = IssuerQueue_RemoveTail (queues b e); b = setQueue e iq b in
              (case dropped of
                 None \<Rightarrow> loop q m rs st a b
               | Some blk \<Rightarrow> loop q m rs st (a @ [blk]) (b\<lparr>buffered := buffered b - 1\<rparr>)))
        else Some (a, c)) = Some y"
    show "\<not> (q = qf \<and> m = maxBuffer \<and> rs = Some x \<and> st = x \<and> c = b)"
    proof
      assume eq: "q = qf \<and> m = maxBuffer \<and> rs = Some x \<and> st = x \<and> c = b"
      obtain i where i: "dropScan qf (Some x) x x None 0 b = Some (i, b)" using scan by blast
      have "IssuerQueue_RemoveTail (queues b e) = (None, queues b e)" if "activeIssuers b i = Some e" for e
        using empty that by (auto simp: IssuerQueue_RemoveTail_def)
      then have "loop qf maxBuffer (Some x) x a b = Some y"
        using step eq i over by (auto simp: setQueue_def split: option.splits)
      then show False using ih by blast
    qed
  qed
  from this[OF r] show False by simp
qed

section \<open>Properties\<close>

lemma allBlocks_Submit:
  assumes "buf_inv U xs b" and "e \<in> set xs" and "iq_content q = add_mset blk (blocksAt b e)"
  shows "allBlocks ((setQueue e q b)\<lparr>buffered := n\<rparr>) xs = add_mset blk (allBlocks b xs)"
  by (rule allBlocks_replace[where e = e])
    (use assms in \<open>auto simp: buf_inv_def blocksAt_def setQueue_def dest: ring_of_distinct\<close>)

lemma countable_Submit:
  assumes "countable_queue U q" and "iq_ok U q'" and "iq_content q' = add_mset blk (iq_content q)"
    and "size (iq_content q) + 1 < 2 ^ 63" and "totalWork (iq_content q) + unat (WorkScore blk) < 2 ^ 32"
    and "0 < WorkScore blk"
  shows "countable_queue U q'"
  using assms by (auto simp: countable_queue_def totalWork_def)

text \<open>C8: Submitting a block to a well-formed buffer returns. The buffer stays well formed, no block is
  lost or invented (what is buffered afterwards together with the dropped blocks is what was buffered
  before and, if it was accepted, the new block), and a buffer within its limit stays within it,
  whatever the issuers' quanta are. The work and the number of blocks of each queue must fit
  their counters.\<close>

theorem Submit_drops_to_limit:
  assumes "inj_on ID U" and "blk \<in> U" and "buf_inv U (x # xs) b" and "e \<in> set (x # xs)"
    and "issuerAt b e = IssuerID blk" and "0 < WorkScore blk" and "0 \<le> maxBuffer"
    and "\<forall>a \<in> set (x # xs). countable_queue U (queues b a)"
    and "size (blocksAt b e) + 1 < 2 ^ 63" and "totalWork (blocksAt b e) + unat (WorkScore blk) < 2 ^ 32"
  shows "\<exists>dropped ok b'. BufferQueue_Submit blk e quantumFunc maxBuffer b = Some ((dropped, ok), b') \<and>
    buf_inv U (x # xs) b' \<and>
    allBlocks b' (x # xs) + mset dropped = allBlocks b (x # xs) + (if ok then {#blk#} else {#}) \<and>
    (buffered b \<le> maxBuffer \<longrightarrow> buffered b' \<le> maxBuffer)"
proof -
  have ok: "iq_ok U (queues b e)" using assms(3,4) unfolding buf_inv_def by blast
  have "IssuerQueue_Submit blk (queues b e) \<noteq> None"
    using assms(5) by (simp add: IssuerQueue_Submit_def issuerAt_def del: not_None_eq)
  then obtain r q where q: "IssuerQueue_Submit blk (queues b e) = Some (r, q)" by auto
  note s = iq_Submit[OF assms(1) ok assms(2) q]
  show ?thesis
  proof (cases r)
    case False
    then have "q = queues b e" using q by (auto simp: IssuerQueue_Submit_def split: if_splits)
    then have "setQueue e q b = b" by (simp add: setQueue_def)
    then show ?thesis using q False assms(3) by (auto simp: BufferQueue_Submit_def)
  next
    case True
    let ?b = "(setQueue e q b)\<lparr>buffered := buffered b + 1\<rparr>"
    have inv: "buf_inv U (x # xs) ?b"
      by (rule buf_inv_submit_queue[OF assms(1,3,2,4)]) (use q True in simp)
    have blocks: "allBlocks ?b (x # xs) = add_mset blk (allBlocks b (x # xs))"
      by (rule allBlocks_Submit[OF assms(3,4)]) (use s True in \<open>simp add: blocksAt_def\<close>)
    have "countable_queue U q"
      by (rule countable_Submit[of U "queues b e" q blk]) (use assms s True in \<open>auto simp: blocksAt_def\<close>)
    then have cq: "\<forall>a \<in> set (x # xs). countable_queue U (queues ?b a)"
      using assms(8) by (simp add: setQueue_def)
    have ring: "ring ?b = Some x" using inv by (auto simp: buf_inv_def dest: ring_of_hd)
    obtain ds b' where "dropLoop quantumFunc maxBuffer (Some x) x [] ?b = Some (ds, b')" "buf_inv U (x # xs) b'"
      "buffered b' = min (buffered ?b) maxBuffer" "allBlocks ?b (x # xs) = allBlocks b' (x # xs) + mset ds"
      using dropLoop_drops[OF inv cq assms(7), of quantumFunc "[]"] by auto
    then show ?thesis
      using q True ring inv blocks
      by (auto simp: BufferQueue_Submit_def Let_def dropTail_def Current_def setQueue_def)
  qed
qed

definition exampleBuffer :: BufferQueue where
  "exampleBuffer = snd (CreateIssuerQueue 2 (snd (CreateIssuerQueue 1 NewBufferQueue)))"

lemma exampleBuffer_inv: "buf_inv U [0, 1] exampleBuffer"
proof -
  have "buf_inv U ([] @ [fresh NewBufferQueue]) (snd (CreateIssuerQueue 1 NewBufferQueue))"
    by (rule buf_inv_Create[OF buf_inv_New]) (simp add: NewBufferQueue_def)
  from buf_inv_Create(2)[OF this, of 2] show ?thesis
    by (simp add: exampleBuffer_def CreateIssuerQueue_def ringInsert_def NewBufferQueue_def Let_def setQueue_def)
qed

lemma exampleBuffer_queues:
  "queues exampleBuffer 0 = NewIssuerQueue 1" "queues exampleBuffer (Suc 0) = NewIssuerQueue 2"
  "buffered exampleBuffer = 0" "ring exampleBuffer = Some 0"
  by (simp_all add: exampleBuffer_def CreateIssuerQueue_def ringInsert_def NewBufferQueue_def Let_def setQueue_def
    ring_Link_def case_prod_beta)

theorem Submit_drops_to_limit_witness:
  "\<exists>dropped ok b'. BufferQueue_Submit (exampleBlock 1 10) 0 (\<lambda>_. 7) 0 exampleBuffer = Some ((dropped, ok), b') \<and>
    buf_inv {exampleBlock 1 10} [0, 1] b' \<and>
    allBlocks b' [0, 1] + mset dropped = allBlocks exampleBuffer [0, 1] + (if ok then {#exampleBlock 1 10#} else {#}) \<and>
    (buffered exampleBuffer \<le> 0 \<longrightarrow> buffered b' \<le> 0)"
  by (rule Submit_drops_to_limit[OF _ _ exampleBuffer_inv])
    (auto simp: exampleBuffer_queues exampleBlock_def issuerAt_def blocksAt_def countable_queue_def totalWork_def
      iq_ok_def iq_content_def NewIssuerQueue_def heap_ordered_def)

lemma total_walk:
  assumes "buf_inv U xs b"
  shows "TotalBlocksCount b = Some (buffered b, b)"
proof (cases xs)
  case (Cons x ys)
  have f: "fold (\<lambda>e n. n + int (length (inbox (queues b e))) + int (length (submitted (queues b e)))) zs k =
      k + (\<Sum>e \<leftarrow> zs. int (size (blocksAt b e)))" for zs k
    by (induction zs arbitrary: k) (simp_all add: blocksAt_def iq_content_def)
  show ?thesis
    using assms Cons ring_of_hd[of b x ys] f[of xs 0]
    by (simp add: TotalBlocksCount_def Current_def buf_inv_def ringLoop_fold[of b x ys])
qed (use assms in \<open>simp add: buf_inv_def TotalBlocksCount_def Current_def\<close>)

lemma issuer_walk:
  assumes "buf_inv U xs b"
  shows "\<exists>ids. IssuerIDs b = Some (ids, b) \<and> distinct ids \<and> set ids = dom (activeIssuers b)"
proof (cases xs)
  case Nil
  then have "activeIssuers b i = None" for i using assms by (cases "activeIssuers b i") (auto simp: buf_inv_def)
  then have "dom (activeIssuers b) = {}" by auto
  then show ?thesis using assms Nil by (simp add: buf_inv_def IssuerIDs_def Current_def)
next
  case (Cons x ys)
  have f: "fold (\<lambda>e ids. ids @ [issuerID (queues b e)]) zs k = k @ map (issuerAt b) zs" for zs k
    by (induction zs arbitrary: k) (simp_all add: issuerAt_def)
  have "IssuerIDs b = Some (map (issuerAt b) xs, b)"
    using assms Cons ring_of_hd[of b x ys] f[of xs "[]"]
    by (simp add: IssuerIDs_def Current_def buf_inv_def ringLoop_fold[of b x ys])
  moreover have "issuerAt b ` set xs = dom (activeIssuers b)" using assms by (auto simp: buf_inv_def dom_def)
  ultimately show ?thesis using assms by (auto simp: buf_inv_def)
qed

lemma ready_walk:
  assumes "buf_inv U xs b"
  shows "\<exists>n. ReadyBlocksCount b = Some (n, b) \<and> 0 \<le> n \<and> n \<le> buffered b"
proof (cases xs)
  case (Cons x ys)
  have f: "fold (\<lambda>e n. n + int (length (inbox (queues b e)))) zs k =
      k + (\<Sum>e \<leftarrow> zs. int (length (inbox (queues b e))))" for zs k
    by (induction zs arbitrary: k) simp_all
  have "(\<Sum>e \<leftarrow> zs. int (length (inbox (queues b e)))) \<le> (\<Sum>e \<leftarrow> zs. int (size (blocksAt b e)))" for zs
    by (induction zs) (simp_all add: blocksAt_def iq_content_def)
  from this[of xs] have "int (length (inbox (queues b x))) + (\<Sum>e \<leftarrow> ys. int (length (inbox (queues b e)))) \<le>
      int (size (blocksAt b x)) + (\<Sum>e \<leftarrow> ys. int (size (blocksAt b e)))" using Cons by simp
  moreover have "0 \<le> (\<Sum>e \<leftarrow> zs. int (length (inbox (queues b e))))" for zs by (induction zs) simp_all
  ultimately show ?thesis
    using assms Cons ring_of_hd[of b x ys] f[of xs 0]
    by (auto simp: ReadyBlocksCount_def Current_def buf_inv_def ringLoop_fold[of b x ys])
qed (use assms in \<open>simp add: buf_inv_def ReadyBlocksCount_def Current_def\<close>)

text \<open>In a well-formed buffer, walking the ring to count blocks or list issuers ends, leaves the
  current queue where it was, and gives what the buffer's own bookkeeping says: the total equals
  the counter \<open>size\<close>, and the issuers listed are the active ones, each once.\<close>

theorem ring_walks_agree:
  assumes "buf_inv U xs b"
  shows "TotalBlocksCount b = Some (buffered b, b) \<and>
    (\<exists>ids. IssuerIDs b = Some (ids, b) \<and> distinct ids \<and> set ids = dom (activeIssuers b)) \<and>
    (\<exists>n. ReadyBlocksCount b = Some (n, b) \<and> 0 \<le> n \<and> n \<le> buffered b)"
  using total_walk[OF assms] issuer_walk[OF assms] ready_walk[OF assms] by blast

theorem ring_walks_agree_witness:
  "TotalBlocksCount exampleBuffer = Some (buffered exampleBuffer, exampleBuffer)"
  using ring_walks_agree[OF exampleBuffer_inv[of "{}"]] by blast

text \<open>C9: \<open>RemoveIssuer\<close> on the current issuer of a well-formed buffer takes its queue out of the ring
  and leaves the buffer well formed. On any other issuer it leaves the removed queue in the
  ring while it deletes the issuer from the index, and the queues \<open>ys\<close> between the current queue
  and the removed one are cut out of the ring although their issuers stay active: \<open>ringRemove\<close>
  links past \<open>b.ring.Next()\<close> instead of \<open>r.Next()\<close>.\<close>

theorem RemoveIssuer_only_current:
  assumes "buf_inv U (x # ys @ r # zs) b" and "size (blocksAt b x) < 2 ^ 63"
  shows "(\<exists>b'. RemoveIssuer (issuerAt b x) b = Some b' \<and> buf_inv U (ys @ r # zs) b') \<and>
    (\<exists>b'. RemoveIssuer (issuerAt b r) b = Some b' \<and> ring_of b' (x # r # zs) \<and>
      activeIssuers b' (issuerAt b r) = None \<and> (\<forall>y \<in> set ys. activeIssuers b' (issuerAt b y) = Some y))"
proof -
  have "issuerAt b r \<notin> issuerAt b ` set ys" using assms(1) by (auto simp: buf_inv_def)
  then have "issuerAt b y \<noteq> issuerAt b r" if "y \<in> set ys" for y using that by (metis imageI)
  moreover have "activeIssuers b (issuerAt b y) = Some y" if "y \<in> set ys" for y
    by (rule buf_inv_activeI[OF assms(1)]) (use that in simp)
  ultimately show ?thesis
    using buf_inv_Remove_current[OF assms] RemoveIssuer_other[OF assms(1)] by fastforce
qed

definition exampleRing :: BufferQueue where
  "exampleRing = snd (CreateIssuerQueue 3 exampleBuffer)"

lemma exampleRing_inv: "buf_inv U [0, 1, 2] exampleRing"
  using buf_inv_Create(2)[OF exampleBuffer_inv, of 3]
  by (simp add: exampleRing_def exampleBuffer_def CreateIssuerQueue_def ringInsert_def NewBufferQueue_def Let_def
    setQueue_def ring_Link_def case_prod_beta numeral_2_eq_2)

lemma exampleRing_issuers:
  "issuerAt exampleRing 0 = 1" "issuerAt exampleRing (Suc 0) = 2" "issuerAt exampleRing 2 = 3"
  "blocksAt exampleRing 0 = {#}"
  by (simp_all add: exampleRing_def exampleBuffer_def CreateIssuerQueue_def ringInsert_def NewBufferQueue_def Let_def
    setQueue_def ring_Link_def case_prod_beta issuerAt_def blocksAt_def iq_content_def NewIssuerQueue_def)

theorem RemoveIssuer_only_current_witness:
  "\<exists>b'. RemoveIssuer 3 exampleRing = Some b' \<and> ring_of b' [0, 2] \<and> activeIssuers b' 3 = None \<and>
     activeIssuers b' 2 = Some 1"
proof -
  have "buf_inv {} (0 # [1] @ 2 # []) exampleRing" using exampleRing_inv by simp
  from RemoveIssuer_only_current[OF this] show ?thesis by (simp add: exampleRing_issuers)
qed

text \<open>When the counter \<open>size\<close> is above the limit although every queue is empty, \<open>dropTail\<close> never
  returns: the counter must never exceed the number of buffered blocks.\<close>

theorem dropTail_stuck_when_overcounted:
  assumes "ring_of b (x # xs)"
    and "\<forall>i e. activeIssuers b i = Some e \<longrightarrow> submitted (queues b e) = [] \<and> inbox (queues b e) = []"
    and "maxBuffer < buffered b"
  shows "dropTail quantumFunc maxBuffer b = None"
proof -
  have r: "ring b = Some x" by (rule ring_of_hd[OF assms(1)])
  then have same: "b\<lparr>ring := Some x\<rparr> = b" by simp
  have "\<exists>i. dropScan quantumFunc (Some x) x x None 0 b = Some (i, b\<lparr>ring := Some x\<rparr>)"
    using dropScan_returns[of b "x # xs" "[]" x quantumFunc None 0] assms(1) r by simp
  then have "\<exists>i. dropScan quantumFunc (Some x) x x None 0 b = Some (i, b)" by (simp only: same)
  from dropLoop_stuck[OF this assms(2,3)] show ?thesis by (simp add: dropTail_def Current_def r)
qed

theorem dropTail_stuck_when_overcounted_witness:
  "dropTail (\<lambda>_. 7) 0 (exampleBuffer\<lparr>buffered := 1\<rparr>) = None"
proof (rule dropTail_stuck_when_overcounted)
  show "ring_of (exampleBuffer\<lparr>buffered := 1\<rparr>) (0 # [1])"
    using exampleBuffer_inv[of "{}"] ring_of_cong[of "exampleBuffer\<lparr>buffered := 1\<rparr>" exampleBuffer]
    by (simp add: buf_inv_def)
  show "\<forall>i e. activeIssuers (exampleBuffer\<lparr>buffered := 1\<rparr>) i = Some e \<longrightarrow>
      submitted (queues (exampleBuffer\<lparr>buffered := 1\<rparr>) e) = [] \<and> inbox (queues (exampleBuffer\<lparr>buffered := 1\<rparr>) e) = []"
    using buf_inv_active[OF exampleBuffer_inv[of "{}"]] by (fastforce simp: exampleBuffer_queues NewIssuerQueue_def)
qed simp

end
