(* ===== verification/External.thy ===== *)
theory External
  imports Prelude
begin

text \<open>
  The packages outside the repository that the modelled code computes with, each as a record of
  the functions that are called. The definitions of the other theories take the record as an
  argument; what they rely on is the predicate stated here: the documented behaviour of the
  package. Byte order and fixed width integers of the Go standard library (\<open>encoding/binary\<close>)
  are defined, not assumed.
\<close>

section \<open>Little-endian integers\<close>

fun le_bytes :: "nat \<Rightarrow> nat \<Rightarrow> bytes" where
  "le_bytes 0 x = []"
| "le_bytes (Suc n) x = word_of_nat (x mod 256) # le_bytes n (x div 256)"

fun le_val :: "bytes \<Rightarrow> nat" where
  "le_val [] = 0"
| "le_val (b # bs) = unat b + 256 * le_val bs"

lemma length_le_bytes [simp]: "length (le_bytes n x) = n"
  by (induction n arbitrary: x) auto

lemma le_val_le_bytes: "x < 256 ^ n \<Longrightarrow> le_val (le_bytes n x) = x"
  by (induction n arbitrary: x) (auto simp: unat_of_nat div_less_iff_less_mult mult.commute)

lemma le_bytes_le_val: "le_bytes (length bs) (le_val bs) = bs"
proof (induction bs)
  case (Cons b bs)
  have "unat b < 256" using unsigned_less[of b] by simp
  then show ?case using Cons by simp
qed simp

text \<open>\<open>binary.Write\<close> and \<open>binary.Read\<close> of an unsigned or signed integer with \<open>binary.LittleEndian\<close>.\<close>

definition put_le :: "'w::len word \<Rightarrow> bytes" where
  "put_le x = le_bytes (LENGTH('w) div 8) (unat x)"

definition take_bytes :: "nat \<Rightarrow> bytes \<Rightarrow> (bytes \<times> bytes) option" where
  "take_bytes n bs = (if length bs < n then None else Some (take n bs, drop n bs))"

definition get_le :: "bytes \<Rightarrow> ('w::len word \<times> bytes) option" where
  "get_le bs = map_option (\<lambda>(b, r). (word_of_nat (le_val b), r)) (take_bytes (LENGTH('w) div 8) bs)"

lemma take_bytes_append [codec_simps]: "length b = n \<Longrightarrow> take_bytes n (b @ r) = Some (b, r)"
  by (simp add: take_bytes_def)

lemma take_bytes_eq_Some:
  "take_bytes n bs = Some (b, r) \<longleftrightarrow> bs = b @ r \<and> length b = n"
  by (auto simp: take_bytes_def append_eq_conv_conj)

lemma length_put_le [simp]: "length (put_le (x :: 'w::len word)) = LENGTH('w) div 8"
  by (simp add: put_le_def)

lemma get_put_le:
  assumes "8 dvd LENGTH('w)"
  shows "get_le (put_le (x :: 'w::len word) @ r) = Some (x, r)"
proof -
  have "(256 :: nat) ^ (LENGTH('w) div 8) = 2 ^ (8 * (LENGTH('w) div 8))"
    by (simp add: power_mult)
  then have "unat x < 256 ^ (LENGTH('w) div 8)"
    using unsigned_less[of x] assms by simp
  then show ?thesis
    by (simp add: get_le_def put_le_def take_bytes_append le_val_le_bytes)
qed

lemma get_put_le_width [codec_simps]:
  "get_le (put_le (x8 :: 8 word) @ r) = Some (x8, r)"
  "get_le (put_le (x16 :: 16 word) @ r) = Some (x16, r)"
  "get_le (put_le (x32 :: 32 word) @ r) = Some (x32, r)"
  "get_le (put_le (x64 :: 64 word) @ r) = Some (x64, r)"
  by (rule get_put_le, simp)+

lemma put_le_u8: "put_le (x :: u8) = [x]"
proof -
  have "unat x < 256" using unsigned_less[of x] by simp
  then show ?thesis by (simp add: put_le_def)
qed

section \<open>What a decoder promises to its callers\<close>

text \<open>A loop that reads a counted number of elements.\<close>

fun dec_count :: "(bytes \<Rightarrow> ('a \<times> bytes) option) \<Rightarrow> nat \<Rightarrow> bytes \<Rightarrow> ('a list \<times> bytes) option" where
  "dec_count dec 0 bs = Some ([], bs)"
| "dec_count dec (Suc n) bs =
     (case dec bs of None \<Rightarrow> None
      | Some (x, r) \<Rightarrow> map_option (\<lambda>(xs, q). (x # xs, q)) (dec_count dec n r))"

text \<open>
  An encoding on the well-formed values that its decoder reads back, leaving what follows it
  untouched. The lemmas are what a container format needs from the format of its elements.
\<close>

locale codec =
  fixes enc :: "'a \<Rightarrow> bytes" and dec :: "bytes \<Rightarrow> ('a \<times> bytes) option" and wf :: "'a \<Rightarrow> bool"
  assumes dec_enc: "wf x \<Longrightarrow> dec (enc x @ r) = Some (x, r)"
begin

lemma prefix_free:
  assumes "wf x" and "wf y" and "enc x @ r = enc y @ s"
  shows "x = y \<and> r = s"
proof -
  have "Some (x, r) = Some (y, s)"
    using dec_enc[OF assms(1), of r] dec_enc[OF assms(2), of s] unfolding assms(3) by metis
  then show ?thesis by blast
qed

lemma injective: "wf x \<Longrightarrow> wf y \<Longrightarrow> enc x = enc y \<Longrightarrow> x = y"
  using prefix_free[of x y "[]" "[]"] by simp

lemma dec_count_concat:
  "(\<forall>x\<in>set xs. wf x) \<Longrightarrow> dec_count dec (length xs) (concat (map enc xs) @ r) = Some (xs, r)"
  by (induction xs) (auto simp: dec_enc)

end

section \<open>\<open>hive.go/core/safemath\<close>\<close>

text \<open>Checked arithmetic: the exact result when the type can hold it, an error otherwise.\<close>

record 'i safemath =
  SafeAdd :: "'i \<Rightarrow> 'i \<Rightarrow> 'i option"
  SafeSub :: "'i \<Rightarrow> 'i \<Rightarrow> 'i option"
  SafeMul :: "'i \<Rightarrow> 'i \<Rightarrow> 'i option"
  SafeDiv :: "'i \<Rightarrow> 'i \<Rightarrow> 'i option"

definition fits_unsigned :: "'w::len itself \<Rightarrow> int \<Rightarrow> bool" where
  "fits_unsigned _ i \<longleftrightarrow> 0 \<le> i \<and> i < 2 ^ LENGTH('w)"

definition fits_signed :: "'w::len itself \<Rightarrow> int \<Rightarrow> bool" where
  "fits_signed _ i \<longleftrightarrow> - (2 ^ (LENGTH('w) - 1)) \<le> i \<and> i < 2 ^ (LENGTH('w) - 1)"

definition checked_unsigned :: "int \<Rightarrow> 'w::len word option" where
  "checked_unsigned i = (if fits_unsigned TYPE('w) i then Some (word_of_int i) else None)"

definition checked_signed :: "int \<Rightarrow> 'w::len word option" where
  "checked_signed i = (if fits_signed TYPE('w) i then Some (word_of_int i) else None)"

definition safemath_unsigned :: "'w::len word safemath \<Rightarrow> bool" where
  "safemath_unsigned sm \<longleftrightarrow>
     (\<forall>a b. SafeAdd sm a b = checked_unsigned (uint a + uint b)) \<and>
     (\<forall>a b. SafeSub sm a b = checked_unsigned (uint a - uint b)) \<and>
     (\<forall>a b. SafeMul sm a b = checked_unsigned (uint a * uint b)) \<and>
     (\<forall>a b. SafeDiv sm a b = (if b = 0 then None else Some (a div b)))"

text \<open>Signed division truncates towards zero, as Go's does.\<close>

definition safemath_signed :: "'w::len word safemath \<Rightarrow> bool" where
  "safemath_signed sm \<longleftrightarrow>
     (\<forall>a b. SafeAdd sm a b = checked_signed (sint a + sint b)) \<and>
     (\<forall>a b. SafeSub sm a b = checked_signed (sint a - sint b)) \<and>
     (\<forall>a b. SafeMul sm a b = checked_signed (sint a * sint b)) \<and>
     (\<forall>a b. SafeDiv sm a b =
        (if b = 0 then None
         else checked_signed (sgn (sint a) * sgn (sint b) * (\<bar>sint a\<bar> div \<bar>sint b\<bar>))))"

lemma checked_unsigned_eq_Some:
  "checked_unsigned i = Some (w :: 'w::len word) \<longleftrightarrow> uint w = i"
proof
  assume "checked_unsigned i = Some w"
  then show "uint w = i"
    by (auto simp: checked_unsigned_def fits_unsigned_def uint_word_of_int_eq take_bit_int_eq_self split: if_splits)
next
  assume "uint w = i"
  then show "checked_unsigned i = Some w"
    using uint_bounded[of w] by (auto simp: checked_unsigned_def fits_unsigned_def)
qed

lemma checked_signed_eq_Some:
  "checked_signed i = Some (w :: 'w::len word) \<longleftrightarrow> sint w = i"
proof
  assume "checked_signed i = Some w"
  then show "sint w = i"
    by (auto simp: checked_signed_def fits_signed_def sint_sbintrunc' signed_take_bit_int_eq_self split: if_splits)
next
  assume "sint w = i"
  then show "checked_signed i = Some w"
    using sint_greater_eq[of w] sint_less[of w] by (auto simp: checked_signed_def fits_signed_def)
qed

lemma sint_word_of_int: "- (2 ^ 63) \<le> i \<Longrightarrow> i < 2 ^ 63 \<Longrightarrow> sint (word_of_int i :: i64) = i"
  by (simp add: sint_sbintrunc' signed_take_bit_int_eq_self)

lemma sint_of_small:
  assumes "uint (w :: i64) < 2 ^ 63"
  shows "sint w = uint w"
proof -
  have "- (2 ^ 63) \<le> uint w" by (rule order_trans[OF _ uint_ge_0]) simp
  then show ?thesis using sint_word_of_int[OF _ assms] by simp
qed

lemma uint_of_nonneg:
  assumes "0 \<le> sint (w :: i64)"
  shows "uint w = sint w"
proof -
  have "sint w < 2 ^ 63" using sint_less[of w] by simp
  moreover have "uint (word_of_int i :: i64) = i" if "0 \<le> i" "i < 2 ^ 63" for i
    using that by (simp add: uint_word_of_int_eq take_bit_int_eq_self)
  ultimately show ?thesis using assms by fastforce
qed

lemma safe_unsigned_iff:
  assumes "safemath_unsigned sm"
  shows "SafeAdd sm a b = Some c \<longleftrightarrow> uint c = uint a + uint b"
    and "SafeSub sm a b = Some c \<longleftrightarrow> uint c = uint a - uint b"
    and "SafeMul sm a b = Some c \<longleftrightarrow> uint c = uint a * uint b"
    and "SafeDiv sm a b = Some c \<longleftrightarrow> b \<noteq> 0 \<and> c = a div b"
  using assms by (auto simp: safemath_unsigned_def checked_unsigned_eq_Some)

lemma safe_signed_iff:
  assumes "safemath_signed sm"
  shows "SafeAdd sm a b = Some c \<longleftrightarrow> sint c = sint a + sint b"
    and "SafeSub sm a b = Some c \<longleftrightarrow> sint c = sint a - sint b"
    and "SafeMul sm a b = Some c \<longleftrightarrow> sint c = sint a * sint b"
  using assms by (auto simp: safemath_signed_def checked_signed_eq_Some)

text \<open>The instances the witnesses use.\<close>

definition safemath_u :: "'w::len word safemath" where
  "safemath_u =
     \<lparr>SafeAdd = \<lambda>a b. checked_unsigned (uint a + uint b),
      SafeSub = \<lambda>a b. checked_unsigned (uint a - uint b),
      SafeMul = \<lambda>a b. checked_unsigned (uint a * uint b),
      SafeDiv = \<lambda>a b. if b = 0 then None else Some (a div b)\<rparr>"

definition safemath_s :: "'w::len word safemath" where
  "safemath_s =
     \<lparr>SafeAdd = \<lambda>a b. checked_signed (sint a + sint b),
      SafeSub = \<lambda>a b. checked_signed (sint a - sint b),
      SafeMul = \<lambda>a b. checked_signed (sint a * sint b),
      SafeDiv = \<lambda>a b.
        if b = 0 then None
        else checked_signed (sgn (sint a) * sgn (sint b) * (\<bar>sint a\<bar> div \<bar>sint b\<bar>))\<rparr>"

lemma safemath_instances [simp]:
  "safemath_unsigned safemath_u" "safemath_signed safemath_s"
  by (simp_all add: safemath_unsigned_def safemath_u_def safemath_signed_def safemath_s_def)

section \<open>\<open>hive.go/serializer/marshalutil\<close>\<close>

text \<open>
  A writer appends to a buffer; a reader consumes the unread rest of its input, \<open>None\<close> when the
  input is too short.
\<close>

record marshalutil =
  WriteUint8 :: "u8 \<Rightarrow> bytes \<Rightarrow> bytes"
  WriteUint32 :: "u32 \<Rightarrow> bytes \<Rightarrow> bytes"
  WriteUint64 :: "u64 \<Rightarrow> bytes \<Rightarrow> bytes"
  WriteInt64 :: "i64 \<Rightarrow> bytes \<Rightarrow> bytes"
  WriteBool :: "bool \<Rightarrow> bytes \<Rightarrow> bytes"
  WriteByte :: "u8 \<Rightarrow> bytes \<Rightarrow> bytes"
  WriteBytes :: "bytes \<Rightarrow> bytes \<Rightarrow> bytes"
  ReadUint8 :: "bytes \<Rightarrow> (u8 \<times> bytes) option"
  ReadUint32 :: "bytes \<Rightarrow> (u32 \<times> bytes) option"
  ReadUint64 :: "bytes \<Rightarrow> (u64 \<times> bytes) option"
  ReadInt64 :: "bytes \<Rightarrow> (i64 \<times> bytes) option"
  ReadBytes :: "nat \<Rightarrow> bytes \<Rightarrow> (bytes \<times> bytes) option"

definition marshalutil_le :: marshalutil where
  "marshalutil_le =
     \<lparr>WriteUint8 = \<lambda>x m. m @ put_le x, WriteUint32 = \<lambda>x m. m @ put_le x,
      WriteUint64 = \<lambda>x m. m @ put_le x, WriteInt64 = \<lambda>x m. m @ put_le x,
      WriteBool = \<lambda>b m. m @ [if b then 1 else 0], WriteByte = \<lambda>x m. m @ [x], WriteBytes = \<lambda>b m. m @ b,
      ReadUint8 = get_le, ReadUint32 = get_le, ReadUint64 = get_le, ReadInt64 = get_le, ReadBytes = take_bytes\<rparr>"

text \<open>Documented: fixed width, little-endian, a boolean as one byte, raw bytes as they are.\<close>

definition marshalutil_spec :: "marshalutil \<Rightarrow> bool" where
  "marshalutil_spec mu \<longleftrightarrow>
     (\<forall>x m. WriteUint8 mu x m = m @ put_le x) \<and>
     (\<forall>x m. WriteUint32 mu x m = m @ put_le x) \<and>
     (\<forall>x m. WriteUint64 mu x m = m @ put_le x) \<and>
     (\<forall>x m. WriteInt64 mu x m = m @ put_le x) \<and>
     (\<forall>b m. WriteBool mu b m = m @ [if b then 1 else 0]) \<and>
     (\<forall>x m. WriteByte mu x m = m @ [x]) \<and> (\<forall>b m. WriteBytes mu b m = m @ b) \<and>
     (\<forall>m. ReadUint8 mu m = get_le m) \<and> (\<forall>m. ReadUint32 mu m = get_le m) \<and>
     (\<forall>m. ReadUint64 mu m = get_le m) \<and> (\<forall>m. ReadInt64 mu m = get_le m) \<and> (\<forall>n m. ReadBytes mu n m = take_bytes n m)"

lemma marshalutil_spec_le [simp]: "marshalutil_spec marshalutil_le"
  by (simp add: marshalutil_spec_def marshalutil_le_def)

lemma marshalutil_spec_iff: "marshalutil_spec mu \<longleftrightarrow> mu = marshalutil_le"
  by (cases mu) (simp add: marshalutil_spec_def marshalutil_le_def fun_eq_iff)

lemma marshalutil_le_simps [codec_simps]:
  "WriteUint8 marshalutil_le x8 m = m @ put_le x8"
  "WriteUint32 marshalutil_le x32 m = m @ put_le x32"
  "WriteUint64 marshalutil_le x64 m = m @ put_le x64"
  "WriteInt64 marshalutil_le x64 m = m @ put_le x64"
  "WriteBool marshalutil_le b m = m @ [if b then 1 else 0]"
  "WriteByte marshalutil_le y m = m @ [y]"
  "WriteBytes marshalutil_le bs m = m @ bs"
  "ReadUint8 marshalutil_le r = get_le r"
  "ReadUint32 marshalutil_le r = get_le r"
  "ReadUint64 marshalutil_le r = get_le r"
  "ReadInt64 marshalutil_le r = get_le r"
  "ReadBytes marshalutil_le n r = take_bytes n r"
  by (simp_all add: marshalutil_le_def)

end
