(* ===== verification/Scheduler.thy ===== *)
theory Scheduler
  imports Buffer External "HOL-Library.Monad_Syntax"
begin

text \<open>
  The deficit round robin scheduler
  (\<open>pkg/protocol/engine/congestioncontrol/scheduler/drr/scheduler.go\<close>): deficits, the selection of
  the next issuer, enqueueing, and the readiness of blocks. One call of an operation that holds the
  buffer mutex is one step on the state record. What the scheduler asks of the rest of the node (the
  quantum of an issuer, protocol parameters, the clock, the block cache) is the record \<open>env\<close>; the
  clock does not advance within one step. Deficits are 64 bit signed integers. A panic or an endless
  loop is \<open>None\<close>. The error handler only reports and has no effect on the state.
\<close>

section \<open>Blocks' scheduling flags\<close>

text \<open>The part of \<open>pkg/protocol/engine/blocks/block.go\<close> the scheduler changes.\<close>

record block_flags =
  IsEnqueued :: bool
  IsScheduled :: bool
  IsSkipped :: bool
  IsDropped :: bool

definition SetEnqueued :: "block_flags \<Rightarrow> bool \<times> block_flags" where
  "SetEnqueued b =
     (let wasUpdated = \<not> IsEnqueued b
      in (wasUpdated, if wasUpdated then b\<lparr>IsEnqueued := True\<rparr> else b))"

definition SetScheduled :: "block_flags \<Rightarrow> bool \<times> block_flags" where
  "SetScheduled b =
     (let wasUpdated = \<not> IsScheduled b
      in (wasUpdated, if wasUpdated \<and> IsEnqueued b then b\<lparr>IsScheduled := True, IsEnqueued := False\<rparr> else b))"

definition SetSkipped :: "block_flags \<Rightarrow> bool \<times> block_flags" where
  "SetSkipped b =
     (let wasUpdated = \<not> IsSkipped b
      in (wasUpdated, if wasUpdated \<and> IsEnqueued b then b\<lparr>IsSkipped := True, IsEnqueued := False\<rparr> else b))"

definition SetDropped :: "block_flags \<Rightarrow> bool \<times> block_flags" where
  "SetDropped b =
     (let wasUpdated = \<not> IsDropped b
      in (wasUpdated, if wasUpdated \<and> IsEnqueued b then b\<lparr>IsDropped := True, IsEnqueued := False\<rparr> else b))"

section \<open>State and environment\<close>

datatype sched_error =
  AccountDestroyed | QuantumUnavailable account_id | NoDeficit account_id | DeficitBelowZero account_id
| DroppedFromBuffer | ValidationDroppedFromBuffer

datatype sched_event =
  BlockEnqueued block | BlockDropped block sched_error | BlockSkipped block | BlockScheduled block

record env =
  quantumFunc :: "account_id \<Rightarrow> slot \<Rightarrow> sched_error + i64"
  latestCommittedSlot :: slot
  MaxBufferSize :: int
  MaxValidationBufferSize :: int
  MaxBlockWork :: work_score
  SlotDurationSeconds :: i64
  MaxCommittableAge :: slot
  Now :: int
  cacheBlock :: "block_id \<rightharpoonup> block"
  Children :: "block_id \<Rightarrow> block list"
  IsAccepted :: "block_id \<Rightarrow> bool"
  math :: "i64 safemath"

record Scheduler =
  basicBuffer :: BufferQueue
  validatorBuffer :: ValidatorBuffer
  deficits :: "account_id \<rightharpoonup> i64"
  flags :: "block_id \<Rightarrow> block_flags"
  events :: "sched_event list"

definition New :: "(block_id \<Rightarrow> block_flags) \<Rightarrow> Scheduler" where
  "New fl = \<lparr>basicBuffer = NewBufferQueue, validatorBuffer = NewValidatorBuffer, deficits = Map.empty,
             flags = fl, events = []\<rparr>"

definition trigger :: "sched_event \<Rightarrow> Scheduler \<Rightarrow> Scheduler" where
  "trigger ev s = s\<lparr>events := events s @ [ev]\<rparr>"

definition setFlag :: "(block_flags \<Rightarrow> bool \<times> block_flags) \<Rightarrow> block \<Rightarrow> Scheduler \<Rightarrow> bool \<times> Scheduler" where
  "setFlag f blk s = (let (r, fl) = f (flags s (ID blk)) in (r, s\<lparr>flags := (flags s)(ID blk := fl)\<rparr>))"

text \<open>\<open>block.SetDropped(); s.events.BlockDropped.Trigger(block, err)\<close>\<close>

definition dropBlock :: "sched_error \<Rightarrow> block \<Rightarrow> Scheduler \<Rightarrow> Scheduler" where
  "dropBlock err blk s = trigger (BlockDropped blk err) (snd (setFlag SetDropped blk s))"

section \<open>Deficits\<close>

definition maxDeficit :: i64 where
  "maxDeficit = 9223372036854775807 div 2"

definition deficitFromWork :: "env \<Rightarrow> work_score \<Rightarrow> i64 option" where
  "deficitFromWork E w =
     (if MaxBlockWork E = 0 then None
      else let deficitScaleFactor = maxDeficit div ucast (MaxBlockWork E)
           in Some (ucast w * deficitScaleFactor))"

text \<open>The quantum of an issuer, from its Mana: the closure built in \<open>NewProvider\<close>.\<close>

definition quantumOfMana :: "mana \<Rightarrow> i64" where
  "quantumOfMana m = 1 + min m (maxDeficit - 1)"

text \<open>\<open>for q.inbox.Len() > 0 { block := q.PopFront(); ... }\<close>\<close>

function (sequential) popAll :: "IssuerQueue \<Rightarrow> block list \<times> IssuerQueue" where
  "popAll q =
     (if length (inbox q) = 0 then ([], q)
      else case IssuerQueue_PopFront q of
             (None, q') \<Rightarrow> ([], q')
           | (Some blk, q') \<Rightarrow> let (bs, q'') = popAll q' in (blk # bs, q''))"
  by pat_completeness auto
termination
  by (relation "measure (\<lambda>q. length (inbox q))")
    (auto simp: IssuerQueue_PopFront_def heap_Pop_def heap_down_def Let_def case_prod_beta)

definition removeIssuer :: "account_id \<Rightarrow> sched_error \<Rightarrow> Scheduler \<Rightarrow> Scheduler option" where
  "removeIssuer issuer err s =
     (case activeIssuers (basicBuffer s) issuer of
        None \<Rightarrow> None
      | Some e \<Rightarrow>
          let q = queues (basicBuffer s) e;
              s = fold (dropBlock err) (submitted q) s;
              (popped, q) = popAll q;
              s = s\<lparr>basicBuffer := setQueue e q (basicBuffer s)\<rparr>;
              s = fold (dropBlock err) popped s;
              s = s\<lparr>deficits := (deficits s)(issuer := None)\<rparr>
          in map_option (\<lambda>b. s\<lparr>basicBuffer := b\<rparr>) (RemoveIssuer issuer (basicBuffer s)))"

definition createIssuer :: "account_id \<Rightarrow> Scheduler \<Rightarrow> nat \<times> Scheduler" where
  "createIssuer account s =
     (let (e, b) = CreateIssuerQueue account (basicBuffer s)
      in (e, s\<lparr>basicBuffer := b, deficits := (deficits s)(account \<mapsto> 0)\<rparr>))"

text \<open>The function passed to \<open>deficits.Compute\<close>: the new value and the error.\<close>

definition computeDeficit :: "env \<Rightarrow> account_id \<Rightarrow> i64 \<Rightarrow> i64 option \<Rightarrow> i64 \<times> sched_error option" where
  "computeDeficit E account delta currentValue =
     (case currentValue of
        None \<Rightarrow> (0, Some (NoDeficit account))
      | Some current \<Rightarrow>
          (case SafeAdd (math E) current delta of
             None \<Rightarrow> (maxDeficit, None)
           | Some newDeficit \<Rightarrow>
               if sint newDeficit < 0 then (0, Some (DeficitBelowZero account))
               else (if sint newDeficit < sint maxDeficit then newDeficit else maxDeficit, None)))"

definition updateDeficit ::
  "env \<Rightarrow> account_id \<Rightarrow> i64 \<Rightarrow> Scheduler \<Rightarrow> (sched_error option \<times> Scheduler) option" where
  "updateDeficit E account delta s =
     (let (newValue, updateErr) = computeDeficit E account delta (deficits s account);
          s = s\<lparr>deficits := (deficits s)(account \<mapsto> newValue)\<rparr>
      in case updateErr of
           Some err \<Rightarrow> map_option (\<lambda>s. (Some err, s)) (removeIssuer account err s)
         | None \<Rightarrow> Some (None, s))"

definition incrementDeficit ::
  "env \<Rightarrow> account_id \<Rightarrow> i64 \<Rightarrow> slot \<Rightarrow> Scheduler \<Rightarrow> (sched_error option \<times> Scheduler) option" where
  "incrementDeficit E issuer rounds sl s =
     (case quantumFunc E issuer sl of
        Inl err \<Rightarrow> Some (Some err, s)
      | Inr quantum \<Rightarrow>
          let delta = (case SafeMul (math E) quantum rounds of None \<Rightarrow> maxDeficit | Some d \<Rightarrow> d)
          in updateDeficit E issuer delta s)"

section \<open>Ready blocks\<close>

definition isEligible :: "env \<Rightarrow> Scheduler \<Rightarrow> block \<Rightarrow> bool" where
  "isEligible E s blk \<longleftrightarrow>
     IsSkipped (flags s (ID blk)) \<or> IsScheduled (flags s (ID blk)) \<or> IsAccepted E (ID blk)"

definition isReady :: "env \<Rightarrow> Scheduler \<Rightarrow> block \<Rightarrow> bool" where
  "isReady E s blk \<longleftrightarrow>
     list_all (\<lambda>parent. case cacheBlock E parent of None \<Rightarrow> False | Some p \<Rightarrow> isEligible E s p) (Parents blk)"

definition ready :: "block \<Rightarrow> Scheduler \<Rightarrow> Scheduler" where
  "ready blk s = s\<lparr>basicBuffer := snd (BufferQueue_Ready blk (basicBuffer s))\<rparr>"

definition tryReady :: "env \<Rightarrow> block \<Rightarrow> Scheduler \<Rightarrow> Scheduler" where
  "tryReady E blk s = (if isReady E s blk then ready blk s else s)"

definition readyValidationBlock :: "block \<Rightarrow> Scheduler \<Rightarrow> Scheduler" where
  "readyValidationBlock blk s =
     (case buffer (validatorBuffer s) (IssuerID blk) of
        None \<Rightarrow> s
      | Some q \<Rightarrow>
          s\<lparr>validatorBuffer := ValidatorBuffer_Set (IssuerID blk) (snd (ValidatorQueue_Ready blk q)) (validatorBuffer s)\<rparr>)"

definition tryReadyValidationBlock :: "env \<Rightarrow> block \<Rightarrow> Scheduler \<Rightarrow> Scheduler" where
  "tryReadyValidationBlock E blk s = (if isReady E s blk then readyValidationBlock blk s else s)"

definition updateChildrenWithoutLocking :: "env \<Rightarrow> block \<Rightarrow> Scheduler \<Rightarrow> Scheduler" where
  "updateChildrenWithoutLocking E blk s =
     fold (\<lambda>child s.
       if cacheBlock E (ID child) \<noteq> None \<and> IsEnqueued (flags s (ID child))
       then (if IsValidationBlock child then tryReadyValidationBlock E child s else tryReady E child s)
       else s) (Children E (ID blk)) s"

section \<open>Adding blocks\<close>

definition submitQuantum :: "env \<Rightarrow> slot \<Rightarrow> account_id \<Rightarrow> i64" where
  "submitQuantum E sl issuer = (case quantumFunc E issuer sl of Inl _ \<Rightarrow> 0 | Inr quantum \<Rightarrow> quantum)"

definition enqueueBasicBlock :: "env \<Rightarrow> block \<Rightarrow> Scheduler \<Rightarrow> Scheduler option" where
  "enqueueBasicBlock E blk s =
     (let sl = latestCommittedSlot E;
          (issuerQueue, s) =
            (case GetIssuerQueue (IssuerID blk) (basicBuffer s) of
               Inr e \<Rightarrow> (e, s)
             | Inl _ \<Rightarrow> createIssuer (IssuerID blk) s)
      in case BufferQueue_Submit blk issuerQueue (submitQuantum E sl) (MaxBufferSize E) (basicBuffer s) of
           None \<Rightarrow> None
         | Some ((droppedBlocks, wasSubmitted), b) \<Rightarrow>
             let s = s\<lparr>basicBuffer := b\<rparr> in
             if \<not> wasSubmitted then Some s
             else
               let s = fold (dropBlock DroppedFromBuffer) droppedBlocks s;
                   (updated, s) = setFlag SetEnqueued blk s
               in Some (if updated then tryReady E blk (trigger (BlockEnqueued blk) s) else s))"

definition addValidator :: "account_id \<Rightarrow> Scheduler \<Rightarrow> Scheduler" where
  "addValidator account s =
     s\<lparr>validatorBuffer := ValidatorBuffer_Set account (NewValidatorQueue account) (validatorBuffer s)\<rparr>"

definition enqueueValidationBlock :: "env \<Rightarrow> block \<Rightarrow> Scheduler \<Rightarrow> Scheduler option" where
  "enqueueValidationBlock E blk s =
     (let s = (case buffer (validatorBuffer s) (IssuerID blk) of
                 None \<Rightarrow> addValidator (IssuerID blk) s
               | Some _ \<Rightarrow> s)
      in case ValidatorBuffer_Submit blk (MaxValidationBufferSize E) (validatorBuffer s) of
           None \<Rightarrow> None
         | Some ((droppedBlock, wasSubmitted), b) \<Rightarrow>
             let s = s\<lparr>validatorBuffer := b\<rparr> in
             if \<not> wasSubmitted then Some s
             else
               let s = (case droppedBlock of
                          None \<Rightarrow> s
                        | Some d \<Rightarrow> dropBlock ValidationDroppedFromBuffer d s);
                   (updated, s) = setFlag SetEnqueued blk s
               in Some (if updated then tryReadyValidationBlock E blk (trigger (BlockEnqueued blk) s) else s))"

definition AddBlock :: "env \<Rightarrow> block \<Rightarrow> Scheduler \<Rightarrow> Scheduler option" where
  "AddBlock E blk s =
     (if IsValidationBlock blk then enqueueValidationBlock E blk s else enqueueBasicBlock E blk s)"

section \<open>Selecting blocks\<close>

text \<open>\<open>time.Duration(SlotDurationSeconds() * int64(MaxCommittableAge()))\<close>, a number of nanoseconds.\<close>

definition skipAge :: "env \<Rightarrow> int" where
  "skipAge E = sint (SlotDurationSeconds E * ucast (MaxCommittableAge E))"

text \<open>The division \<open>(remainingDeficit + quantum - 1) / quantum\<close>; \<open>None\<close> is the panic of a failed division.\<close>

definition roundsFor :: "env \<Rightarrow> i64 \<Rightarrow> i64 \<Rightarrow> i64 option" where
  "roundsFor E remainingDeficit quantum =
     (let numerator = (case SafeAdd (math E) remainingDeficit (quantum - 1) of
                         None \<Rightarrow> 9223372036854775807 | Some n \<Rightarrow> n)
      in SafeDiv (math E) numerator quantum)"

text \<open>Skipping an old accepted block at the front of the current queue.\<close>

definition skipFront :: "env \<Rightarrow> block \<Rightarrow> Scheduler \<Rightarrow> Scheduler" where
  "skipFront E blk s =
     (let (updated, s) = setFlag SetSkipped blk s;
          s = (if updated then trigger (BlockSkipped blk) (updateChildrenWithoutLocking E blk s) else s)
      in s\<lparr>basicBuffer := snd (BufferQueue_PopFront (basicBuffer s))\<rparr>)"

text \<open>The rounds that the front block \<open>blk\<close> of \<open>q\<close> still needs; the flag of the result is \<open>issuerRemoved\<close>.\<close>

definition considerFront ::
  "env \<Rightarrow> slot \<Rightarrow> nat \<Rightarrow> i64 \<times> nat option \<Rightarrow> block \<Rightarrow> Scheduler \<Rightarrow> (((i64 \<times> nat option) \<times> bool) \<times> Scheduler) option" where
  "considerFront E sl q best blk s =
     (case (deficits s (IssuerID blk), deficitFromWork E (WorkScore blk)) of
        (Some deficit, Some needed) \<Rightarrow>
          (case quantumFunc E (IssuerID blk) sl of
             Inl err \<Rightarrow> map_option (\<lambda>s. ((best, True), s)) (removeIssuer (IssuerID blk) err s)
           | Inr quantum \<Rightarrow>
               map_option (\<lambda>r. ((if sint r < sint (fst best) then (r, Some q) else best, False), s))
                 (roundsFor E (needed - deficit) quantum))
      | _ \<Rightarrow> None)"

text \<open>The inner loop of \<open>selectIssuer\<close> on the queue \<open>q\<close>.\<close>

partial_function (option) frontLoop ::
  "env \<Rightarrow> slot \<Rightarrow> nat \<Rightarrow> i64 \<times> nat option \<Rightarrow> Scheduler \<Rightarrow> (((i64 \<times> nat option) \<times> bool) \<times> Scheduler) option" where
  "frontLoop E sl q best s =
     (case IssuerQueue_Front (Some (queues (basicBuffer s) q)) of
        None \<Rightarrow> Some ((best, False), s)
      | Some blk \<Rightarrow>
          if \<not> IssuingTime blk < Now E then Some ((best, False), s)
          else if IsAccepted E (ID blk) \<and> Now E - IssuingTime blk > skipAge E
          then frontLoop E sl q best (skipFront E blk s)
          else considerFront E sl q best blk s)"

partial_function (option) issuerLoop ::
  "env \<Rightarrow> slot \<Rightarrow> nat \<Rightarrow> nat \<Rightarrow> i64 \<times> nat option \<Rightarrow> Scheduler \<Rightarrow> ((i64 \<times> nat option) \<times> Scheduler) option" where
  "issuerLoop E sl start q best s =
     Option.bind (frontLoop E sl q best s) (\<lambda>((best, issuerRemoved), s).
       let (q', b) = (if issuerRemoved then (Current (basicBuffer s), basicBuffer s) else Next (basicBuffer s));
           s = s\<lparr>basicBuffer := b\<rparr>
       in if q' = Some start \<or> q' = None then Some (best, s) else issuerLoop E sl start (the q') best s)"

definition selectIssuer ::
  "env \<Rightarrow> nat \<Rightarrow> slot \<Rightarrow> Scheduler \<Rightarrow> ((i64 \<times> nat option) \<times> Scheduler) option" where
  "selectIssuer E start sl s = issuerLoop E sl start start (9223372036854775807, None) s"

text \<open>The loop that increments every issuer's deficit; the result \<open>False\<close> is its early return.\<close>

partial_function (option) roundsLoop ::
  "env \<Rightarrow> slot \<Rightarrow> i64 \<Rightarrow> nat \<Rightarrow> nat \<Rightarrow> Scheduler \<Rightarrow> (bool \<times> Scheduler) option" where
  "roundsLoop E sl rounds start q s =
     (let issuer = issuerID (queues (basicBuffer s) q) in
      Option.bind (incrementDeficit E issuer rounds sl s) (\<lambda>(err, s).
      Option.bind (case err of
          Some e \<Rightarrow> map_option (\<lambda>s. (Current (basicBuffer s), s)) (removeIssuer issuer e s)
        | None \<Rightarrow> (let (q', b) = Next (basicBuffer s) in Some (q', s\<lparr>basicBuffer := b\<rparr>))) (\<lambda>(q', s).
        if q' = None then Some (False, s)
        else if q' = Some start then Some (True, s)
        else roundsLoop E sl rounds start (the q') s)))"

text \<open>The loop over the issuers before the scheduling issuer; \<open>False\<close> is its early return.\<close>

partial_function (option) beforeLoop ::
  "env \<Rightarrow> slot \<Rightarrow> nat \<Rightarrow> nat option \<Rightarrow> Scheduler \<Rightarrow> (bool \<times> Scheduler) option" where
  "beforeLoop E sl schedulingIssuer q s =
     (if q = Some schedulingIssuer then Some (True, s)
      else case q of
        None \<Rightarrow> None
      | Some q \<Rightarrow>
          let issuer = issuerID (queues (basicBuffer s) q) in
          Option.bind (incrementDeficit E issuer 1 sl s) (\<lambda>(err, s).
            case err of
              Some e \<Rightarrow> map_option (\<lambda>s. (False, s)) (removeIssuer issuer e s)
            | None \<Rightarrow>
                let (q', b) = Next (basicBuffer s)
                in beforeLoop E sl schedulingIssuer q' (s\<lparr>basicBuffer := b\<rparr>)))"

text \<open>The end of \<open>selectBasicBlockWithoutLocking\<close>: take the block from the buffer and pay for it.\<close>

definition takeFront :: "env \<Rightarrow> Scheduler \<Rightarrow> Scheduler option" where
  "takeFront E s =
     (let (front, b) = BufferQueue_PopFront (basicBuffer s); s = s\<lparr>basicBuffer := b\<rparr> in
      case front of
        None \<Rightarrow> None
      | Some blk \<Rightarrow>
          Option.bind (deficitFromWork E (WorkScore blk)) (\<lambda>cost.
          Option.bind (updateDeficit E (IssuerID blk) (- cost) s) (\<lambda>(err, s).
            case err of
              Some e \<Rightarrow> Some (dropBlock e blk s)
            | None \<Rightarrow> Some (s\<lparr>basicBuffer := (basicBuffer s)\<lparr>blockChan := Some blk\<rparr>\<rparr>))))"

text \<open>From the selected issuer on: increment the deficits, then take the block.\<close>

definition serveIssuer :: "env \<Rightarrow> slot \<Rightarrow> nat \<Rightarrow> i64 \<Rightarrow> nat \<Rightarrow> Scheduler \<Rightarrow> Scheduler option" where
  "serveIssuer E sl start rounds issuer s =
     Option.bind (if 0 < sint rounds then roundsLoop E sl rounds start start s else Some (True, s)) (\<lambda>(go, s).
       if \<not> go then Some s
       else Option.bind (beforeLoop E sl issuer (Some start) s) (\<lambda>(go, s).
         if \<not> go then Some s else takeFront E s))"

definition selectBasicBlockWithoutLocking :: "env \<Rightarrow> Scheduler \<Rightarrow> Scheduler option" where
  "selectBasicBlockWithoutLocking E s =
     (let sl = latestCommittedSlot E in
      if blockChan (basicBuffer s) \<noteq> None then Some s
      else case Current (basicBuffer s) of
        None \<Rightarrow> Some s
      | Some start \<Rightarrow>
          Option.bind (selectIssuer E start sl s) (\<lambda>((rounds, schedulingIssuer), s).
            case schedulingIssuer of
              None \<Rightarrow> Some s
            | Some issuer \<Rightarrow> serveIssuer E sl start rounds issuer s))"

definition selectValidationBlockWithoutLocking :: "ValidatorQueue \<Rightarrow> bool \<times> ValidatorQueue" where
  "selectValidationBlockWithoutLocking q =
     (if vblockChan q \<noteq> None then (False, q)
      else case ValidatorQueue_PopFront q of
        (None, q) \<Rightarrow> (False, q)
      | (Some blk, q) \<Rightarrow> (True, q\<lparr>vblockChan := Some blk\<rparr>))"

text \<open>\<open>order\<close> is the order in which \<open>ForEach\<close> visits the validators.\<close>

definition selectValidator :: "account_id \<Rightarrow> ValidatorBuffer \<Rightarrow> ValidatorBuffer" where
  "selectValidator account b =
     (case buffer b account of
        None \<Rightarrow> b
      | Some q \<Rightarrow>
          let (selected, q) = selectValidationBlockWithoutLocking q; b = ValidatorBuffer_Set account q b
          in if selected then b\<lparr>bsize := bsize b - 1\<rparr> else b)"

definition selectBlockToScheduleWithLocking :: "env \<Rightarrow> account_id list \<Rightarrow> Scheduler \<Rightarrow> Scheduler option" where
  "selectBlockToScheduleWithLocking E order s =
     selectBasicBlockWithoutLocking E (s\<lparr>validatorBuffer := fold selectValidator order (validatorBuffer s)\<rparr>)"

section \<open>Scheduling and the event handlers\<close>

definition scheduleBlock :: "env \<Rightarrow> account_id list \<Rightarrow> block \<Rightarrow> Scheduler \<Rightarrow> Scheduler option" where
  "scheduleBlock E order blk s =
     (let (updated, s) = setFlag SetScheduled blk s in
      if \<not> updated then Some s
      else map_option (trigger (BlockScheduled blk))
             (selectBlockToScheduleWithLocking E order (updateChildrenWithoutLocking E blk s)))"

text \<open>One turn of \<open>basicBlockLoop\<close> and of \<open>validatorLoop\<close>: receive the selected block and schedule it.\<close>

definition basicBlockLoop :: "env \<Rightarrow> account_id list \<Rightarrow> Scheduler \<Rightarrow> Scheduler option" where
  "basicBlockLoop E order s =
     (case blockChan (basicBuffer s) of
        None \<Rightarrow> Some s
      | Some blk \<Rightarrow> scheduleBlock E order blk (s\<lparr>basicBuffer := (basicBuffer s)\<lparr>blockChan := None\<rparr>\<rparr>))"

definition validatorLoop :: "env \<Rightarrow> account_id list \<Rightarrow> account_id \<Rightarrow> Scheduler \<Rightarrow> Scheduler option" where
  "validatorLoop E order account s =
     (case buffer (validatorBuffer s) account of
        None \<Rightarrow> Some s
      | Some q \<Rightarrow>
          (case vblockChan q of
             None \<Rightarrow> Some s
           | Some blk \<Rightarrow>
               scheduleBlock E order blk
                 (s\<lparr>validatorBuffer := ValidatorBuffer_Set account (q\<lparr>vblockChan := None\<rparr>) (validatorBuffer s)\<rparr>)))"

definition onBlockBooked :: "env \<Rightarrow> account_id list \<Rightarrow> block \<Rightarrow> Scheduler \<Rightarrow> Scheduler option" where
  "onBlockBooked E order blk s = Option.bind (AddBlock E blk s) (selectBlockToScheduleWithLocking E order)"

definition onAccountCreated :: "account_id \<Rightarrow> Scheduler \<Rightarrow> Scheduler option" where
  "onAccountCreated account s = Some (snd (createIssuer account s))"

definition onAccountDestroyed :: "account_id \<Rightarrow> Scheduler \<Rightarrow> Scheduler option" where
  "onAccountDestroyed account s = removeIssuer account AccountDestroyed s"

definition onLatestCommitmentUpdated ::
  "bool \<Rightarrow> (account_id \<Rightarrow> bool) \<Rightarrow> account_id list \<Rightarrow> Scheduler \<Rightarrow> Scheduler option" where
  "onLatestCommitmentUpdated lastSlotOfEpoch nextCommitteeHas order s =
     Some (if lastSlotOfEpoch
           then s\<lparr>validatorBuffer := fold (\<lambda>account b. if nextCommitteeHas account then b
                    else ValidatorBuffer_Delete account b) order (validatorBuffer s)\<rparr>
           else s)"

definition IsBlockIssuerReady :: "env \<Rightarrow> account_id \<Rightarrow> block list \<Rightarrow> Scheduler \<Rightarrow> bool option" where
  "IsBlockIssuerReady E account blks s =
     (if buffered (basicBuffer s) = 0 then Some True
      else
        let w = (if length blks = 0 then MaxBlockWork E else 0) + sum_list (map WorkScore blks) in
        case deficits s account of
          None \<Rightarrow> Some False
        | Some deficit \<Rightarrow>
            map_option (\<lambda>needed. sint deficit \<ge> sint needed)
              (deficitFromWork E (w + IssuerQueue_Work (BufferQueue_IssuerQueue account (basicBuffer s)))))"

section \<open>Removing an issuer\<close>

lemma dropBlock_fields [simp]:
  "basicBuffer (dropBlock err blk s) = basicBuffer s" "deficits (dropBlock err blk s) = deficits s"
  "validatorBuffer (dropBlock err blk s) = validatorBuffer s"
  "events (dropBlock err blk s) = events s @ [BlockDropped blk err]"
  by (simp_all add: dropBlock_def trigger_def setFlag_def case_prod_beta Let_def)

lemma fold_dropBlock [simp]:
  "basicBuffer (fold (dropBlock err) bs s) = basicBuffer s" "deficits (fold (dropBlock err) bs s) = deficits s"
  "validatorBuffer (fold (dropBlock err) bs s) = validatorBuffer s"
  "events (fold (dropBlock err) bs s) = events s @ map (\<lambda>blk. BlockDropped blk err) bs"
  by (induction bs arbitrary: s) simp_all

declare popAll.simps [simp del]

lemma popAll_keeps:
  "inbox (snd (popAll q)) = [] \<and> submitted (snd (popAll q)) = submitted q \<and> issuerID (snd (popAll q)) = issuerID q"
proof (induction q rule: popAll.induct)
  case (1 q)
  obtain d q' where q: "IssuerQueue_PopFront q = (d, q')" by fastforce
  show ?case
  proof (cases "inbox q = []")
    case False
    then obtain blk where "d = Some blk" "submitted q' = submitted q" "issuerID q' = issuerID q"
      using q by (auto simp: IssuerQueue_PopFront_def Let_def case_prod_beta)
    then show ?thesis
      using 1 False q by (subst (1 2 3) popAll.simps) (simp add: case_prod_beta Let_def)
  qed (subst (1 2 3) popAll.simps, simp)
qed

lemma popAll_content:
  assumes "iq_ok U q"
  shows "iq_ok U (snd (popAll q)) \<and> iq_content q = mset (fst (popAll q)) + iq_content (snd (popAll q))"
  using assms
proof (induction q rule: popAll.induct)
  case (1 q)
  obtain d q' where q: "IssuerQueue_PopFront q = (d, q')" by fastforce
  note p = iq_PopFront[OF 1(2) q]
  show ?case
  proof (cases "inbox q = []")
    case False
    then obtain blk where d: "d = Some blk" using q by (auto simp: IssuerQueue_PopFront_def Let_def case_prod_beta)
    then have pa: "popAll q = (blk # fst (popAll q'), snd (popAll q'))"
      using False q by (subst popAll.simps) (simp add: case_prod_beta Let_def)
    have "iq_ok U (snd (popAll q')) \<and> iq_content q' = mset (fst (popAll q')) + iq_content (snd (popAll q'))"
      using 1(1) False q d p by auto
    then show ?thesis using p d by (simp add: pa leave_def)
  qed (subst (1 2 3) popAll.simps, simp add: 1)
qed

lemma popAll_popped:
  assumes "iq_ok U q"
  shows "mset (fst (popAll q)) = mset (inbox q)"
  using popAll_content[OF assms] popAll_keeps[of q] by (simp add: iq_content_def)

text \<open>\<open>RemoveIssuer\<close> subtracts from the counter and never reads it.\<close>

lemma RemoveIssuer_shift:
  "RemoveIssuer i (b\<lparr>buffered := buffered b + n\<rparr>) =
     map_option (\<lambda>b. b\<lparr>buffered := buffered b + n\<rparr>) (RemoveIssuer i b)"
  by (auto simp: RemoveIssuer_def ringRemove_def Let_def split: option.splits)

lemma removeIssuer_current:
  assumes inv: "buf_inv U (x # xs) (basicBuffer s)" and small: "size (blocksAt (basicBuffer s) x) < 2 ^ 63"
  shows "\<exists>s' b. removeIssuer (issuerAt (basicBuffer s) x) err s = Some s' \<and> buf_inv U xs b \<and>
    basicBuffer s' = b\<lparr>buffered := buffered b + int (length (inbox (queues (basicBuffer s) x)))\<rparr> \<and>
    (\<forall>e. e \<noteq> x \<longrightarrow> queues b e = queues (basicBuffer s) e) \<and>
    deficits s' = (deficits s)(issuerAt (basicBuffer s) x := None) \<and>
    (\<exists>bs. events s' = events s @ map (\<lambda>blk. BlockDropped blk err) bs \<and> mset bs = blocksAt (basicBuffer s) x)"
proof -
  let ?b = "basicBuffer s" and ?n = "int (length (inbox (queues (basicBuffer s) x)))"
  define q where "q = snd (popAll (queues ?b x))"
  define popped where "popped = fst (popAll (queues ?b x))"
  have pop: "popAll (queues ?b x) = (popped, q)" by (simp add: q_def popped_def)
  have act: "activeIssuers ?b (issuerAt ?b x) = Some x" by (rule buf_inv_activeI[OF inv]) simp
  have ok: "iq_ok U (queues ?b x)" using buf_inv_active[OF inv act] by simp
  note c = popAll_content[OF ok, folded q_def popped_def] and m = popAll_popped[OF ok, folded popped_def]
  have len: "length popped = length (inbox (queues ?b x))" using mset_eq_length[OF m] .
  let ?b1 = "(setQueue x q ?b)\<lparr>buffered := buffered ?b - ?n\<rparr>"
  have sizes: "int (size (blocksAt ?b x)) = ?n + int (size (iq_content q))"
    using c len by (simp add: blocksAt_def)
  have inv1: "buf_inv U (x # xs) ?b1"
    by (rule buf_inv_update[OF inv, of x q])
      (use c sizes popAll_keeps[of "queues ?b x"] in \<open>simp_all add: issuerAt_def flip: q_def\<close>)
  have at: "issuerAt ?b1 x = issuerAt ?b x"
    using popAll_keeps[of "queues ?b x"] by (simp add: issuerAt_def setQueue_def q_def)
  have "size (blocksAt ?b1 x) < 2 ^ 63" using sizes small by (simp add: blocksAt_def setQueue_def)
  from buf_inv_Remove_current[OF inv1 this] obtain b where b: "RemoveIssuer (issuerAt ?b x) ?b1 = Some b"
    "buf_inv U xs b" "queues b = queues ?b1" by (auto simp: at)
  have "?b1\<lparr>buffered := buffered ?b1 + ?n\<rparr> = setQueue x q ?b" by (simp add: setQueue_def)
  then have r: "RemoveIssuer (issuerAt ?b x) (setQueue x q ?b) = Some (b\<lparr>buffered := buffered b + ?n\<rparr>)"
    using RemoveIssuer_shift[of "issuerAt ?b x" ?b1 ?n] b(1) by simp
  have ev: "mset (submitted (queues ?b x) @ popped) = blocksAt ?b x"
    using m by (simp add: blocksAt_def iq_content_def)
  show ?thesis
    using act r b ev
    by (auto simp: removeIssuer_def Let_def pop setQueue_def simp flip: map_append
        intro!: exI[of _ b] exI[of _ "submitted (queues ?b x) @ popped"])
qed

section \<open>Deficits stay in range\<close>

lemma sint_maxDeficit: "sint maxDeficit = 4611686018427387903"
  by code_simp

definition deficits_ok :: "Scheduler \<Rightarrow> bool" where
  "deficits_ok s \<longleftrightarrow>
     dom (deficits s) = dom (activeIssuers (basicBuffer s)) \<and>
     (\<forall>i d. deficits s i = Some d \<longrightarrow> 0 \<le> sint d \<and> sint d \<le> sint maxDeficit)"

text \<open>Operations that touch neither the index of issuers nor the deficits.\<close>

definition same_issuers :: "Scheduler \<Rightarrow> Scheduler \<Rightarrow> bool" where
  "same_issuers s s' \<longleftrightarrow>
     activeIssuers (basicBuffer s') = activeIssuers (basicBuffer s) \<and> deficits s' = deficits s"

lemma same_issuers_ok: "same_issuers s s' \<Longrightarrow> deficits_ok s \<Longrightarrow> deficits_ok s'"
  by (simp add: same_issuers_def deficits_ok_def)

lemma same_issuers_refl [simp]: "same_issuers s s"
  by (simp add: same_issuers_def)

lemma same_issuers_trans: "same_issuers s t \<Longrightarrow> same_issuers t u \<Longrightarrow> same_issuers s u"
  by (simp add: same_issuers_def)

lemma buffer_active [simp]:
  "activeIssuers (setQueue e q b) = activeIssuers b"
  "activeIssuers (snd (Next b)) = activeIssuers b"
  "activeIssuers (snd (BufferQueue_Ready blk b)) = activeIssuers b"
  "activeIssuers (snd (BufferQueue_PopFront b)) = activeIssuers b"
  by (auto simp: setQueue_def Next_def BufferQueue_Ready_def BufferQueue_PopFront_def Let_def
      split: option.splits prod.splits)

lemma dropScan_active:
  assumes "dropScan qf rs st q ms mi b = Some r"
  shows "activeIssuers (snd r) = activeIssuers b"
proof (rule dropScan.raw_induct[where P = "\<lambda>qf rs st q ms mi b r. activeIssuers (snd r) = activeIssuers b",
    OF _ assms])
  fix scan :: "(account_id \<Rightarrow> i64) \<Rightarrow> nat option \<Rightarrow> nat \<Rightarrow> nat \<Rightarrow> f64 option \<Rightarrow> account_id \<Rightarrow> BufferQueue \<Rightarrow>
      (account_id \<times> BufferQueue) option"
    and qf rs st q ms mi and b :: BufferQueue and y
  assume ih: "\<And>qf rs st q ms mi b y. scan qf rs st q ms mi b = Some y \<Longrightarrow> activeIssuers (snd y) = activeIssuers b"
  have "\<And>qf rs st q ms mi y. scan qf rs st q ms mi (snd (Next b)) = Some y \<Longrightarrow> activeIssuers (snd y) = activeIssuers b"
    using ih by fastforce
  then show "(let iq = queues b q; issuerQuantum = qf (issuerID iq);
          scale = f64_div (unat (IssuerQueue_Work (Some iq))) (nat (sint issuerQuantum));
          larger = 0 < sint issuerQuantum \<and> (case ms of None \<Rightarrow> True | Some m \<Rightarrow> f64_less m scale);
          maxScale' = (if larger then Some scale else ms);
          maxIssuerID' = (if larger then issuerID iq else mi)
      in if \<not> 0 < sint issuerQuantum \<and> 0 < IssuerQueue_Size (Some iq) then Some (issuerID iq, b\<lparr>ring := rs\<rparr>)
        else let (q', b) = Next b in
          if q' = Some st then Some (maxIssuerID', b) else scan qf rs st (the q') maxScale' maxIssuerID' b) = Some y \<Longrightarrow>
      activeIssuers (snd y) = activeIssuers b"
    by (auto simp: Let_def case_prod_beta split: if_splits)
qed

lemma dropLoop_active:
  assumes "dropLoop qf m rs st acc b = Some r"
  shows "activeIssuers (snd r) = activeIssuers b"
proof (rule dropLoop.raw_induct[where P = "\<lambda>qf m rs st acc b r. activeIssuers (snd r) = activeIssuers b",
    OF _ assms])
  fix loop :: "(account_id \<Rightarrow> i64) \<Rightarrow> int \<Rightarrow> nat option \<Rightarrow> nat \<Rightarrow> block list \<Rightarrow> BufferQueue \<Rightarrow> (block list \<times> BufferQueue) option"
    and qf m rs st a b y
  assume ih: "\<And>q m rs st a c y. loop q m rs st a c = Some y \<Longrightarrow> activeIssuers (snd y) = activeIssuers c"
    and step: "(if m < buffered b then
        Option.bind (dropScan qf rs st st None 0 b) (\<lambda>(maxIssuerID, b).
          case activeIssuers b maxIssuerID of
            None \<Rightarrow> loop qf m rs st a b
          | Some e \<Rightarrow>
              let (dropped, iq) = IssuerQueue_RemoveTail (queues b e); b = setQueue e iq b in
              (case dropped of
                 None \<Rightarrow> loop qf m rs st a b
               | Some blk \<Rightarrow> loop qf m rs st (a @ [blk]) (b\<lparr>buffered := buffered b - 1\<rparr>)))
        else Some (a, b)) = Some y"
  show "activeIssuers (snd y) = activeIssuers b"
  proof (cases "m < buffered b")
    case True
    then obtain i b1 where b1: "dropScan qf rs st st None 0 b = Some (i, b1)"
      using step by (auto simp: bind_eq_Some_conv)
    have "activeIssuers (snd y) = activeIssuers b1"
      using step True b1 by (auto simp: case_prod_beta Let_def split: option.splits dest!: ih)
    then show ?thesis using dropScan_active[OF b1] by simp
  qed (use step in auto)
qed

lemma Submit_active:
  assumes "BufferQueue_Submit blk e qf m b = Some (r, b')"
  shows "activeIssuers b' = activeIssuers b"
  using assms dropLoop_active[of qf m] 
  by (fastforce simp: BufferQueue_Submit_def dropTail_def Let_def split: option.splits prod.splits bool.splits if_splits)

lemma removeIssuer_fields:
  assumes "removeIssuer i err s = Some s'"
  shows "deficits s' = (deficits s)(i := None)"
    and "activeIssuers (basicBuffer s') = (activeIssuers (basicBuffer s))(i := None)"
proof -
  have r: "activeIssuers b' = (activeIssuers b)(i := None)" if "RemoveIssuer i b = Some b'" for b b'
    using that by (auto simp: RemoveIssuer_def ringRemove_def Let_def split: option.splits if_splits)
  then show "deficits s' = (deficits s)(i := None)"
    "activeIssuers (basicBuffer s') = (activeIssuers (basicBuffer s))(i := None)"
    using assms by (auto simp: removeIssuer_def Let_def case_prod_beta split: option.splits)
qed

lemma removeIssuer_ok:
  assumes "removeIssuer i err s = Some s'" and "deficits_ok s"
  shows "deficits_ok s'"
  using removeIssuer_fields[OF assms(1)] assms(2) by (auto simp: deficits_ok_def split: if_splits)

lemma createIssuer_ok:
  assumes "deficits_ok s"
  shows "deficits_ok (snd (createIssuer i s))"
proof -
  have "activeIssuers (snd (CreateIssuerQueue i b)) = (activeIssuers b)(i \<mapsto> fst (ringInsert (NewIssuerQueue i) b))" for b
    by (simp add: CreateIssuerQueue_def ringInsert_rest case_prod_beta)
  then show ?thesis
    using assms by (auto simp: createIssuer_def deficits_ok_def case_prod_beta sint_maxDeficit)
qed

lemma computeDeficit_range:
  assumes "safemath_signed (math E)" and "computeDeficit E i delta (Some d) = (v, None)"
  shows "0 \<le> sint v \<and> sint v \<le> sint maxDeficit"
  using assms(2) by (auto simp: computeDeficit_def sint_maxDeficit split: option.splits if_splits)

lemma updateDeficit_ok:
  assumes "safemath_signed (math E)" and "updateDeficit E i delta s = Some (err, s')" and "deficits_ok s"
  shows "deficits_ok s'"
proof -
  obtain v e where c: "computeDeficit E i delta (deficits s i) = (v, e)" by fastforce
  show ?thesis
  proof (cases e)
    case None
    then obtain d where d: "deficits s i = Some d" using c by (cases "deficits s i") (auto simp: computeDeficit_def)
    then have "insert i (dom (deficits s)) = dom (deficits s)" by blast
    moreover have "s' = s\<lparr>deficits := (deficits s)(i \<mapsto> v)\<rparr>"
      using assms(2) c None by (auto simp: updateDeficit_def)
    moreover have "0 \<le> sint v \<and> sint v \<le> sint maxDeficit"
      by (rule computeDeficit_range[OF assms(1), of i delta d]) (use c None d in simp)
    ultimately show ?thesis using assms(3) unfolding deficits_ok_def by simp
  next
    case (Some err')
    then have "removeIssuer i err' (s\<lparr>deficits := (deficits s)(i \<mapsto> v)\<rparr>) = Some s'"
      using assms(2) c by (auto simp: updateDeficit_def)
    from removeIssuer_fields[OF this] assms(3) show ?thesis
      by (auto simp: deficits_ok_def split: if_splits)
  qed
qed

lemma incrementDeficit_ok:
  assumes "safemath_signed (math E)" and "incrementDeficit E i rounds sl s = Some (err, s')" and "deficits_ok s"
  shows "deficits_ok s'"
  using assms updateDeficit_ok[OF assms(1)]
  by (fastforce simp: incrementDeficit_def Let_def split: sum.splits)

lemma readiness_same_issuers:
  "same_issuers s (snd (setFlag f blk s))" "same_issuers s (trigger ev s)" "same_issuers s (tryReady E blk s)"
  "same_issuers s (tryReadyValidationBlock E blk s)"
  by (auto simp: same_issuers_def setFlag_def trigger_def tryReady_def ready_def tryReadyValidationBlock_def
      readyValidationBlock_def case_prod_beta Let_def split: option.splits)

lemma updateChildren_same_issuers: "same_issuers s (updateChildrenWithoutLocking E blk s)"
proof -
  have f: "same_issuers s (fold f cs s)" if "\<And>c s. same_issuers s (f c s)" for f and cs :: "block list"
    by (induction cs arbitrary: s) (auto intro: same_issuers_trans that)
  show ?thesis
    unfolding updateChildrenWithoutLocking_def by (rule f) (simp add: readiness_same_issuers)
qed

lemma set_buffer_ok:
  "activeIssuers b = activeIssuers (basicBuffer s) \<Longrightarrow> deficits_ok (s\<lparr>basicBuffer := b\<rparr>) = deficits_ok s"
  by (simp add: deficits_ok_def)

lemmas same_issuers_fields =
  readiness_same_issuers[unfolded same_issuers_def] updateChildren_same_issuers[unfolded same_issuers_def]

lemma skipFront_same_issuers: "same_issuers s (skipFront E blk s)"
  by (simp add: skipFront_def Let_def case_prod_beta same_issuers_def same_issuers_fields)

lemma considerFront_ok:
  assumes "considerFront E sl q best blk s = Some r" and "deficits_ok s"
  shows "deficits_ok (snd r)"
  using assms removeIssuer_ok
  by (cases "quantumFunc E (IssuerID blk) sl") (auto simp: considerFront_def split: option.splits)

lemma frontLoop_ok:
  assumes "frontLoop E sl q best s = Some r" and "deficits_ok s"
  shows "deficits_ok (snd r)"
proof -
  have "deficits_ok s \<longrightarrow> deficits_ok (snd r)"
  proof (rule frontLoop.raw_induct[where P = "\<lambda>E sl q best s r. deficits_ok s \<longrightarrow> deficits_ok (snd r)",
      OF _ assms(1)], goal_cases)
    case (1 loop E sl q best s y)
    then show ?case
      using same_issuers_ok[OF skipFront_same_issuers]
      by (auto split: option.splits if_splits dest: considerFront_ok)
  qed
  then show ?thesis using assms(2) by simp
qed

lemma step_ok: "deficits_ok s \<Longrightarrow> deficits_ok (s\<lparr>basicBuffer := snd (Next (basicBuffer s))\<rparr>)"
  by (simp add: set_buffer_ok)

lemma issuerLoop_ok:
  assumes "issuerLoop E sl start q best s = Some r" and "deficits_ok s"
  shows "deficits_ok (snd r)"
proof -
  have "deficits_ok s \<longrightarrow> deficits_ok (snd r)"
  proof (rule issuerLoop.raw_induct[where P = "\<lambda>E sl start q best s r. deficits_ok s \<longrightarrow> deficits_ok (snd r)",
      OF _ assms(1)], goal_cases)
    case (1 loop E sl start q best s y)
    show ?case
    proof
      assume ok: "deficits_ok s"
      obtain best' removed s' where f: "frontLoop E sl q best s = Some ((best', removed), s')"
        using 1(2) by (auto simp: bind_eq_Some_conv Let_def)
      have "deficits_ok s'" using frontLoop_ok[OF f ok] by simp
      then show "deficits_ok (snd y)"
        using 1(2) f step_ok[of s'] by (auto simp: case_prod_beta Let_def split: if_splits dest!: 1(1)[rule_format])
    qed
  qed
  then show ?thesis using assms(2) by simp
qed

lemma roundsLoop_ok:
  assumes "roundsLoop E sl rounds start q s = Some r" and "safemath_signed (math E)" and "deficits_ok s"
  shows "deficits_ok (snd r)"
proof -
  have "safemath_signed (math E) \<longrightarrow> deficits_ok s \<longrightarrow> deficits_ok (snd r)"
  proof (rule roundsLoop.raw_induct[where
      P = "\<lambda>E sl rounds start q s r. safemath_signed (math E) \<longrightarrow> deficits_ok s \<longrightarrow> deficits_ok (snd r)",
      OF _ assms(1)], goal_cases)
    case (1 loop E sl rounds start q s y)
    show ?case
    proof (intro impI)
      assume sm: "safemath_signed (math E)" and ok: "deficits_ok s"
      obtain err s' where i: "incrementDeficit E (issuerID (queues (basicBuffer s) q)) rounds sl s = Some (err, s')"
        using 1(2) by (auto simp: bind_eq_Some_conv Let_def)
      have ok': "deficits_ok s'" by (rule incrementDeficit_ok[OF sm i ok])
      show "deficits_ok (snd y)"
        using 1(2) i step_ok[OF ok'] removeIssuer_ok[OF _ ok'] sm
        by (auto simp: case_prod_beta Let_def bind_eq_Some_conv split: if_splits option.splits dest!: 1(1)[rule_format])
    qed
  qed
  then show ?thesis using assms(2,3) by simp
qed

lemma beforeLoop_ok:
  assumes "beforeLoop E sl target q s = Some r" and "safemath_signed (math E)" and "deficits_ok s"
  shows "deficits_ok (snd r)"
proof -
  have "safemath_signed (math E) \<longrightarrow> deficits_ok s \<longrightarrow> deficits_ok (snd r)"
  proof (rule beforeLoop.raw_induct[where
      P = "\<lambda>E sl target q s r. safemath_signed (math E) \<longrightarrow> deficits_ok s \<longrightarrow> deficits_ok (snd r)",
      OF _ assms(1)], goal_cases)
    case (1 loop E sl target q s y)
    show ?case
    proof (intro impI)
      assume sm: "safemath_signed (math E)" and ok: "deficits_ok s"
      show "deficits_ok (snd y)"
        using 1(2) ok sm step_ok incrementDeficit_ok[OF sm] removeIssuer_ok
        by (auto simp: case_prod_beta Let_def bind_eq_Some_conv split: if_splits option.splits dest!: 1(1)[rule_format])
    qed
  qed
  then show ?thesis using assms(2,3) by simp
qed

lemma takeFront_ok:
  assumes "takeFront E s = Some s'" and "safemath_signed (math E)" and "deficits_ok s"
  shows "deficits_ok s'"
proof -
  have drop: "deficits_ok (dropBlock e blk s) = deficits_ok s" for e blk s by (simp add: deficits_ok_def)
  have chan: "deficits_ok (s\<lparr>basicBuffer := (basicBuffer s)\<lparr>blockChan := c\<rparr>\<rparr>) = deficits_ok s" for c s
    by (simp add: set_buffer_ok)
  have pop: "deficits_ok (s\<lparr>basicBuffer := snd (BufferQueue_PopFront (basicBuffer s))\<rparr>)"
    using assms(3) by (simp add: set_buffer_ok)
  show ?thesis
    using assms(1) updateDeficit_ok[OF assms(2) _ pop]
    by (auto simp: takeFront_def Let_def case_prod_beta bind_eq_Some_conv drop chan split: option.splits)
qed

lemma serveIssuer_ok:
  assumes "serveIssuer E sl start rounds issuer s = Some s'" and "safemath_signed (math E)" and "deficits_ok s"
  shows "deficits_ok s'"
proof -
  obtain go t where t: "(if 0 < sint rounds then roundsLoop E sl rounds start start s else Some (True, s)) = Some (go, t)"
    "(if \<not> go then Some t else Option.bind (beforeLoop E sl issuer (Some start) t) (\<lambda>(go, s).
         if \<not> go then Some s else takeFront E s)) = Some s'"
    using assms(1) by (auto simp: serveIssuer_def bind_eq_Some_conv)
  have ok: "deficits_ok t" using t(1) roundsLoop_ok[OF _ assms(2,3)] assms(3) by (fastforce split: if_splits)
  show ?thesis
  proof (cases go)
    case True
    then obtain go' u where u: "beforeLoop E sl issuer (Some start) t = Some (go', u)"
      "(if \<not> go' then Some u else takeFront E u) = Some s'" using t(2) by (auto simp: bind_eq_Some_conv)
    then show ?thesis
      using beforeLoop_ok[OF u(1) assms(2) ok] takeFront_ok[OF _ assms(2)] by (auto split: if_splits)
  qed (use t(2) ok in simp)
qed

lemma selectBasic_ok:
  assumes "selectBasicBlockWithoutLocking E s = Some s'" and "safemath_signed (math E)" and "deficits_ok s"
  shows "deficits_ok s'"
  using assms(1,3) issuerLoop_ok[OF _ assms(3)] serveIssuer_ok[OF _ assms(2)]
  by (fastforce simp: selectBasicBlockWithoutLocking_def selectIssuer_def Let_def bind_eq_Some_conv
      split: if_splits option.splits)

lemma selectBlock_ok:
  assumes "selectBlockToScheduleWithLocking E order s = Some s'" and "safemath_signed (math E)" and "deficits_ok s"
  shows "deficits_ok s'"
  by (rule selectBasic_ok[OF assms(1)[unfolded selectBlockToScheduleWithLocking_def] assms(2)])
    (use assms(3) in \<open>simp add: deficits_ok_def\<close>)

lemma scheduleBlock_ok:
  assumes "scheduleBlock E order blk s = Some s'" and "safemath_signed (math E)" and "deficits_ok s"
  shows "deficits_ok s'"
proof -
  have t: "deficits_ok (trigger ev s) = deficits_ok s" for ev s by (simp add: trigger_def deficits_ok_def)
  have "deficits_ok (snd (setFlag SetScheduled blk s))"
    "deficits_ok (updateChildrenWithoutLocking E blk (snd (setFlag SetScheduled blk s)))"
    using assms(3) by (simp_all add: deficits_ok_def same_issuers_fields)
  then show ?thesis
    using assms(1) selectBlock_ok[OF _ assms(2)]
    by (auto simp: scheduleBlock_def case_prod_beta Let_def t split: if_splits)
qed

lemma deficits_ok_other:
  "deficits_ok (trigger ev s) = deficits_ok s" "deficits_ok (snd (setFlag f blk s)) = deficits_ok s"
  "deficits_ok (tryReady E blk s) = deficits_ok s" "deficits_ok (tryReadyValidationBlock E blk s) = deficits_ok s"
  "deficits_ok (dropBlock err blk s) = deficits_ok s" "deficits_ok (fold (dropBlock err) bs s) = deficits_ok s"
  "deficits_ok (addValidator i s) = deficits_ok s"
  "deficits_ok (s\<lparr>validatorBuffer := v\<rparr>) = deficits_ok s"
  by (simp_all add: deficits_ok_def same_issuers_fields addValidator_def)

lemma enqueueBasicBlock_ok:
  assumes "enqueueBasicBlock E blk s = Some s'" and "deficits_ok s"
  shows "deficits_ok s'"
proof -
  define et where "et = (case GetIssuerQueue (IssuerID blk) (basicBuffer s) of
      Inr e \<Rightarrow> (e, s) | Inl _ \<Rightarrow> createIssuer (IssuerID blk) s)"
  have t: "deficits_ok (snd et)" using assms(2) createIssuer_ok by (simp add: et_def split: sum.splits)
  show ?thesis
    using assms(1) t unfolding enqueueBasicBlock_def et_def[symmetric] Let_def case_prod_beta
    by (auto simp: deficits_ok_other set_buffer_ok dest: Submit_active split: option.splits if_splits)
qed

lemma enqueueValidationBlock_ok:
  assumes "enqueueValidationBlock E blk s = Some s'" and "deficits_ok s"
  shows "deficits_ok s'"
proof -
  define t where "t = (case buffer (validatorBuffer s) (IssuerID blk) of None \<Rightarrow> addValidator (IssuerID blk) s | Some _ \<Rightarrow> s)"
  have t: "deficits_ok t" using assms(2) by (simp add: t_def deficits_ok_other split: option.splits)
  show ?thesis
    using assms(1) t unfolding enqueueValidationBlock_def t_def[symmetric] Let_def
    by (auto simp: case_prod_beta deficits_ok_other split: option.splits if_splits)
qed

section \<open>Reachable schedulers\<close>

text \<open>
  Every state that a sequence of handlers can lead to. The environment, the clock included, may differ
  from step to step; a handler that panics or hangs has no successor.
\<close>

inductive sched_reach :: "Scheduler \<Rightarrow> bool" where
  new: "sched_reach (New fl)"
| booked: "sched_reach s \<Longrightarrow> safemath_signed (math E) \<Longrightarrow> onBlockBooked E order blk s = Some s' \<Longrightarrow> sched_reach s'"
| basic: "sched_reach s \<Longrightarrow> safemath_signed (math E) \<Longrightarrow> basicBlockLoop E order s = Some s' \<Longrightarrow> sched_reach s'"
| validator: "sched_reach s \<Longrightarrow> safemath_signed (math E) \<Longrightarrow> validatorLoop E order account s = Some s' \<Longrightarrow> sched_reach s'"
| created: "sched_reach s \<Longrightarrow> onAccountCreated account s = Some s' \<Longrightarrow> sched_reach s'"
| destroyed: "sched_reach s \<Longrightarrow> onAccountDestroyed account s = Some s' \<Longrightarrow> sched_reach s'"
| committed: "sched_reach s \<Longrightarrow> onLatestCommitmentUpdated lastSlot inCommittee order s = Some s' \<Longrightarrow> sched_reach s'"

text \<open>C10: In every reachable scheduler state the issuers that have a deficit are exactly the active
  issuers of the buffer, so the panic "deficit not found for issuer" can not happen, and every
  deficit is between 0 and the maximum: additions saturate and no block is ever paid below zero.\<close>

theorem deficits_in_range:
  assumes "sched_reach s"
  shows "dom (deficits s) = dom (activeIssuers (basicBuffer s)) \<and>
    (\<forall>i d. deficits s i = Some d \<longrightarrow> 0 \<le> sint d \<and> sint d \<le> sint maxDeficit)"
proof -
  have "deficits_ok s"
    using assms
  proof (induction rule: sched_reach.induct)
    case (new fl)
    then show ?case by (simp add: deficits_ok_def New_def NewBufferQueue_def)
  next
    case (booked s E order blk s')
    then obtain t where t: "AddBlock E blk s = Some t" "selectBlockToScheduleWithLocking E order t = Some s'"
      by (auto simp: onBlockBooked_def bind_eq_Some_conv)
    then have "deficits_ok t"
      using booked enqueueBasicBlock_ok enqueueValidationBlock_ok by (auto simp: AddBlock_def split: if_splits)
    then show ?case using selectBlock_ok[OF t(2)] booked by simp
  next
    case (basic s E order s')
    then show ?case
      using scheduleBlock_ok[of E order _ "s\<lparr>basicBuffer := (basicBuffer s)\<lparr>blockChan := None\<rparr>\<rparr>" s']
      by (auto simp: basicBlockLoop_def set_buffer_ok split: option.splits)
  next
    case (validator s E order account s')
    have "deficits_ok (s\<lparr>validatorBuffer := v\<rparr>)" for v using validator by (simp add: deficits_ok_def)
    then show ?case
      using validator scheduleBlock_ok by (fastforce simp: validatorLoop_def split: option.splits)
  next
    case (created s account s')
    then show ?case using createIssuer_ok by (auto simp: onAccountCreated_def)
  next
    case (destroyed s account s')
    then show ?case using removeIssuer_ok by (auto simp: onAccountDestroyed_def)
  next
    case (committed s lastSlot inCommittee order s')
    then show ?case by (auto simp: onLatestCommitmentUpdated_def deficits_ok_other split: if_splits)
  qed
  then show ?thesis by (simp add: deficits_ok_def)
qed

definition noFlags :: "block_id \<Rightarrow> block_flags" where
  "noFlags i = \<lparr>IsEnqueued = False, IsScheduled = False, IsSkipped = False, IsDropped = False\<rparr>"

theorem deficits_in_range_witness:
  "\<exists>d. deficits (snd (createIssuer 1 (New noFlags))) 1 = Some d \<and> 0 \<le> sint d \<and> sint d \<le> sint maxDeficit \<and>
     dom (deficits (snd (createIssuer 1 (New noFlags)))) = dom (activeIssuers (basicBuffer (snd (createIssuer 1 (New noFlags)))))"
proof -
  have "sched_reach (snd (createIssuer 1 (New noFlags)))" by (rule created[OF new]) (simp add: onAccountCreated_def)
  moreover have "deficits (snd (createIssuer 1 (New noFlags))) 1 = Some 0" by (simp add: createIssuer_def case_prod_beta)
  ultimately show ?thesis using deficits_in_range by blast
qed

end
