(* ===== verification/SchedulerSelection.thy ===== *)
theory SchedulerSelection
  imports Scheduler
begin

text \<open>
  What the selection of the next basic block achieves
  (\<open>pkg/protocol/engine/congestioncontrol/scheduler/drr/scheduler.go\<close>, \<open>selectIssuer\<close> and
  \<open>selectBasicBlockWithoutLocking\<close>): when every issuer has a quantum it returns, and it hands over a
  ready block whenever there is one, whose issuer can pay for it. It also records two states in
  which the scheduler's bookkeeping goes wrong: removing an issuer leaves its ready blocks in the
  counter, and removing the issuer at which a walk began makes the walk endless.
\<close>

section \<open>Walks around the ring\<close>

text \<open>
  A loop that starts at the current queue, treats each queue and moves on to the next one until it is
  back at the start: if treating a queue does not depend on which queue is current, the loop returns
  after one round with every queue treated once.
\<close>

lemma ring_walk_from:
  fixes L :: "nat \<Rightarrow> 's \<Rightarrow> 'r option" and buf :: "'s \<Rightarrow> BufferQueue" and move :: "nat \<Rightarrow> 's \<Rightarrow> 's"
  assumes loop: "\<And>q qs s. ring_of (buf s) (q # qs) \<Longrightarrow> P q s \<Longrightarrow>
      L q s = (let n = hd (qs @ [q]); s' = move n (body q s) in if n = start then Some (fin s') else L n s')"
    and ring: "\<And>q qs s. ring_of (buf s) (q # qs) \<Longrightarrow> P q s \<Longrightarrow> ring_of (buf (move (hd (qs @ [q])) (body q s))) (qs @ [q])"
    and keep: "\<And>q q' n s. P q s \<Longrightarrow> P q' s \<Longrightarrow> P q' (move n (body q s))"
    and comm: "\<And>q n s. body q (move n s) = move n (body q s)" "\<And>n m s. move n (move m s) = move n s"
    and "ring_of (buf s) (ys @ zs)" and "start = hd (zs @ ys)" and "ys \<noteq> []" and "\<forall>q \<in> set ys. P q s"
  shows "L (hd ys) s = Some (fin (move start (fold body ys s)))"
  using assms(6-9)
proof (induction ys arbitrary: zs s)
  case (Cons y ys)
  have r: "ring_of (buf s) (y # ys @ zs)" and P: "P y s" using Cons.prems by auto
  let ?n = "hd (ys @ zs @ [y])"
  let ?s = "move ?n (body y s)"
  have L: "L y s = (if ?n = start then Some (fin ?s) else L ?n ?s)" using loop[OF r P] by (simp add: Let_def)
  have r': "ring_of (buf ?s) (ys @ zs @ [y])" using ring[OF r P] by simp
  have moves: "fold body qs (move m t) = move m (fold body qs t)" for qs m t
    by (induction qs arbitrary: t) (simp_all add: comm(1))
  show ?case
  proof (cases "ys = []")
    case True
    then have "?n = start" using Cons.prems(2) by simp
    then show ?thesis using L True by simp
  next
    case False
    then have n: "?n = hd ys" by simp
    have "hd ys \<noteq> start"
    proof
      assume "hd ys = start"
      moreover have "hd ys \<in> set ys" using False by simp
      moreover have "start \<in> set (zs @ [y])" using Cons.prems(2) by (cases zs) auto
      ultimately show False using ring_of_distinct[OF r] by auto
    qed
    moreover have "L (hd ys) ?s = Some (fin (move start (fold body ys ?s)))"
      by (rule Cons.IH[of ?s "zs @ [y]"]) (use r' Cons.prems False keep[OF P] in \<open>auto simp: hd_append\<close>)
    ultimately show ?thesis using L n by (simp add: moves comm(2))
  qed
qed simp

lemmas ring_walk = ring_walk_from[where zs = "[]", simplified]

section \<open>Removing an issuer during a walk\<close>

lemma frontLoop_idle:
  "inbox (queues (basicBuffer s) q) = [] \<Longrightarrow> frontLoop E sl q best s = Some ((best, False), s)"
  by (subst frontLoop.simps) (simp add: IssuerQueue_Front_def)

lemma issuerLoop_stuck:
  assumes "ring_of (basicBuffer s) (y # ys)" and "start \<notin> set (y # ys)"
    and "\<forall>e \<in> set (y # ys). inbox (queues (basicBuffer s) e) = []"
  shows "issuerLoop E sl start y best s = None"
proof (rule ccontr)
  let ?J = "\<lambda>start q s. \<exists>qs. ring_of (basicBuffer s) (q # qs) \<and> start \<notin> set (q # qs) \<and>
      (\<forall>e \<in> set (q # qs). inbox (queues (basicBuffer s) e) = [])"
  assume "issuerLoop E sl start y best s \<noteq> None"
  then obtain r where r: "issuerLoop E sl start y best s = Some r" by auto
  have "\<not> ?J start y s"
  proof (rule issuerLoop.raw_induct[where P = "\<lambda>E sl start q best s r. \<not> ?J start q s", OF _ r], goal_cases)
    case (1 loop E sl start q best s z)
    show ?case
    proof
      assume "?J start q s"
      then obtain qs where J: "ring_of (basicBuffer s) (q # qs)" "start \<notin> set (q # qs)"
        "\<forall>e \<in> set (q # qs). inbox (queues (basicBuffer s) e) = []" by blast
      let ?n = "hd (qs @ [q])"
      let ?s = "s\<lparr>basicBuffer := (basicBuffer s)\<lparr>ring := Some ?n\<rparr>\<rparr>"
      have n: "?n \<noteq> start" "qs @ [q] = ?n # tl (qs @ [q])" using J(2) by (cases qs; auto)+
      have "loop E sl start ?n best ?s = Some z"
        using 1(2) J(3) n(1) frontLoop_idle[of s q E sl best] Next_rotates(1)[OF J(1)] by (simp add: Let_def)
      then have "\<not> ?J start ?n ?s" by (rule 1(1))
      moreover have "ring_of (basicBuffer ?s) (?n # tl (qs @ [q]))"
        using Next_rotates(2)[OF J(1)] n(2) by simp
      moreover have e: "set (?n # tl (qs @ [q])) = set (q # qs)" by (cases qs) auto
      have "start \<notin> set (?n # tl (qs @ [q]))"
        "\<forall>e \<in> set (?n # tl (qs @ [q])). inbox (queues (basicBuffer ?s) e) = []"
        unfolding e using J(2,3) by simp_all
      ultimately show False by blast
    qed
  qed
  then show False using assms by blast
qed

section \<open>Arithmetic of deficits\<close>

text \<open>Deficits and quanta are at most half of the largest 64 bit integer, so sums of two do not overflow.\<close>

definition in_range :: "i64 \<Rightarrow> bool" where
  "in_range d \<longleftrightarrow> 0 \<le> sint d \<and> sint d \<le> sint maxDeficit"

lemma checked_small: "- (2 ^ 63) \<le> i \<Longrightarrow> i < 2 ^ 63 \<Longrightarrow> checked_signed i = Some (word_of_int i :: i64)"
  by (simp add: checked_signed_def fits_signed_def)

lemma sint_minus: "in_range a \<Longrightarrow> in_range b \<Longrightarrow> sint (a - b) = sint a - sint b"
  using sint_word_of_int[of "sint a - sint b"] by (simp add: in_range_def sint_maxDeficit)

lemma sint_uminus: "in_range a \<Longrightarrow> sint (- a) = - sint a"
  using sint_word_of_int[of "- sint a"] by (simp add: in_range_def sint_maxDeficit)

lemma uint_maxDeficit: "uint maxDeficit = 4611686018427387903"
  by code_simp

lemma sint_small:
  fixes w :: i64
  assumes "uint w \<le> 4611686018427387903"
  shows "sint w = uint w"
  using sint_word_of_int[of "uint w"] assms order_trans[OF _ uint_ge_0[of w], of "- (2 ^ 63)"] by simp

lemma deficitFromWork_in_range:
  assumes "w \<le> MaxBlockWork E" and "MaxBlockWork E \<noteq> 0"
  shows "\<exists>c. deficitFromWork E w = Some c \<and> in_range c"
proof -
  let ?M = "uint (MaxBlockWork E)" and ?f = "maxDeficit div ucast (MaxBlockWork E)"
  have M: "0 < ?M" "?M < 2 ^ 32" using assms(2) uint_bounded[of "MaxBlockWork E"]
    by (auto simp: uint_0_iff order.strict_iff_order)
  have u: "uint (ucast x :: i64) = uint x" for x :: work_score
    using uint_bounded[of x] by (simp add: unsigned_ucast_eq take_bit_int_eq_self)
  have f: "uint ?f = 4611686018427387903 div ?M" by (simp add: uint_div u uint_maxDeficit)
  have "uint w * uint ?f \<le> ?M * (4611686018427387903 div ?M)"
    unfolding f using assms(1) M by (intro mult_right_mono) (auto simp: word_le_def pos_imp_zdiv_nonneg_iff)
  also have "\<dots> \<le> 4611686018427387903" using M pos_mod_sign[of ?M 4611686018427387903] mult_div_mod_eq[of ?M 4611686018427387903] by linarith
  finally have le: "uint w * uint ?f \<le> 4611686018427387903" .
  then have "uint (ucast w * ?f) = uint w * uint ?f"
    by (simp add: uint_word_ariths u take_bit_int_eq_self)
  then have "0 \<le> uint (ucast w * ?f)" "uint (ucast w * ?f) \<le> 4611686018427387903" using le by simp_all
  then have "sint (ucast w * ?f) = uint (ucast w * ?f)"
    by (intro sint_small)
  then show ?thesis
    using assms(2) \<open>uint (ucast w * ?f) \<le> 4611686018427387903\<close>
    by (simp add: deficitFromWork_def in_range_def sint_maxDeficit)
qed

lemma quantumOfMana_positive: "in_range (quantumOfMana m) \<and> 0 < sint (quantumOfMana m)"
proof -
  let ?k = "min m (maxDeficit - 1)"
  have "uint (maxDeficit - 1) = 4611686018427387902" by code_simp
  then have k: "uint ?k \<le> 4611686018427387902" by (metis min.cobounded2 word_le_def)
  then have "uint (1 + ?k) = 1 + uint ?k" by (simp add: uint_word_ariths take_bit_int_eq_self)
  then have "sint (quantumOfMana m) = 1 + uint ?k"
    using k sint_small[of "1 + ?k"] by (simp add: quantumOfMana_def)
  moreover have "0 \<le> uint ?k" by (rule uint_ge_0)
  ultimately show ?thesis using k unfolding in_range_def sint_maxDeficit by linarith
qed

text \<open>The number of rounds: positive exactly when the deficit does not suffice, and then enough.\<close>

lemma roundsFor_enough:
  assumes "safemath_signed (math E)" and "in_range need" and "in_range d" and "in_range q" and "0 < sint q"
  shows "\<exists>r. roundsFor E (need - d) q = Some r \<and> sint r \<le> sint maxDeficit \<and>
    (0 < sint r \<longleftrightarrow> sint d < sint need) \<and> (0 < sint r \<longrightarrow> sint need - sint d \<le> sint q * sint r)"
proof -
  let ?rem = "sint need - sint d" and ?q = "sint q"
  have b: "0 \<le> sint need" "sint need \<le> 4611686018427387903" "0 \<le> sint d" "sint d \<le> 4611686018427387903"
    "?q \<le> 4611686018427387903" using assms by (auto simp: in_range_def sint_maxDeficit)
  have rem: "sint (need - d) = ?rem" by (rule sint_minus[OF assms(2,3)])
  have one: "sint (q - 1) = ?q - 1"
    using sint_word_of_int[of "?q - 1"] assms(5) b by simp
  let ?n = "?rem + (?q - 1)"
  have add: "SafeAdd (math E) (need - d) (q - 1) = Some (word_of_int ?n)"
    using assms(1,5) b by (simp add: safemath_signed_def rem one checked_small)
  have n: "sint (word_of_int ?n :: i64) = ?n" by (rule sint_word_of_int) (use assms(5) b in simp_all)
  have q0: "q \<noteq> 0" using assms(5) by auto
  let ?r = "sgn ?n * (\<bar>?n\<bar> div ?q)"
  have small: "\<bar>?n\<bar> div ?q \<le> 4611686018427387903"
  proof (cases "0 < ?rem")
    case True
    have "0 \<le> (?rem - 1) * (?q - 1)" using True assms(5) by (intro mult_nonneg_nonneg) auto
    then have "?n \<le> ?rem * ?q" by (simp add: algebra_simps)
    then have "?n div ?q \<le> ?rem" using zdiv_mono1[of ?n "?rem * ?q" ?q] assms(5) by simp
    then show ?thesis using True b assms(5) by simp
  next
    case False
    then have "\<bar>?n\<bar> \<le> 4611686018427387903" using b assms(5) by simp
    moreover have "\<bar>?n\<bar> div ?q \<le> \<bar>?n\<bar>" using zdiv_mono2[of "\<bar>?n\<bar>" 1 ?q] assms(5) by simp
    ultimately show ?thesis by simp
  qed
  have nn: "0 \<le> \<bar>?n\<bar> div ?q" using assms(5) by (simp add: pos_imp_zdiv_nonneg_iff)
  then have r: "- (2 ^ 63) \<le> ?r" "?r < 2 ^ 63" "?r \<le> 4611686018427387903" using small by (auto simp: sgn_if)
  then have "SafeDiv (math E) (word_of_int ?n) q = Some (word_of_int ?r)"
    using assms(1,5) q0 n by (simp add: safemath_signed_def checked_small)
  then have rounds: "roundsFor E (need - d) q = Some (word_of_int ?r)" by (simp add: roundsFor_def add)
  have sr: "sint (word_of_int ?r :: i64) = ?r" by (rule sint_word_of_int[OF r(1,2)])
  have pos: "0 < ?r \<longleftrightarrow> 0 < ?rem"
    using assms(5) nn by (cases "0 < ?n") (auto simp: sgn_if pos_imp_zdiv_pos_iff)
  have "?rem \<le> ?q * ?r" if "0 < ?r"
  proof -
    have "?n mod ?q < ?q" using assms(5) by simp
    moreover have "?n = ?q * (?n div ?q) + ?n mod ?q" by simp
    ultimately have "?rem \<le> ?q * (?n div ?q)" by linarith
    then show ?thesis using that pos assms(5) by (auto simp: sgn_if)
  qed
  then show ?thesis using rounds sr r(3) pos by (simp add: sint_maxDeficit)
qed

section \<open>Selection when every issuer has a quantum\<close>

text \<open>The block at the front of a queue, when it may be scheduled now.\<close>

definition dueFront :: "env \<Rightarrow> Scheduler \<Rightarrow> nat \<Rightarrow> block option" where
  "dueFront E s q =
     (case IssuerQueue_Front (Some (queues (basicBuffer s) q)) of
        None \<Rightarrow> None
      | Some blk \<Rightarrow> if IssuingTime blk < Now E then Some blk else None)"

text \<open>
  An issuer in order: it has a deficit and a positive quantum, and its front block, if any, is its
  own, within the maximal block work, and not an old accepted block that is to be skipped.
\<close>

definition issuer_fine :: "env \<Rightarrow> slot \<Rightarrow> nat \<Rightarrow> Scheduler \<Rightarrow> bool" where
  "issuer_fine E sl q s \<longleftrightarrow>
     (\<exists>d. deficits s (issuerAt (basicBuffer s) q) = Some d \<and> in_range d) \<and>
     (\<exists>quantum. quantumFunc E (issuerAt (basicBuffer s) q) sl = Inr quantum \<and> in_range quantum \<and> 0 < sint quantum) \<and>
     (\<forall>blk. IssuerQueue_Front (Some (queues (basicBuffer s) q)) = Some blk \<longrightarrow>
        IssuerID blk = issuerAt (basicBuffer s) q \<and> WorkScore blk \<le> MaxBlockWork E \<and>
        \<not> (IsAccepted E (ID blk) \<and> Now E - IssuingTime blk > skipAge E))"

definition env_fine :: "env \<Rightarrow> bool" where
  "env_fine E \<longleftrightarrow> safemath_signed (math E) \<and> MaxBlockWork E \<noteq> 0"

text \<open>What one issuer contributes to the selection.\<close>

definition rounds_of :: "env \<Rightarrow> slot \<Rightarrow> Scheduler \<Rightarrow> nat \<Rightarrow> block \<Rightarrow> i64" where
  "rounds_of E sl s q blk =
     the (roundsFor E (the (deficitFromWork E (WorkScore blk)) - the (deficits s (IssuerID blk)))
       (projr (quantumFunc E (IssuerID blk) sl)))"

definition better :: "env \<Rightarrow> slot \<Rightarrow> Scheduler \<Rightarrow> nat \<Rightarrow> i64 \<times> nat option \<Rightarrow> i64 \<times> nat option" where
  "better E sl s q best =
     (case dueFront E s q of
        None \<Rightarrow> best
      | Some blk \<Rightarrow>
          let r = rounds_of E sl s q blk in if sint r < sint (fst best) then (r, Some q) else best)"

lemma rounds_of_fine:
  assumes "env_fine E" and "issuer_fine E sl q s" and "dueFront E s q = Some blk"
  shows "\<exists>need d quantum. deficitFromWork E (WorkScore blk) = Some need \<and> in_range need \<and>
    deficits s (IssuerID blk) = Some d \<and> in_range d \<and> IssuerID blk = issuerAt (basicBuffer s) q \<and>
    quantumFunc E (IssuerID blk) sl = Inr quantum \<and> in_range quantum \<and> 0 < sint quantum \<and>
    roundsFor E (need - d) quantum = Some (rounds_of E sl s q blk) \<and> sint (rounds_of E sl s q blk) \<le> sint maxDeficit \<and>
    (0 < sint (rounds_of E sl s q blk) \<longleftrightarrow> sint d < sint need) \<and>
    (0 < sint (rounds_of E sl s q blk) \<longrightarrow> sint need - sint d \<le> sint quantum * sint (rounds_of E sl s q blk))"
proof -
  have blk: "IssuerID blk = issuerAt (basicBuffer s) q" "WorkScore blk \<le> MaxBlockWork E"
    using assms(2,3) by (auto simp: issuer_fine_def dueFront_def split: option.splits if_splits)
  obtain need where need: "deficitFromWork E (WorkScore blk) = Some need" "in_range need"
    using deficitFromWork_in_range[OF blk(2)] assms(1) by (auto simp: env_fine_def)
  obtain d quantum where d: "deficits s (IssuerID blk) = Some d" "in_range d"
    "quantumFunc E (IssuerID blk) sl = Inr quantum" "in_range quantum" "0 < sint quantum"
    using assms(2) blk(1) by (auto simp: issuer_fine_def)
  show ?thesis
    using roundsFor_enough[of E need d quantum] assms(1) need d blk(1)
    by (auto simp: rounds_of_def env_fine_def)
qed

lemma frontLoop_fine:
  assumes "env_fine E" and "issuer_fine E sl q s"
  shows "frontLoop E sl q best s = Some ((better E sl s q best, False), s)"
proof (cases "dueFront E s q")
  case None
  then show ?thesis
    by (subst frontLoop.simps) (auto simp: dueFront_def better_def split: option.splits if_splits)
next
  case (Some blk)
  then have f: "IssuerQueue_Front (Some (queues (basicBuffer s) q)) = Some blk" "IssuingTime blk < Now E"
    by (auto simp: dueFront_def split: option.splits if_splits)
  have "frontLoop E sl q best s = considerFront E sl q best blk s"
    using assms(2) f by (subst frontLoop.simps) (auto simp: issuer_fine_def)
  then show ?thesis
    using rounds_of_fine[OF assms Some] Some by (auto simp: considerFront_def better_def Let_def)
qed

text \<open>Setting the current queue.\<close>

definition moveTo :: "nat \<Rightarrow> Scheduler \<Rightarrow> Scheduler" where
  "moveTo n s = s\<lparr>basicBuffer := (basicBuffer s)\<lparr>ring := Some n\<rparr>\<rparr>"

lemma Next_moveTo:
  assumes "ring_of (basicBuffer s) (q # qs)"
  shows "Next (basicBuffer s) = (Some (hd (qs @ [q])), basicBuffer (moveTo (hd (qs @ [q])) s))"
    and "ring_of (basicBuffer (moveTo (hd (qs @ [q])) s)) (qs @ [q])"
  using Next_rotates[OF assms] by (simp_all add: moveTo_def)

lemma moveTo_simps [simp]:
  "moveTo n (moveTo m s) = moveTo n s" "deficits (moveTo n s) = deficits s" "events (moveTo n s) = events s"
  "queues (basicBuffer (moveTo n s)) = queues (basicBuffer s)"
  "issuerAt (basicBuffer (moveTo n s)) = issuerAt (basicBuffer s)"
  by (simp_all add: moveTo_def fun_eq_iff issuerAt_def)

lemma moveTo_fine [simp]: "issuer_fine E sl q (moveTo n s) = issuer_fine E sl q s"
  by (simp add: issuer_fine_def)

lemma better_moveTo [simp]:
  "dueFront E (moveTo n s) = dueFront E s" "rounds_of E sl (moveTo n s) = rounds_of E sl s"
  "better E sl (moveTo n s) = better E sl s"
proof -
  show due: "dueFront E (moveTo n s) = dueFront E s" and rounds: "rounds_of E sl (moveTo n s) = rounds_of E sl s"
    by (simp_all add: dueFront_def rounds_of_def fun_eq_iff)
  show "better E sl (moveTo n s) = better E sl s" by (simp add: better_def due rounds fun_eq_iff cong: option.case_cong)
qed

lemma issuerLoop_fine:
  assumes "env_fine E" and "ring_of (basicBuffer s) (x # xs)" and "\<forall>q \<in> set (x # xs). issuer_fine E sl q s"
  shows "issuerLoop E sl x x best s = Some (fold (better E sl s) (x # xs) best, s)"
proof -
  define body where "body q p = (better E sl (snd p) q (fst p), snd p)" for q p
  define mv where "mv n p = (fst p :: i64 \<times> nat option, moveTo n (snd p))" for n p
  have "issuerLoop E sl x x best s = Some (mv x (fold body (x # xs) (best, s)))"
  proof (rule ring_walk[where L = "\<lambda>q p. issuerLoop E sl x q (fst p) (snd p)" and s = "(best, s)" and body = body
        and move = mv and buf = "\<lambda>p. basicBuffer (snd p)" and P = "\<lambda>q p. issuer_fine E sl q (snd p)"
        and ys = "x # xs" and start = x and fin = "\<lambda>p. p", simplified fst_conv snd_conv list.sel])
    fix q qs and p :: "(i64 \<times> nat option) \<times> Scheduler"
    assume r: "ring_of (basicBuffer (snd p)) (q # qs)" and f: "issuer_fine E sl q (snd p)"
    have "t\<lparr>basicBuffer := basicBuffer (moveTo n t)\<rparr> = moveTo n t" for n t by (simp add: moveTo_def)
    then show "issuerLoop E sl x q (fst p) (snd p) =
        (let n = hd (qs @ [q]); s' = mv n (body q p) in if n = x then Some s' else issuerLoop E sl x n (fst s') (snd s'))"
      using frontLoop_fine[OF assms(1) f, of "fst p"] Next_moveTo(1)[OF r]
      by (subst issuerLoop.simps) (simp add: body_def mv_def Let_def)
    show "ring_of (basicBuffer (snd (mv (hd (qs @ [q])) (body q p)))) (qs @ [q])"
      using Next_moveTo(2)[OF r] by (simp add: body_def mv_def)
  qed (use assms in \<open>auto simp: body_def mv_def\<close>)
  moreover have "fold body qs (b, s) = (fold (better E sl s) qs b, s)" for qs b
    by (induction qs arbitrary: b) (simp_all add: body_def)
  moreover have "moveTo x s = s" using ring_of_hd[OF assms(2)] by (simp add: moveTo_def)
  ultimately show ?thesis by (simp add: mv_def body_def[of x])
qed

text \<open>The result of the selection: none exactly when no block is due, otherwise a queue with its rounds.\<close>

lemma fold_better:
  assumes "env_fine E" and "\<forall>q \<in> set qs. issuer_fine E sl q s"
    and "fold (better E sl s) qs (9223372036854775807, None) = (r, sel)"
  shows "case sel of
      None \<Rightarrow> \<forall>q \<in> set qs. dueFront E s q = None
    | Some q \<Rightarrow> q \<in> set qs \<and> (\<exists>blk. dueFront E s q = Some blk \<and> r = rounds_of E sl s q blk)"
proof -
  have big: "sint (9223372036854775807 :: i64) = 9223372036854775807" by code_simp
  have "case snd (fold (better E sl s) qs b) of
      None \<Rightarrow> \<forall>q \<in> set ps \<union> set qs. dueFront E s q = None
    | Some q \<Rightarrow> q \<in> set ps \<union> set qs \<and>
        (\<exists>blk. dueFront E s q = Some blk \<and> fst (fold (better E sl s) qs b) = rounds_of E sl s q blk)"
    if "\<forall>q \<in> set qs. issuer_fine E sl q s"
      and "case snd b of None \<Rightarrow> fst b = 9223372036854775807 \<and> (\<forall>q \<in> set ps. dueFront E s q = None)
        | Some q \<Rightarrow> q \<in> set ps \<and> (\<exists>blk. dueFront E s q = Some blk \<and> fst b = rounds_of E sl s q blk)" for ps b
    using that
  proof (induction qs arbitrary: ps b)
    case Nil
    then show ?case by (simp split: option.splits)
  next
    case (Cons q qs)
    have "case snd (better E sl s q b) of
        None \<Rightarrow> fst (better E sl s q b) = 9223372036854775807 \<and> (\<forall>q \<in> set (q # ps). dueFront E s q = None)
      | Some p \<Rightarrow> p \<in> set (q # ps) \<and> (\<exists>blk. dueFront E s p = Some blk \<and> fst (better E sl s q b) = rounds_of E sl s p blk)"
    proof (cases "dueFront E s q")
      case None
      then show ?thesis using Cons.prems(2) by (auto simp: better_def split: option.splits)
    next
      case (Some blk)
      then have "sint (rounds_of E sl s q blk) < sint (9223372036854775807 :: i64)"
        using rounds_of_fine[OF assms(1) _ Some, of sl] Cons.prems(1) by (auto simp: big sint_maxDeficit)
      then show ?thesis using Some Cons.prems(2) by (auto simp: better_def Let_def split: option.splits)
    qed
    from Cons.IH[OF _ this] Cons.prems(1) show ?case by (auto split: option.splits)
  qed
  from this[of "(9223372036854775807, None)" "[]"] assms show ?thesis by (simp split: option.splits)
qed

section \<open>Paying for the selected block\<close>

text \<open>Adding \<open>r\<close> rounds of quantum to one deficit, up to the maximum.\<close>

definition topUp :: "env \<Rightarrow> slot \<Rightarrow> i64 \<Rightarrow> account_id \<Rightarrow> (account_id \<rightharpoonup> i64) \<Rightarrow> account_id \<rightharpoonup> i64" where
  "topUp E sl r i D =
     (case (D i, quantumFunc E i sl) of
        (Some d, Inr quantum) \<Rightarrow> D(i \<mapsto> word_of_int (min (sint d + sint quantum * sint r) (sint maxDeficit)))
      | _ \<Rightarrow> D)"

lemma incrementDeficit_fine:
  assumes "safemath_signed (math E)" and "deficits s i = Some d" and "in_range d"
    and "quantumFunc E i sl = Inr quantum" and "in_range quantum" and "0 \<le> sint r"
  shows "incrementDeficit E i r sl s = Some (None, s\<lparr>deficits := topUp E sl r i (deficits s)\<rparr>)"
proof -
  let ?p = "sint quantum * sint r" and ?m = "4611686018427387903 :: int"
  have b: "0 \<le> sint d" "sint d \<le> ?m" "0 \<le> sint quantum" "sint quantum \<le> ?m"
    using assms(3,5) by (auto simp: in_range_def sint_maxDeficit)
  have p: "0 \<le> ?p" using b assms(6) by simp
  have max: "word_of_int ?m = maxDeficit" by code_simp
  define delta where "delta = (case SafeMul (math E) quantum r of None \<Rightarrow> maxDeficit | Some x \<Rightarrow> x)"
  have mul: "SafeMul (math E) quantum r = checked_signed ?p" using assms(1) by (simp add: safemath_signed_def)
  have delta: "sint delta = (if ?p < 2 ^ 63 then ?p else ?m)"
    using p checked_small[of ?p] sint_word_of_int[of ?p]
    by (auto simp: delta_def mul checked_signed_def fits_signed_def sint_maxDeficit)
  define k where "k = sint d + sint delta"
  have add: "SafeAdd (math E) d delta = checked_signed k"
    using assms(1) by (simp add: safemath_signed_def k_def)
  have k: "0 \<le> k" "k = sint d + ?p \<or> ?m \<le> k \<and> ?m \<le> sint d + ?p"
    using b p by (auto simp: k_def delta split: if_splits)
  define v where "v = min (sint d + ?p) ?m"
  have v: "v = (if k < ?m then k else ?m)" using k(2) by (auto simp: v_def)
  have "computeDeficit E i delta (Some d) = (word_of_int v, None)"
  proof (cases "k < 2 ^ 63")
    case True
    have "SafeAdd (math E) d delta = Some (word_of_int k)" "sint (word_of_int k :: i64) = k"
      unfolding add using True k(1) by (auto intro!: checked_small sint_word_of_int)
    then show ?thesis using k(1) by (simp add: computeDeficit_def sint_maxDeficit v flip: max)
  next
    case False
    then have "SafeAdd (math E) d delta = None"
      unfolding add by (simp add: checked_signed_def fits_signed_def)
    then show ?thesis using False by (simp add: computeDeficit_def v flip: max)
  qed
  then show ?thesis
    using assms(2,4) by (simp add: incrementDeficit_def updateDeficit_def topUp_def sint_maxDeficit flip: delta_def v_def)
qed

lemma topUp_same:
  assumes "D j = Some v" and "in_range v" and "\<forall>q. quantumFunc E i sl = Inr q \<longrightarrow> in_range q" and "0 \<le> sint r"
  shows "\<exists>v'. topUp E sl r i D j = Some v' \<and> in_range v' \<and> sint v \<le> sint v'"
proof (cases "i = j \<and> (\<exists>q. quantumFunc E i sl = Inr q)")
  case True
  then obtain q where q: "i = j" "quantumFunc E i sl = Inr q" "in_range q" using assms(3) by blast
  let ?k = "min (sint v + sint q * sint r) (sint maxDeficit)"
  have "0 \<le> sint q * sint r" using q(3) assms(4) by (simp add: in_range_def)
  then have k: "sint v \<le> ?k" "0 \<le> ?k" "?k \<le> sint maxDeficit"
    using assms(2) by (auto simp: in_range_def sint_maxDeficit)
  have "sint (word_of_int ?k :: i64) = ?k"
    by (rule sint_word_of_int) (use k in \<open>auto simp: sint_maxDeficit\<close>)
  then show ?thesis using assms(1) q k by (simp add: topUp_def in_range_def)
next
  case False
  then have "topUp E sl r i D j = D j" by (auto simp: topUp_def split: option.splits sum.splits)
  then show ?thesis using assms by auto
qed

lemma topUp_enough:
  assumes "D i = Some d" and "in_range d" and "quantumFunc E i sl = Inr q" and "in_range q"
    and "in_range need" and "sint need - sint d \<le> sint q * sint r" and "0 < sint r"
  shows "\<exists>v. topUp E sl r i D i = Some v \<and> sint need \<le> sint v"
proof -
  let ?k = "min (sint d + sint q * sint r) (sint maxDeficit)"
  have "0 \<le> sint q * sint r" using assms(4,7) by (simp add: in_range_def)
  then have k: "0 \<le> ?k" "?k \<le> sint maxDeficit" "sint need \<le> ?k"
    using assms(2,5,6) by (auto simp: in_range_def sint_maxDeficit)
  have "sint (word_of_int ?k :: i64) = ?k"
    by (rule sint_word_of_int) (use k in \<open>auto simp: sint_maxDeficit\<close>)
  then show ?thesis using assms(1,3) k by (simp add: topUp_def)
qed

lemma topUp_other: "i \<noteq> j \<Longrightarrow> topUp E sl r i D j = D j"
  by (auto simp: topUp_def split: option.splits sum.splits)

definition raise :: "env \<Rightarrow> slot \<Rightarrow> i64 \<Rightarrow> nat \<Rightarrow> Scheduler \<Rightarrow> Scheduler" where
  "raise E sl r q s = s\<lparr>deficits := topUp E sl r (issuerAt (basicBuffer s) q) (deficits s)\<rparr>"

lemma raise_simps [simp]:
  "basicBuffer (raise E sl r q s) = basicBuffer s" "events (raise E sl r q s) = events s"
  "raise E sl r q (moveTo n s) = moveTo n (raise E sl r q s)"
  by (simp_all add: raise_def moveTo_def issuerAt_def)

lemma fold_raise_simps [simp]:
  "basicBuffer (fold (raise E sl r) qs s) = basicBuffer s" "events (fold (raise E sl r) qs s) = events s"
  by (induction qs arbitrary: s) simp_all

lemma raise_fine:
  assumes "issuer_fine E sl q s" and "issuer_fine E sl p s" and "0 \<le> sint r"
  shows "issuer_fine E sl p (raise E sl r q s)"
proof -
  obtain d where "deficits s (issuerAt (basicBuffer s) p) = Some d" "in_range d"
    using assms(2) by (auto simp: issuer_fine_def)
  moreover have "\<forall>x. quantumFunc E (issuerAt (basicBuffer s) q) sl = Inr x \<longrightarrow> in_range x"
    using assms(1) by (auto simp: issuer_fine_def)
  ultimately have "\<exists>v. topUp E sl r (issuerAt (basicBuffer s) q) (deficits s) (issuerAt (basicBuffer s) p) = Some v \<and> in_range v"
    using topUp_same assms(3) by blast
  then show ?thesis using assms(2) by (simp add: issuer_fine_def raise_def)
qed

lemma increment_raise:
  assumes "env_fine E" and "issuer_fine E sl q s" and "0 \<le> sint r"
  shows "incrementDeficit E (issuerID (queues (basicBuffer s) q)) r sl s = Some (None, raise E sl r q s)"
  using assms incrementDeficit_fine[of E s "issuerAt (basicBuffer s) q" _ sl _ r]
  by (auto simp: env_fine_def issuer_fine_def raise_def issuerAt_def)

lemma roundsLoop_fine:
  assumes "env_fine E" and "ring_of (basicBuffer s) (x # xs)" and "\<forall>q \<in> set (x # xs). issuer_fine E sl q s"
    and "0 \<le> sint r"
  shows "roundsLoop E sl r x x s = Some (True, fold (raise E sl r) (x # xs) s)"
proof -
  have "roundsLoop E sl r x (hd (x # xs)) s = Some (True, moveTo x (fold (raise E sl r) (x # xs) s))"
  proof (rule ring_walk[where L = "roundsLoop E sl r x" and buf = basicBuffer and move = moveTo
        and P = "issuer_fine E sl" and start = x and fin = "Pair True"])
    fix q qs s
    assume r: "ring_of (basicBuffer s) (q # qs)" and f: "issuer_fine E sl q s"
    have "t\<lparr>basicBuffer := basicBuffer (moveTo n t)\<rparr> = moveTo n t" for n t by (simp add: moveTo_def)
    moreover have "ring_of (basicBuffer (raise E sl r q s)) (q # qs)" using r by simp
    note Next_moveTo(1)[OF this]
    ultimately show "roundsLoop E sl r x q s = (let n = hd (qs @ [q]); s' = moveTo n (raise E sl r q s)
        in if n = x then Some (True, s') else roundsLoop E sl r x n s')"
      using increment_raise[OF assms(1) f assms(4)]
      by (subst roundsLoop.simps) (simp add: Let_def)
    show "ring_of (basicBuffer (moveTo (hd (qs @ [q])) (raise E sl r q s))) (qs @ [q])"
      using Next_moveTo(2)[of "raise E sl r q s" q qs] r by simp
  qed (use assms raise_fine in auto)
  moreover have "moveTo x t = t" if "basicBuffer t = basicBuffer s" for t
    using ring_of_hd[OF assms(2)] that by (simp add: moveTo_def)
  ultimately show ?thesis by (simp del: fold.simps)
qed

lemma beforeLoop_fine:
  assumes "env_fine E" and "ring_of (basicBuffer s) (ys @ e # zs)" and "\<forall>q \<in> set (ys @ e # zs). issuer_fine E sl q s"
  shows "beforeLoop E sl e (ring (basicBuffer s)) s = Some (True, moveTo e (fold (raise E sl 1) ys s))"
  using assms(2,3)
proof (induction ys arbitrary: s zs)
  case Nil
  then have "ring (basicBuffer s) = Some e" by (auto dest: ring_of_hd)
  then show ?case by (subst beforeLoop.simps) (simp add: moveTo_def)
next
  case (Cons y ys)
  have one: "0 \<le> sint (1 :: i64)" by simp
  have r: "ring_of (basicBuffer s) (y # ys @ e # zs)" using Cons.prems by simp
  then have y: "ring (basicBuffer s) = Some y" "y \<noteq> e" by (auto dest: ring_of_hd ring_of_distinct)
  let ?t = "raise E sl 1 y s" and ?n = "hd (ys @ e # zs @ [y])"
  have nt: "Next (basicBuffer s) = (Some ?n, basicBuffer (moveTo ?n ?t))"
    "ring_of (basicBuffer (moveTo ?n ?t)) (ys @ e # (zs @ [y]))"
    using Next_moveTo[of ?t y "ys @ e # zs"] r by simp_all
  have fine: "\<forall>q \<in> set (ys @ e # (zs @ [y])). issuer_fine E sl q (moveTo ?n ?t)"
    using Cons.prems(2) raise_fine[OF _ _ one] by auto
  have eq: "?t\<lparr>basicBuffer := basicBuffer (moveTo ?n ?t)\<rparr> = moveTo ?n ?t" by (simp add: moveTo_def)
  have moves: "fold (raise E sl 1) qs (moveTo m t) = moveTo m (fold (raise E sl 1) qs t)" for qs m t
    by (induction qs arbitrary: t) simp_all
  have rn: "ring (basicBuffer (moveTo ?n ?t)) = Some ?n" by (simp add: moveTo_def)
  show ?case
    using Cons.IH[OF nt(2) fine] y nt(1) increment_raise[OF assms(1) _ one, of sl y s] Cons.prems(2) eq
    by (subst beforeLoop.simps) (simp add: Let_def moves rn)
qed

lemma fold_raise_mono:
  assumes "\<forall>q \<in> set qs. issuer_fine E sl q s" and "deficits s i = Some v" and "in_range v" and "0 \<le> sint r"
  shows "\<exists>v'. deficits (fold (raise E sl r) qs s) i = Some v' \<and> in_range v' \<and> sint v \<le> sint v'"
  using assms(1-3)
proof (induction qs arbitrary: s v)
  case (Cons q qs)
  have "\<forall>x. quantumFunc E (issuerAt (basicBuffer s) q) sl = Inr x \<longrightarrow> in_range x"
    using Cons.prems(1) by (auto simp: issuer_fine_def)
  from topUp_same[where j = i and D = "deficits s", OF Cons.prems(2,3) this assms(4)]
  obtain w where w: "deficits (raise E sl r q s) i = Some w" "in_range w" "sint v \<le> sint w"
    by (auto simp: raise_def)
  have "\<forall>p \<in> set qs. issuer_fine E sl p (raise E sl r q s)"
    using Cons.prems(1) raise_fine assms(4) by auto
  from Cons.IH[OF this w(1,2)] w(3) show ?case by fastforce
qed simp

lemma fold_raise_enough:
  assumes "\<forall>q \<in> set qs. issuer_fine E sl q s" and "e \<in> set qs" and "i = issuerAt (basicBuffer s) e"
    and "deficits s i = Some d" and "in_range d" and "quantumFunc E i sl = Inr q" and "in_range q"
    and "in_range need" and "sint need - sint d \<le> sint q * sint r" and "0 < sint r"
  shows "\<exists>v. deficits (fold (raise E sl r) qs s) i = Some v \<and> in_range v \<and> sint need \<le> sint v"
proof -
  obtain as bs where qs: "qs = as @ e # bs" using assms(2) by (meson split_list)
  have r0: "0 \<le> sint r" using assms(10) by simp
  let ?t = "fold (raise E sl r) as s"
  have fine: "\<forall>q \<in> set qs. issuer_fine E sl q (fold (raise E sl r) cs s)" if "set cs \<subseteq> set qs" for cs
    using that assms(1)
  proof (induction cs arbitrary: s)
    case (Cons c cs)
    then have "\<forall>q \<in> set qs. issuer_fine E sl q (raise E sl r c s)" using raise_fine r0 by auto
    then show ?case using Cons by simp
  qed simp
  have t: "\<forall>q \<in> set qs. issuer_fine E sl q ?t" by (rule fine) (auto simp: qs)
  obtain d' where d': "deficits ?t i = Some d'" "in_range d'" "sint d \<le> sint d'"
    using fold_raise_mono[of as E sl s i d r] assms qs r0 by auto
  have "\<exists>v. topUp E sl r i (deficits ?t) i = Some v \<and> sint need \<le> sint v"
    by (rule topUp_enough[where D = "deficits ?t", OF d'(1,2) assms(6-8)]) (use assms(9,10) d'(3) in auto)
  moreover have "\<exists>v. topUp E sl r i (deficits ?t) i = Some v \<and> in_range v"
    using topUp_same[of "deficits ?t" i d' E i sl r] d' assms(6,7) r0 by auto
  ultimately obtain w where w: "deficits (raise E sl r e ?t) i = Some w" "in_range w" "sint need \<le> sint w"
    using assms(3) by (auto simp: raise_def)
  have "\<forall>q \<in> set bs. issuer_fine E sl q (raise E sl r e ?t)"
    using fine[of "as @ [e]"] by (auto simp: qs)
  from fold_raise_mono[OF this w(1,2) r0] w(3) show ?thesis by (fastforce simp: qs)
qed

lemma PopFront_Front: "fst (IssuerQueue_PopFront q) = IssuerQueue_Front (Some q)"
proof (cases "inbox q = []")
  case False
  define n where "n = length (inbox q) - 1"
  have n: "n < length (inbox q)" "length (inbox q) - Suc 0 = n" using False by (simp_all add: n_def)
  have "fst (heap_Pop IssuingTime (inbox q)) = inbox q ! 0"
    using False down_loop_beyond[of n n "Swap 0 n (inbox q)" IssuingTime 0] n
    by (simp add: heap_Pop_def heap_down_def Let_def case_prod_beta nth_Swap split: if_splits)
  then show ?thesis using False by (simp add: IssuerQueue_PopFront_def IssuerQueue_Front_def case_prod_beta)
qed (simp add: IssuerQueue_PopFront_def IssuerQueue_Front_def)

lemma takeFront_paid:
  assumes "safemath_signed (math E)" and "ring (basicBuffer t) = Some e"
    and "IssuerQueue_Front (Some (queues (basicBuffer t) e)) = Some blk"
    and "deficitFromWork E (WorkScore blk) = Some need" and "in_range need"
    and "deficits t (IssuerID blk) = Some v" and "in_range v" and "sint need \<le> sint v"
  shows "\<exists>t'. takeFront E t = Some t' \<and> blockChan (basicBuffer t') = Some blk \<and> ring (basicBuffer t') = Some e \<and>
    events t' = events t \<and> activeIssuers (basicBuffer t') = activeIssuers (basicBuffer t) \<and>
    deficits t' = (deficits t)(IssuerID blk \<mapsto> v - need)"
proof -
  obtain q where q: "IssuerQueue_PopFront (queues (basicBuffer t) e) = (Some blk, q)"
    using PopFront_Front[of "queues (basicBuffer t) e"] assms(3) by (cases "IssuerQueue_PopFront (queues (basicBuffer t) e)") auto
  have sub: "sint (v - need) = sint v - sint need" by (rule sint_minus[OF assms(7,5)])
  have "SafeAdd (math E) v (- need) = checked_signed (sint v + sint (- need))"
    using assms(1) by (simp add: safemath_signed_def)
  also have "\<dots> = Some (v - need)"
    using sub assms(5) by (simp add: checked_signed_eq_Some sint_uminus)
  finally have add: "SafeAdd (math E) v (- need) = Some (v - need)" .
  have "v - need = maxDeficit" if "sint maxDeficit \<le> sint (v - need)"
  proof -
    have "sint (v - need) = sint maxDeficit" using that sub assms(5,7) by (simp add: in_range_def)
    then show ?thesis by (simp only: signed_word_eqI)
  qed
  then have "computeDeficit E (IssuerID blk) (- need) (Some v) = (v - need, None)"
    using add sub assms(8) by (auto simp: computeDeficit_def)
  then show ?thesis
    using assms(2,4,6) q
    by (auto simp: takeFront_def BufferQueue_PopFront_def Current_def Let_def updateDeficit_def setQueue_def)
qed

lemma serveIssuer_fine:
  assumes "env_fine E" and ring: "ring_of (basicBuffer s) (x # xs)" and fine: "\<forall>q \<in> set (x # xs). issuer_fine E sl q s"
    and e: "e \<in> set (x # xs)" and due: "dueFront E s e = Some blk" and r: "r = rounds_of E sl s e blk"
  shows "\<exists>s'. serveIssuer E sl x r e s = Some s' \<and> blockChan (basicBuffer s') = Some blk \<and>
    ring (basicBuffer s') = Some e \<and> events s' = events s \<and> activeIssuers (basicBuffer s') = activeIssuers (basicBuffer s)"
proof -
  obtain need d quantum where f: "deficitFromWork E (WorkScore blk) = Some need" "in_range need"
    "deficits s (IssuerID blk) = Some d" "in_range d" "IssuerID blk = issuerAt (basicBuffer s) e"
    "quantumFunc E (IssuerID blk) sl = Inr quantum" "in_range quantum"
    "0 < sint r \<longleftrightarrow> sint d < sint need" "0 < sint r \<longrightarrow> sint need - sint d \<le> sint quantum * sint r"
    using rounds_of_fine[OF assms(1) _ due, of sl] fine e r by blast
  define t where "t = (if 0 < sint r then fold (raise E sl r) (x # xs) s else s)"
  have t: "basicBuffer t = basicBuffer s" "events t = events s" by (simp_all add: t_def del: fold.simps)
  have fine_t: "\<forall>q \<in> set (x # xs). issuer_fine E sl q t"
  proof (cases "0 < sint r")
    case True
    have "\<forall>q \<in> set ps. issuer_fine E sl q (fold (raise E sl r) qs u)"
      if "set qs \<subseteq> set ps" "\<forall>q \<in> set ps. issuer_fine E sl q u" for qs ps u
      using that by (induction qs arbitrary: u) (use raise_fine True in auto)
    from this[of "x # xs" "x # xs" s] fine True show ?thesis by (simp add: t_def)
  qed (use fine in \<open>simp add: t_def\<close>)
  have rounds: "(if 0 < sint r then roundsLoop E sl r x x s else Some (True, s)) = Some (True, t)"
    using roundsLoop_fine[OF assms(1) ring fine] by (simp add: t_def)
  have "\<exists>v. deficits t (IssuerID blk) = Some v \<and> in_range v \<and> sint need \<le> sint v"
  proof (cases "0 < sint r")
    case True
    then show ?thesis
      using fold_raise_enough[OF fine e f(5,3,4,6,7,2)] f(9) by (simp add: t_def)
  qed (use f in \<open>auto simp: t_def\<close>)
  then obtain v where v: "deficits t (IssuerID blk) = Some v" "in_range v" "sint need \<le> sint v" by blast
  obtain ys zs where ys: "x # xs = ys @ e # zs" using e by (meson split_list)
  let ?u = "moveTo e (fold (raise E sl 1) ys t)"
  have before: "beforeLoop E sl e (Some x) t = Some (True, ?u)"
    using beforeLoop_fine[OF assms(1), of t ys e zs sl] ring fine_t ring_of_hd[OF ring] by (simp add: t ys)
  obtain w where w: "deficits ?u (IssuerID blk) = Some w" "in_range w" "sint v \<le> sint w"
    using fold_raise_mono[of ys E sl t, OF _ v(1,2), of 1] fine_t ys by auto
  have "IssuerQueue_Front (Some (queues (basicBuffer ?u) e)) = Some blk"
    using due by (simp add: t dueFront_def split: option.splits if_splits)
  moreover have "ring (basicBuffer ?u) = Some e" by (simp add: moveTo_def)
  ultimately obtain s' where "takeFront E ?u = Some s'" "blockChan (basicBuffer s') = Some blk"
    "ring (basicBuffer s') = Some e" "events s' = events ?u" "activeIssuers (basicBuffer s') = activeIssuers (basicBuffer ?u)"
    using takeFront_paid[of E ?u e blk need w] f w v(3) assms(1) by (auto simp: env_fine_def)
  then show ?thesis using rounds before by (simp add: serveIssuer_def t moveTo_def)
qed

section \<open>Properties\<close>

text \<open>C11: When every issuer in the ring has a deficit in range, a positive quantum and, if it has a ready
  block at the front, one within the maximal work that is not to be skipped, the selection of a
  basic block returns. No issuer is removed and no event is announced. If no ready block was issued before now nothing changes;
  otherwise the front block of some issuer is handed over for scheduling, and that issuer becomes the
  current one: the rounds computed for it suffice to pay for the block.\<close>

theorem selection_serves_due_block:
  assumes "env_fine E" and "ring_of (basicBuffer s) (x # xs)"
    and "\<forall>q \<in> set (x # xs). issuer_fine E (latestCommittedSlot E) q s" and "blockChan (basicBuffer s) = None"
  shows "\<exists>s'. selectBasicBlockWithoutLocking E s = Some s' \<and> events s' = events s \<and>
    activeIssuers (basicBuffer s') = activeIssuers (basicBuffer s) \<and>
    (case blockChan (basicBuffer s') of
       None \<Rightarrow> s' = s \<and> (\<forall>q \<in> set (x # xs). dueFront E s q = None)
     | Some blk \<Rightarrow> \<exists>q \<in> set (x # xs). dueFront E s q = Some blk \<and> ring (basicBuffer s') = Some q)"
proof -
  let ?sl = "latestCommittedSlot E"
  obtain r sel where best: "fold (better E ?sl s) (x # xs) (9223372036854775807, None) = (r, sel)" by fastforce
  note sel = fold_better[OF assms(1,3) best]
  have select: "selectIssuer E x ?sl s = Some ((r, sel), s)"
    using issuerLoop_fine[OF assms(1,2,3)] best by (simp add: selectIssuer_def)
  have cur: "Current (basicBuffer s) = Some x" using ring_of_hd[OF assms(2)] by (simp add: Current_def)
  show ?thesis
  proof (cases sel)
    case None
    then show ?thesis using sel select cur assms(4) by (simp add: selectBasicBlockWithoutLocking_def)
  next
    case (Some e)
    then obtain blk where blk: "e \<in> set (x # xs)" "dueFront E s e = Some blk" "r = rounds_of E ?sl s e blk" using sel by auto
    from serveIssuer_fine[OF assms(1-3) this] obtain s' where
      "serveIssuer E ?sl x r e s = Some s'" "blockChan (basicBuffer s') = Some blk" "ring (basicBuffer s') = Some e"
      "events s' = events s" "activeIssuers (basicBuffer s') = activeIssuers (basicBuffer s)" by blast
    then show ?thesis using blk select cur assms(4) Some by (auto simp: selectBasicBlockWithoutLocking_def)
  qed
qed

definition exampleEnv :: env where
  "exampleEnv = \<lparr>quantumFunc = \<lambda>_ _. Inr 7, latestCommittedSlot = 4,
     MaxBufferSize = 100, MaxValidationBufferSize = 100, MaxBlockWork = 10, SlotDurationSeconds = 10,
     MaxCommittableAge = 20, Now = 100, cacheBlock = Map.empty, Children = \<lambda>_. [], IsAccepted = \<lambda>_. False,
     math = safemath_s\<rparr>"

definition exampleScheduler :: Scheduler where
  "exampleScheduler = \<lparr>basicBuffer = (setQueue 0 exampleQueue exampleBuffer)\<lparr>buffered := 2\<rparr>,
     validatorBuffer = NewValidatorBuffer, deficits = [1 \<mapsto> 0, 2 \<mapsto> 0], flags = noFlags, events = []\<rparr>"

lemma exampleScheduler_inv: "buf_inv {exampleBlock 1 10, exampleBlock 2 20} [0, 1] (basicBuffer exampleScheduler)"
proof -
  have ok: "iq_ok {exampleBlock 1 10, exampleBlock 2 20} exampleQueue"
    by (simp add: iq_ok_def iq_content_def exampleQueue_def exampleBlock_def heap_ordered_def)
  show ?thesis
    by (rule buf_inv_update[OF exampleBuffer_inv _ ok, of 0 _ 2])
      (simp_all add: exampleScheduler_def exampleQueue_def issuerAt_def exampleBuffer_queues NewIssuerQueue_def
        blocksAt_def iq_content_def)
qed

lemma exampleScheduler_fine: "q \<in> {0, 1} \<Longrightarrow> issuer_fine exampleEnv 4 q exampleScheduler"
  by (auto simp: issuer_fine_def exampleEnv_def exampleScheduler_def setQueue_def issuerAt_def exampleQueue_def
      exampleBuffer_queues NewIssuerQueue_def in_range_def sint_maxDeficit IssuerQueue_Front_def exampleBlock_def)

theorem selection_serves_due_block_witness:
  "\<exists>s'. selectBasicBlockWithoutLocking exampleEnv exampleScheduler = Some s' \<and>
     blockChan (basicBuffer s') = Some (exampleBlock 1 10)"
proof -
  have inv: "ring_of (basicBuffer exampleScheduler) (0 # [1])" using exampleScheduler_inv by (simp add: buf_inv_def)
  have due: "dueFront exampleEnv exampleScheduler 0 = Some (exampleBlock 1 10)" "dueFront exampleEnv exampleScheduler 1 = None"
    by (simp_all add: dueFront_def exampleScheduler_def exampleEnv_def setQueue_def exampleQueue_def
        IssuerQueue_Front_def exampleBuffer_queues NewIssuerQueue_def exampleBlock_def)
  have "\<exists>s'. selectBasicBlockWithoutLocking exampleEnv exampleScheduler = Some s' \<and> events s' = events exampleScheduler \<and>
    activeIssuers (basicBuffer s') = activeIssuers (basicBuffer exampleScheduler) \<and>
    (case blockChan (basicBuffer s') of
       None \<Rightarrow> s' = exampleScheduler \<and> (\<forall>q \<in> set (0 # [1]). dueFront exampleEnv exampleScheduler q = None)
     | Some blk \<Rightarrow> \<exists>q \<in> set (0 # [1]). dueFront exampleEnv exampleScheduler q = Some blk \<and> ring (basicBuffer s') = Some q)"
    by (rule selection_serves_due_block[OF _ inv])
      (use exampleScheduler_fine in \<open>auto simp: env_fine_def exampleEnv_def exampleScheduler_def setQueue_def
        exampleBuffer_def CreateIssuerQueue_def ringInsert_def NewBufferQueue_def Let_def case_prod_beta\<close>)
  then show ?thesis using due by (auto split: option.splits)
qed

text \<open>C12: Removing the current issuer of a well-formed buffer announces each of its blocks as dropped and
  deletes its deficit, but the buffer's counter afterwards exceeds the number of buffered blocks by
  the number of ready blocks of the removed issuer: they are popped from the queue without
  counting them out, and \<open>RemoveIssuer\<close> only subtracts the blocks that are left in the queue.\<close>

theorem removeIssuer_overcounts:
  assumes "buf_inv U (x # xs) (basicBuffer s)" and "size (blocksAt (basicBuffer s) x) < 2 ^ 63"
  shows "\<exists>s'. removeIssuer (issuerAt (basicBuffer s) x) err s = Some s' \<and> ring_of (basicBuffer s') xs \<and>
    deficits s' = (deficits s)(issuerAt (basicBuffer s) x := None) \<and>
    (\<exists>bs. events s' = events s @ map (\<lambda>blk. BlockDropped blk err) bs \<and> mset bs = blocksAt (basicBuffer s) x) \<and>
    buffered (basicBuffer s') =
      int (size (allBlocks (basicBuffer s') xs)) + int (length (inbox (queues (basicBuffer s) x)))"
proof -
  from removeIssuer_current[OF assms, of err] obtain s' b where s': "removeIssuer (issuerAt (basicBuffer s) x) err s = Some s'"
    and b: "buf_inv U xs b" "basicBuffer s' = b\<lparr>buffered := buffered b + int (length (inbox (queues (basicBuffer s) x)))\<rparr>"
    and rest: "deficits s' = (deficits s)(issuerAt (basicBuffer s) x := None)"
    "\<exists>bs. events s' = events s @ map (\<lambda>blk. BlockDropped blk err) bs \<and> mset bs = blocksAt (basicBuffer s) x"
    by blast
  have "blocksAt (basicBuffer s') = blocksAt b" by (simp add: fun_eq_iff blocksAt_def b(2))
  then have "int (size (allBlocks (basicBuffer s') xs)) = buffered b"
    using b(1) by (simp add: allBlocks_size buf_inv_def)
  moreover have "ring_of (basicBuffer s') xs"
    using b ring_of_cong[of "basicBuffer s'" b xs] by (simp add: buf_inv_def)
  ultimately show ?thesis using s' b(2) rest by simp
qed

theorem removeIssuer_overcounts_witness:
  "\<exists>s'. removeIssuer 1 AccountDestroyed exampleScheduler = Some s' \<and>
     buffered (basicBuffer s') = int (size (allBlocks (basicBuffer s') [1])) + 1"
proof -
  have at: "issuerAt (basicBuffer exampleScheduler) 0 = 1" "inbox (queues (basicBuffer exampleScheduler) 0) = [exampleBlock 1 10]"
    "blocksAt (basicBuffer exampleScheduler) 0 = {#exampleBlock 2 20, exampleBlock 1 10#}"
    by (simp_all add: exampleScheduler_def setQueue_def issuerAt_def exampleQueue_def blocksAt_def iq_content_def)
  have "size (blocksAt (basicBuffer exampleScheduler) 0) < 2 ^ 63" by (simp add: at)
  from removeIssuer_overcounts[OF exampleScheduler_inv this, of AccountDestroyed] show ?thesis by (auto simp: at)
qed

text \<open>C13: If the quantum of the issuer at which the selection starts can not be retrieved while that issuer
  has a block due, and no other queue holds a ready block, \<open>selectIssuer\<close> never returns: the issuer
  is taken out of the ring, and the walk waits to meet it again.\<close>

theorem selectIssuer_hangs_without_start:
  assumes inv: "buf_inv U (x # y # ys) (basicBuffer s)" and "size (blocksAt (basicBuffer s) x) < 2 ^ 63"
    and due: "dueFront E s x = Some blk" and "MaxBlockWork E \<noteq> 0" and "deficits s (IssuerID blk) \<noteq> None"
    and "\<not> (IsAccepted E (ID blk) \<and> Now E - IssuingTime blk > skipAge E)"
    and "quantumFunc E (IssuerID blk) sl = Inl err"
    and "\<forall>e \<in> set (y # ys). inbox (queues (basicBuffer s) e) = []"
  shows "selectIssuer E x sl s = None"
proof -
  have front: "IssuerQueue_Front (Some (queues (basicBuffer s) x)) = Some blk" "IssuingTime blk < Now E"
    using due by (auto simp: dueFront_def split: option.splits if_splits)
  then have "blk \<in># blocksAt (basicBuffer s) x"
    by (auto simp: IssuerQueue_Front_def blocksAt_def iq_content_def split: if_splits)
  then have issuer: "IssuerID blk = issuerAt (basicBuffer s) x"
    using inv by (auto simp: buf_inv_def iq_ok_def blocksAt_def issuerAt_def)
  from removeIssuer_current[OF inv assms(2), of err] obtain s' b where
    s': "removeIssuer (IssuerID blk) err s = Some s'" "buf_inv U (y # ys) b"
    "basicBuffer s' = b\<lparr>buffered := buffered b + int (length (inbox (queues (basicBuffer s) x)))\<rparr>"
    "\<forall>e. e \<noteq> x \<longrightarrow> queues b e = queues (basicBuffer s) e" by (auto simp: issuer)
  have x: "x \<notin> set (y # ys)" using inv by (auto simp: buf_inv_def dest: ring_of_distinct)
  have ring: "ring_of (basicBuffer s') (y # ys)"
    using s'(2,3) ring_of_cong[of "basicBuffer s'" b] by (simp add: buf_inv_def)
  have "\<forall>e \<in> set (y # ys). inbox (queues (basicBuffer s') e) = []" using s'(3,4) x assms(8) by auto
  note stuck = issuerLoop_stuck[OF ring x this]
  have "frontLoop E sl x best s = Some ((best, True), s')" for best
    using front assms(4-7) s'(1)
    by (subst frontLoop.simps) (auto simp: considerFront_def deficitFromWork_def)
  moreover have "Current (basicBuffer s') = Some y" "y \<noteq> x" using ring_of_hd[OF ring] x by (auto simp: Current_def)
  moreover have "s'\<lparr>basicBuffer := basicBuffer s'\<rparr> = s'" by simp
  ultimately show ?thesis using stuck
    unfolding selectIssuer_def by (subst issuerLoop.simps) (simp add: Let_def)
qed

theorem selectIssuer_hangs_without_start_witness:
  "selectIssuer (exampleEnv\<lparr>quantumFunc := \<lambda>i _. Inl (QuantumUnavailable i)\<rparr>) 0 4 exampleScheduler = None"
proof (rule selectIssuer_hangs_without_start[where blk = "exampleBlock 1 10" and y = 1 and ys = "[]"])
  show "buf_inv {exampleBlock 1 10, exampleBlock 2 20} (0 # 1 # []) (basicBuffer exampleScheduler)"
    by (rule exampleScheduler_inv)
qed (simp_all add: dueFront_def exampleScheduler_def exampleEnv_def setQueue_def exampleQueue_def IssuerQueue_Front_def
    exampleBuffer_queues NewIssuerQueue_def exampleBlock_def blocksAt_def iq_content_def)

end
