(* ===== verification/UtxoCodec.thy ===== *)
theory UtxoCodec
  imports External "HOL-Library.Monad_Syntax"
begin

text \<open>
  How the UTXO ledger lays out its database
  (\<open>pkg/protocol/engine/utxoledger/output.go\<close>, \<open>spent.go\<close>, \<open>slot_diff.go\<close>,
  \<open>spent_status.go\<close>, \<open>state_tree.go\<close>, \<open>marshalutils_helper.go\<close>, \<open>database_prefixes.go\<close>): keys and
  values as bytes, and the loaders that read them back. The lengths of the identifiers, the bytes of
  a slot index, the creation slot of an output ID and the token amount of an encoded output come from
  \<open>iota.go\<close> and are fields of the record \<open>utxo_env\<close>. A loader that returns an error is \<open>None\<close>.
\<close>

section \<open>What the ledger uses of \<open>iota.go\<close>\<close>

record utxo_env =
  mu :: marshalutil
  OutputIDLength :: nat
  BlockIDLength :: nat
  TransactionIDLength :: nat
  SlotIndexLength :: nat
  SlotBytes :: "slot \<Rightarrow> bytes"
  SlotIndexFromBytes :: "bytes \<Rightarrow> slot option"
  CreationSlot :: "bytes \<Rightarrow> slot"
  TokenAmount :: "slot \<Rightarrow> bytes \<Rightarrow> base_token"
  TreeRoot :: "(bytes \<rightharpoonup> slot) \<Rightarrow> bytes"
  keysWithPrefix :: "bytes \<Rightarrow> (bytes \<rightharpoonup> bytes) \<Rightarrow> bytes list"

text \<open>Documented: a slot index has a fixed number of bytes and is read back from them.\<close>

definition slot_codec :: "utxo_env \<Rightarrow> bool" where
  "slot_codec E \<longleftrightarrow>
     (\<forall>s. length (SlotBytes E s) = SlotIndexLength E \<and> SlotIndexFromBytes E (SlotBytes E s) = Some s)"

definition utxo_env_ok :: "utxo_env \<Rightarrow> bool" where
  "utxo_env_ok E \<longleftrightarrow> marshalutil_spec (mu E) \<and> slot_codec E"

section \<open>Data\<close>

text \<open>
  The decoded output and proof of an \<open>Output\<close> are caches of the encoded ones.
\<close>

record Output =
  outputID :: bytes
  blockID :: bytes
  slotBooked :: slot
  encodedOutput :: bytes
  encodedProof :: bytes

record Spent =
  spentOutputID :: bytes
  transactionIDSpent :: bytes
  slotSpent :: slot
  spentOutput :: Output

record SlotDiff =
  Slot :: slot
  Outputs :: "Output list"
  Spents :: "Spent list"

definition NewSpent :: "Output \<Rightarrow> bytes \<Rightarrow> slot \<Rightarrow> Spent" where
  "NewSpent o' tx sl = \<lparr>spentOutputID = outputID o', transactionIDSpent = tx, slotSpent = sl, spentOutput = o'\<rparr>"

definition SlotCreated :: "utxo_env \<Rightarrow> Output \<Rightarrow> slot" where
  "SlotCreated E o' = CreationSlot E (outputID o')"

definition BaseTokenAmount :: "utxo_env \<Rightarrow> Output \<Rightarrow> base_token" where
  "BaseTokenAmount E o' = TokenAmount E (CreationSlot E (outputID o')) (encodedOutput o')"

definition CopyWithBlockIDAndSlotBooked :: "bytes \<Rightarrow> slot \<Rightarrow> Output \<Rightarrow> Output" where
  "CopyWithBlockIDAndSlotBooked blk sl o' = o'\<lparr>blockID := blk, slotBooked := sl\<rparr>"

section \<open>Parsing helpers\<close>

definition ParseOutputID :: "utxo_env \<Rightarrow> bytes \<Rightarrow> (bytes \<times> bytes) option" where
  "ParseOutputID E ms = ReadBytes (mu E) (OutputIDLength E) ms"

definition parseTransactionID :: "utxo_env \<Rightarrow> bytes \<Rightarrow> (bytes \<times> bytes) option" where
  "parseTransactionID E ms = ReadBytes (mu E) (TransactionIDLength E) ms"

definition ParseBlockID :: "utxo_env \<Rightarrow> bytes \<Rightarrow> (bytes \<times> bytes) option" where
  "ParseBlockID E ms = ReadBytes (mu E) (BlockIDLength E) ms"

definition parseSlotIndex :: "utxo_env \<Rightarrow> bytes \<Rightarrow> (slot \<times> bytes) option" where
  "parseSlotIndex E ms = do {
     (bs, ms) \<leftarrow> ReadBytes (mu E) (SlotIndexLength E) ms;
     sl \<leftarrow> SlotIndexFromBytes E bs;
     Some (sl, ms) }"

section \<open>Keys and values\<close>

definition StoreKeyPrefixLedgerSlotIndex :: u8 where "StoreKeyPrefixLedgerSlotIndex = 0"
definition StoreKeyPrefixOutput :: u8 where "StoreKeyPrefixOutput = 1"
definition StoreKeyPrefixOutputSpent :: u8 where "StoreKeyPrefixOutputSpent = 2"
definition StoreKeyPrefixOutputUnspent :: u8 where "StoreKeyPrefixOutputUnspent = 3"
definition StoreKeyPrefixSlotDiffs :: u8 where "StoreKeyPrefixSlotDiffs = 4"

definition outputStorageKeyForOutputID :: "utxo_env \<Rightarrow> bytes \<Rightarrow> bytes" where
  "outputStorageKeyForOutputID E i = WriteBytes (mu E) i (WriteUint8 (mu E) StoreKeyPrefixOutput [])"

definition spentStorageKeyForOutputID :: "utxo_env \<Rightarrow> bytes \<Rightarrow> bytes" where
  "spentStorageKeyForOutputID E i = WriteBytes (mu E) i (WriteUint8 (mu E) StoreKeyPrefixOutputSpent [])"

definition lookupKeyUnspentOutput :: "utxo_env \<Rightarrow> bytes \<Rightarrow> bytes" where
  "lookupKeyUnspentOutput E i = WriteBytes (mu E) i (WriteUint8 (mu E) StoreKeyPrefixOutputUnspent [])"

definition slotDiffKeyForIndex :: "utxo_env \<Rightarrow> slot \<Rightarrow> bytes" where
  "slotDiffKeyForIndex E sl = WriteBytes (mu E) (SlotBytes E sl) (WriteUint8 (mu E) StoreKeyPrefixSlotDiffs [])"

definition outputIDFromDatabaseKey :: "utxo_env \<Rightarrow> bytes \<Rightarrow> bytes option" where
  "outputIDFromDatabaseKey E key = do {
     (_, ms) \<leftarrow> ReadUint8 (mu E) key;
     (i, _) \<leftarrow> ParseOutputID E ms;
     Some i }"

definition Output_KVStorableKey :: "utxo_env \<Rightarrow> Output \<Rightarrow> bytes" where
  "Output_KVStorableKey E o' = outputStorageKeyForOutputID E (outputID o')"

definition Output_KVStorableValue :: "utxo_env \<Rightarrow> Output \<Rightarrow> bytes" where
  "Output_KVStorableValue E o' =
     (let ms = WriteBytes (mu E) (blockID o') [];
          ms = WriteBytes (mu E) (SlotBytes E (slotBooked o')) ms;
          ms = WriteUint32 (mu E) (word_of_nat (length (encodedOutput o'))) ms;
          ms = WriteBytes (mu E) (encodedOutput o') ms;
          ms = WriteUint32 (mu E) (word_of_nat (length (encodedProof o'))) ms
      in WriteBytes (mu E) (encodedProof o') ms)"

definition Output_kvStorableLoad :: "utxo_env \<Rightarrow> bytes \<Rightarrow> bytes \<Rightarrow> Output option" where
  "Output_kvStorableLoad E key val = do {
     (_, keyUtil) \<leftarrow> ReadUint8 (mu E) key;
     (i, _) \<leftarrow> ParseOutputID E keyUtil;
     (blk, valueUtil) \<leftarrow> ParseBlockID E val;
     (sl, valueUtil) \<leftarrow> parseSlotIndex E valueUtil;
     (outputLen, valueUtil) \<leftarrow> ReadUint32 (mu E) valueUtil;
     (out, valueUtil) \<leftarrow> ReadBytes (mu E) (unat outputLen) valueUtil;
     (proofLen, valueUtil) \<leftarrow> ReadUint32 (mu E) valueUtil;
     (prf, valueUtil) \<leftarrow> ReadBytes (mu E) (unat proofLen) valueUtil;
     Some \<lparr>outputID = i, blockID = blk, slotBooked = sl, encodedOutput = out, encodedProof = prf\<rparr> }"

definition Spent_KVStorableKey :: "utxo_env \<Rightarrow> Spent \<Rightarrow> bytes" where
  "Spent_KVStorableKey E s = spentStorageKeyForOutputID E (spentOutputID s)"

definition Spent_KVStorableValue :: "utxo_env \<Rightarrow> Spent \<Rightarrow> bytes" where
  "Spent_KVStorableValue E s =
     WriteBytes (mu E) (SlotBytes E (slotSpent s)) (WriteBytes (mu E) (transactionIDSpent s) [])"

text \<open>The loader leaves the field \<open>output\<close> to its caller: its result still waits for that output.\<close>

definition Spent_kvStorableLoad :: "utxo_env \<Rightarrow> bytes \<Rightarrow> bytes \<Rightarrow> (Output \<Rightarrow> Spent) option" where
  "Spent_kvStorableLoad E key val = do {
     (_, keyUtil) \<leftarrow> ReadUint8 (mu E) key;
     (i, _) \<leftarrow> ParseOutputID E keyUtil;
     (tx, valueUtil) \<leftarrow> parseTransactionID E val;
     (sl, valueUtil) \<leftarrow> parseSlotIndex E valueUtil;
     Some (\<lambda>out. \<lparr>spentOutputID = i, transactionIDSpent = tx, slotSpent = sl, spentOutput = out\<rparr>) }"

definition sortedOutputs :: "SlotDiff \<Rightarrow> Output list" where
  "sortedOutputs sd = sort_key outputID (Outputs sd)"

definition sortedSpents :: "SlotDiff \<Rightarrow> Spent list" where
  "sortedSpents sd = sort_key spentOutputID (Spents sd)"

definition SlotDiff_KVStorableKey :: "utxo_env \<Rightarrow> SlotDiff \<Rightarrow> bytes" where
  "SlotDiff_KVStorableKey E sd = slotDiffKeyForIndex E (Slot sd)"

definition SlotDiff_KVStorableValue :: "utxo_env \<Rightarrow> SlotDiff \<Rightarrow> bytes" where
  "SlotDiff_KVStorableValue E sd =
     (let ms = WriteUint32 (mu E) (word_of_nat (length (Outputs sd))) [];
          ms = fold (\<lambda>o'. WriteBytes (mu E) (outputID o')) (sortedOutputs sd) ms;
          ms = WriteUint32 (mu E) (word_of_nat (length (Spents sd))) ms
      in fold (\<lambda>s. WriteBytes (mu E) (outputID (spentOutput s))) (sortedSpents sd) ms)"

text \<open>The metadata of the state tree.\<close>

definition newStateMetadata :: "utxo_env \<Rightarrow> Output \<Rightarrow> slot" where
  "newStateMetadata E o' = SlotCreated E o'"

definition stateTreeMetadata_Bytes :: "utxo_env \<Rightarrow> slot \<Rightarrow> bytes" where
  "stateTreeMetadata_Bytes E t = WriteBytes (mu E) (SlotBytes E t) []"

definition stateMetadataFromBytes :: "utxo_env \<Rightarrow> bytes \<Rightarrow> slot option" where
  "stateMetadataFromBytes E b = SlotIndexFromBytes E b"

section \<open>Keys are disjoint\<close>

lemmas prefix_defs = StoreKeyPrefixLedgerSlotIndex_def StoreKeyPrefixOutput_def StoreKeyPrefixOutputSpent_def
  StoreKeyPrefixOutputUnspent_def StoreKeyPrefixSlotDiffs_def

lemma storage_keys:
  assumes "utxo_env_ok E"
  shows "outputStorageKeyForOutputID E i = 1 # i" and "spentStorageKeyForOutputID E i = 2 # i"
    and "lookupKeyUnspentOutput E i = 3 # i" and "slotDiffKeyForIndex E sl = 4 # SlotBytes E sl"
  using assms
  by (simp_all add: utxo_env_ok_def marshalutil_spec_def outputStorageKeyForOutputID_def spentStorageKeyForOutputID_def
      lookupKeyUnspentOutput_def slotDiffKeyForIndex_def prefix_defs put_le_u8)

section \<open>Round trips\<close>

definition wf_output :: "utxo_env \<Rightarrow> Output \<Rightarrow> bool" where
  "wf_output E o' \<longleftrightarrow>
     length (outputID o') = OutputIDLength E \<and> length (blockID o') = BlockIDLength E \<and>
     length (encodedOutput o') < 2 ^ 32 \<and> length (encodedProof o') < 2 ^ 32"

definition wf_spent :: "utxo_env \<Rightarrow> Spent \<Rightarrow> bool" where
  "wf_spent E s \<longleftrightarrow>
     wf_output E (spentOutput s) \<and> spentOutputID s = outputID (spentOutput s) \<and>
     length (transactionIDSpent s) = TransactionIDLength E"

lemma parseSlotIndex_append:
  "utxo_env_ok E \<Longrightarrow> parseSlotIndex E (SlotBytes E sl @ r) = Some (sl, r)"
  by (simp add: utxo_env_ok_def slot_codec_def parseSlotIndex_def marshalutil_spec_def take_bytes_append)

lemma unat_length32: "length (xs :: bytes) < 2 ^ 32 \<Longrightarrow> unat (word_of_nat (length xs) :: u32) = length xs"
  by (simp add: unat_of_nat_small)

lemma Output_value:
  "utxo_env_ok E \<Longrightarrow> Output_KVStorableValue E o' =
     blockID o' @ SlotBytes E (slotBooked o') @ put_le (word_of_nat (length (encodedOutput o')) :: u32) @ encodedOutput o' @
     put_le (word_of_nat (length (encodedProof o')) :: u32) @ encodedProof o'"
  by (simp add: utxo_env_ok_def marshalutil_spec_def Output_KVStorableValue_def)

lemma Output_load:
  assumes "utxo_env_ok E" and "wf_output E o'"
  shows "Output_kvStorableLoad E (outputStorageKeyForOutputID E (outputID o')) (Output_KVStorableValue E o') = Some o'"
  unfolding storage_keys[OF assms(1)] Output_value[OF assms(1)]
  using assms parseSlotIndex_append[OF assms(1)]
  by (simp add: utxo_env_ok_def marshalutil_spec_def Output_kvStorableLoad_def ParseOutputID_def ParseBlockID_def
      wf_output_def codec_simps unat_length32 get_put_le_width(1)[of 1, unfolded put_le_u8, simplified] take_bytes_def[of _ "outputID o'"]
      take_bytes_def[of _ "encodedProof o'"])

lemma Spent_load:
  assumes "utxo_env_ok E" and "wf_spent E s"
  shows "\<exists>f. Spent_kvStorableLoad E (spentStorageKeyForOutputID E (spentOutputID s)) (Spent_KVStorableValue E s) = Some f \<and>
    f (spentOutput s) = s"
proof -
  have "Spent_KVStorableValue E s = transactionIDSpent s @ SlotBytes E (slotSpent s) @ []"
    using assms(1) by (simp add: Spent_KVStorableValue_def utxo_env_ok_def marshalutil_spec_def)
  then show ?thesis
    unfolding storage_keys[OF assms(1)]
    using assms parseSlotIndex_append[OF assms(1), of "slotSpent s" "[]"]
    by (simp add: utxo_env_ok_def marshalutil_spec_def Spent_kvStorableLoad_def ParseOutputID_def parseTransactionID_def
        wf_spent_def wf_output_def codec_simps get_put_le_width(1)[of 2, unfolded put_le_u8, simplified]
        take_bytes_def[of _ "outputID (spentOutput s)"])
qed

end
