(* ===== verification/UtxoLedger.thy ===== *)
theory UtxoLedger
  imports UtxoCodec
begin

text \<open>
  The UTXO ledger (\<open>pkg/protocol/engine/utxoledger/manager.go\<close>, \<open>slot_diff.go\<close>, \<open>spent.go\<close>,
  \<open>spent_status.go\<close>, \<open>iteration.go\<close>, \<open>state_tree.go\<close>). The key-value store is a map from
  keys to values; a batch is the list of its mutations, applied in order when it is committed. The state
  tree is the map it authenticates, its root a function of that map. Reads and writes of the store do
  not fail for reasons of their own; locks and flushing are not modelled.
\<close>

section \<open>Store, batches and state tree\<close>

datatype mutation = MSet bytes bytes | MDelete bytes

record Manager =
  store :: "bytes \<rightharpoonup> bytes"
  stateTree :: "bytes \<rightharpoonup> slot"

datatype utxo_error = KeyNotFound | ParseError | InvalidOutputLength | OutputsSumNotEqualTotalSupply

fun applyMutation :: "mutation \<Rightarrow> (bytes \<rightharpoonup> bytes) \<Rightarrow> bytes \<rightharpoonup> bytes" where
  "applyMutation (MSet k v) st = st(k \<mapsto> v)"
| "applyMutation (MDelete k) st = st(k := None)"

definition Commit :: "mutation list \<Rightarrow> (bytes \<rightharpoonup> bytes) \<Rightarrow> bytes \<rightharpoonup> bytes" where
  "Commit ms st = fold applyMutation ms st"

definition NewManager :: Manager where
  "NewManager = \<lparr>store = Map.empty, stateTree = Map.empty\<rparr>"

section \<open>Mutations of single entries\<close>

definition storeOutput :: "utxo_env \<Rightarrow> Output \<Rightarrow> mutation list \<Rightarrow> mutation list" where
  "storeOutput E o' ms = ms @ [MSet (Output_KVStorableKey E o') (Output_KVStorableValue E o')]"

definition deleteOutput :: "utxo_env \<Rightarrow> Output \<Rightarrow> mutation list \<Rightarrow> mutation list" where
  "deleteOutput E o' ms = ms @ [MDelete (Output_KVStorableKey E o')]"

definition UnspentLookupKey :: "utxo_env \<Rightarrow> Output \<Rightarrow> bytes" where
  "UnspentLookupKey E o' = lookupKeyUnspentOutput E (outputID o')"

definition markAsUnspent :: "utxo_env \<Rightarrow> Output \<Rightarrow> mutation list \<Rightarrow> mutation list" where
  "markAsUnspent E o' ms = ms @ [MSet (UnspentLookupKey E o') []]"

definition deleteOutputLookups :: "utxo_env \<Rightarrow> Output \<Rightarrow> mutation list \<Rightarrow> mutation list" where
  "deleteOutputLookups E o' ms = ms @ [MDelete (UnspentLookupKey E o')]"

definition markAsSpent :: "utxo_env \<Rightarrow> Output \<Rightarrow> mutation list \<Rightarrow> mutation list" where
  "markAsSpent E o' ms = deleteOutputLookups E o' ms"

definition storeSpent :: "utxo_env \<Rightarrow> Spent \<Rightarrow> mutation list \<Rightarrow> mutation list" where
  "storeSpent E s ms = ms @ [MSet (Spent_KVStorableKey E s) (Spent_KVStorableValue E s)]"

definition deleteSpent :: "utxo_env \<Rightarrow> Spent \<Rightarrow> mutation list \<Rightarrow> mutation list" where
  "deleteSpent E s ms = ms @ [MDelete (Spent_KVStorableKey E s)]"

definition storeSpentAndMarkOutputAsSpent :: "utxo_env \<Rightarrow> Spent \<Rightarrow> mutation list \<Rightarrow> mutation list" where
  "storeSpentAndMarkOutputAsSpent E s ms = markAsSpent E (spentOutput s) (storeSpent E s ms)"

definition deleteSpentAndMarkOutputAsUnspent :: "utxo_env \<Rightarrow> Spent \<Rightarrow> mutation list \<Rightarrow> mutation list" where
  "deleteSpentAndMarkOutputAsUnspent E s ms = markAsUnspent E (spentOutput s) (deleteSpent E s ms)"

definition storeDiff :: "utxo_env \<Rightarrow> SlotDiff \<Rightarrow> mutation list \<Rightarrow> mutation list" where
  "storeDiff E sd ms = ms @ [MSet (SlotDiff_KVStorableKey E sd) (SlotDiff_KVStorableValue E sd)]"

definition deleteDiff :: "utxo_env \<Rightarrow> slot \<Rightarrow> mutation list \<Rightarrow> mutation list" where
  "deleteDiff E sl ms = ms @ [MDelete (slotDiffKeyForIndex E sl)]"

definition storeLedgerIndex :: "utxo_env \<Rightarrow> slot \<Rightarrow> mutation list \<Rightarrow> mutation list" where
  "storeLedgerIndex E sl ms = ms @ [MSet [StoreKeyPrefixLedgerSlotIndex] (SlotBytes E sl)]"

section \<open>Reading\<close>

definition ReadLedgerIndexWithoutLocking :: "utxo_env \<Rightarrow> Manager \<Rightarrow> utxo_error + slot" where
  "ReadLedgerIndexWithoutLocking E m =
     (case store m [StoreKeyPrefixLedgerSlotIndex] of
        None \<Rightarrow> Inr 0
      | Some val \<Rightarrow> or_err ParseError (SlotIndexFromBytes E val))"

definition StoreLedgerIndexWithoutLocking :: "utxo_env \<Rightarrow> slot \<Rightarrow> Manager \<Rightarrow> Manager" where
  "StoreLedgerIndexWithoutLocking E sl m = m\<lparr>store := (store m)([StoreKeyPrefixLedgerSlotIndex] \<mapsto> SlotBytes E sl)\<rparr>"

definition ReadOutputByOutputIDWithoutLocking :: "utxo_env \<Rightarrow> Manager \<Rightarrow> bytes \<Rightarrow> utxo_error + Output" where
  "ReadOutputByOutputIDWithoutLocking E m i =
     (let key = outputStorageKeyForOutputID E i in
      bind_res (or_err KeyNotFound (store m key)) (\<lambda>val. or_err ParseError (Output_kvStorableLoad E key val)))"

definition ReadRawOutputBytesByOutputIDWithoutLocking :: "utxo_env \<Rightarrow> Manager \<Rightarrow> bytes \<Rightarrow> utxo_error + bytes" where
  "ReadRawOutputBytesByOutputIDWithoutLocking E m i =
     bind_res (or_err KeyNotFound (store m (outputStorageKeyForOutputID E i))) (\<lambda>val.
       let offset = BlockIDLength E + 8 + 8 in
       if length val \<le> offset then Inl InvalidOutputLength else Inr (drop offset val))"

definition ReadSpentForOutputIDWithoutLocking :: "utxo_env \<Rightarrow> Manager \<Rightarrow> bytes \<Rightarrow> utxo_error + Spent" where
  "ReadSpentForOutputIDWithoutLocking E m i =
     bind_res (ReadOutputByOutputIDWithoutLocking E m i) (\<lambda>out.
       let key = spentStorageKeyForOutputID E i in
       bind_res (or_err KeyNotFound (store m key)) (\<lambda>val.
       bind_res (or_err ParseError (Spent_kvStorableLoad E key val)) (\<lambda>sp. Inr (sp out))))"

text \<open>The output ID of a loaded spent does not depend on its output; \<open>noOutput\<close> is the nil pointer.\<close>

definition noOutput :: Output where
  "noOutput = \<lparr>outputID = [], blockID = [], slotBooked = 0, encodedOutput = [], encodedProof = []\<rparr>"

definition loadOutputOfSpent :: "utxo_env \<Rightarrow> Manager \<Rightarrow> (Output \<Rightarrow> Spent) \<Rightarrow> utxo_error + Spent" where
  "loadOutputOfSpent E m sp =
     bind_res (ReadOutputByOutputIDWithoutLocking E m (spentOutputID (sp noOutput))) (\<lambda>out. Inr (sp out))"

definition IsOutputIDUnspentWithoutLocking :: "utxo_env \<Rightarrow> Manager \<Rightarrow> bytes \<Rightarrow> bool" where
  "IsOutputIDUnspentWithoutLocking E m i \<longleftrightarrow> store m (lookupKeyUnspentOutput E i) \<noteq> None"

text \<open>The two loops of \<open>SlotDiff.kvStorableLoad\<close>: read an output ID and load what it names.\<close>

fun loadEach :: "utxo_env \<Rightarrow> (bytes \<Rightarrow> utxo_error + 'a) \<Rightarrow> nat \<Rightarrow> bytes \<Rightarrow> utxo_error + ('a list \<times> bytes)" where
  "loadEach E get 0 ms = Inr ([], ms)"
| "loadEach E get (Suc n) ms =
     bind_res (or_err ParseError (ParseOutputID E ms)) (\<lambda>(i, ms).
     bind_res (get i) (\<lambda>x.
     bind_res (loadEach E get n ms) (\<lambda>(xs, ms). Inr (x # xs, ms))))"

definition SlotDiff_kvStorableLoad :: "utxo_env \<Rightarrow> Manager \<Rightarrow> bytes \<Rightarrow> bytes \<Rightarrow> utxo_error + SlotDiff" where
  "SlotDiff_kvStorableLoad E m key val =
     bind_res (or_err ParseError (SlotIndexFromBytes E (drop 1 key))) (\<lambda>sl.
     bind_res (or_err ParseError (ReadUint32 (mu E) val)) (\<lambda>(outputCount, ms).
     bind_res (loadEach E (ReadOutputByOutputIDWithoutLocking E m) (unat outputCount) ms) (\<lambda>(outs, ms).
     bind_res (or_err ParseError (ReadUint32 (mu E) ms)) (\<lambda>(spentCount, ms).
     bind_res (loadEach E (ReadSpentForOutputIDWithoutLocking E m) (unat spentCount) ms) (\<lambda>(sps, ms).
       Inr \<lparr>Slot = sl, Outputs = outs, Spents = sps\<rparr>)))))"

definition SlotDiffWithoutLocking :: "utxo_env \<Rightarrow> slot \<Rightarrow> Manager \<Rightarrow> utxo_error + SlotDiff" where
  "SlotDiffWithoutLocking E sl m =
     (let key = slotDiffKeyForIndex E sl in
      bind_res (or_err KeyNotFound (store m key)) (SlotDiff_kvStorableLoad E m key))"

section \<open>Applying and rolling back a slot\<close>

definition applyMutations :: "utxo_env \<Rightarrow> slot \<Rightarrow> Output list \<Rightarrow> Spent list \<Rightarrow> mutation list" where
  "applyMutations E sl newOutputs newSpents =
     (let ms = fold (\<lambda>o' ms. markAsUnspent E o' (storeOutput E o' ms)) newOutputs [];
          ms = fold (storeSpentAndMarkOutputAsSpent E) newSpents ms;
          ms = storeDiff E \<lparr>Slot = sl, Outputs = newOutputs, Spents = newSpents\<rparr> ms
      in storeLedgerIndex E sl ms)"

definition ApplyDiffWithoutLocking :: "utxo_env \<Rightarrow> slot \<Rightarrow> Output list \<Rightarrow> Spent list \<Rightarrow> Manager \<Rightarrow> Manager" where
  "ApplyDiffWithoutLocking E sl newOutputs newSpents m =
     (let m = m\<lparr>store := Commit (applyMutations E sl newOutputs newSpents) (store m)\<rparr>;
          t = fold (\<lambda>o' t. t(outputID o' \<mapsto> newStateMetadata E o')) newOutputs (stateTree m);
          t = fold (\<lambda>s t. t(spentOutputID s := None)) newSpents t
      in m\<lparr>stateTree := t\<rparr>)"

definition rollbackMutations :: "utxo_env \<Rightarrow> slot \<Rightarrow> Output list \<Rightarrow> Spent list \<Rightarrow> mutation list" where
  "rollbackMutations E sl newOutputs newSpents =
     (let ms = fold (\<lambda>s ms. deleteSpentAndMarkOutputAsUnspent E s (storeOutput E (spentOutput s) ms)) newSpents [];
          ms = fold (\<lambda>o' ms. deleteOutputLookups E o' (deleteOutput E o' ms)) newOutputs ms;
          ms = deleteDiff E sl ms
      in storeLedgerIndex E (sl - 1) ms)"

definition RollbackDiffWithoutLocking :: "utxo_env \<Rightarrow> slot \<Rightarrow> Output list \<Rightarrow> Spent list \<Rightarrow> Manager \<Rightarrow> Manager" where
  "RollbackDiffWithoutLocking E sl newOutputs newSpents m =
     (let m = m\<lparr>store := Commit (rollbackMutations E sl newOutputs newSpents) (store m)\<rparr>;
          t = fold (\<lambda>s t. t(spentOutputID s \<mapsto> newStateMetadata E (spentOutput s))) newSpents (stateTree m);
          t = fold (\<lambda>o' t. t(outputID o' := None)) newOutputs t
      in m\<lparr>stateTree := t\<rparr>)"

definition PruneSlotIndexWithoutLocking :: "utxo_env \<Rightarrow> slot \<Rightarrow> Manager \<Rightarrow> utxo_error + Manager" where
  "PruneSlotIndexWithoutLocking E sl m =
     (case SlotDiffWithoutLocking E sl m of
        Inl err \<Rightarrow> if err = KeyNotFound then Inr m else Inl err
      | Inr diff \<Rightarrow>
          let ms = fold (\<lambda>s ms. deleteSpent E s (deleteOutput E (spentOutput s) ms)) (Spents diff) [];
              ms = deleteDiff E sl ms
          in Inr (m\<lparr>store := Commit ms (store m)\<rparr>))"

definition importUnspentOutputWithoutLocking :: "utxo_env \<Rightarrow> Output \<Rightarrow> Manager \<Rightarrow> Manager" where
  "importUnspentOutputWithoutLocking E o' m =
     (let m = m\<lparr>store := Commit (markAsUnspent E o' (storeOutput E o' [])) (store m)\<rparr>
      in m\<lparr>stateTree := (stateTree m)(outputID o' \<mapsto> newStateMetadata E o')\<rparr>)"

definition AddGenesisUnspentOutputWithoutLocking :: "utxo_env \<Rightarrow> Output \<Rightarrow> Manager \<Rightarrow> Manager" where
  "AddGenesisUnspentOutputWithoutLocking E o' m = importUnspentOutputWithoutLocking E o' m"

section \<open>Iteration\<close>

text \<open>
  \<open>store.Iterate\<close> with a consumer that may stop, and with the option \<open>maxResultCount\<close> (0 is no
  limit). The consumer returns its state and whether to go on; an error ends the iteration.
\<close>

fun iterate_up_to :: "nat \<Rightarrow> nat \<Rightarrow> ('k \<Rightarrow> 's \<Rightarrow> 'e + ('s \<times> bool)) \<Rightarrow> 'k list \<Rightarrow> 's \<Rightarrow> 'e + 's" where
  "iterate_up_to maxResultCount i f [] s = Inr s"
| "iterate_up_to maxResultCount i f (k # ks) s =
     (if 0 < maxResultCount \<and> maxResultCount \<le> i then Inr s
      else bind_res (f k s) (\<lambda>(s, go). if go then iterate_up_to maxResultCount (i + 1) f ks s else Inr s))"

definition ForEachUnspentOutputID ::
  "utxo_env \<Rightarrow> nat \<Rightarrow> (bytes \<Rightarrow> 's \<Rightarrow> utxo_error + ('s \<times> bool)) \<Rightarrow> Manager \<Rightarrow> 's \<Rightarrow> utxo_error + 's" where
  "ForEachUnspentOutputID E maxResultCount consumer m s =
     iterate_up_to maxResultCount 0
       (\<lambda>key s. bind_res (or_err ParseError (outputIDFromDatabaseKey E key)) (\<lambda>i. consumer i s))
       (keysWithPrefix E [StoreKeyPrefixOutputUnspent] (store m)) s"

definition ForEachUnspentOutput ::
  "utxo_env \<Rightarrow> nat \<Rightarrow> (Output \<Rightarrow> 's \<Rightarrow> 's \<times> bool) \<Rightarrow> Manager \<Rightarrow> 's \<Rightarrow> utxo_error + 's" where
  "ForEachUnspentOutput E maxResultCount consumer m s =
     ForEachUnspentOutputID E maxResultCount
       (\<lambda>i s. bind_res (ReadOutputByOutputIDWithoutLocking E m i) (\<lambda>o'. Inr (consumer o' s))) m s"

definition UnspentOutputsIDs :: "utxo_env \<Rightarrow> Manager \<Rightarrow> utxo_error + bytes list" where
  "UnspentOutputsIDs E m = ForEachUnspentOutputID E 0 (\<lambda>i ids. Inr (ids @ [i], True)) m []"

definition UnspentOutputs :: "utxo_env \<Rightarrow> Manager \<Rightarrow> utxo_error + Output list" where
  "UnspentOutputs E m = ForEachUnspentOutput E 0 (\<lambda>o' os. (os @ [o'], True)) m []"

definition ComputeLedgerBalance :: "utxo_env \<Rightarrow> Manager \<Rightarrow> utxo_error + (base_token \<times> nat)" where
  "ComputeLedgerBalance E m =
     ForEachUnspentOutput E 0 (\<lambda>o' (balance, count). ((balance + BaseTokenAmount E o', count + 1), True)) m (0, 0)"

definition CheckLedgerState :: "utxo_env \<Rightarrow> base_token \<Rightarrow> Manager \<Rightarrow> utxo_error + unit" where
  "CheckLedgerState E tokenSupply m =
     bind_res (ComputeLedgerBalance E m) (\<lambda>(total, _).
       if total \<noteq> tokenSupply then Inl OutputsSumNotEqualTotalSupply else Inr ())"

definition ForEachOutput ::
  "utxo_env \<Rightarrow> nat \<Rightarrow> (Output \<Rightarrow> 's \<Rightarrow> 's \<times> bool) \<Rightarrow> Manager \<Rightarrow> 's \<Rightarrow> utxo_error + 's" where
  "ForEachOutput E maxResultCount consumer m s =
     iterate_up_to maxResultCount 0
       (\<lambda>key s. bind_res (or_err ParseError (Output_kvStorableLoad E key (the (store m key)))) (\<lambda>o'. Inr (consumer o' s)))
       (keysWithPrefix E [StoreKeyPrefixOutput] (store m)) s"

definition ForEachSpentOutput ::
  "utxo_env \<Rightarrow> nat \<Rightarrow> (Spent \<Rightarrow> 's \<Rightarrow> 's \<times> bool) \<Rightarrow> Manager \<Rightarrow> 's \<Rightarrow> utxo_error + 's" where
  "ForEachSpentOutput E maxResultCount consumer m s =
     iterate_up_to maxResultCount 0
       (\<lambda>key s.
          bind_res (or_err ParseError (Spent_kvStorableLoad E key (the (store m key)))) (\<lambda>sp.
          bind_res (loadOutputOfSpent E m sp) (\<lambda>sp. Inr (consumer sp s))))
       (keysWithPrefix E [StoreKeyPrefixOutputSpent] (store m)) s"

definition SpentOutputs :: "utxo_env \<Rightarrow> Manager \<Rightarrow> utxo_error + Spent list" where
  "SpentOutputs E m = ForEachSpentOutput E 0 (\<lambda>sp sps. (sps @ [sp], True)) m []"

definition StateTreeRoot :: "utxo_env \<Rightarrow> Manager \<Rightarrow> bytes" where
  "StateTreeRoot E m = TreeRoot E (stateTree m)"

definition CheckStateTree :: "utxo_env \<Rightarrow> Manager \<Rightarrow> bool" where
  "CheckStateTree E m =
     (case ForEachUnspentOutput E 0 (\<lambda>o' t. (t(outputID o' \<mapsto> newStateMetadata E o'), True)) m Map.empty of
        Inl _ \<Rightarrow> False
      | Inr comparisonTree \<Rightarrow> TreeRoot E comparisonTree = StateTreeRoot E m)"

section \<open>What a committed batch does\<close>

fun mkey :: "mutation \<Rightarrow> bytes" where
  "mkey (MSet k v) = k"
| "mkey (MDelete k) = k"

fun mval :: "mutation \<Rightarrow> bytes option" where
  "mval (MSet k v) = Some v"
| "mval (MDelete k) = None"

lemma Commit_untouched: "\<forall>x \<in> set ms. mkey x \<noteq> k \<Longrightarrow> Commit ms st k = st k"
proof -
  have "applyMutation x st k = st k" if "mkey x \<noteq> k" for x st using that by (cases x) auto
  then show "\<forall>x \<in> set ms. mkey x \<noteq> k \<Longrightarrow> ?thesis"
    unfolding Commit_def by (induction ms arbitrary: st) auto
qed

lemma Commit_agree:
  assumes "w \<in> set ms" and "mkey w = k" and "\<forall>x \<in> set ms. mkey x = k \<longrightarrow> mval x = v"
  shows "Commit ms st k = v"
  using assms
proof (induction ms rule: rev_induct)
  case (snoc x ms)
  show ?case
  proof (cases "mkey x = k")
    case True
    then show ?thesis using snoc.prems(3) by (cases x) (auto simp: Commit_def)
  next
    case False
    then have "Commit (ms @ [x]) st k = Commit ms st k" by (cases x) (auto simp: Commit_def)
    then show ?thesis using snoc False by auto
  qed
qed simp

lemma set_fold_append:
  assumes "\<And>x ms. f x ms = ms @ g x"
  shows "set (fold f xs ms) = set ms \<union> (\<Union>x \<in> set xs. set (g x))"
  by (induction xs arbitrary: ms) (auto simp: assms)

lemmas entry_defs = storeOutput_def deleteOutput_def markAsUnspent_def deleteOutputLookups_def markAsSpent_def
  storeSpent_def deleteSpent_def storeSpentAndMarkOutputAsSpent_def deleteSpentAndMarkOutputAsUnspent_def
  storeDiff_def deleteDiff_def storeLedgerIndex_def UnspentLookupKey_def Output_KVStorableKey_def Spent_KVStorableKey_def
  SlotDiff_KVStorableKey_def

lemma set_applyMutations:
  assumes "utxo_env_ok E"
  shows "set (applyMutations E sl outs sps) =
    (\<Union>o' \<in> set outs. {MSet (1 # outputID o') (Output_KVStorableValue E o'), MSet (3 # outputID o') []}) \<union>
    (\<Union>s \<in> set sps. {MSet (2 # spentOutputID s) (Spent_KVStorableValue E s), MDelete (3 # outputID (spentOutput s))}) \<union>
    {MSet (4 # SlotBytes E sl) (SlotDiff_KVStorableValue E \<lparr>Slot = sl, Outputs = outs, Spents = sps\<rparr>),
     MSet [0] (SlotBytes E sl)}"
proof -
  have 1: "markAsUnspent E o' (storeOutput E o' ms) = ms @ [MSet (1 # outputID o') (Output_KVStorableValue E o'), MSet (3 # outputID o') []]"
    and 2: "storeSpentAndMarkOutputAsSpent E s ms =
      ms @ [MSet (2 # spentOutputID s) (Spent_KVStorableValue E s), MDelete (3 # outputID (spentOutput s))]" for o' s ms
    by (simp_all add: entry_defs storage_keys[OF assms])
  show ?thesis
    unfolding applyMutations_def Let_def storeLedgerIndex_def storeDiff_def
    by (simp add: set_fold_append[OF 1] set_fold_append[OF 2] SlotDiff_KVStorableKey_def storage_keys[OF assms]
        StoreKeyPrefixLedgerSlotIndex_def)
qed

lemma set_rollbackMutations:
  assumes "utxo_env_ok E"
  shows "set (rollbackMutations E sl outs sps) =
    (\<Union>s \<in> set sps. {MSet (1 # outputID (spentOutput s)) (Output_KVStorableValue E (spentOutput s)),
       MDelete (2 # spentOutputID s), MSet (3 # outputID (spentOutput s)) []}) \<union>
    (\<Union>o' \<in> set outs. {MDelete (1 # outputID o'), MDelete (3 # outputID o')}) \<union>
    {MDelete (4 # SlotBytes E sl), MSet [0] (SlotBytes E (sl - 1))}"
proof -
  have 1: "deleteSpentAndMarkOutputAsUnspent E s (storeOutput E (spentOutput s) ms) =
      ms @ [MSet (1 # outputID (spentOutput s)) (Output_KVStorableValue E (spentOutput s)),
        MDelete (2 # spentOutputID s), MSet (3 # outputID (spentOutput s)) []]"
    and 2: "deleteOutputLookups E o' (deleteOutput E o' ms) = ms @ [MDelete (1 # outputID o'), MDelete (3 # outputID o')]" for o' s ms
    by (simp_all add: entry_defs storage_keys[OF assms])
  show ?thesis
    unfolding rollbackMutations_def Let_def storeLedgerIndex_def deleteDiff_def
    by (simp add: set_fold_append[OF 1] set_fold_append[OF 2] storage_keys[OF assms]
        StoreKeyPrefixLedgerSlotIndex_def)
qed

section \<open>The invariant of the ledger\<close>

text \<open>
  Every unspent output is stored and has no spent entry, and the state tree holds exactly the
  unspent outputs with their creation slots.
\<close>

definition ledger_ok :: "utxo_env \<Rightarrow> Manager \<Rightarrow> bool" where
  "ledger_ok E m \<longleftrightarrow>
     (\<forall>i. store m (3 # i) \<noteq> None \<longrightarrow>
        store m (3 # i) = Some [] \<and> store m (2 # i) = None \<and>
        (\<exists>o'. wf_output E o' \<and> outputID o' = i \<and> store m (1 # i) = Some (Output_KVStorableValue E o'))) \<and>
     (\<forall>i. stateTree m i = (if store m (3 # i) = None then None else Some (CreationSlot E i)))"

text \<open>A diff that fits the ledger: it creates new outputs and spends stored, unspent ones.\<close>

definition diff_fits :: "utxo_env \<Rightarrow> Manager \<Rightarrow> Output list \<Rightarrow> Spent list \<Rightarrow> bool" where
  "diff_fits E m outs sps \<longleftrightarrow>
     inj_on outputID (set outs) \<and> inj_on spentOutputID (set sps) \<and>
     (\<forall>o' \<in> set outs. wf_output E o' \<and>
        store m (1 # outputID o') = None \<and> store m (2 # outputID o') = None \<and> store m (3 # outputID o') = None) \<and>
     (\<forall>s \<in> set sps. wf_spent E s \<and> store m (3 # spentOutputID s) \<noteq> None \<and>
        store m (1 # spentOutputID s) = Some (Output_KVStorableValue E (spentOutput s)))"

lemma diff_fits_disjoint: "diff_fits E m outs sps \<Longrightarrow> o' \<in> set outs \<Longrightarrow> s \<in> set sps \<Longrightarrow> outputID o' \<noteq> spentOutputID s"
  by (auto simp: diff_fits_def)

lemma diff_fits_ids:
  "diff_fits E m outs sps \<Longrightarrow> s \<in> set sps \<Longrightarrow> outputID (spentOutput s) = spentOutputID s"
  by (auto simp: diff_fits_def wf_spent_def)

lemma store_Apply: "store (ApplyDiffWithoutLocking E sl outs sps m) = Commit (applyMutations E sl outs sps) (store m)"
  by (simp add: ApplyDiffWithoutLocking_def Let_def)

lemma store_Rollback: "store (RollbackDiffWithoutLocking E sl outs sps m) = Commit (rollbackMutations E sl outs sps) (store m)"
  by (simp add: RollbackDiffWithoutLocking_def Let_def)

lemma Apply_lookup:
  fixes sl :: slot
  assumes E: "utxo_env_ok E" and fits: "diff_fits E m outs sps"
  defines "m' \<equiv> ApplyDiffWithoutLocking E sl outs sps m"
  shows "o' \<in> set outs \<Longrightarrow> store m' (1 # outputID o') = Some (Output_KVStorableValue E o')"
    and "i \<notin> outputID ` set outs \<Longrightarrow> store m' (1 # i) = store m (1 # i)"
    and "s \<in> set sps \<Longrightarrow> store m' (2 # spentOutputID s) = Some (Spent_KVStorableValue E s)"
    and "i \<notin> spentOutputID ` set sps \<Longrightarrow> store m' (2 # i) = store m (2 # i)"
    and "o' \<in> set outs \<Longrightarrow> store m' (3 # outputID o') = Some []"
    and "s \<in> set sps \<Longrightarrow> store m' (3 # spentOutputID s) = None"
    and "i \<notin> outputID ` set outs \<Longrightarrow> i \<notin> spentOutputID ` set sps \<Longrightarrow> store m' (3 # i) = store m (3 # i)"
    and "store m' (4 # SlotBytes E sl) =
      Some (SlotDiff_KVStorableValue E \<lparr>Slot = sl, Outputs = outs, Spents = sps\<rparr>)"
    and "bs \<noteq> SlotBytes E sl \<Longrightarrow> store m' (4 # bs) = store m (4 # bs)"
    and "store m' [0] = Some (SlotBytes E sl)"
proof -
  note S = set_applyMutations[OF E, of sl outs sps]
  have inj: "o' = p" if "o' \<in> set outs" "p \<in> set outs" "outputID o' = outputID p" for o' p
    using fits that by (auto simp: diff_fits_def inj_on_def)
  have injs: "s = t" if "s \<in> set sps" "t \<in> set sps" "spentOutputID s = spentOutputID t" for s t
    using fits that by (auto simp: diff_fits_def inj_on_def)
  note ids = diff_fits_ids[OF fits] and dis = diff_fits_disjoint[OF fits]
  show "o' \<in> set outs \<Longrightarrow> store m' (1 # outputID o') = Some (Output_KVStorableValue E o')"
    unfolding m'_def store_Apply by (rule Commit_agree[of "MSet (1 # outputID o') (Output_KVStorableValue E o')"]) (auto simp: S dest: inj)
  show "s \<in> set sps \<Longrightarrow> store m' (2 # spentOutputID s) = Some (Spent_KVStorableValue E s)"
    unfolding m'_def store_Apply by (rule Commit_agree[of "MSet (2 # spentOutputID s) (Spent_KVStorableValue E s)"]) (auto simp: S dest: injs)
  show "o' \<in> set outs \<Longrightarrow> store m' (3 # outputID o') = Some []"
    unfolding m'_def store_Apply by (rule Commit_agree[of "MSet (3 # outputID o') []"]) (auto simp: S ids dest: dis)
  show "s \<in> set sps \<Longrightarrow> store m' (3 # spentOutputID s) = None"
    unfolding m'_def store_Apply by (rule Commit_agree[of "MDelete (3 # outputID (spentOutput s))"]) (auto simp: S ids dest: dis)
  show "store m' (4 # SlotBytes E sl) = Some (SlotDiff_KVStorableValue E \<lparr>Slot = sl, Outputs = outs, Spents = sps\<rparr>)"
    unfolding m'_def store_Apply
    by (rule Commit_agree[of "MSet (4 # SlotBytes E sl) (SlotDiff_KVStorableValue E \<lparr>Slot = sl, Outputs = outs, Spents = sps\<rparr>)"])
      (auto simp: S)
  show "store m' [0] = Some (SlotBytes E sl)"
    unfolding m'_def store_Apply by (rule Commit_agree[of "MSet [0] (SlotBytes E sl)"]) (auto simp: S)
  show "i \<notin> outputID ` set outs \<Longrightarrow> store m' (1 # i) = store m (1 # i)"
    "i \<notin> spentOutputID ` set sps \<Longrightarrow> store m' (2 # i) = store m (2 # i)"
    "i \<notin> outputID ` set outs \<Longrightarrow> i \<notin> spentOutputID ` set sps \<Longrightarrow> store m' (3 # i) = store m (3 # i)"
    "bs \<noteq> SlotBytes E sl \<Longrightarrow> store m' (4 # bs) = store m (4 # bs)"
    unfolding m'_def store_Apply by (rule Commit_untouched; auto simp: S ids)+
qed

lemma tree_fold_set: "fold (\<lambda>x t. t(key x \<mapsto> g x)) xs t i = (case find (\<lambda>x. key x = i) (rev xs) of None \<Rightarrow> t i | Some x \<Rightarrow> Some (g x))"
  by (induction xs rule: rev_induct) auto

lemma tree_fold_delete: "fold (\<lambda>x t. t(key x := None)) xs t i = (if i \<in> key ` set xs then None else t i)"
  by (induction xs arbitrary: t) auto

lemma tree_fold_set_id:
  assumes "\<And>x. x \<in> set xs \<Longrightarrow> g x = h (key x)"
  shows "fold (\<lambda>x t. t(key x \<mapsto> g x)) xs t i = (if i \<in> key ` set xs then Some (h i) else t i)"
  using assms by (induction xs rule: rev_induct) auto

lemma stateTree_Apply:
  "stateTree (ApplyDiffWithoutLocking E sl outs sps m) i =
     (if i \<in> spentOutputID ` set sps then None
      else if i \<in> outputID ` set outs then Some (CreationSlot E i) else stateTree m i)"
  unfolding ApplyDiffWithoutLocking_def Let_def
  by (simp add: tree_fold_delete tree_fold_set_id[where h = "CreationSlot E"] newStateMetadata_def SlotCreated_def)

lemma ledger_ok_Apply:
  assumes E: "utxo_env_ok E" and fits: "diff_fits E m outs sps" and ok: "ledger_ok E m"
  shows "ledger_ok E (ApplyDiffWithoutLocking E sl outs sps m)" (is "ledger_ok E ?m")
proof -
  note L = Apply_lookup[OF E fits, where sl = sl]
  have out: "store ?m (3 # i) = Some [] \<and> store ?m (2 # i) = None \<and>
      (\<exists>o'. wf_output E o' \<and> outputID o' = i \<and> store ?m (1 # i) = Some (Output_KVStorableValue E o'))"
    if u: "store ?m (3 # i) \<noteq> None" for i
  proof -
    have ns: "i \<notin> spentOutputID ` set sps" using u L(6) by auto
    then have two: "store ?m (2 # i) = store m (2 # i)" by (rule L(4))
    show ?thesis
    proof (cases "i \<in> outputID ` set outs")
      case True
      then obtain o' where o': "o' \<in> set outs" "outputID o' = i" by auto
      then have "wf_output E o'" "store m (2 # i) = None" using fits by (auto simp: diff_fits_def)
      then show ?thesis using two L(1)[OF o'(1)] L(5)[OF o'(1)] o'(2) by auto
    next
      case False
      then have "store ?m (3 # i) = store m (3 # i)" "store ?m (1 # i) = store m (1 # i)" using ns L(2,7) by auto
      then show ?thesis using u two ok by (simp add: ledger_ok_def)
    qed
  qed
  have "stateTree ?m i = (if store ?m (3 # i) = None then None else Some (CreationSlot E i))" for i
  proof (cases "i \<in> spentOutputID ` set sps")
    case True
    then show ?thesis using L(6) by (auto simp: stateTree_Apply)
  next
    case False
    then show ?thesis
      using L(5) L(7)[of i] ok by (cases "i \<in> outputID ` set outs") (auto simp: stateTree_Apply ledger_ok_def)
  qed
  then show ?thesis using out unfolding ledger_ok_def by blast
qed

section \<open>Rolling back\<close>

lemma stateTree_Rollback:
  assumes E: "utxo_env_ok E" and fits: "diff_fits E m outs sps" and same: "set outs' = set outs" "set sps' = set sps"
  shows "stateTree (RollbackDiffWithoutLocking E sl outs' sps' m') i =
    (if i \<in> outputID ` set outs then None else if i \<in> spentOutputID ` set sps then Some (CreationSlot E i) else stateTree m' i)"
  unfolding RollbackDiffWithoutLocking_def Let_def
  by (simp add: tree_fold_delete tree_fold_set_id[where h = "CreationSlot E"] newStateMetadata_def SlotCreated_def
      diff_fits_ids[OF fits, folded same(2)]) (simp add: same)

lemma Rollback_restores:
  assumes E: "utxo_env_ok E" and fits: "diff_fits E m outs sps" and ok: "ledger_ok E m"
    and new: "store m (4 # SlotBytes E sl) = None" and before: "store m [0] = Some (SlotBytes E (sl - 1))"
    and same: "set outs' = set outs" "set sps' = set sps"
  shows "RollbackDiffWithoutLocking E sl outs' sps' (ApplyDiffWithoutLocking E sl outs sps m) = m"
proof -
  let ?A = "applyMutations E sl outs sps" and ?R = "rollbackMutations E sl outs' sps'"
  note A = set_applyMutations[OF E, of sl outs sps] and R = set_rollbackMutations[OF E, of sl outs' sps', unfolded same]
  note ids = diff_fits_ids[OF fits] and dis = diff_fits_disjoint[OF fits]
  have out: "store m (1 # outputID o') = None" "store m (3 # outputID o') = None" if "o' \<in> set outs" for o'
    using fits that by (auto simp: diff_fits_def)
  have sp: "store m (1 # spentOutputID s) = Some (Output_KVStorableValue E (spentOutput s))"
    "store m (3 # spentOutputID s) = Some []" "store m (2 # spentOutputID s) = None" if "s \<in> set sps" for s
    using fits ok that by (auto simp: diff_fits_def ledger_ok_def)
  have touched: "mkey ` set ?A \<subseteq> mkey ` set ?R"
    unfolding A R image_Un image_UN by (auto simp: ids)
  have "Commit ?R (Commit ?A (store m)) k = store m k" for k
  proof (cases "k \<in> mkey ` set ?R")
    case False
    then have "\<forall>x \<in> set ?R. mkey x \<noteq> k" "\<forall>x \<in> set ?A. mkey x \<noteq> k" using touched by auto
    then show ?thesis by (simp add: Commit_untouched)
  next
    case True
    then obtain w where w: "w \<in> set ?R" "mkey w = k" by auto
    show ?thesis
    proof (rule Commit_agree[OF w], intro ballI impI)
      fix x assume "x \<in> set ?R" "mkey x = k"
      then show "mval x = store m k"
        unfolding R using out sp new before ids by auto
    qed
  qed
  moreover have "stateTree (RollbackDiffWithoutLocking E sl outs' sps' (ApplyDiffWithoutLocking E sl outs sps m)) i = stateTree m i" for i
  proof -
    note stateTree_Rollback[OF E fits same, of sl]
    moreover have "stateTree m i = None" if "i \<in> outputID ` set outs" using that out ok by (auto simp: ledger_ok_def)
    moreover have "stateTree m i = Some (CreationSlot E i)" if "i \<in> spentOutputID ` set sps"
      using that sp ok by (auto simp: ledger_ok_def)
    ultimately show ?thesis by (simp add: stateTree_Apply)
  qed
  ultimately show ?thesis
    by (intro Manager.equality) (auto simp: store_Rollback store_Apply fun_eq_iff)
qed

section \<open>Reading a diff back\<close>

lemma ReadOutput_stored:
  assumes "utxo_env_ok E" and "wf_output E o'" and "store m (1 # outputID o') = Some (Output_KVStorableValue E o')"
  shows "ReadOutputByOutputIDWithoutLocking E m (outputID o') = Inr o'"
  using Output_load[OF assms(1,2)] assms(3)
  by (simp add: ReadOutputByOutputIDWithoutLocking_def storage_keys[OF assms(1)])

lemma ReadSpent_stored:
  assumes "utxo_env_ok E" and "wf_spent E s"
    and "store m (1 # spentOutputID s) = Some (Output_KVStorableValue E (spentOutput s))"
    and "store m (2 # spentOutputID s) = Some (Spent_KVStorableValue E s)"
  shows "ReadSpentForOutputIDWithoutLocking E m (spentOutputID s) = Inr s"
proof -
  have "spentOutputID s = outputID (spentOutput s)" "wf_output E (spentOutput s)" using assms(2) by (simp_all add: wf_spent_def)
  then have "ReadOutputByOutputIDWithoutLocking E m (spentOutputID s) = Inr (spentOutput s)"
    using ReadOutput_stored[OF assms(1), of "spentOutput s" m] assms(3) by simp
  moreover obtain f where "Spent_kvStorableLoad E (2 # spentOutputID s) (Spent_KVStorableValue E s) = Some f" "f (spentOutput s) = s"
    using Spent_load[OF assms(1,2)] by (auto simp: storage_keys[OF assms(1)])
  ultimately show ?thesis
    using assms(4) by (simp add: ReadSpentForOutputIDWithoutLocking_def storage_keys[OF assms(1)])
qed

lemma loadEach_concat:
  assumes "utxo_env_ok E" and "\<forall>x \<in> set xs. length (key x) = OutputIDLength E \<and> get (key x) = Inr x"
  shows "loadEach E get (length xs) (concat (map key xs) @ r) = Inr (xs, r)"
  using assms(2)
proof (induction xs)
  case (Cons x xs)
  have "ParseOutputID E (key x @ b) = Some (key x, b)" for b
    using assms(1) Cons.prems by (simp add: ParseOutputID_def utxo_env_ok_def marshalutil_spec_def take_bytes_append)
  then show ?case using Cons by simp
qed simp

lemma fold_append_map: "fold (\<lambda>x ms. ms @ key x) xs ms = ms @ concat (map key xs)"
  by (induction xs arbitrary: ms) auto

lemma SlotDiff_value:
  assumes "utxo_env_ok E"
  shows "SlotDiff_KVStorableValue E sd =
    put_le (word_of_nat (length (Outputs sd)) :: u32) @ concat (map outputID (sortedOutputs sd)) @
    put_le (word_of_nat (length (Spents sd)) :: u32) @ concat (map (\<lambda>s. outputID (spentOutput s)) (sortedSpents sd))"
proof -
  have "WriteBytes (mu E) b = (\<lambda>ms. ms @ b)" "WriteUint32 (mu E) x ms = ms @ put_le x" for b x ms
    using assms by (simp_all add: utxo_env_ok_def marshalutil_spec_def fun_eq_iff)
  then show ?thesis by (simp add: SlotDiff_KVStorableValue_def fold_append_map)
qed

lemma SlotDiff_stored:
  assumes E: "utxo_env_ok E" and st: "store m (4 # SlotBytes E sl) = Some (SlotDiff_KVStorableValue E \<lparr>Slot = sl, Outputs = outs, Spents = sps\<rparr>)"
    and outs: "\<forall>o' \<in> set outs. wf_output E o' \<and> ReadOutputByOutputIDWithoutLocking E m (outputID o') = Inr o'"
    and sps: "\<forall>s \<in> set sps. wf_spent E s \<and> ReadSpentForOutputIDWithoutLocking E m (spentOutputID s) = Inr s"
    and len: "length outs < 2 ^ 32" "length sps < 2 ^ 32"
  shows "SlotDiffWithoutLocking E sl m = Inr \<lparr>Slot = sl, Outputs = sort_key outputID outs, Spents = sort_key spentOutputID sps\<rparr>"
proof -
  let ?sd = "\<lparr>Slot = sl, Outputs = outs, Spents = sps\<rparr>"
  have rd: "ReadUint32 (mu E) (put_le (x :: u32) @ r) = Some (x, r)" for x r
    using E by (simp add: utxo_env_ok_def marshalutil_spec_def codec_simps)
  have "map (\<lambda>s. outputID (spentOutput s)) (sort_key spentOutputID sps) = map spentOutputID (sort_key spentOutputID sps)"
    using sps by (auto simp: wf_spent_def)
  then have val: "SlotDiff_KVStorableValue E ?sd =
      put_le (word_of_nat (length outs) :: u32) @ concat (map outputID (sort_key outputID outs)) @
      put_le (word_of_nat (length sps) :: u32) @ concat (map spentOutputID (sort_key spentOutputID sps)) @ []"
    by (simp add: SlotDiff_value[OF E] sortedOutputs_def sortedSpents_def del: map_eq_conv)
  have un: "unat (word_of_nat (length outs) :: u32) = length outs" "unat (word_of_nat (length sps) :: u32) = length sps"
    using len by (simp_all add: unat_of_nat_small)
  have 1: "loadEach E (ReadOutputByOutputIDWithoutLocking E m) (length outs) (concat (map outputID (sort_key outputID outs)) @ r) =
      Inr (sort_key outputID outs, r)" for r
    using loadEach_concat[OF E, of "sort_key outputID outs" outputID] outs by (simp add: wf_output_def)
  have 2: "loadEach E (ReadSpentForOutputIDWithoutLocking E m) (length sps) (concat (map spentOutputID (sort_key spentOutputID sps)) @ r) =
      Inr (sort_key spentOutputID sps, r)" for r
  proof -
    have "\<forall>x \<in> set (sort_key spentOutputID sps). length (spentOutputID x) = OutputIDLength E \<and>
        ReadSpentForOutputIDWithoutLocking E m (spentOutputID x) = Inr x"
      using sps by (metis set_sort wf_spent_def wf_output_def)
    from loadEach_concat[OF E this, of r] show ?thesis by simp
  qed
  have "SlotIndexFromBytes E (SlotBytes E sl) = Some sl" using E by (simp add: utxo_env_ok_def slot_codec_def)
  then show ?thesis
    using st unfolding SlotDiffWithoutLocking_def Let_def storage_keys[OF E] val
    by (simp add: SlotDiff_kvStorableLoad_def rd un 1 2 del: append_Nil2)
qed

section \<open>Iterating over the unspent outputs\<close>

text \<open>Documented: an iteration visits every key with the prefix once.\<close>

definition iterates :: "utxo_env \<Rightarrow> bool" where
  "iterates E \<longleftrightarrow>
     (\<forall>p st. finite (dom st) \<longrightarrow>
        distinct (keysWithPrefix E p st) \<and> set (keysWithPrefix E p st) = {k \<in> dom st. \<exists>r. k = p @ r})"

lemma iterate_all:
  assumes "\<forall>k \<in> set ks. \<forall>s. f k s = Inr (g k s, True)"
  shows "iterate_up_to 0 i f ks s = Inr (fold g ks s)"
  using assms by (induction ks arbitrary: i s) auto

definition unspentIDs :: "Manager \<Rightarrow> bytes set" where
  "unspentIDs m = {i. store m (3 # i) \<noteq> None}"

definition outputAt :: "utxo_env \<Rightarrow> Manager \<Rightarrow> bytes \<Rightarrow> Output" where
  "outputAt E m i = projr (ReadOutputByOutputIDWithoutLocking E m i)"

lemma outputAt_unspent:
  assumes "utxo_env_ok E" and "ledger_ok E m" and "i \<in> unspentIDs m"
  shows "ReadOutputByOutputIDWithoutLocking E m i = Inr (outputAt E m i)" and "outputID (outputAt E m i) = i"
    and "length i = OutputIDLength E"
proof -
  obtain o' where o': "wf_output E o'" "outputID o' = i" "store m (1 # i) = Some (Output_KVStorableValue E o')"
    using assms(2,3) by (auto simp: ledger_ok_def unspentIDs_def)
  then have r: "ReadOutputByOutputIDWithoutLocking E m i = Inr o'"
    using ReadOutput_stored[OF assms(1) o'(1)] by simp
  then show "ReadOutputByOutputIDWithoutLocking E m i = Inr (outputAt E m i)" "outputID (outputAt E m i) = i"
    using o'(2) by (simp_all add: outputAt_def)
  show "length i = OutputIDLength E" using o' by (auto simp: wf_output_def)
qed

lemma unspent_keys:
  assumes "iterates E" and "finite (dom (store m))"
  shows "distinct (map tl (keysWithPrefix E [StoreKeyPrefixOutputUnspent] (store m)))"
    and "set (map tl (keysWithPrefix E [StoreKeyPrefixOutputUnspent] (store m))) = unspentIDs m"
    and "k \<in> set (keysWithPrefix E [StoreKeyPrefixOutputUnspent] (store m)) \<Longrightarrow> k = 3 # tl k"
proof -
  let ?ks = "keysWithPrefix E [StoreKeyPrefixOutputUnspent] (store m)"
  have ks: "distinct ?ks" "set ?ks = {k \<in> dom (store m). \<exists>r. k = 3 # r}"
    using assms by (simp_all add: iterates_def StoreKeyPrefixOutputUnspent_def)
  show k: "k \<in> set ?ks \<Longrightarrow> k = 3 # tl k" for k using ks(2) by auto
  show "distinct (map tl ?ks)" using ks k by (auto simp: distinct_map inj_on_def)
  show "set (map tl ?ks) = unspentIDs m" by (auto simp: ks(2) unspentIDs_def image_iff) force
qed

lemma outputIDFromDatabaseKey_unspent:
  assumes E: "utxo_env_ok E" and ok: "ledger_ok E m" and it: "iterates E" "finite (dom (store m))"
    and "k \<in> set (keysWithPrefix E [StoreKeyPrefixOutputUnspent] (store m))"
  shows "outputIDFromDatabaseKey E k = Some (tl k)"
proof -
  have k: "k = 3 # tl k" "tl k \<in> unspentIDs m" using unspent_keys[OF it] assms(5) by auto
  have "get_le (3 # tl k) = Some (3 :: u8, tl k)" using get_put_le_width(1)[of 3 "tl k"] by (simp add: put_le_u8)
  then show ?thesis
    using E outputAt_unspent(3)[OF E ok k(2)]
    by (subst k(1)) (simp add: outputIDFromDatabaseKey_def ParseOutputID_def utxo_env_ok_def marshalutil_spec_def take_bytes_def)
qed

lemma ForEachUnspentOutput_all:
  assumes E: "utxo_env_ok E" and ok: "ledger_ok E m" and it: "iterates E" "finite (dom (store m))"
  shows "ForEachUnspentOutput E 0 (\<lambda>o' s. (g o' s, True)) m s =
    Inr (fold (\<lambda>i. g (outputAt E m i)) (map tl (keysWithPrefix E [StoreKeyPrefixOutputUnspent] (store m))) s)"
proof -
  let ?ks = "keysWithPrefix E [StoreKeyPrefixOutputUnspent] (store m)"
  have step: "bind_res (or_err ParseError (outputIDFromDatabaseKey E k)) (\<lambda>i. bind_res (ReadOutputByOutputIDWithoutLocking E m i)
      (\<lambda>o'. Inr (g o' s, True))) = Inr (g (outputAt E m (tl k)) s, True)" if "k \<in> set ?ks" for k s
  proof -
    have "tl k \<in> unspentIDs m" using unspent_keys[OF it] that by auto
    note u = outputAt_unspent[OF E ok this] outputIDFromDatabaseKey_unspent[OF E ok it that]
    show ?thesis using u by simp
  qed
  show ?thesis
    unfolding ForEachUnspentOutput_def ForEachUnspentOutputID_def
    by (subst iterate_all[where g = "\<lambda>k. g (outputAt E m (tl k))"]) (use step in \<open>blast, simp add: fold_map comp_def\<close>)
qed

definition totalBalance :: "utxo_env \<Rightarrow> Manager \<Rightarrow> base_token" where
  "totalBalance E m = (\<Sum>i \<in> unspentIDs m. BaseTokenAmount E (outputAt E m i))"

lemma ComputeLedgerBalance_total:
  assumes E: "utxo_env_ok E" and ok: "ledger_ok E m" and it: "iterates E" "finite (dom (store m))"
  shows "ComputeLedgerBalance E m = Inr (totalBalance E m, card (unspentIDs m))"
proof -
  let ?ids = "map tl (keysWithPrefix E [StoreKeyPrefixOutputUnspent] (store m))"
  have "(\<lambda>o' (balance, count). ((balance + BaseTokenAmount E o', count + 1), True)) =
      (\<lambda>o' s. ((fst s + BaseTokenAmount E o', snd s + (1 :: nat)), True))" by (auto simp: fun_eq_iff)
  then have "ComputeLedgerBalance E m = Inr (fold (\<lambda>i s. (fst s + BaseTokenAmount E (outputAt E m i), snd s + 1)) ?ids (0, 0))"
    using ForEachUnspentOutput_all[OF E ok it, of "\<lambda>o' s. (fst s + BaseTokenAmount E o', snd s + (1 :: nat))"]
    unfolding ComputeLedgerBalance_def by (simp only:)
  moreover have "fold (\<lambda>i s. (fst s + f i, snd s + 1)) xs (b, n) = (b + sum_list (map f xs), n + length xs)"
    for f :: "bytes \<Rightarrow> base_token" and xs b and n :: nat
    by (induction xs arbitrary: b n) auto
  ultimately have "ComputeLedgerBalance E m = Inr (sum_list (map (\<lambda>i. BaseTokenAmount E (outputAt E m i)) ?ids), length ?ids)" by simp
  then show ?thesis
    unfolding totalBalance_def unspent_keys(2)[OF it, symmetric]
    by (simp only: sum_list_distinct_conv_sum_set[OF unspent_keys(1)[OF it]] distinct_card[OF unspent_keys(1)[OF it]])
qed

lemma CheckStateTree_ok:
  assumes E: "utxo_env_ok E" and ok: "ledger_ok E m" and it: "iterates E" "finite (dom (store m))"
  shows "CheckStateTree E m"
proof -
  let ?ids = "map tl (keysWithPrefix E [StoreKeyPrefixOutputUnspent] (store m))"
  let ?t = "fold (\<lambda>i t. t(outputID (outputAt E m i) \<mapsto> newStateMetadata E (outputAt E m i))) ?ids Map.empty"
  have "?t = fold (\<lambda>i t. t(i \<mapsto> CreationSlot E i)) ?ids Map.empty"
  proof (rule fold_cong[OF refl refl])
    fix i assume "i \<in> set ?ids"
    then have "outputID (outputAt E m i) = i" using outputAt_unspent(2)[OF E ok] unspent_keys(2)[OF it] by simp
    then show "(\<lambda>t. t(outputID (outputAt E m i) \<mapsto> newStateMetadata E (outputAt E m i))) = (\<lambda>t. t(i \<mapsto> CreationSlot E i))"
      by (simp add: newStateMetadata_def SlotCreated_def)
  qed
  moreover have "fold (\<lambda>i t. t(i \<mapsto> CreationSlot E i)) ?ids Map.empty i = stateTree m i" for i
    using ok unspent_keys(2)[OF it] by (auto simp: tree_fold_set_id[of _ _ "CreationSlot E" id, simplified] ledger_ok_def unspentIDs_def)
  ultimately have "?t = stateTree m" by (simp add: fun_eq_iff)
  then show ?thesis
    using ForEachUnspentOutput_all[OF E ok it, of "\<lambda>o' t. t(outputID o' \<mapsto> newStateMetadata E o')" Map.empty]
    by (simp add: CheckStateTree_def StateTreeRoot_def)
qed

end
