(* ===== verification/UtxoProperties.thy ===== *)
theory UtxoProperties
  imports UtxoLedger
begin

text \<open>
  What the UTXO ledger guarantees: stored entries are read back unchanged, a rollback undoes the
  diff it is given, the state tree always commits to exactly the unspent outputs, and a balanced diff
  keeps the total supply. The last section shows what the raw reader of an output returns.
\<close>

section \<open>The ledger after each operation\<close>

lemma finite_Commit: "finite (dom st) \<Longrightarrow> finite (dom (Commit ms st))"
proof -
  have "finite (dom (applyMutation x st))" if "finite (dom st)" for x st using that by (cases x) auto
  then show "finite (dom st) \<Longrightarrow> ?thesis" unfolding Commit_def by (induction ms arbitrary: st) auto
qed

lemma store_import: "store (importUnspentOutputWithoutLocking E o' m) = Commit (markAsUnspent E o' (storeOutput E o' [])) (store m)"
  by (simp add: importUnspentOutputWithoutLocking_def Let_def)

lemma ledger_ok_import:
  assumes E: "utxo_env_ok E" and ok: "ledger_ok E m" and wf: "wf_output E o'" and new: "store m (2 # outputID o') = None"
  shows "ledger_ok E (importUnspentOutputWithoutLocking E o' m)"
proof -
  have "store (importUnspentOutputWithoutLocking E o' m) =
      (store m)(1 # outputID o' \<mapsto> Output_KVStorableValue E o', 3 # outputID o' \<mapsto> [])"
    by (simp add: store_import Commit_def entry_defs storage_keys[OF E])
  moreover have "stateTree (importUnspentOutputWithoutLocking E o' m) = (stateTree m)(outputID o' \<mapsto> CreationSlot E (outputID o'))"
    by (simp add: importUnspentOutputWithoutLocking_def newStateMetadata_def SlotCreated_def)
  ultimately show ?thesis
    using ok wf new by (auto simp: ledger_ok_def)
qed

text \<open>Everything a stored diff lists as spent has a spent entry.\<close>

lemma loadEach_gets:
  assumes E: "utxo_env_ok E" and "loadEach E get n ms = Inr (xs, r)" and "x \<in> set xs"
  shows "\<exists>i. length i = OutputIDLength E \<and> get i = Inr x"
  using assms(2,3)
proof (induction n arbitrary: ms xs)
  case (Suc n)
  then obtain i ms' y ys where p: "ParseOutputID E ms = Some (i, ms')" "get i = Inr y" "loadEach E get n ms' = Inr (ys, r)" "xs = y # ys"
    by (auto simp: or_err_def split: option.splits sum.splits)
  moreover have "length i = OutputIDLength E"
    using p(1) E by (auto simp: ParseOutputID_def utxo_env_ok_def marshalutil_spec_def take_bytes_def split: if_splits)
  ultimately show ?case using Suc.IH[OF p(3)] Suc.prems(2) by auto
qed simp

lemma ReadSpent_entry:
  assumes E: "utxo_env_ok E" and i: "length i = OutputIDLength E" and "ReadSpentForOutputIDWithoutLocking E m i = Inr s"
  shows "store m (2 # i) \<noteq> None \<and> spentOutputID s = i \<and> outputID (spentOutput s) = i"
proof -
  obtain out v f where s: "ReadOutputByOutputIDWithoutLocking E m i = Inr out" "store m (2 # i) = Some v"
    "Spent_kvStorableLoad E (2 # i) v = Some f" "s = f out"
    using assms(3) by (auto simp: ReadSpentForOutputIDWithoutLocking_def Let_def storage_keys[OF E])
  have g: "get_le (x # i) = Some (x :: u8, i)" for x using get_put_le_width(1)[of x i] by (simp add: put_le_u8)
  have p: "ParseOutputID E i = take_bytes (OutputIDLength E) i" "ReadUint8 (mu E) b = get_le b" for b
    using E by (simp_all add: ParseOutputID_def utxo_env_ok_def marshalutil_spec_def)
  have "outputID out = i"
    using s(1) i by (auto simp: ReadOutputByOutputIDWithoutLocking_def Let_def storage_keys[OF E] Output_kvStorableLoad_def
        bind_eq_Some_conv g p take_bytes_def split: if_splits)
  moreover have "spentOutputID s = i" "spentOutput s = out"
    using s(3,4) i by (auto simp: Spent_kvStorableLoad_def bind_eq_Some_conv g p take_bytes_def split: if_splits)
  ultimately show ?thesis using s(2) by simp
qed

lemma SlotDiff_spents:
  assumes E: "utxo_env_ok E" and "SlotDiffWithoutLocking E sl m = Inr d" and "s \<in> set (Spents d)"
  shows "store m (2 # spentOutputID s) \<noteq> None \<and> outputID (spentOutput s) = spentOutputID s"
proof -
  obtain n ms r where l: "loadEach E (ReadSpentForOutputIDWithoutLocking E m) n ms = Inr (Spents d, r)"
    using assms(2) by (auto simp: SlotDiffWithoutLocking_def Let_def SlotDiff_kvStorableLoad_def or_err_def split: option.splits)
  from loadEach_gets[OF E l assms(3)] ReadSpent_entry[OF E] show ?thesis by metis
qed

lemma Prune_lookup:
  assumes E: "utxo_env_ok E" and "SlotDiffWithoutLocking E sl m = Inr d" and "PruneSlotIndexWithoutLocking E sl m = Inr m'"
  shows "i \<notin> spentOutputID ` set (Spents d) \<Longrightarrow> store m' (1 # i) = store m (1 # i)"
    and "i \<notin> spentOutputID ` set (Spents d) \<Longrightarrow> store m' (2 # i) = store m (2 # i)"
    and "i \<in> spentOutputID ` set (Spents d) \<Longrightarrow> store m' (1 # i) = None \<and> store m' (2 # i) = None"
    and "store m' (3 # i) = store m (3 # i)" and "stateTree m' = stateTree m" and "store m' (4 # SlotBytes E sl) = None"
    and "finite (dom (store m)) \<Longrightarrow> finite (dom (store m'))"
proof -
  define ms where "ms = deleteDiff E sl (fold (\<lambda>s ms. deleteSpent E s (deleteOutput E (spentOutput s) ms)) (Spents d) [])"
  have m': "m' = m\<lparr>store := Commit ms (store m)\<rparr>"
    using assms(2,3) by (simp add: PruneSlotIndexWithoutLocking_def ms_def Let_def)
  have "set (fold (\<lambda>s ms. deleteSpent E s (deleteOutput E (spentOutput s) ms)) xs ms0) =
      set ms0 \<union> (\<Union>s \<in> set xs. {MDelete (1 # outputID (spentOutput s)), MDelete (2 # spentOutputID s)})" for xs ms0
    by (induction xs arbitrary: ms0) (auto simp: entry_defs storage_keys[OF E])
  then have S: "set ms = (\<Union>s \<in> set (Spents d). {MDelete (1 # spentOutputID s), MDelete (2 # spentOutputID s)}) \<union> {MDelete (4 # SlotBytes E sl)}"
    using SlotDiff_spents[OF E assms(2)] by (auto simp: ms_def entry_defs storage_keys[OF E])
  show "i \<notin> spentOutputID ` set (Spents d) \<Longrightarrow> store m' (1 # i) = store m (1 # i)"
    "i \<notin> spentOutputID ` set (Spents d) \<Longrightarrow> store m' (2 # i) = store m (2 # i)" "store m' (3 # i) = store m (3 # i)"
    by (auto simp: m' S intro!: Commit_untouched)
  have "store m' k = None" if "MDelete k \<in> set ms" for k
    using Commit_agree[OF that, of k None "store m"] by (auto simp: m' S)
  then show "i \<in> spentOutputID ` set (Spents d) \<Longrightarrow> store m' (1 # i) = None \<and> store m' (2 # i) = None"
    "store m' (4 # SlotBytes E sl) = None" by (auto simp: S)
  show "stateTree m' = stateTree m" "finite (dom (store m)) \<Longrightarrow> finite (dom (store m'))" by (simp_all add: m' finite_Commit)
qed

lemma ledger_ok_Prune:
  assumes E: "utxo_env_ok E" and ok: "ledger_ok E m" and "PruneSlotIndexWithoutLocking E sl m = Inr m'"
  shows "ledger_ok E m' \<and> unspentIDs m' = unspentIDs m \<and> stateTree m' = stateTree m \<and> (finite (dom (store m)) \<longrightarrow> finite (dom (store m')))"
proof (cases "SlotDiffWithoutLocking E sl m")
  case (Inl e)
  then show ?thesis using assms(3) ok by (auto simp: PruneSlotIndexWithoutLocking_def split: if_splits)
next
  case (Inr d)
  note P = Prune_lookup[OF E Inr assms(3)]
  have "i \<notin> spentOutputID ` set (Spents d)" if "store m (3 # i) \<noteq> None" for i
    using SlotDiff_spents[OF E Inr] ok that unfolding ledger_ok_def by blast
  then have "ledger_ok E m'" using ok P(1-5) unfolding ledger_ok_def by (metis (no_types, lifting))
  then show ?thesis using P(4,5,7) by (simp add: unspentIDs_def)
qed

section \<open>The balance\<close>

lemma outputAt_cong: "store m' (1 # i) = store m (1 # i) \<Longrightarrow> utxo_env_ok E \<Longrightarrow> outputAt E m' i = outputAt E m i"
  by (simp add: outputAt_def ReadOutputByOutputIDWithoutLocking_def Let_def storage_keys)

lemma unspentIDs_Apply:
  assumes E: "utxo_env_ok E" and fits: "diff_fits E m outs sps"
  shows "unspentIDs (ApplyDiffWithoutLocking E sl outs sps m) = (unspentIDs m - spentOutputID ` set sps) \<union> outputID ` set outs"
    (is "unspentIDs ?m = (_ - ?S) \<union> ?O")
proof (rule set_eqI)
  fix i
  note L = Apply_lookup[OF E fits, where sl = sl]
  have "?O \<inter> ?S = {}" using fits by (auto simp: diff_fits_def)
  then show "i \<in> unspentIDs ?m \<longleftrightarrow> i \<in> (unspentIDs m - ?S) \<union> ?O"
    using L(5,6) L(7)[of i] by (cases "i \<in> ?O"; cases "i \<in> ?S") (auto simp: unspentIDs_def)
qed

lemma totalBalance_Apply:
  assumes E: "utxo_env_ok E" and fits: "diff_fits E m outs sps" and fin: "finite (unspentIDs m)"
  shows "totalBalance E (ApplyDiffWithoutLocking E sl outs sps m) =
    totalBalance E m + (\<Sum>o' \<in> set outs. BaseTokenAmount E o') - (\<Sum>s \<in> set sps. BaseTokenAmount E (spentOutput s))"
proof -
  let ?m = "ApplyDiffWithoutLocking E sl outs sps m" and ?O = "outputID ` set outs" and ?S = "spentOutputID ` set sps"
  let ?b = "\<lambda>m i. BaseTokenAmount E (outputAt E m i)"
  note L = Apply_lookup[OF E fits, where sl = sl]
  have dis: "?O \<inter> ?S = {}" "?O \<inter> unspentIDs m = {}" "?S \<subseteq> unspentIDs m"
    using fits by (auto simp: diff_fits_def unspentIDs_def)
  note ids = unspentIDs_Apply[OF E fits, of sl]
  have "(\<Sum>i \<in> ?O. ?b ?m i) = (\<Sum>o' \<in> set outs. ?b ?m (outputID o'))"
    using fits by (subst sum.reindex) (auto simp: diff_fits_def)
  moreover have "outputAt E ?m (outputID o') = o'" if "o' \<in> set outs" for o'
    using ReadOutput_stored[OF E _ L(1)[OF that]] fits that by (simp add: outputAt_def diff_fits_def)
  ultimately have o': "(\<Sum>i \<in> ?O. ?b ?m i) = (\<Sum>o' \<in> set outs. BaseTokenAmount E o')" by simp
  have "(\<Sum>i \<in> ?S. ?b m i) = (\<Sum>s \<in> set sps. ?b m (spentOutputID s))"
    using fits by (subst sum.reindex) (auto simp: diff_fits_def)
  moreover have "outputAt E m (spentOutputID s) = spentOutput s" if "s \<in> set sps" for s
    using ReadOutput_stored[OF E, of "spentOutput s" m] fits that by (auto simp: outputAt_def diff_fits_def wf_spent_def)
  ultimately have s: "(\<Sum>i \<in> ?S. ?b m i) = (\<Sum>s \<in> set sps. BaseTokenAmount E (spentOutput s))" by simp
  have "(\<Sum>i \<in> unspentIDs m - ?S. ?b ?m i) = (\<Sum>i \<in> unspentIDs m - ?S. ?b m i)"
  proof (rule sum.cong[OF refl])
    fix i assume "i \<in> unspentIDs m - ?S"
    then have "i \<notin> ?O" using dis(2) by auto
    from outputAt_cong[OF L(2)[OF this] E] show "?b ?m i = ?b m i" by simp
  qed
  also have "\<dots> = totalBalance E m - (\<Sum>i \<in> ?S. ?b m i)"
    unfolding totalBalance_def using fin dis(3) by (rule sum_diff)
  finally show ?thesis
    unfolding totalBalance_def ids using fin dis o' s by (subst sum.union_disjoint) (auto simp: totalBalance_def)
qed

lemma finite_unspentIDs: "finite (dom (store m)) \<Longrightarrow> finite (unspentIDs m)"
  by (rule finite_subset[OF _ finite_vimageI[of "dom (store m)" "(#) 3"]]) (auto simp: unspentIDs_def)

section \<open>Ledgers the node can reach\<close>

text \<open>A fresh manager, genesis outputs, the ledger index of the genesis slot, slots applied in any order, slots rolled back right after
  they were applied, and pruning.\<close>

inductive ledger_reach :: "utxo_env \<Rightarrow> Manager \<Rightarrow> bool" for E where
  new: "ledger_reach E NewManager"
| genesis: "ledger_reach E m \<Longrightarrow> wf_output E o' \<Longrightarrow> store m (2 # outputID o') = None \<Longrightarrow>
    ledger_reach E (AddGenesisUnspentOutputWithoutLocking E o' m)"
| indexed: "ledger_reach E m \<Longrightarrow> ledger_reach E (StoreLedgerIndexWithoutLocking E sl m)"
| applied: "ledger_reach E m \<Longrightarrow> diff_fits E m outs sps \<Longrightarrow> ledger_reach E (ApplyDiffWithoutLocking E sl outs sps m)"
| rolledBack: "ledger_reach E m \<Longrightarrow> diff_fits E m outs sps \<Longrightarrow> store m (4 # SlotBytes E sl) = None \<Longrightarrow>
    store m [0] = Some (SlotBytes E (sl - 1)) \<Longrightarrow>
    ledger_reach E (RollbackDiffWithoutLocking E sl outs sps (ApplyDiffWithoutLocking E sl outs sps m))"
| pruned: "ledger_reach E m \<Longrightarrow> PruneSlotIndexWithoutLocking E sl m = Inr m' \<Longrightarrow> ledger_reach E m'"

lemma ledger_reach_ok:
  assumes "utxo_env_ok E" and "ledger_reach E m"
  shows "ledger_ok E m \<and> finite (dom (store m))"
  using assms(2)
proof induction
  case new
  then show ?case by (simp add: NewManager_def ledger_ok_def)
next
  case (genesis m o')
  then show ?case
    using ledger_ok_import[OF assms(1)] finite_Commit by (simp add: AddGenesisUnspentOutputWithoutLocking_def store_import)
next
  case (indexed m sl)
  then have "ledger_ok E (StoreLedgerIndexWithoutLocking E sl m)"
    by (simp add: StoreLedgerIndexWithoutLocking_def StoreKeyPrefixLedgerSlotIndex_def ledger_ok_def)
  moreover have "store (StoreLedgerIndexWithoutLocking E sl m) = Commit [MSet [StoreKeyPrefixLedgerSlotIndex] (SlotBytes E sl)] (store m)"
    by (simp add: StoreLedgerIndexWithoutLocking_def Commit_def)
  ultimately show ?case using indexed finite_Commit by simp
next
  case (applied m outs sps sl)
  then show ?case using ledger_ok_Apply[OF assms(1)] finite_Commit by (simp add: store_Apply)
next
  case (rolledBack m outs sps sl)
  then show ?case using Rollback_restores[OF assms(1) _ _ _ _ refl refl] by simp
next
  case (pruned m sl m')
  then show ?case using ledger_ok_Prune[OF assms(1)] by blast
qed

lemma applied_diff_read:
  assumes "utxo_env_ok E" and "ledger_reach E m" and "diff_fits E m outs sps"
    and "length outs < 2 ^ 32" and "length sps < 2 ^ 32"
  shows "(\<forall>o' \<in> set outs. ReadOutputByOutputIDWithoutLocking E (ApplyDiffWithoutLocking E sl outs sps m) (outputID o') = Inr o') \<and>
    (\<forall>s \<in> set sps. ReadSpentForOutputIDWithoutLocking E (ApplyDiffWithoutLocking E sl outs sps m) (spentOutputID s) = Inr s) \<and>
    SlotDiffWithoutLocking E sl (ApplyDiffWithoutLocking E sl outs sps m) =
      Inr \<lparr>Slot = sl, Outputs = sort_key outputID outs, Spents = sort_key spentOutputID sps\<rparr> \<and>
    ReadLedgerIndexWithoutLocking E (ApplyDiffWithoutLocking E sl outs sps m) = Inr sl"
proof -
  let ?m = "ApplyDiffWithoutLocking E sl outs sps m"
  note L = Apply_lookup[OF assms(1,3), where sl = sl]
  have o': "\<forall>o' \<in> set outs. wf_output E o' \<and> ReadOutputByOutputIDWithoutLocking E ?m (outputID o') = Inr o'"
    using ReadOutput_stored[OF assms(1) _ L(1)] assms(3) by (auto simp: diff_fits_def)
  have s: "\<forall>s \<in> set sps. wf_spent E s \<and> ReadSpentForOutputIDWithoutLocking E ?m (spentOutputID s) = Inr s"
  proof
    fix s assume "s \<in> set sps"
    then have "wf_spent E s" "store m (1 # spentOutputID s) = Some (Output_KVStorableValue E (spentOutput s))" "spentOutputID s \<notin> outputID ` set outs"
      using assms(3) diff_fits_disjoint[OF assms(3)] by (auto simp: diff_fits_def)
    then show "wf_spent E s \<and> ReadSpentForOutputIDWithoutLocking E ?m (spentOutputID s) = Inr s"
      using ReadSpent_stored[OF assms(1)] L(2) L(3)[OF \<open>s \<in> set sps\<close>] by simp
  qed
  have "SlotIndexFromBytes E (SlotBytes E sl) = Some sl" using assms(1) by (simp add: utxo_env_ok_def slot_codec_def)
  then have "ReadLedgerIndexWithoutLocking E ?m = Inr sl"
    using L(10) by (simp add: ReadLedgerIndexWithoutLocking_def StoreKeyPrefixLedgerSlotIndex_def)
  then show ?thesis using o' s SlotDiff_stored[OF assms(1) L(8) o' s assms(4,5)] by blast
qed

section \<open>Properties\<close>

subsection \<open>A concrete ledger\<close>

definition exampleUtxo :: utxo_env where
  "exampleUtxo = \<lparr>mu = marshalutil_le, OutputIDLength = 2, BlockIDLength = 1, TransactionIDLength = 1, SlotIndexLength = 4,
     SlotBytes = put_le, SlotIndexFromBytes = (\<lambda>b. map_option fst (get_le b)), CreationSlot = (\<lambda>i. word_of_int (uint (last i))),
     TokenAmount = (\<lambda>_ e. word_of_nat (length e)), TreeRoot = (\<lambda>t. if t = Map.empty then [] else [1]),
     keysWithPrefix = (\<lambda>p st. sorted_list_of_set {k \<in> dom st. \<exists>r. k = p @ r})\<rparr>"

definition exampleOut1 :: Output where
  "exampleOut1 = \<lparr>outputID = [7, 0], blockID = [9], slotBooked = 0, encodedOutput = [1, 2, 3], encodedProof = [4]\<rparr>"

definition exampleOut2 :: Output where
  "exampleOut2 = \<lparr>outputID = [8, 1], blockID = [9], slotBooked = 1, encodedOutput = [1, 1, 1], encodedProof = [4, 5, 6, 7, 8]\<rparr>"

definition exampleSpent :: Spent where
  "exampleSpent = NewSpent exampleOut1 [6] 1"

definition exampleGenesis :: Manager where
  "exampleGenesis = StoreLedgerIndexWithoutLocking exampleUtxo 0 (AddGenesisUnspentOutputWithoutLocking exampleUtxo exampleOut1 NewManager)"

lemma exampleUtxo_ok [simp]: "utxo_env_ok exampleUtxo"
  using get_put_le_width[of _ "[]"] by (simp add: utxo_env_ok_def exampleUtxo_def slot_codec_def length_put_le)

lemma exampleUtxo_iterates [simp]: "iterates exampleUtxo"
  by (simp add: iterates_def exampleUtxo_def)

lemma example_wf [simp]: "wf_output exampleUtxo exampleOut1" "wf_output exampleUtxo exampleOut2" "wf_spent exampleUtxo exampleSpent"
  by (simp_all add: wf_output_def wf_spent_def exampleUtxo_def exampleOut1_def exampleOut2_def exampleSpent_def NewSpent_def)

lemma exampleGenesis_reach [simp]: "ledger_reach exampleUtxo exampleGenesis"
  unfolding exampleGenesis_def by (intro ledger_reach.intros) (simp_all add: NewManager_def)

lemma exampleGenesis_store:
  "store exampleGenesis = [1 # [7, 0] \<mapsto> Output_KVStorableValue exampleUtxo exampleOut1, 3 # [7, 0] \<mapsto> [], [0] \<mapsto> put_le (0 :: slot)]"
  unfolding exampleGenesis_def AddGenesisUnspentOutputWithoutLocking_def StoreLedgerIndexWithoutLocking_def
  by (simp add: store_import Commit_def entry_defs storage_keys[OF exampleUtxo_ok] NewManager_def StoreKeyPrefixLedgerSlotIndex_def)
    (simp add: exampleOut1_def exampleUtxo_def)

lemma exampleDiff_fits [simp]: "diff_fits exampleUtxo exampleGenesis [exampleOut2] [exampleSpent]"
proof -
  have "outputID exampleOut2 = [8, 1]" "spentOutputID exampleSpent = [7, 0]" "spentOutput exampleSpent = exampleOut1"
    by (simp_all add: exampleOut2_def exampleSpent_def NewSpent_def exampleOut1_def)
  then show ?thesis by (simp add: diff_fits_def exampleGenesis_store)
qed

lemma exampleGenesis_slots: "store exampleGenesis (4 # SlotBytes exampleUtxo 1) = None"
  "store exampleGenesis [0] = Some (SlotBytes exampleUtxo (1 - 1))"
  by (simp_all add: exampleGenesis_store) (simp add: exampleUtxo_def)

lemma exampleGenesis_supply: "CheckLedgerState exampleUtxo 3 exampleGenesis = Inr ()"
proof -
  have ok: "ledger_ok exampleUtxo exampleGenesis" "finite (dom (store exampleGenesis))"
    using ledger_reach_ok[OF exampleUtxo_ok exampleGenesis_reach] by simp_all
  have "unspentIDs exampleGenesis = {[7, 0]}" by (auto simp: unspentIDs_def exampleGenesis_store split: if_splits)
  moreover have "outputAt exampleUtxo exampleGenesis [7, 0] = exampleOut1"
    using ReadOutput_stored[OF exampleUtxo_ok example_wf(1), of exampleGenesis]
    by (simp add: outputAt_def exampleGenesis_store) (simp add: exampleOut1_def)
  ultimately have "totalBalance exampleUtxo exampleGenesis = 3"
    by (simp add: totalBalance_def BaseTokenAmount_def exampleUtxo_def exampleOut1_def)
  then show ?thesis
    using ComputeLedgerBalance_total[OF exampleUtxo_ok ok(1) exampleUtxo_iterates ok(2)] by (simp add: CheckLedgerState_def)
qed

subsection \<open>Round trips\<close>

text \<open>C16: After a slot is applied to a reachable ledger, every output and spent of its diff and the
  diff itself are read back from the database exactly as they were written, the diff in the
  canonical order of the output IDs, and the ledger index is the slot.
\<close>

theorem applied_diff_is_read_back:
  assumes "utxo_env_ok E" and "ledger_reach E m" and "diff_fits E m outs sps"
    and "length outs < 2 ^ 32" and "length sps < 2 ^ 32"
  shows "(\<forall>o' \<in> set outs. ReadOutputByOutputIDWithoutLocking E (ApplyDiffWithoutLocking E sl outs sps m) (outputID o') = Inr o') \<and>
    (\<forall>s \<in> set sps. ReadSpentForOutputIDWithoutLocking E (ApplyDiffWithoutLocking E sl outs sps m) (spentOutputID s) = Inr s) \<and>
    SlotDiffWithoutLocking E sl (ApplyDiffWithoutLocking E sl outs sps m) =
      Inr \<lparr>Slot = sl, Outputs = sort_key outputID outs, Spents = sort_key spentOutputID sps\<rparr> \<and>
    ReadLedgerIndexWithoutLocking E (ApplyDiffWithoutLocking E sl outs sps m) = Inr sl"
  by (rule applied_diff_read[OF assms])

theorem applied_diff_is_read_back_witness:
  "SlotDiffWithoutLocking exampleUtxo 1 (ApplyDiffWithoutLocking exampleUtxo 1 [exampleOut2] [exampleSpent] exampleGenesis) =
     Inr \<lparr>Slot = 1, Outputs = [exampleOut2], Spents = [exampleSpent]\<rparr>"
  using applied_diff_is_read_back[of exampleUtxo exampleGenesis "[exampleOut2]" "[exampleSpent]" 1] by simp

text \<open>C17: Rolling a slot back right after it was applied gives the ledger of before: the same database
  and the same state tree.
\<close>

theorem rollback_undoes_apply:
  assumes "utxo_env_ok E" and "ledger_reach E m" and "diff_fits E m outs sps"
    and "store m (4 # SlotBytes E sl) = None" and "store m [0] = Some (SlotBytes E (sl - 1))"
  shows "RollbackDiffWithoutLocking E sl outs sps (ApplyDiffWithoutLocking E sl outs sps m) = m"
  using Rollback_restores[OF assms(1,3) _ assms(4,5) refl refl] ledger_reach_ok[OF assms(1,2)] by blast

theorem rollback_undoes_apply_witness:
  "RollbackDiffWithoutLocking exampleUtxo 1 [exampleOut2] [exampleSpent]
     (ApplyDiffWithoutLocking exampleUtxo 1 [exampleOut2] [exampleSpent] exampleGenesis) = exampleGenesis"
  using rollback_undoes_apply[OF exampleUtxo_ok exampleGenesis_reach exampleDiff_fits exampleGenesis_slots] .

subsection \<open>The state tree and the supply\<close>

text \<open>C18: In every ledger the node can reach by importing genesis outputs, applying, rolling back and
  pruning slots, the state tree holds exactly the unspent outputs with their creation slots, so
  checking it against the database succeeds.
\<close>

theorem state_tree_commits_to_unspent:
  assumes "utxo_env_ok E" and "iterates E" and "ledger_reach E m"
  shows "CheckStateTree E m \<and> stateTree m = (\<lambda>i. if i \<in> unspentIDs m then Some (CreationSlot E i) else None)"
proof -
  have ok: "ledger_ok E m" "finite (dom (store m))" using ledger_reach_ok[OF assms(1,3)] by simp_all
  then show ?thesis using CheckStateTree_ok[OF assms(1) ok(1) assms(2)] by (auto simp: ledger_ok_def unspentIDs_def fun_eq_iff)
qed

theorem state_tree_commits_to_unspent_witness:
  "CheckStateTree exampleUtxo (ApplyDiffWithoutLocking exampleUtxo 1 [exampleOut2] [exampleSpent] exampleGenesis)"
  using state_tree_commits_to_unspent[OF exampleUtxo_ok exampleUtxo_iterates
      ledger_reach.applied[OF exampleGenesis_reach exampleDiff_fits, of 1]] by blast

text \<open>C19: Applying a slot changes the total balance by exactly what it creates minus what it spends,
  so a ledger that matches the token supply still matches it after a balanced slot, and no longer
  after an unbalanced one.
\<close>

theorem balanced_slot_keeps_supply:
  assumes "utxo_env_ok E" and "iterates E" and "ledger_reach E m" and "diff_fits E m outs sps"
    and "CheckLedgerState E supply m = Inr ()"
  shows "CheckLedgerState E supply (ApplyDiffWithoutLocking E sl outs sps m) =
    (if (\<Sum>o' \<in> set outs. BaseTokenAmount E o') = (\<Sum>s \<in> set sps. BaseTokenAmount E (spentOutput s))
     then Inr () else Inl OutputsSumNotEqualTotalSupply)"
proof -
  have b: "ComputeLedgerBalance E m' = Inr (totalBalance E m', card (unspentIDs m'))" if "ledger_reach E m'" for m'
    using ComputeLedgerBalance_total[OF assms(1) _ assms(2)] ledger_reach_ok[OF assms(1) that] by blast
  have fin: "finite (unspentIDs m)" using finite_unspentIDs ledger_reach_ok[OF assms(1,3)] by blast
  have "totalBalance E m = supply" using assms(5) b[OF assms(3)] by (simp add: CheckLedgerState_def split: if_splits)
  then show ?thesis
    using b[OF ledger_reach.applied[OF assms(3,4), of sl]] totalBalance_Apply[OF assms(1,4) fin, of sl]
    by (auto simp: CheckLedgerState_def algebra_simps)
qed

theorem balanced_slot_keeps_supply_witness:
  "CheckLedgerState exampleUtxo 3 (ApplyDiffWithoutLocking exampleUtxo 1 [exampleOut2] [exampleSpent] exampleGenesis) = Inr () \<and>
   CheckLedgerState exampleUtxo 3 (ApplyDiffWithoutLocking exampleUtxo 1 [] [exampleSpent] exampleGenesis) = Inl OutputsSumNotEqualTotalSupply"
proof -
  have "diff_fits exampleUtxo exampleGenesis [] [exampleSpent]" using exampleDiff_fits by (simp add: diff_fits_def)
  from balanced_slot_keeps_supply[OF exampleUtxo_ok exampleUtxo_iterates exampleGenesis_reach this exampleGenesis_supply, of 1]
    balanced_slot_keeps_supply[OF exampleUtxo_ok exampleUtxo_iterates exampleGenesis_reach exampleDiff_fits exampleGenesis_supply, of 1]
  show ?thesis by (simp add: BaseTokenAmount_def exampleUtxo_def exampleOut1_def exampleOut2_def exampleSpent_def NewSpent_def)
qed

subsection \<open>Pruning\<close>

text \<open>Pruning a slot that was just applied succeeds, removes every output the slot spent together
  with its spent entry and the slot's diff, and leaves the unspent outputs, their entries and the
  state tree as they were.
\<close>

theorem prune_removes_only_spent:
  assumes "utxo_env_ok E" and "ledger_reach E m" and "diff_fits E m outs sps"
    and "length outs < 2 ^ 32" and "length sps < 2 ^ 32"
  shows "\<exists>m'. PruneSlotIndexWithoutLocking E sl (ApplyDiffWithoutLocking E sl outs sps m) = Inr m' \<and>
    (\<forall>s \<in> set sps. ReadOutputByOutputIDWithoutLocking E m' (spentOutputID s) = Inl KeyNotFound \<and>
      ReadSpentForOutputIDWithoutLocking E m' (spentOutputID s) = Inl KeyNotFound) \<and>
    SlotDiffWithoutLocking E sl m' = Inl KeyNotFound \<and>
    unspentIDs m' = (unspentIDs m - spentOutputID ` set sps) \<union> outputID ` set outs \<and>
    (\<forall>i \<in> unspentIDs m'. ReadOutputByOutputIDWithoutLocking E m' i = ReadOutputByOutputIDWithoutLocking E (ApplyDiffWithoutLocking E sl outs sps m) i) \<and>
    stateTree m' = stateTree (ApplyDiffWithoutLocking E sl outs sps m)"
proof -
  let ?a = "ApplyDiffWithoutLocking E sl outs sps m"
  obtain d where d: "SlotDiffWithoutLocking E sl ?a = Inr d" "set (Spents d) = set sps"
    using applied_diff_read[OF assms, of sl] by auto
  then obtain m' where m': "PruneSlotIndexWithoutLocking E sl ?a = Inr m'" by (simp add: PruneSlotIndexWithoutLocking_def Let_def)
  have reach: "ledger_reach E ?a" "ledger_reach E m'"
    using ledger_reach.applied[OF assms(2,3)] m' by (auto intro: ledger_reach.pruned)
  note P = Prune_lookup[OF assms(1) d(1) m', unfolded d(2)]
  have k: "ledger_ok E m'" "ledger_ok E ?a" "unspentIDs m' = unspentIDs ?a"
    using ledger_reach_ok[OF assms(1)] reach ledger_ok_Prune[OF assms(1) _ m'] by auto
  have "spentOutputID s \<notin> unspentIDs ?a" if "s \<in> set sps" for s
    using Apply_lookup(6)[OF assms(1,3) that] by (simp add: unspentIDs_def)
  then have "store m' (1 # i) = store ?a (1 # i)" if "i \<in> unspentIDs m'" for i using that k(3) P(1)[of i] by auto
  then have "\<forall>i \<in> unspentIDs m'. ReadOutputByOutputIDWithoutLocking E m' i = ReadOutputByOutputIDWithoutLocking E ?a i"
    by (simp add: ReadOutputByOutputIDWithoutLocking_def storage_keys[OF assms(1)])
  moreover have "\<forall>s \<in> set sps. ReadOutputByOutputIDWithoutLocking E m' (spentOutputID s) = Inl KeyNotFound \<and>
      ReadSpentForOutputIDWithoutLocking E m' (spentOutputID s) = Inl KeyNotFound"
    using P(3) by (simp add: ReadOutputByOutputIDWithoutLocking_def ReadSpentForOutputIDWithoutLocking_def storage_keys[OF assms(1)] or_err_def)
  moreover have "SlotDiffWithoutLocking E sl m' = Inl KeyNotFound"
    using P(6) by (simp add: SlotDiffWithoutLocking_def storage_keys[OF assms(1)] or_err_def)
  ultimately show ?thesis using m' P(5) k(3) unspentIDs_Apply[OF assms(1,3), of sl] by blast
qed

theorem prune_removes_only_spent_witness:
  "\<exists>m'. PruneSlotIndexWithoutLocking exampleUtxo 1 (ApplyDiffWithoutLocking exampleUtxo 1 [exampleOut2] [exampleSpent] exampleGenesis) = Inr m' \<and>
     ReadOutputByOutputIDWithoutLocking exampleUtxo m' (spentOutputID exampleSpent) = Inl KeyNotFound"
  using prune_removes_only_spent[of exampleUtxo exampleGenesis "[exampleOut2]" "[exampleSpent]" 1] by auto

subsection \<open>The raw reader\<close>

text \<open>C20: The raw reader of a stored output skips the block ID and sixteen bytes, but with the four
  bytes of a slot index only eight precede the encoded output. So what it returns lacks the first
  eight bytes of the encoded output and ends with the length and the bytes of the proof; and an
  output and proof of at most four bytes together are refused.
\<close>

theorem raw_output_bytes_are_misaligned:
  assumes "utxo_env_ok E" and "SlotIndexLength E = 4" and "wf_output E o'"
    and "store m (1 # outputID o') = Some (Output_KVStorableValue E o')"
  shows "ReadRawOutputBytesByOutputIDWithoutLocking E m (outputID o') =
    (if length (encodedOutput o') + length (encodedProof o') \<le> 4 then Inl InvalidOutputLength
     else Inr (drop 8 (encodedOutput o' @ put_le (word_of_nat (length (encodedProof o')) :: u32) @ encodedProof o')))"
proof -
  have l: "length (SlotBytes E s) = 4" for s using assms(1,2) by (simp add: utxo_env_ok_def slot_codec_def)
  then have "drop (16 + BlockIDLength E) (Output_KVStorableValue E o') =
      drop 8 (encodedOutput o' @ put_le (word_of_nat (length (encodedProof o')) :: u32) @ encodedProof o')"
    using assms(3) by (simp add: Output_value[OF assms(1)] wf_output_def)
  moreover have "length (Output_KVStorableValue E o') = BlockIDLength E + 12 + length (encodedOutput o') + length (encodedProof o')"
    using assms(3) l by (simp add: Output_value[OF assms(1)] wf_output_def)
  ultimately show ?thesis
    using assms(4) by (auto simp: ReadRawOutputBytesByOutputIDWithoutLocking_def storage_keys[OF assms(1)] or_err_def)
qed

theorem raw_output_bytes_are_misaligned_witness:
  "ReadRawOutputBytesByOutputIDWithoutLocking exampleUtxo (ApplyDiffWithoutLocking exampleUtxo 1 [exampleOut2] [exampleSpent] exampleGenesis)
     (outputID exampleOut2) = Inr [5, 6, 7, 8]"
proof -
  have "store (ApplyDiffWithoutLocking exampleUtxo 1 [exampleOut2] [exampleSpent] exampleGenesis) (1 # outputID exampleOut2) =
      Some (Output_KVStorableValue exampleUtxo exampleOut2)"
    by (rule Apply_lookup(1)[OF exampleUtxo_ok exampleDiff_fits]) simp
  from raw_output_bytes_are_misaligned[OF exampleUtxo_ok _ example_wf(2) this] show ?thesis
    by (simp add: exampleUtxo_def exampleOut2_def)
qed

end
