(* ===== verification/IoUtils.thy ===== *)
theory IoUtils
  imports External
begin

text \<open>
  Writing to a stream with a position (\<open>pkg/utils/ioutils.go\<close>). An \<open>io.WriteSeeker\<close> is a file in
  memory: its bytes and the position of the next write, which overwrites what is there and extends
  the file at its end. Failures of the device are not modelled; the errors are those the code
  itself returns, and those of a seek before the start. File positions are integers.
\<close>

section \<open>The file\<close>

record WriteSeeker =
  content :: bytes
  position :: nat

datatype io_error = ValueLengthUnknown | NegativePosition | NoBookmark string | WriteIntoFuture

definition Write :: "bytes \<Rightarrow> WriteSeeker \<Rightarrow> WriteSeeker" where
  "Write bs w =
     (let p = position w; c = content w @ replicate (p - length (content w)) 0
      in w\<lparr>content := take p c @ bs @ drop (p + length bs) c, position := p + length bs\<rparr>)"

definition SeekStart :: "int \<Rightarrow> WriteSeeker \<Rightarrow> io_error + WriteSeeker" where
  "SeekStart p w = (if p < 0 then Inl NegativePosition else Inr (w\<lparr>position := nat p\<rparr>))"

definition SeekCurrent :: "int \<Rightarrow> WriteSeeker \<Rightarrow> io_error + WriteSeeker" where
  "SeekCurrent d w = SeekStart (int (position w) + d) w"

text \<open>A value given to \<open>binary.Write\<close>: its little-endian bytes if its type has a fixed size.\<close>

type_synonym go_value = "bytes option"

section \<open>Helpers\<close>

definition increaseOffsets :: "int \<Rightarrow> int list \<Rightarrow> int list" where
  "increaseOffsets amount offsets = map (\<lambda>offset. offset + amount) offsets"

definition WriteValueFunc :: "go_value \<Rightarrow> int list \<Rightarrow> WriteSeeker \<Rightarrow> io_error + (int list \<times> WriteSeeker)" where
  "WriteValueFunc val offsetsToIncrease w =
     (case val of None \<Rightarrow> Inl ValueLengthUnknown
      | Some bs \<Rightarrow> Inr (increaseOffsets (int (length bs)) offsetsToIncrease, Write bs w))"

definition WriteBytesFunc :: "bytes \<Rightarrow> int list \<Rightarrow> WriteSeeker \<Rightarrow> io_error + (int list \<times> WriteSeeker)" where
  "WriteBytesFunc bs offsetsToIncrease w = Inr (increaseOffsets (int (length bs)) offsetsToIncrease, Write bs w)"

section \<open>The positioned writer\<close>

record PositionedWriter =
  bookmarks :: "string \<rightharpoonup> int"
  writer :: WriteSeeker

definition NewPositionedWriter :: "WriteSeeker \<Rightarrow> PositionedWriter" where
  "NewPositionedWriter w = \<lparr>bookmarks = Map.empty, writer = w\<rparr>"

definition PositionedWriter_WriteBytes :: "bytes \<Rightarrow> PositionedWriter \<Rightarrow> io_error + PositionedWriter" where
  "PositionedWriter_WriteBytes bs p = bind_res (WriteBytesFunc bs [] (writer p)) (\<lambda>(_, w). Inr (p\<lparr>writer := w\<rparr>))"

definition WriteValue :: "string \<Rightarrow> go_value \<Rightarrow> bool \<Rightarrow> PositionedWriter \<Rightarrow> io_error + PositionedWriter" where
  "WriteValue name val saveBookmark p =
     bind_res (if saveBookmark
               then bind_res (SeekCurrent 0 (writer p)) (\<lambda>w. Inr (p\<lparr>writer := w, bookmarks := (bookmarks p)(name \<mapsto> int (position w))\<rparr>))
               else Inr p) (\<lambda>p.
     bind_res (WriteValueFunc val [] (writer p)) (\<lambda>(_, w). Inr (p\<lparr>writer := w\<rparr>)))"

definition WriteValueAtBookmark :: "string \<Rightarrow> go_value \<Rightarrow> PositionedWriter \<Rightarrow> io_error + PositionedWriter" where
  "WriteValueAtBookmark name val p =
     (case bookmarks p name of
        None \<Rightarrow> Inl (NoBookmark name)
      | Some bookmarkPosition \<Rightarrow>
          bind_res (SeekCurrent 0 (writer p)) (\<lambda>w.
          let originalPosition = int (position w) in
          if originalPosition \<le> bookmarkPosition then Inl WriteIntoFuture
          else bind_res (SeekStart bookmarkPosition w) (\<lambda>w.
               bind_res (WriteValueFunc val [] w) (\<lambda>(_, w).
               bind_res (SeekStart originalPosition w) (\<lambda>w. Inr (p\<lparr>writer := w\<rparr>))))))"

section \<open>Writing at the end and patching\<close>

text \<open>A file whose next write appends.\<close>

definition at_end :: "WriteSeeker \<Rightarrow> bool" where
  "at_end w \<longleftrightarrow> position w = length (content w)"

lemma Write_at_end: "at_end w \<Longrightarrow> content (Write bs w) = content w @ bs \<and> at_end (Write bs w)"
  by (simp add: at_end_def Write_def)

lemma Write_at_end_eq: "at_end w \<Longrightarrow> Write bs w = w\<lparr>content := content w @ bs, position := length (content w) + length bs\<rparr>"
  by (simp add: at_end_def Write_def)

lemma SeekCurrent_0 [simp]: "SeekCurrent 0 w = Inr w"
  by (simp add: SeekCurrent_def SeekStart_def)

lemma WriteBytesFunc_simp [simp]:
  "WriteBytesFunc bs os w = Inr (map (\<lambda>o'. o' + int (length bs)) os, Write bs w)"
  "WriteValueFunc (Some bs) os w = Inr (map (\<lambda>o'. o' + int (length bs)) os, Write bs w)"
  "WriteValueFunc None os w = Inl ValueLengthUnknown"
  by (simp_all add: WriteBytesFunc_def WriteValueFunc_def increaseOffsets_def)

lemma Write_patch:
  assumes "content w = a @ b @ c" and "position w = length a" and "length b = length b'"
  shows "Write b' w = w\<lparr>content := a @ b' @ c, position := length a + length b'\<rparr>"
  using assms by (simp add: Write_def)

text \<open>What a bookmark stands for: the place of a value of known length that was written earlier.\<close>

definition bookmarked :: "string \<Rightarrow> bytes \<Rightarrow> bytes \<Rightarrow> bytes \<Rightarrow> PositionedWriter \<Rightarrow> bool" where
  "bookmarked name a b c p \<longleftrightarrow>
     bookmarks p name = Some (int (length a)) \<and> content (writer p) = a @ b @ c \<and> at_end (writer p)"

lemma WriteValue_bookmarks:
  assumes "at_end (writer p)"
  shows "\<exists>q. WriteValue name (Some b) True p = Inr q \<and> bookmarked name (content (writer p)) b [] q \<and>
    (\<forall>n. n \<noteq> name \<longrightarrow> bookmarks q n = bookmarks p n)"
  using assms Write_at_end[OF assms] by (auto simp: WriteValue_def bookmarked_def at_end_def)

lemma Write_keeps_bookmark:
  assumes "bookmarked name a b c p"
  shows "\<exists>q. PositionedWriter_WriteBytes bs p = Inr q \<and> bookmarked name a b (c @ bs) q"
    and "\<exists>q. WriteValue n (Some bs) False p = Inr q \<and> bookmarked name a b (c @ bs) q"
    and "n \<noteq> name \<Longrightarrow> \<exists>q. WriteValue n (Some bs) True p = Inr q \<and> bookmarked name a b (c @ bs) q"
  using assms Write_at_end[of "writer p" bs]
  by (auto simp: PositionedWriter_WriteBytes_def WriteValue_def bookmarked_def)

lemma WriteValueAtBookmark_patches:
  assumes "bookmarked name a b c p" and "length b' = length b" and "b @ c \<noteq> []"
  shows "\<exists>q. WriteValueAtBookmark name (Some b') p = Inr q \<and> bookmarked name a b' c q"
proof -
  let ?w = "writer p"
  have w: "bookmarks p name = Some (int (length a))" "content ?w = a @ b @ c" "position ?w = length a + (length b + length c)"
    using assms(1) by (auto simp: bookmarked_def at_end_def)
  have "0 < length b + length c" using assms(3) by (cases b) auto
  then have "WriteValueAtBookmark name (Some b') p = Inr (p\<lparr>writer := ?w\<lparr>content := a @ b' @ c\<rparr>\<rparr>)"
    using Write_patch[of "?w\<lparr>position := length a\<rparr>" a b c b'] assms(2) w
    by (simp add: WriteValueAtBookmark_def SeekStart_def)
  then show ?thesis using w assms(2) by (simp add: bookmarked_def at_end_def)
qed

lemma writes_keep_bookmark:
  assumes "bookmarked name a b c p"
  shows "\<exists>q. fold (\<lambda>bs r. bind_res r (PositionedWriter_WriteBytes bs)) bss (Inr p) = Inr q \<and> bookmarked name a b (c @ concat bss) q"
  using assms
proof (induction bss arbitrary: p c)
  case (Cons bs bss)
  obtain q where "PositionedWriter_WriteBytes bs p = Inr q" "bookmarked name a b (c @ bs) q"
    using Write_keeps_bookmark(1)[OF Cons.prems] by blast
  with Cons.IH[of "c @ bs" q] show ?case by simp
qed auto

text \<open>Writing at the end appends.\<close>

definition appended :: "bytes \<Rightarrow> WriteSeeker \<Rightarrow> WriteSeeker" where
  "appended bs w = w\<lparr>content := content w @ bs, position := length (content w) + length bs\<rparr>"

lemma appended_simps:
  "at_end w \<Longrightarrow> Write bs w = appended bs w" "at_end (appended bs w)" "appended b (appended a w) = appended (a @ b) w"
  "at_end w \<Longrightarrow> appended [] w = w" "content (appended bs w) = content w @ bs" "position (appended bs w) = length (content w) + length bs"
  by (simp_all add: Write_at_end_eq appended_def at_end_def)

lemma Write_Write: "Write b (Write a w) = Write (a @ b) w" if "position w \<le> length (content w)"
  using that by (simp add: Write_def Let_def add.commute add.left_commute)

section \<open>Properties\<close>

text \<open>A value written as a placeholder under a bookmark and patched after any further writes stands
  in the file as if it had been written in the first place: the patch has no effect on what was
  written before or after it, and writing goes on at the end of the file. Patching a name that was
  never bookmarked is refused.\<close>

theorem bookmark_patch_in_place:
  assumes "at_end (writer p)" and "length b' = length b" and "b \<noteq> []"
  shows "(\<exists>q. bind_res (fold (\<lambda>bs r. bind_res r (PositionedWriter_WriteBytes bs)) bss (WriteValue name (Some b) True p))
         (WriteValueAtBookmark name (Some b')) = Inr q \<and>
       content (writer q) = content (writer p) @ b' @ concat bss \<and> at_end (writer q)) \<and>
     (bookmarks p other = None \<longrightarrow> WriteValueAtBookmark other val p = Inl (NoBookmark other))"
proof -
  obtain q1 where q1: "WriteValue name (Some b) True p = Inr q1" "bookmarked name (content (writer p)) b [] q1"
    using WriteValue_bookmarks[OF assms(1)] by blast
  obtain q2 where q2: "fold (\<lambda>bs r. bind_res r (PositionedWriter_WriteBytes bs)) bss (Inr q1) = Inr q2"
    "bookmarked name (content (writer p)) b (concat bss) q2"
    using writes_keep_bookmark[OF q1(2), of bss] by auto
  obtain q where "WriteValueAtBookmark name (Some b') q2 = Inr q" "bookmarked name (content (writer p)) b' (concat bss) q"
    using WriteValueAtBookmark_patches[OF q2(2) assms(2)] assms(3) by auto
  then have "bind_res (fold (\<lambda>bs r. bind_res r (PositionedWriter_WriteBytes bs)) bss (WriteValue name (Some b) True p))
         (WriteValueAtBookmark name (Some b')) = Inr q \<and> content (writer q) = content (writer p) @ b' @ concat bss \<and> at_end (writer q)"
    unfolding q1(1) q2(1) by (simp add: bookmarked_def)
  then show ?thesis by (auto simp: WriteValueAtBookmark_def)
qed

theorem bookmark_patch_in_place_witness:
  "\<exists>q. bind_res (fold (\<lambda>bs r. bind_res r (PositionedWriter_WriteBytes bs)) [[1, 2], [3]]
      (WriteValue ''count'' (Some [0, 0]) True (NewPositionedWriter \<lparr>content = [9], position = 1\<rparr>)))
      (WriteValueAtBookmark ''count'' (Some [7, 8])) = Inr q \<and> content (writer q) = [9, 7, 8, 1, 2, 3]"
  using bookmark_patch_in_place[of "NewPositionedWriter \<lparr>content = [9], position = 1\<rparr>" "[7, 8]" "[0, 0]" "[[1, 2], [3]]" "''count''" "[]" None]
  by (auto simp: NewPositionedWriter_def at_end_def)

end
