(* ===== verification/UtxoSnapshot.thy ===== *)
theory UtxoSnapshot
  imports UtxoProperties IoUtils
begin

text \<open>
  Snapshots of the UTXO ledger and rolling it back by several slots
  (\<open>pkg/protocol/engine/utxoledger/snapshot.go\<close>). A reader is the list of the bytes it has not
  delivered yet, a writer the file of \<open>IoUtils\<close>. Decoding an output or a proof with the API of the
  slot of its block, and sorting output IDs, are functions of \<open>iota.go\<close> and fields of the record
  \<open>snapshot_api\<close>. An import that fails gives an error and no ledger.
\<close>

section \<open>What the snapshot uses of \<open>iota.go\<close>\<close>

record snapshot_api =
  DecodesOutput :: "bytes \<Rightarrow> bytes \<Rightarrow> bool"
  DecodesProof :: "bytes \<Rightarrow> bytes \<Rightarrow> bool"
  RemoveDupsAndSort :: "bytes list \<Rightarrow> bytes list"

text \<open>Documented: the sorted list has the same elements, each once; a slot index is four
  little-endian bytes.\<close>

definition snapshot_api_ok :: "utxo_env \<Rightarrow> snapshot_api \<Rightarrow> bool" where
  "snapshot_api_ok E A \<longleftrightarrow>
     (\<forall>xs. distinct (RemoveDupsAndSort A xs) \<and> set (RemoveDupsAndSort A xs) = set xs) \<and>
     (\<forall>s. SlotBytes E s = put_le s)"

datatype snapshot_error = Io io_error | Ledger utxo_error | Malformed | InvalidSlotIndex slot slot

section \<open>Outputs, spents and diffs as bytes\<close>

definition Output_SnapshotBytes :: "utxo_env \<Rightarrow> Output \<Rightarrow> bytes" where
  "Output_SnapshotBytes E o' =
     (let m = WriteBytes (mu E) (outputID o') [];
          m = WriteBytes (mu E) (blockID o') m;
          m = WriteUint32 (mu E) (slotBooked o') m;
          m = WriteUint32 (mu E) (word_of_nat (length (encodedOutput o'))) m;
          m = WriteBytes (mu E) (encodedOutput o') m;
          m = WriteUint32 (mu E) (word_of_nat (length (encodedProof o'))) m
      in WriteBytes (mu E) (encodedProof o') m)"

definition OutputFromSnapshotReader :: "utxo_env \<Rightarrow> snapshot_api \<Rightarrow> bytes \<Rightarrow> (Output \<times> bytes) option" where
  "OutputFromSnapshotReader E A r = do {
     (oid, r) \<leftarrow> take_bytes (OutputIDLength E) r;
     (bid, r) \<leftarrow> take_bytes (BlockIDLength E) r;
     (booked, r) \<leftarrow> get_le r;
     (outputLength :: u32, r) \<leftarrow> get_le r;
     (outputBytes, r) \<leftarrow> take_bytes (unat outputLength) r;
     _ \<leftarrow> (if DecodesOutput A bid outputBytes then Some () else None);
     (proofLength :: u32, r) \<leftarrow> get_le r;
     (proofBytes, r) \<leftarrow> take_bytes (unat proofLength) r;
     _ \<leftarrow> (if DecodesProof A bid proofBytes then Some () else None);
     Some (\<lparr>outputID = oid, blockID = bid, slotBooked = booked, encodedOutput = outputBytes, encodedProof = proofBytes\<rparr>, r)
   }"

definition Spent_SnapshotBytes :: "utxo_env \<Rightarrow> Spent \<Rightarrow> bytes" where
  "Spent_SnapshotBytes E s =
     WriteBytes (mu E) (transactionIDSpent s) (WriteBytes (mu E) (Output_SnapshotBytes E (spentOutput s)) [])"

definition SpentFromSnapshotReader :: "utxo_env \<Rightarrow> snapshot_api \<Rightarrow> slot \<Rightarrow> bytes \<Rightarrow> (Spent \<times> bytes) option" where
  "SpentFromSnapshotReader E A indexSpent r = do {
     (out, r) \<leftarrow> OutputFromSnapshotReader E A r;
     (tx, r) \<leftarrow> take_bytes (TransactionIDLength E) r;
     Some (NewSpent out tx indexSpent, r)
   }"

definition ReadSlotDiffToSnapshotReader :: "utxo_env \<Rightarrow> snapshot_api \<Rightarrow> bytes \<Rightarrow> (SlotDiff \<times> bytes) option" where
  "ReadSlotDiffToSnapshotReader E A r = do {
     (diffIndex, r) \<leftarrow> get_le r;
     (createdCount :: u64, r) \<leftarrow> get_le r;
     (outs, r) \<leftarrow> dec_count (OutputFromSnapshotReader E A) (unat createdCount) r;
     (consumedCount :: u64, r) \<leftarrow> get_le r;
     (sps, r) \<leftarrow> dec_count (SpentFromSnapshotReader E A diffIndex) (unat consumedCount) r;
     Some (\<lparr>Slot = diffIndex, Outputs = outs, Spents = sps\<rparr>, r)
   }"

text \<open>A loop of \<open>WriteBytesFunc\<close> that counts the bytes.\<close>

fun writeEach :: "bytes list \<Rightarrow> int \<Rightarrow> WriteSeeker \<Rightarrow> io_error + (int \<times> WriteSeeker)" where
  "writeEach [] n w = Inr (n, w)"
| "writeEach (bs # bss) n w = bind_res (WriteBytesFunc bs [n] w) (\<lambda>(ns, w). writeEach bss (hd ns) w)"

definition WriteSlotDiffToSnapshotWriter :: "utxo_env \<Rightarrow> SlotDiff \<Rightarrow> WriteSeeker \<Rightarrow> io_error + (int \<times> WriteSeeker)" where
  "WriteSlotDiffToSnapshotWriter E diff w =
     bind_res (WriteValueFunc (Some (SlotBytes E (Slot diff))) [0] w) (\<lambda>(ns, w).
     bind_res (WriteValueFunc (Some (put_le (word_of_nat (length (Outputs diff)) :: u64))) ns w) (\<lambda>(ns, w).
     bind_res (writeEach (map (Output_SnapshotBytes E) (sortedOutputs diff)) (hd ns) w) (\<lambda>(n, w).
     bind_res (WriteValueFunc (Some (put_le (word_of_nat (length (Spents diff)) :: u64))) [n] w) (\<lambda>(ns, w).
       writeEach (map (Spent_SnapshotBytes E) (sortedSpents diff)) (hd ns) w))))"

section \<open>Import\<close>

fun importOutputs :: "utxo_env \<Rightarrow> snapshot_api \<Rightarrow> nat \<Rightarrow> Manager \<Rightarrow> bytes \<Rightarrow> snapshot_error + (Manager \<times> bytes)" where
  "importOutputs E A 0 m r = Inr (m, r)"
| "importOutputs E A (Suc n) m r =
     bind_res (or_err Malformed (OutputFromSnapshotReader E A r)) (\<lambda>(out, r).
       importOutputs E A n (importUnspentOutputWithoutLocking E out m) r)"

fun importDiffs :: "utxo_env \<Rightarrow> snapshot_api \<Rightarrow> slot \<Rightarrow> nat \<Rightarrow> Manager \<Rightarrow> bytes \<Rightarrow> snapshot_error + (Manager \<times> bytes)" where
  "importDiffs E A expected 0 m r = Inr (m, r)"
| "importDiffs E A expected (Suc n) m r =
     bind_res (or_err Malformed (ReadSlotDiffToSnapshotReader E A r)) (\<lambda>(diff, r).
       if Slot diff \<noteq> expected then Inl (InvalidSlotIndex (Slot diff) expected)
       else importDiffs E A (expected - 1) n (RollbackDiffWithoutLocking E (Slot diff) (Outputs diff) (Spents diff) m) r)"

definition Import :: "utxo_env \<Rightarrow> snapshot_api \<Rightarrow> bytes \<Rightarrow> Manager \<Rightarrow> snapshot_error + (Manager \<times> bytes)" where
  "Import E A r m =
     bind_res (or_err Malformed (get_le r)) (\<lambda>(snapshotLedgerIndex, r).
     let m = StoreLedgerIndexWithoutLocking E snapshotLedgerIndex m in
     bind_res (or_err Malformed (get_le r)) (\<lambda>(outputCount :: u64, r).
     bind_res (or_err Malformed (get_le r)) (\<lambda>(slotDiffCount :: u64, r).
     bind_res (importOutputs E A (unat outputCount) m r) (\<lambda>(m, r).
       importDiffs E A snapshotLedgerIndex (unat slotDiffCount) m r))))"

section \<open>Export\<close>

fun exportOutputs :: "utxo_env \<Rightarrow> Manager \<Rightarrow> bytes list \<Rightarrow> u64 \<Rightarrow> int \<Rightarrow> WriteSeeker \<Rightarrow> snapshot_error + (u64 \<times> int \<times> WriteSeeker)" where
  "exportOutputs E m [] n rel w = Inr (n, rel, w)"
| "exportOutputs E m (i # is) n rel w =
     bind_res (lift_err Ledger (ReadOutputByOutputIDWithoutLocking E m i)) (\<lambda>out.
     bind_res (lift_err Io (WriteBytesFunc (Output_SnapshotBytes E out) [rel] w)) (\<lambda>(rels, w).
       exportOutputs E m is (n + 1) (hd rels) w))"

function exportDiffs :: "utxo_env \<Rightarrow> Manager \<Rightarrow> slot \<Rightarrow> slot \<Rightarrow> u64 \<Rightarrow> int \<Rightarrow> WriteSeeker \<Rightarrow> snapshot_error + (u64 \<times> int \<times> WriteSeeker)" where
  "exportDiffs E m targetIndex diffIndex n rel w =
     (if targetIndex < diffIndex
      then bind_res (lift_err Ledger (SlotDiffWithoutLocking E diffIndex m)) (\<lambda>diff.
           bind_res (lift_err Io (WriteSlotDiffToSnapshotWriter E diff w)) (\<lambda>(written, w).
             exportDiffs E m targetIndex (diffIndex - 1) (n + 1) (rel + written) w))
      else Inr (n, rel, w))"
  by pat_completeness auto

termination exportDiffs by (relation "measure (\<lambda>(E, m, t, d, n, rel, w). unat d)") (auto simp: unat_pred_less)

definition Export :: "utxo_env \<Rightarrow> snapshot_api \<Rightarrow> slot \<Rightarrow> Manager \<Rightarrow> WriteSeeker \<Rightarrow> snapshot_error + WriteSeeker" where
  "Export E A targetIndex m w =
     bind_res (lift_err Ledger (ReadLedgerIndexWithoutLocking E m)) (\<lambda>ledgerIndex.
     bind_res (lift_err Io (WriteValueFunc (Some (put_le ledgerIndex)) [] w)) (\<lambda>(_, w).
     bind_res (lift_err Io (WriteValueFunc (Some (put_le (0 :: u64))) [0] w)) (\<lambda>(rels, w).
     bind_res (lift_err Io (WriteValueFunc (Some (put_le (0 :: u64))) rels w)) (\<lambda>(rels, w).
     bind_res (lift_err Ledger (UnspentOutputsIDs E m)) (\<lambda>outputIDs.
     bind_res (exportOutputs E m (RemoveDupsAndSort A outputIDs) 0 (hd rels) w) (\<lambda>(outputCount, rel, w).
     bind_res (exportDiffs E m targetIndex ledgerIndex 0 rel w) (\<lambda>(slotDiffCount, rel, w).
     bind_res (lift_err Io (SeekCurrent (- rel) w)) (\<lambda>w.
     bind_res (lift_err Io (WriteValueFunc (Some (put_le outputCount)) [0] w)) (\<lambda>(sizes, w).
     bind_res (lift_err Io (WriteValueFunc (Some (put_le slotDiffCount)) sizes w)) (\<lambda>(sizes, w).
       lift_err Io (SeekCurrent (rel - hd sizes) w)))))))))))"

section \<open>Rolling back several slots\<close>

function rollbackLoop :: "utxo_env \<Rightarrow> slot \<Rightarrow> slot \<Rightarrow> Manager \<Rightarrow> utxo_error + Manager" where
  "rollbackLoop E targetSlot diffIndex m =
     (if targetSlot < diffIndex
      then bind_res (SlotDiffWithoutLocking E diffIndex m) (\<lambda>diff.
             rollbackLoop E targetSlot (diffIndex - 1) (RollbackDiffWithoutLocking E (Slot diff) (Outputs diff) (Spents diff) m))
      else Inr m)"
  by pat_completeness auto
termination rollbackLoop by (relation "measure (\<lambda>(E, t, d, m). unat d)") (auto simp: unat_pred_less)

definition Rollback :: "utxo_env \<Rightarrow> slot \<Rightarrow> Manager \<Rightarrow> utxo_error + Manager" where
  "Rollback E targetSlot m = bind_res (ReadLedgerIndexWithoutLocking E m) (\<lambda>ledgerIndex. rollbackLoop E targetSlot ledgerIndex m)"

declare exportDiffs.simps [simp del] rollbackLoop.simps [simp del]

section \<open>The formats read back what was written\<close>

definition snapshot_output :: "utxo_env \<Rightarrow> snapshot_api \<Rightarrow> Output \<Rightarrow> bool" where
  "snapshot_output E A o' \<longleftrightarrow>
     utxo_env_ok E \<and> wf_output E o' \<and> DecodesOutput A (blockID o') (encodedOutput o') \<and> DecodesProof A (blockID o') (encodedProof o')"

definition snapshot_spent :: "utxo_env \<Rightarrow> snapshot_api \<Rightarrow> slot \<Rightarrow> Spent \<Rightarrow> bool" where
  "snapshot_spent E A sl s \<longleftrightarrow> snapshot_output E A (spentOutput s) \<and> wf_spent E s \<and> slotSpent s = sl"

definition snapshot_diff :: "utxo_env \<Rightarrow> snapshot_api \<Rightarrow> SlotDiff \<Rightarrow> bool" where
  "snapshot_diff E A d \<longleftrightarrow>
     snapshot_api_ok E A \<and> (\<forall>o' \<in> set (Outputs d). snapshot_output E A o') \<and> (\<forall>s \<in> set (Spents d). snapshot_spent E A (Slot d) s) \<and>
     length (Outputs d) < 2 ^ 32 \<and> length (Spents d) < 2 ^ 32"

text \<open>A diff as the export writes it, in the order of its lists.\<close>

definition SlotDiff_SnapshotBytes :: "utxo_env \<Rightarrow> SlotDiff \<Rightarrow> bytes" where
  "SlotDiff_SnapshotBytes E d =
     SlotBytes E (Slot d) @ put_le (word_of_nat (length (Outputs d)) :: u64) @ concat (map (Output_SnapshotBytes E) (Outputs d)) @
     put_le (word_of_nat (length (Spents d)) :: u64) @ concat (map (Spent_SnapshotBytes E) (Spents d))"

lemma mu_writes:
  assumes "utxo_env_ok E"
  shows "WriteBytes (mu E) b r = r @ b" and "WriteUint32 (mu E) x r = r @ put_le x"
  using assms by (simp_all add: utxo_env_ok_def marshalutil_spec_def)

interpretation snapshotOutput: codec "Output_SnapshotBytes E" "OutputFromSnapshotReader E A" "snapshot_output E A" for E A
proof
  fix o' r assume o': "snapshot_output E A o'"
  then have E: "utxo_env_ok E" by (simp add: snapshot_output_def)
  have "unat (word_of_nat (length (encodedOutput o')) :: u32) = length (encodedOutput o')"
    "unat (word_of_nat (length (encodedProof o')) :: u32) = length (encodedProof o')"
    using o' by (simp_all add: snapshot_output_def wf_output_def unat_of_nat_small)
  with o' show "OutputFromSnapshotReader E A (Output_SnapshotBytes E o' @ r) = Some (o', r)"
    by (simp add: OutputFromSnapshotReader_def Output_SnapshotBytes_def mu_writes[OF E] snapshot_output_def wf_output_def
        take_bytes_append get_put_le_width)
qed

interpretation snapshotSpent: codec "Spent_SnapshotBytes E" "SpentFromSnapshotReader E A sl" "snapshot_spent E A sl" for E A sl
proof
  fix s r assume s: "snapshot_spent E A sl s"
  then have E: "utxo_env_ok E" by (simp add: snapshot_spent_def snapshot_output_def)
  from s show "SpentFromSnapshotReader E A sl (Spent_SnapshotBytes E s @ r) = Some (s, r)"
    by (simp add: SpentFromSnapshotReader_def Spent_SnapshotBytes_def mu_writes[OF E] snapshot_spent_def wf_spent_def
        snapshotOutput.dec_enc take_bytes_append NewSpent_def)
qed

interpretation snapshotDiff: codec "SlotDiff_SnapshotBytes E" "ReadSlotDiffToSnapshotReader E A" "snapshot_diff E A" for E A
proof
  fix d r assume d: "snapshot_diff E A d"
  then have "unat (word_of_nat (length (Outputs d)) :: u64) = length (Outputs d)"
    "unat (word_of_nat (length (Spents d)) :: u64) = length (Spents d)" "SlotBytes E (Slot d) = put_le (Slot d)"
    by (simp_all add: snapshot_diff_def snapshot_api_ok_def unat_of_nat_small)
  with d show "ReadSlotDiffToSnapshotReader E A (SlotDiff_SnapshotBytes E d @ r) = Some (d, r)"
    by (simp add: ReadSlotDiffToSnapshotReader_def SlotDiff_SnapshotBytes_def snapshot_diff_def get_put_le_width
        snapshotOutput.dec_count_concat snapshotSpent.dec_count_concat)
qed

section \<open>Consecutive slots\<close>

text \<open>The ledger \<open>m\<close> at slot \<open>s\<close> after the diffs \<open>ds\<close>, newest first, were applied to \<open>m0\<close> at slot \<open>t\<close>.\<close>

inductive slots_applied :: "utxo_env \<Rightarrow> slot \<Rightarrow> Manager \<Rightarrow> slot \<Rightarrow> SlotDiff list \<Rightarrow> Manager \<Rightarrow> bool" for E t m0 where
  start: "ledger_reach E m0 \<Longrightarrow> store m0 [0] = Some (SlotBytes E t) \<Longrightarrow> slots_applied E t m0 t [] m0"
| slot: "slots_applied E t m0 s ds m \<Longrightarrow> s < s + 1 \<Longrightarrow> diff_fits E m outs sps \<Longrightarrow>
    store m (4 # SlotBytes E (s + 1)) = None \<Longrightarrow> length outs < 2 ^ 32 \<Longrightarrow> length sps < 2 ^ 32 \<Longrightarrow>
    slots_applied E t m0 (s + 1) (\<lparr>Slot = s + 1, Outputs = outs, Spents = sps\<rparr> # ds) (ApplyDiffWithoutLocking E (s + 1) outs sps m)"

definition sortedDiff :: "SlotDiff \<Rightarrow> SlotDiff" where
  "sortedDiff d = \<lparr>Slot = Slot d, Outputs = sort_key outputID (Outputs d), Spents = sort_key spentOutputID (Spents d)\<rparr>"

lemma slots_applied_index:
  assumes "utxo_env_ok E" and "slots_applied E t m0 s ds m"
  shows "ledger_reach E m \<and> store m [0] = Some (SlotBytes E s) \<and> t \<le> s"
  using assms(2)
proof induction
  case (slot s ds m outs sps)
  then show ?case
    using Apply_lookup(10)[OF assms(1) slot.hyps(3)] ledger_reach.applied[of E m outs sps "s + 1"] by auto
qed simp

text \<open>The database keeps everything a diff refers to while later slots are applied.\<close>

definition diff_stored :: "utxo_env \<Rightarrow> Manager \<Rightarrow> SlotDiff \<Rightarrow> bool" where
  "diff_stored E m d \<longleftrightarrow>
     store m (4 # SlotBytes E (Slot d)) = Some (SlotDiff_KVStorableValue E d) \<and>
     (\<forall>o' \<in> set (Outputs d). wf_output E o' \<and> store m (1 # outputID o') = Some (Output_KVStorableValue E o')) \<and>
     (\<forall>s \<in> set (Spents d). wf_spent E s \<and> store m (1 # spentOutputID s) = Some (Output_KVStorableValue E (spentOutput s)) \<and>
        store m (2 # spentOutputID s) = Some (Spent_KVStorableValue E s)) \<and>
     length (Outputs d) < 2 ^ 32 \<and> length (Spents d) < 2 ^ 32"

lemma diff_stored_read:
  assumes E: "utxo_env_ok E" and d: "diff_stored E m d"
  shows "SlotDiffWithoutLocking E (Slot d) m = Inr (sortedDiff d)"
proof -
  have "\<forall>o' \<in> set (Outputs d). wf_output E o' \<and> ReadOutputByOutputIDWithoutLocking E m (outputID o') = Inr o'"
    using ReadOutput_stored[OF E] d by (simp add: diff_stored_def)
  moreover have "\<forall>s \<in> set (Spents d). wf_spent E s \<and> ReadSpentForOutputIDWithoutLocking E m (spentOutputID s) = Inr s"
    using ReadSpent_stored[OF E] d by (simp add: diff_stored_def)
  ultimately show ?thesis
    using SlotDiff_stored[OF E, of m "Slot d" "Outputs d" "Spents d"] d by (cases d) (simp add: diff_stored_def sortedDiff_def)
qed

lemma diff_stored_Apply:
  assumes E: "utxo_env_ok E" and fits: "diff_fits E m outs sps" and ok: "ledger_ok E m"
    and d: "diff_stored E m d" and "Slot d \<noteq> sl"
  shows "diff_stored E (ApplyDiffWithoutLocking E sl outs sps m) d"
proof -
  note L = Apply_lookup[OF E fits, where sl = sl]
  have 1: "store (ApplyDiffWithoutLocking E sl outs sps m) (1 # i) = store m (1 # i)" if "store m (1 # i) \<noteq> None" for i
    using that fits by (intro L(2)) (auto simp: diff_fits_def)
  have 2: "store (ApplyDiffWithoutLocking E sl outs sps m) (2 # i) = store m (2 # i)" if "store m (2 # i) \<noteq> None" for i
    using that fits ok by (intro L(4)) (auto simp: diff_fits_def ledger_ok_def)
  have "SlotBytes E (Slot d) \<noteq> SlotBytes E sl"
    using assms(5) E unfolding utxo_env_ok_def slot_codec_def by (metis option.inject)
  then show ?thesis using d 1 2 L(9) by (simp add: diff_stored_def)
qed

lemma diff_stored_new:
  assumes E: "utxo_env_ok E" and fits: "diff_fits E m outs sps" and "length outs < 2 ^ 32" and "length sps < 2 ^ 32"
  shows "diff_stored E (ApplyDiffWithoutLocking E sl outs sps m) \<lparr>Slot = sl, Outputs = outs, Spents = sps\<rparr>"
proof -
  have "spentOutputID s \<notin> outputID ` set outs" if "s \<in> set sps" for s using diff_fits_disjoint[OF fits _ that] by force
  then show ?thesis using Apply_lookup[OF E fits, where sl = sl] fits assms(3,4) by (auto simp: diff_stored_def diff_fits_def)
qed

lemma slots_applied_stored:
  assumes "utxo_env_ok E" and "slots_applied E t m0 s ds m"
  shows "\<forall>d \<in> set ds. diff_stored E m d \<and> Slot d \<le> s"
  using assms(2)
proof induction
  case (slot s ds m outs sps)
  have "ledger_ok E m" using slots_applied_index[OF assms(1) slot.hyps(1)] ledger_reach_ok[OF assms(1)] by blast
  moreover have "Slot d \<noteq> s + 1" if "d \<in> set ds" for d using slot.IH slot.hyps(2) that by auto
  ultimately show ?case
    using diff_stored_Apply[OF assms(1) slot.hyps(3), where sl = "s + 1"] diff_stored_new[OF assms(1) slot.hyps(3,5,6), of "s + 1"]
      slot.IH slot.hyps(2) by auto
qed simp

lemma rollbackLoop_restores:
  assumes E: "utxo_env_ok E" and "slots_applied E t m0 s ds m"
  shows "rollbackLoop E t s m = Inr m0"
  using assms(2)
proof induction
  case (slot s ds m outs sps)
  let ?d = "\<lparr>Slot = s + 1, Outputs = outs, Spents = sps\<rparr>" and ?m = "ApplyDiffWithoutLocking E (s + 1) outs sps m"
  note i = slots_applied_index[OF E slot.hyps(1)]
  have "SlotDiffWithoutLocking E (s + 1) ?m = Inr (sortedDiff ?d)"
    using diff_stored_read[OF E diff_stored_new[OF E slot.hyps(3,5,6), of "s + 1"]] by simp
  moreover have "RollbackDiffWithoutLocking E (s + 1) (sort_key outputID outs) (sort_key spentOutputID sps) ?m = m"
    using Rollback_restores[OF E slot.hyps(3) _ slot.hyps(4), of "sort_key outputID outs" "sort_key spentOutputID sps"] i
      ledger_reach_ok[OF E] by simp
  moreover have "t < s + 1" using i slot.hyps(2) by auto
  ultimately show ?case using slot.IH by (subst rollbackLoop.simps) (simp add: sortedDiff_def)
qed (simp add: rollbackLoop.simps)

section \<open>What an export writes\<close>

lemma writeEach_appends: "at_end w \<Longrightarrow> writeEach bss n w = Inr (n + int (length (concat bss)), appended (concat bss) w)"
  by (induction bss arbitrary: n w) (simp_all add: appended_simps)

lemma WriteSlotDiff_appends:
  "at_end w \<Longrightarrow> WriteSlotDiffToSnapshotWriter E (sortedDiff d) w =
     Inr (int (length (SlotDiff_SnapshotBytes E (sortedDiff d))), appended (SlotDiff_SnapshotBytes E (sortedDiff d)) w)"
proof -
  have "sortedOutputs (sortedDiff d) = Outputs (sortedDiff d)" "sortedSpents (sortedDiff d) = Spents (sortedDiff d)"
    by (simp_all add: sortedOutputs_def sortedSpents_def sortedDiff_def sort_key_id_if_sorted)
  then show "at_end w \<Longrightarrow> ?thesis"
    by (simp add: WriteSlotDiffToSnapshotWriter_def SlotDiff_SnapshotBytes_def writeEach_appends appended_simps)
qed

lemma exportOutputs_appends:
  assumes "\<forall>i \<in> set is. ReadOutputByOutputIDWithoutLocking E m i = Inr (f i)" and "at_end w"
  shows "exportOutputs E m is n rel w =
    Inr (n + word_of_nat (length is), rel + int (length (concat (map (Output_SnapshotBytes E \<circ> f) is))),
         appended (concat (map (Output_SnapshotBytes E \<circ> f) is)) w)"
  using assms by (induction "is" arbitrary: n rel w) (simp_all add: appended_simps)

lemma exportDiffs_appends:
  assumes E: "utxo_env_ok E" and "slots_applied E t m0 s ds m" and "\<forall>d \<in> set ds. SlotDiffWithoutLocking E (Slot d) M = Inr (sortedDiff d)"
    and "at_end w"
  shows "exportDiffs E M t s n rel w =
    Inr (n + word_of_nat (length ds), rel + int (length (concat (map (SlotDiff_SnapshotBytes E \<circ> sortedDiff) ds))),
         appended (concat (map (SlotDiff_SnapshotBytes E \<circ> sortedDiff) ds)) w)"
  using assms(2-)
proof (induction arbitrary: n rel w)
  case start
  then show ?case by (simp add: exportDiffs.simps appended_simps)
next
  case (slot s ds m outs sps)
  have "t < s + 1" using slots_applied_index[OF E slot.hyps(1)] slot.hyps(2) by auto
  then show ?case
    using slot.IH slot.prems by (subst exportDiffs.simps) (simp add: WriteSlotDiff_appends appended_simps comp_def)
qed

lemma UnspentOutputsIDs_all:
  assumes "utxo_env_ok E" and "ledger_ok E m" and it: "iterates E" "finite (dom (store m))"
  shows "\<exists>is. UnspentOutputsIDs E m = Inr is \<and> distinct is \<and> set is = unspentIDs m"
proof -
  let ?ks = "keysWithPrefix E [StoreKeyPrefixOutputUnspent] (store m)"
  have step: "bind_res (or_err ParseError (outputIDFromDatabaseKey E k)) (\<lambda>i. Inr (s @ [i], True)) = Inr (s @ [tl k], True)"
    if "k \<in> set ?ks" for k s
    using outputIDFromDatabaseKey_unspent[OF assms that] by simp
  have "UnspentOutputsIDs E m = Inr (fold (\<lambda>k s. s @ [tl k]) ?ks [])"
    unfolding UnspentOutputsIDs_def ForEachUnspentOutputID_def
    by (subst iterate_all[where g = "\<lambda>k s. s @ [tl k]"]) (use step in \<open>blast, simp\<close>)
  moreover have "fold (\<lambda>k s. s @ [tl k]) ks s = s @ map tl ks" for ks :: "bytes list" and s by (induction ks arbitrary: s) auto
  ultimately show ?thesis using unspent_keys[OF it] by simp
qed

text \<open>The bytes of a snapshot.\<close>

definition snapshotBytes :: "utxo_env \<Rightarrow> slot \<Rightarrow> Output list \<Rightarrow> SlotDiff list \<Rightarrow> bytes" where
  "snapshotBytes E s outs ds =
     put_le s @ put_le (word_of_nat (length outs) :: u64) @ put_le (word_of_nat (length ds) :: u64) @
     concat (map (Output_SnapshotBytes E) outs) @ concat (map (SlotDiff_SnapshotBytes E) ds)"

text \<open>The counters are patched in by seeking back over everything that was counted.\<close>

lemma patch_counters:
  assumes "length (x @ y) = length a"
  shows "bind_res (lift_err Io (SeekCurrent (- int (length (a @ c))) (appended (b @ a @ c) w))) (\<lambda>w.
     lift_err Io (SeekCurrent (int (length (a @ c)) - int (length a)) (Write y (Write x w)))) = Inr (appended (b @ (x @ y) @ c) w)"
proof -
  let ?w = "(appended (b @ a @ c) w)\<lparr>position := length (content w @ b)\<rparr>"
  let ?v = "?w\<lparr>content := (content w @ b) @ (x @ y) @ c, position := length (content w @ b) + length (x @ y)\<rparr>"
  have "int (position (appended (b @ a @ c) w)) + - int (length (a @ c)) = int (length (content w @ b))" by (simp add: appended_def)
  then have 1: "SeekCurrent (- int (length (a @ c))) (appended (b @ a @ c) w) = Inr ?w"
    unfolding SeekCurrent_def SeekStart_def by simp
  have "Write (x @ y) ?w = ?v" using assms by (intro Write_patch[where b = a]) (simp_all add: appended_def)
  moreover have "Write y (Write x ?w) = Write (x @ y) ?w" by (rule Write_Write) (simp add: appended_def)
  ultimately have 2: "Write y (Write x ?w) = ?v" by simp
  have "int (position ?v) + (int (length (a @ c)) - int (length a)) = int (length (content w) + length (b @ (x @ y) @ c))" by simp
  then have 3: "SeekCurrent (int (length (a @ c)) - int (length a)) ?v = Inr (appended (b @ (x @ y) @ c) w)"
    unfolding SeekCurrent_def SeekStart_def by (simp only: nat_int) (simp add: appended_def)
  show ?thesis by (simp only: 1 2 3 lift_err_simps bind_res_simps)
qed

lemma Export_content:
  assumes E: "utxo_env_ok E" and A: "snapshot_api_ok E A" and it: "iterates E"
    and applied: "slots_applied E t m0 s ds m" and w: "at_end w"
  shows "\<exists>xs. distinct xs \<and> set xs = unspentIDs m \<and>
    Export E A t m w = Inr (appended (snapshotBytes E s (map (outputAt E m) xs) (map sortedDiff ds)) w)"
proof -
  note i = slots_applied_index[OF E applied]
  have ok: "ledger_ok E m" "finite (dom (store m))" using ledger_reach_ok[OF E] i by auto
  obtain js where js: "UnspentOutputsIDs E m = Inr js" "set js = unspentIDs m"
    using UnspentOutputsIDs_all[OF E ok(1) it ok(2)] by auto
  define xs where "xs = RemoveDupsAndSort A js"
  have xs: "distinct xs" "set xs = unspentIDs m" using A js by (simp_all add: xs_def snapshot_api_ok_def)
  have idx: "ReadLedgerIndexWithoutLocking E m = Inr s"
    using i E by (simp add: ReadLedgerIndexWithoutLocking_def StoreKeyPrefixLedgerSlotIndex_def utxo_env_ok_def slot_codec_def)
  let ?O = "concat (map (Output_SnapshotBytes E \<circ> outputAt E m) xs)"
  let ?D = "concat (map (SlotDiff_SnapshotBytes E \<circ> sortedDiff) ds)"
  let ?z = "put_le (0 :: u64) @ put_le (0 :: u64)"
  let ?n = "put_le (word_of_nat (length xs) :: u64) @ put_le (word_of_nat (length ds) :: u64)"
  have outs: "exportOutputs E m xs 0 16 v = Inr (word_of_nat (length xs), 16 + int (length ?O), appended ?O v)" if "at_end v" for v
    using exportOutputs_appends[of xs E m "outputAt E m" v 0 16] outputAt_unspent(1)[OF E ok(1)] xs(2) that by simp
  have "\<forall>d \<in> set ds. SlotDiffWithoutLocking E (Slot d) m = Inr (sortedDiff d)"
    using slots_applied_stored[OF E applied] diff_stored_read[OF E] by blast
  then have diffs: "exportDiffs E m t s 0 rel v = Inr (word_of_nat (length ds), rel + int (length ?D), appended ?D v)" if "at_end v" for rel v
    using exportDiffs_appends[OF E applied _ that, of m 0 rel] by simp
  have "Export E A t m w =
      bind_res (lift_err Io (SeekCurrent (- int (length (?z @ ?O @ ?D))) (appended (put_le s @ ?z @ ?O @ ?D) w))) (\<lambda>w.
        lift_err Io (SeekCurrent (int (length (?z @ ?O @ ?D)) - int (length ?z))
          (Write (put_le (word_of_nat (length ds) :: u64)) (Write (put_le (word_of_nat (length xs) :: u64)) w))))"
    using w unfolding Export_def idx js(1) xs_def[symmetric]
    by (simp add: appended_simps outs diffs xs_def[symmetric] algebra_simps)
  also have "\<dots> = Inr (appended (put_le s @ ?n @ ?O @ ?D) w)" by (rule patch_counters) simp
  also have "put_le s @ ?n @ ?O @ ?D = snapshotBytes E s (map (outputAt E m) xs) (map sortedDiff ds)" by (simp add: snapshotBytes_def comp_def)
  finally show ?thesis using xs by blast
qed

section \<open>What an import restores\<close>

lemma importOutputs_concat:
  "(\<forall>o' \<in> set outs. snapshot_output E A o') \<Longrightarrow>
   importOutputs E A (length outs) m (concat (map (Output_SnapshotBytes E) outs) @ r) =
     Inr (fold (importUnspentOutputWithoutLocking E) outs m, r)"
  by (induction outs arbitrary: m) (simp_all add: snapshotOutput.dec_enc)

text \<open>Two ledgers with the same unspent outputs, state tree and index.\<close>

definition same_unspent :: "Manager \<Rightarrow> Manager \<Rightarrow> bool" where
  "same_unspent m' m \<longleftrightarrow>
     (\<forall>i. store m' (3 # i) = store m (3 # i)) \<and> (\<forall>i \<in> unspentIDs m. store m' (1 # i) = store m (1 # i)) \<and>
     stateTree m' = stateTree m \<and> store m' [0] = store m [0]"

lemma store_import_entries:
  assumes "utxo_env_ok E"
  shows "store (importUnspentOutputWithoutLocking E o' m) = (store m)(1 # outputID o' \<mapsto> Output_KVStorableValue E o', 3 # outputID o' \<mapsto> [])"
    and "stateTree (importUnspentOutputWithoutLocking E o' m) = (stateTree m)(outputID o' \<mapsto> CreationSlot E (outputID o'))"
  by (simp_all add: store_import Commit_def entry_defs storage_keys[OF assms])
    (simp add: importUnspentOutputWithoutLocking_def newStateMetadata_def SlotCreated_def)

lemma imported_entries:
  assumes "utxo_env_ok E" and "\<forall>i \<in> set xs. outputID (f i) = i"
  shows "let m' = fold (importUnspentOutputWithoutLocking E) (map f xs) m in store m' (3 # i) = (if i \<in> set xs then Some [] else store m (3 # i)) \<and>
    store m' (1 # i) = (if i \<in> set xs then Some (Output_KVStorableValue E (f i)) else store m (1 # i)) \<and>
    stateTree m' i = (if i \<in> set xs then Some (CreationSlot E i) else stateTree m i) \<and> store m' [0] = store m [0]"
  using assms(2) unfolding Let_def by (induction xs arbitrary: m) (auto simp: store_import_entries[OF assms(1)])

lemma outputAt_stored:
  assumes "utxo_env_ok E" and "ledger_ok E m" and "i \<in> unspentIDs m"
  shows "store m (1 # i) = Some (Output_KVStorableValue E (outputAt E m i)) \<and> store m (3 # i) = Some [] \<and> wf_output E (outputAt E m i)"
proof -
  obtain o' where o': "wf_output E o'" "outputID o' = i" "store m (1 # i) = Some (Output_KVStorableValue E o')" "store m (3 # i) = Some []"
    using assms(2,3) by (auto simp: ledger_ok_def unspentIDs_def)
  then have "outputAt E m i = o'" using ReadOutput_stored[OF assms(1) o'(1)] by (simp add: outputAt_def)
  then show ?thesis using o' by simp
qed

lemma imported_same_unspent:
  assumes E: "utxo_env_ok E" and ok: "ledger_ok E m" and idx: "store m [0] = Some (SlotBytes E s)" and xs: "set xs = unspentIDs m"
  shows "same_unspent (fold (importUnspentOutputWithoutLocking E) (map (outputAt E m) xs) (StoreLedgerIndexWithoutLocking E s NewManager)) m"
    (is "same_unspent ?m m")
proof -
  have "\<forall>i \<in> set xs. outputID (outputAt E m i) = i" using outputAt_unspent(2)[OF E ok] xs by simp
  note I = imported_entries[OF E this, of "StoreLedgerIndexWithoutLocking E s NewManager", unfolded Let_def]
  have new: "store (StoreLedgerIndexWithoutLocking E s NewManager) = [[0] \<mapsto> SlotBytes E s]"
    "stateTree (StoreLedgerIndexWithoutLocking E s NewManager) = Map.empty"
    by (simp_all add: StoreLedgerIndexWithoutLocking_def StoreKeyPrefixLedgerSlotIndex_def NewManager_def)
  have "store ?m (3 # i) = store m (3 # i) \<and> stateTree ?m i = stateTree m i" for i
    using I[of i] ok xs outputAt_stored[OF E ok, of i] by (auto simp: new ledger_ok_def unspentIDs_def)
  then show ?thesis
    using I xs idx outputAt_stored[OF E ok] by (auto simp: same_unspent_def fun_eq_iff new)
qed

lemma Rollback_lookup:
  assumes E: "utxo_env_ok E" and fits: "diff_fits E m outs sps" and same: "set outs' = set outs" "set sps' = set sps"
  shows "store (RollbackDiffWithoutLocking E sl outs' sps' m') (3 # i) =
      (if i \<in> spentOutputID ` set sps then Some [] else if i \<in> outputID ` set outs then None else store m' (3 # i))"
    and "s \<in> set sps \<Longrightarrow> store (RollbackDiffWithoutLocking E sl outs' sps' m') (1 # spentOutputID s) = Some (Output_KVStorableValue E (spentOutput s))"
    and "i \<notin> spentOutputID ` set sps \<Longrightarrow> i \<notin> outputID ` set outs \<Longrightarrow> store (RollbackDiffWithoutLocking E sl outs' sps' m') (1 # i) = store m' (1 # i)"
    and "store (RollbackDiffWithoutLocking E sl outs' sps' m') [0] = Some (SlotBytes E (sl - 1))"
proof -
  let ?R = "rollbackMutations E sl outs' sps'"
  note R = set_rollbackMutations[OF E, of sl outs' sps', unfolded same] and ids = diff_fits_ids[OF fits] and dis = diff_fits_disjoint[OF fits]
  have inj: "s = s'" if "s \<in> set sps" "s' \<in> set sps" "spentOutputID s = spentOutputID s'" for s s'
    using fits that by (auto simp: diff_fits_def inj_on_def)
  have "Commit ?R st (3 # spentOutputID s) = Some []" if "s \<in> set sps" for s st
    using that by (intro Commit_agree[of "MSet (3 # outputID (spentOutput s)) []"]) (auto simp: R ids dest: dis)
  moreover have "Commit ?R st (3 # outputID o') = None" if "o' \<in> set outs" for o' st
    using that by (intro Commit_agree[of "MDelete (3 # outputID o')"]) (auto simp: R ids dest: dis)
  moreover have "Commit ?R st (3 # i) = st (3 # i)" if "i \<notin> spentOutputID ` set sps" "i \<notin> outputID ` set outs" for st
    using that by (intro Commit_untouched) (auto simp: R ids)
  ultimately show "store (RollbackDiffWithoutLocking E sl outs' sps' m') (3 # i) =
      (if i \<in> spentOutputID ` set sps then Some [] else if i \<in> outputID ` set outs then None else store m' (3 # i))"
    unfolding store_Rollback by auto
  show "s \<in> set sps \<Longrightarrow> store (RollbackDiffWithoutLocking E sl outs' sps' m') (1 # spentOutputID s) = Some (Output_KVStorableValue E (spentOutput s))"
    unfolding store_Rollback
    by (rule Commit_agree[of "MSet (1 # outputID (spentOutput s)) (Output_KVStorableValue E (spentOutput s))"]) (auto simp: R ids dest: dis inj)
  show "i \<notin> spentOutputID ` set sps \<Longrightarrow> i \<notin> outputID ` set outs \<Longrightarrow> store (RollbackDiffWithoutLocking E sl outs' sps' m') (1 # i) = store m' (1 # i)"
    unfolding store_Rollback by (rule Commit_untouched) (auto simp: R ids)
  show "store (RollbackDiffWithoutLocking E sl outs' sps' m') [0] = Some (SlotBytes E (sl - 1))"
    unfolding store_Rollback by (rule Commit_agree[of "MSet [0] (SlotBytes E (sl - 1))"]) (auto simp: R)
qed

lemma Rollback_same_unspent:
  assumes E: "utxo_env_ok E" and fits: "diff_fits E m outs sps" and ok: "ledger_ok E m"
    and idx: "store m [0] = Some (SlotBytes E (sl - 1))" and same: "set outs' = set outs" "set sps' = set sps"
    and m': "same_unspent m' (ApplyDiffWithoutLocking E sl outs sps m)"
  shows "same_unspent (RollbackDiffWithoutLocking E sl outs' sps' m') m" (is "same_unspent ?m m")
proof -
  let ?a = "ApplyDiffWithoutLocking E sl outs sps m" and ?O = "outputID ` set outs" and ?S = "spentOutputID ` set sps"
  note R = Rollback_lookup[OF E fits same, where sl = sl and m' = m'] and L = Apply_lookup[OF E fits, where sl = sl]
  have sp: "store m (3 # i) = Some []" "stateTree m i = Some (CreationSlot E i)" if "i \<in> ?S" for i
    using that fits ok by (auto simp: diff_fits_def ledger_ok_def)
  have out: "store m (3 # i) = None" "stateTree m i = None" if "i \<in> ?O" for i
    using that fits ok by (auto simp: diff_fits_def ledger_ok_def)
  have 3: "store ?m (3 # i) = store m (3 # i)" for i
    using sp out m' L(7)[of i] by (auto simp: R(1) same_unspent_def)
  have 1: "store ?m (1 # i) = store m (1 # i)" if "i \<in> unspentIDs m" for i
  proof (cases "i \<in> ?S")
    case True
    then show ?thesis using R(2) fits by (auto simp: diff_fits_def)
  next
    case False
    then have "i \<notin> ?O" "i \<in> unspentIDs ?a" using that out unfolding unspentIDs_Apply[OF E fits] by (auto simp: unspentIDs_def)
    then show ?thesis using R(3)[OF False] L(2) m' by (simp add: same_unspent_def)
  qed
  have "stateTree ?m i = stateTree m i" for i
    using sp(2)[of i] out(2)[of i] m' diff_fits_ids[OF fits]
    by (simp add: stateTree_Rollback[OF E fits same] same_unspent_def stateTree_Apply)
  then show ?thesis using 1 3 R(4) idx by (auto simp: same_unspent_def)
qed

lemma importDiffs_same_unspent:
  assumes E: "utxo_env_ok E" and "slots_applied E t m0 s ds m" and "\<forall>d \<in> set ds. snapshot_diff E A (sortedDiff d)" and "same_unspent m' m"
  shows "\<exists>m''. importDiffs E A s (length ds) m' (concat (map (SlotDiff_SnapshotBytes E) (map sortedDiff ds)) @ r) = Inr (m'', r) \<and> same_unspent m'' m0"
  using assms(2-)
proof (induction arbitrary: m')
  case (slot s ds m outs sps)
  let ?d = "\<lparr>Slot = s + 1, Outputs = outs, Spents = sps\<rparr>"
  note i = slots_applied_index[OF E slot.hyps(1)]
  have "ledger_ok E m" using ledger_reach_ok[OF E] i by blast
  then have "same_unspent (RollbackDiffWithoutLocking E (s + 1) (sort_key outputID outs) (sort_key spentOutputID sps) m') m"
    using Rollback_same_unspent[OF E slot.hyps(3) _ _ _ _ slot.prems(2)] i by simp
  from slot.IH[OF _ this] obtain m'' where "importDiffs E A s (length ds)
      (RollbackDiffWithoutLocking E (s + 1) (sort_key outputID outs) (sort_key spentOutputID sps) m')
      (concat (map (SlotDiff_SnapshotBytes E) (map sortedDiff ds)) @ r) = Inr (m'', r)" "same_unspent m'' m0"
    using slot.prems(1) by auto
  moreover have "ReadSlotDiffToSnapshotReader E A (SlotDiff_SnapshotBytes E (sortedDiff ?d) @ q) = Some (sortedDiff ?d, q)" for q
    using slot.prems(1) by (intro snapshotDiff.dec_enc) simp
  moreover have "Slot (sortedDiff ?d) = s + 1" "Outputs (sortedDiff ?d) = sort_key outputID outs" "Spents (sortedDiff ?d) = sort_key spentOutputID sps"
    by (simp_all add: sortedDiff_def)
  ultimately show ?case by (simp add: or_err_def)
qed simp

lemma slots_applied_length: "slots_applied E t m0 s ds m \<Longrightarrow> unat s = unat t + length ds"
proof (induction rule: slots_applied.induct)
  case (slot s ds m outs sps)
  have "s + 1 \<noteq> 0" using slot.hyps(2) by auto
  then have "unat s = unat (s + 1) - 1" "0 < unat (s + 1)" using unat_minus_one[of "s + 1"] by (simp_all add: unat_gt_0)
  then show ?case using slot.IH by simp
qed simp

section \<open>Properties\<close>

text \<open>What the snapshot has to be able to decode again: every unspent output and every diff.\<close>

definition decodable :: "snapshot_api \<Rightarrow> Output \<Rightarrow> bool" where
  "decodable A o' \<longleftrightarrow> DecodesOutput A (blockID o') (encodedOutput o') \<and> DecodesProof A (blockID o') (encodedProof o')"

definition exportable :: "utxo_env \<Rightarrow> snapshot_api \<Rightarrow> SlotDiff list \<Rightarrow> Manager \<Rightarrow> bool" where
  "exportable E A ds m \<longleftrightarrow>
     (\<forall>i \<in> unspentIDs m. decodable A (outputAt E m i)) \<and> card (unspentIDs m) < 2 ^ 64 \<and>
     (\<forall>d \<in> set ds. (\<forall>o' \<in> set (Outputs d). decodable A o') \<and> (\<forall>s \<in> set (Spents d). decodable A (spentOutput s) \<and> slotSpent s = Slot d))"

lemma exportable_diff:
  assumes E: "utxo_env_ok E" and A: "snapshot_api_ok E A" and "diff_stored E m d" and "exportable E A ds m'" and "d \<in> set ds"
  shows "snapshot_diff E A (sortedDiff d)"
  using assms
  by (auto simp: snapshot_diff_def sortedDiff_def diff_stored_def exportable_def decodable_def snapshot_output_def snapshot_spent_def wf_spent_def)

lemma Import_snapshotBytes:
  assumes E: "utxo_env_ok E" and A: "snapshot_api_ok E A" and applied: "slots_applied E t m0 s ds m"
    and ex: "exportable E A ds m" and xs: "distinct xs" "set xs = unspentIDs m"
  shows "\<exists>m'. Import E A (snapshotBytes E s (map (outputAt E m) xs) (map sortedDiff ds) @ r) NewManager = Inr (m', r) \<and> same_unspent m' m0"
proof -
  note i = slots_applied_index[OF E applied]
  have ok: "ledger_ok E m" using ledger_reach_ok[OF E] i by blast
  let ?m = "fold (importUnspentOutputWithoutLocking E) (map (outputAt E m) xs) (StoreLedgerIndexWithoutLocking E s NewManager)"
  have "length xs = card (unspentIDs m)" using distinct_card[OF xs(1)] xs(2) by simp
  then have un: "unat (word_of_nat (length xs) :: u64) = length xs" using ex by (simp add: exportable_def unat_of_nat_small)
  have "unat s < 2 ^ LENGTH(32)" by (rule unsigned_less)
  then have "length ds < 2 ^ 32" using slots_applied_length[OF applied] by simp
  then have ud: "unat (word_of_nat (length ds) :: u64) = length ds" by (simp add: unat_of_nat_small)
  have "\<forall>o' \<in> set (map (outputAt E m) xs). snapshot_output E A o'"
    using ex xs(2) outputAt_stored[OF E ok] E by (auto simp: exportable_def decodable_def snapshot_output_def)
  note 1 = importOutputs_concat[OF this, of "StoreLedgerIndexWithoutLocking E s NewManager"]
  have "\<forall>d \<in> set ds. snapshot_diff E A (sortedDiff d)"
    using exportable_diff[OF E A _ ex] slots_applied_stored[OF E applied] by blast
  from importDiffs_same_unspent[OF E applied this imported_same_unspent[OF E ok _ xs(2)], where r = r] i
  obtain m' where 2: "importDiffs E A s (length ds) ?m (concat (map (SlotDiff_SnapshotBytes E) (map sortedDiff ds)) @ r) = Inr (m', r)" "same_unspent m' m0"
    by auto
  have "Import E A (snapshotBytes E s (map (outputAt E m) xs) (map sortedDiff ds) @ r) NewManager = Inr (m', r)"
    using 1 2(1) by (simp add: Import_def snapshotBytes_def or_err_def get_put_le_width un ud)
  then show ?thesis using 2(2) by blast
qed

subsection \<open>Rolling back\<close>

text \<open>C15: Rolling the ledger back to an earlier slot gives exactly the ledger of that slot, database and
  state tree, whatever the slots in between created and spent.\<close>

theorem rollback_restores_target_slot:
  assumes "utxo_env_ok E" and "slots_applied E t m0 s ds m"
  shows "Rollback E t m = Inr m0"
proof -
  have "ReadLedgerIndexWithoutLocking E m = Inr s"
    using slots_applied_index[OF assms] assms(1)
    by (simp add: ReadLedgerIndexWithoutLocking_def StoreKeyPrefixLedgerSlotIndex_def utxo_env_ok_def slot_codec_def)
  then show ?thesis using rollbackLoop_restores[OF assms] by (simp add: Rollback_def)
qed

definition exampleSlots :: Manager where
  "exampleSlots = ApplyDiffWithoutLocking exampleUtxo 2 [] [NewSpent exampleOut2 [5] 2]
     (ApplyDiffWithoutLocking exampleUtxo 1 [exampleOut2] [exampleSpent] exampleGenesis)"

lemma exampleSlots_fits:
  "diff_fits exampleUtxo (ApplyDiffWithoutLocking exampleUtxo 1 [exampleOut2] [exampleSpent] exampleGenesis) [] [NewSpent exampleOut2 [5] 2]"
  using Apply_lookup(1,5)[OF exampleUtxo_ok exampleDiff_fits, of exampleOut2, where sl = 1]
  by (simp add: diff_fits_def wf_spent_def NewSpent_def) (simp add: exampleUtxo_def)

lemma exampleSlots_applied:
  "slots_applied exampleUtxo 0 exampleGenesis 2
     [\<lparr>Slot = 2, Outputs = [], Spents = [NewSpent exampleOut2 [5] 2]\<rparr>, \<lparr>Slot = 1, Outputs = [exampleOut2], Spents = [exampleSpent]\<rparr>] exampleSlots"
proof -
  let ?m = "ApplyDiffWithoutLocking exampleUtxo 1 [exampleOut2] [exampleSpent] exampleGenesis"
  note L = Apply_lookup[OF exampleUtxo_ok exampleDiff_fits, where sl = 1]
  have "slots_applied exampleUtxo 0 exampleGenesis 0 [] exampleGenesis"
    by (rule slots_applied.start) (use exampleGenesis_slots in simp_all)
  then have 1: "slots_applied exampleUtxo 0 exampleGenesis (0 + 1) [\<lparr>Slot = 0 + 1, Outputs = [exampleOut2], Spents = [exampleSpent]\<rparr>]
      (ApplyDiffWithoutLocking exampleUtxo (0 + 1) [exampleOut2] [exampleSpent] exampleGenesis)"
    by (rule slots_applied.slot) (use exampleGenesis_slots in simp_all)
  have "store ?m (4 # SlotBytes exampleUtxo (1 + 1)) = None"
  proof -
    have "SlotBytes exampleUtxo (1 + 1) \<noteq> SlotBytes exampleUtxo 1" by (simp add: exampleUtxo_def) code_simp
    then show ?thesis using L(9) exampleGenesis_store by simp
  qed
  then show ?thesis
    using slots_applied.slot[OF 1, of "[]" "[NewSpent exampleOut2 [5] 2]"] exampleSlots_fits by (simp add: exampleSlots_def)
qed

theorem rollback_restores_target_slot_witness: "Rollback exampleUtxo 0 exampleSlots = Inr exampleGenesis"
  using rollback_restores_target_slot[OF exampleUtxo_ok exampleSlots_applied] .

subsection \<open>Snapshots\<close>

text \<open>C14: A snapshot exported for an earlier target slot and imported into an empty ledger gives the
  ledger of the target slot: its index, its unspent outputs with their data and its state tree. The
  export appends to the file, and the import consumes exactly what the export wrote, so a snapshot of
  another component may follow.\<close>

theorem snapshot_restores_target_slot:
  assumes "utxo_env_ok E" and "snapshot_api_ok E A" and "iterates E" and "slots_applied E t m0 s ds m"
    and "exportable E A ds m" and "at_end w"
  shows "\<exists>bs w' m'. Export E A t m w = Inr w' \<and> content w' = content w @ bs \<and> at_end w' \<and>
    Import E A (bs @ r) NewManager = Inr (m', r) \<and>
    ReadLedgerIndexWithoutLocking E m' = Inr t \<and> unspentIDs m' = unspentIDs m0 \<and> stateTree m' = stateTree m0 \<and>
    (\<forall>i \<in> unspentIDs m0. ReadOutputByOutputIDWithoutLocking E m' i = ReadOutputByOutputIDWithoutLocking E m0 i)"
proof -
  obtain xs where xs: "distinct xs" "set xs = unspentIDs m"
    "Export E A t m w = Inr (appended (snapshotBytes E s (map (outputAt E m) xs) (map sortedDiff ds)) w)"
    using Export_content[OF assms(1-4,6)] by blast
  obtain m' where m': "Import E A (snapshotBytes E s (map (outputAt E m) xs) (map sortedDiff ds) @ r) NewManager = Inr (m', r)" "same_unspent m' m0"
    using Import_snapshotBytes[OF assms(1,2,4,5) xs(1,2)] by blast
  have "store m0 [0] = Some (SlotBytes E t)" using assms(4) by (induction) auto
  then have "ReadLedgerIndexWithoutLocking E m' = Inr t"
    using m'(2) assms(1) by (simp add: same_unspent_def ReadLedgerIndexWithoutLocking_def StoreKeyPrefixLedgerSlotIndex_def utxo_env_ok_def slot_codec_def)
  moreover have "unspentIDs m' = unspentIDs m0" "stateTree m' = stateTree m0"
    "\<forall>i \<in> unspentIDs m0. ReadOutputByOutputIDWithoutLocking E m' i = ReadOutputByOutputIDWithoutLocking E m0 i"
    using m'(2) by (simp_all add: same_unspent_def unspentIDs_def ReadOutputByOutputIDWithoutLocking_def storage_keys[OF assms(1)])
  ultimately show ?thesis using xs(3) m'(1) appended_simps(2,5) by blast
qed

definition exampleApi :: snapshot_api where
  "exampleApi = \<lparr>DecodesOutput = \<lambda>_ e. e \<noteq> [], DecodesProof = \<lambda>_ e. e \<noteq> [], RemoveDupsAndSort = \<lambda>xs. sort (remdups xs)\<rparr>"

theorem snapshot_restores_target_slot_witness:
  "\<exists>bs w' m'. Export exampleUtxo exampleApi 0 exampleSlots \<lparr>content = [], position = 0\<rparr> = Inr w' \<and> content w' = bs \<and>
     Import exampleUtxo exampleApi bs NewManager = Inr (m', []) \<and> unspentIDs m' = {[7, 0]}"
proof -
  have ok: "snapshot_api_ok exampleUtxo exampleApi" by (simp add: snapshot_api_ok_def exampleApi_def exampleUtxo_def)
  have g: "unspentIDs exampleGenesis = {[7, 0]}" by (auto simp: unspentIDs_def exampleGenesis_store split: if_splits)
  from unspentIDs_Apply[OF exampleUtxo_ok exampleSlots_fits, of 2] unspentIDs_Apply[OF exampleUtxo_ok exampleDiff_fits, of 1]
  have "unspentIDs exampleSlots = {}"
    by (simp add: exampleSlots_def g NewSpent_def exampleSpent_def exampleOut1_def exampleOut2_def)
  then have "exportable exampleUtxo exampleApi
     [\<lparr>Slot = 2, Outputs = [], Spents = [NewSpent exampleOut2 [5] 2]\<rparr>, \<lparr>Slot = 1, Outputs = [exampleOut2], Spents = [exampleSpent]\<rparr>] exampleSlots"
    by (simp add: exportable_def decodable_def exampleApi_def NewSpent_def exampleSpent_def exampleOut1_def exampleOut2_def)
  from snapshot_restores_target_slot[OF exampleUtxo_ok ok exampleUtxo_iterates exampleSlots_applied this, of "\<lparr>content = [], position = 0\<rparr>" "[]"] g
  show ?thesis by (auto simp: at_end_def)
qed

end
