(* ===== verification/AccountsData.thy ===== *)
theory AccountsData
  imports External
begin

text \<open>
  What the node stores for an account and for the changes of an account in a slot, with the byte
  formats (\<open>pkg/model/version_and_hash.go\<close>, \<open>pkg/model/account_diff.go\<close>,
  \<open>pkg/protocol/engine/accounts/accounts.go\<close>, \<open>credits.go\<close>), and the per-slot store of such changes
  (\<open>pkg/storage/prunable/slotstore/accountdiffs.go\<close>). Identifiers are byte lists here, because their
  bytes are what the formats write. A reader is the list of bytes it has not delivered yet. What the
  code takes from \<open>iota.go\<close> and \<open>hive.go\<close> are the fields of the record \<open>account_api\<close>.
\<close>

section \<open>What the accounts use of \<open>iota.go\<close> and \<open>hive.go\<close>\<close>

text \<open>
  A block issuer key is identified with its bytes, the first of which is its type, and
  \<open>BlockIssuerKeys\<close> with the list of its keys. \<open>WrapfNil\<close> is what \<open>ierrors.Wrapf\<close> makes of a nil error.
\<close>

datatype account_error =
  ReadError | DecodeError | EncodeError | UnsupportedKeyType u8 | SlotPruned slot | NotCommitted slot | TargetTooOld slot |
  GapInSlots slot slot | BlockMissing bytes | AccountMissing bytes | DecayError | StakeOutOfRange | DiffMissing bytes |
  NotAccountOutput | NilDereference

type_synonym issuer_key = bytes

record account_api =
  MU :: marshalutil
  AccountIDLength :: nat
  OutputIDLen :: nat
  IdentifierLength :: nat
  SlotIndexSize :: nat
  EpochIndexLength :: nat
  BaseTokenSize :: nat
  ManaSize :: nat
  EmptyOutputID :: bytes
  VersionBytes :: "u8 \<Rightarrow> bytes"
  VersionFromBytes :: "bytes \<Rightarrow> (u8 \<times> nat) option"
  IdentifierFromBytes :: "bytes \<Rightarrow> (bytes \<times> nat) option"
  BlockIssuerKeyEd25519PublicKey :: u8
  BlockIssuerKeyPublicKeyHash :: u8
  PublicKeyLength :: nat
  ImplicitAddressLength :: nat
  KeyFromPublicKey :: "bytes \<Rightarrow> issuer_key"
  KeyFromImplicitAddress :: "bytes \<Rightarrow> issuer_key"
  KeysAdd :: "issuer_key \<Rightarrow> issuer_key list \<Rightarrow> issuer_key list"
  KeysRemove :: "issuer_key \<Rightarrow> issuer_key list \<Rightarrow> issuer_key list"
  EncodeKeys :: "issuer_key list \<Rightarrow> bytes option"
  DecodeKeys :: "bytes \<Rightarrow> issuer_key list option"
  ReadBlob :: "bytes \<Rightarrow> (bytes \<times> bytes) option"
  WrapfNil :: "account_error option"

section \<open>Version and hash\<close>

record VersionAndHash =
  vhVersion :: u8
  vhHash :: bytes

definition noVersionAndHash :: "account_api \<Rightarrow> VersionAndHash" where
  "noVersionAndHash A = \<lparr>vhVersion = 0, vhHash = replicate (IdentifierLength A) 0\<rparr>"

definition VersionAndHashSize :: "account_api \<Rightarrow> nat" where
  "VersionAndHashSize A = IdentifierLength A + 1"

definition VersionAndHash_Bytes :: "account_api \<Rightarrow> VersionAndHash \<Rightarrow> bytes" where
  "VersionAndHash_Bytes A v = VersionBytes A (vhVersion v) @ vhHash v"

definition VersionAndHashFromBytes :: "account_api \<Rightarrow> bytes \<Rightarrow> account_error + (VersionAndHash \<times> nat)" where
  "VersionAndHashFromBytes A bs =
     bind_res (or_err DecodeError (VersionFromBytes A bs)) (\<lambda>(version, n).
     bind_res (or_err DecodeError (IdentifierFromBytes A (drop n bs))) (\<lambda>(hash, k).
       Inr (\<lparr>vhVersion = version, vhHash = hash\<rparr>, n + k)))"

section \<open>Block issuance credits\<close>

record BlockIssuanceCredits =
  creditsValue :: i64
  creditsUpdateTime :: slot

definition NewBlockIssuanceCredits :: "i64 \<Rightarrow> slot \<Rightarrow> BlockIssuanceCredits" where
  "NewBlockIssuanceCredits val updateTime = \<lparr>creditsValue = val, creditsUpdateTime = updateTime\<rparr>"

definition Credits_Bytes :: "account_api \<Rightarrow> BlockIssuanceCredits \<Rightarrow> bytes" where
  "Credits_Bytes A c = WriteUint32 (MU A) (creditsUpdateTime c) (WriteInt64 (MU A) (creditsValue c) [])"

text \<open>A too short input panics: \<open>None\<close>. The result has the number of bytes read.\<close>

definition Credits_FromBytes :: "account_api \<Rightarrow> bytes \<Rightarrow> (BlockIssuanceCredits \<times> nat) option" where
  "Credits_FromBytes A bs =
     (case ReadInt64 (MU A) bs of None \<Rightarrow> None
      | Some (v, r) \<Rightarrow> (case ReadUint32 (MU A) r of None \<Rightarrow> None
         | Some (t, r) \<Rightarrow> Some (\<lparr>creditsValue = v, creditsUpdateTime = t\<rparr>, length bs - length r)))"

definition Credits_Update :: "i64 \<Rightarrow> slot option \<Rightarrow> BlockIssuanceCredits \<Rightarrow> BlockIssuanceCredits" where
  "Credits_Update change updateTime c =
     (let c = c\<lparr>creditsValue := creditsValue c + change\<rparr>
      in case updateTime of None \<Rightarrow> c | Some t \<Rightarrow> c\<lparr>creditsUpdateTime := t\<rparr>)"

section \<open>Account data\<close>

record AccountData =
  accountID :: bytes
  Credits :: BlockIssuanceCredits
  ExpirySlot :: slot
  accountOutputID :: bytes
  BlockIssuerKeys :: "issuer_key list"
  ValidatorStake :: base_token
  DelegationStake :: base_token
  FixedCost :: mana
  StakeEndEpoch :: epoch
  LatestSupportedProtocolVersionAndHash :: VersionAndHash

definition NewAccountData :: "account_api \<Rightarrow> bytes \<Rightarrow> AccountData" where
  "NewAccountData A i =
     \<lparr>accountID = i, Credits = NewBlockIssuanceCredits 0 0, ExpirySlot = 0, accountOutputID = EmptyOutputID A, BlockIssuerKeys = [],
      ValidatorStake = 0, DelegationStake = 0, FixedCost = 0, StakeEndEpoch = 0,
      LatestSupportedProtocolVersionAndHash = noVersionAndHash A\<rparr>"

definition AddBlockIssuerKeys :: "account_api \<Rightarrow> issuer_key list \<Rightarrow> AccountData \<Rightarrow> AccountData" where
  "AddBlockIssuerKeys A ks a = a\<lparr>BlockIssuerKeys := fold (KeysAdd A) ks (BlockIssuerKeys a)\<rparr>"

definition RemoveBlockIssuerKey :: "account_api \<Rightarrow> issuer_key list \<Rightarrow> AccountData \<Rightarrow> AccountData" where
  "RemoveBlockIssuerKey A ks a = a\<lparr>BlockIssuerKeys := fold (KeysRemove A) ks (BlockIssuerKeys a)\<rparr>"

definition WithCredits :: "BlockIssuanceCredits \<Rightarrow> AccountData \<Rightarrow> AccountData" where
  "WithCredits credits a = a\<lparr>Credits := credits\<rparr>"

definition WithExpirySlot :: "slot \<Rightarrow> AccountData \<Rightarrow> AccountData" where
  "WithExpirySlot expirySlot a = a\<lparr>ExpirySlot := expirySlot\<rparr>"

definition WithOutputID :: "bytes \<Rightarrow> AccountData \<Rightarrow> AccountData" where
  "WithOutputID i a = a\<lparr>accountOutputID := i\<rparr>"

definition WithBlockIssuerKeys :: "account_api \<Rightarrow> issuer_key list \<Rightarrow> AccountData \<Rightarrow> AccountData" where
  "WithBlockIssuerKeys A ks a = a\<lparr>BlockIssuerKeys := fold (KeysAdd A) ks (BlockIssuerKeys a)\<rparr>"

definition WithValidatorStake :: "base_token \<Rightarrow> AccountData \<Rightarrow> AccountData" where
  "WithValidatorStake x a = a\<lparr>ValidatorStake := x\<rparr>"

definition WithDelegationStake :: "base_token \<Rightarrow> AccountData \<Rightarrow> AccountData" where
  "WithDelegationStake x a = a\<lparr>DelegationStake := x\<rparr>"

definition WithFixedCost :: "mana \<Rightarrow> AccountData \<Rightarrow> AccountData" where
  "WithFixedCost x a = a\<lparr>FixedCost := x\<rparr>"

definition WithStakeEndEpoch :: "epoch \<Rightarrow> AccountData \<Rightarrow> AccountData" where
  "WithStakeEndEpoch x a = a\<lparr>StakeEndEpoch := x\<rparr>"

definition WithLatestSupportedProtocolVersion :: "VersionAndHash \<Rightarrow> AccountData \<Rightarrow> AccountData" where
  "WithLatestSupportedProtocolVersion v a = a\<lparr>LatestSupportedProtocolVersionAndHash := v\<rparr>"

definition AccountData_Clone :: "AccountData \<Rightarrow> AccountData" where
  "AccountData_Clone a =
     \<lparr>accountID = accountID a, Credits = \<lparr>creditsValue = creditsValue (Credits a), creditsUpdateTime = creditsUpdateTime (Credits a)\<rparr>,
      ExpirySlot = ExpirySlot a, accountOutputID = accountOutputID a, BlockIssuerKeys = BlockIssuerKeys a,
      ValidatorStake = ValidatorStake a, DelegationStake = DelegationStake a, FixedCost = FixedCost a, StakeEndEpoch = StakeEndEpoch a,
      LatestSupportedProtocolVersionAndHash = LatestSupportedProtocolVersionAndHash a\<rparr>"

definition AccountData_Bytes :: "account_api \<Rightarrow> AccountData \<Rightarrow> bytes" where
  "AccountData_Bytes A a =
     (let m = WriteBytes (MU A) (accountID a) [];
          m = WriteBytes (MU A) (Credits_Bytes A (Credits a)) m;
          m = WriteUint32 (MU A) (ExpirySlot a) m;
          m = WriteBytes (MU A) (accountOutputID a) m;
          m = WriteByte (MU A) (word_of_nat (length (BlockIssuerKeys a))) m;
          m = fold (WriteBytes (MU A)) (BlockIssuerKeys a) m;
          m = WriteUint64 (MU A) (ValidatorStake a) m;
          m = WriteUint64 (MU A) (DelegationStake a) m;
          m = WriteUint64 (MU A) (FixedCost a) m;
          m = WriteUint32 (MU A) (StakeEndEpoch a) m
      in WriteBytes (MU A) (VersionAndHash_Bytes A (LatestSupportedProtocolVersionAndHash a)) m)"

subsection \<open>Reading an account\<close>

definition rd :: "(bytes \<Rightarrow> ('a \<times> bytes) option) \<Rightarrow> bytes \<Rightarrow> account_error + ('a \<times> bytes)" where
  "rd dec r = or_err ReadError (dec r)"

text \<open>
  The loop over the keys. A key of an unknown type ends the whole reader with \<open>ierrors.Wrapf\<close> of a
  nil error, which is nil or an error depending on that library; the flag says that the reader ended
  there.
\<close>

fun readKeys :: "account_api \<Rightarrow> nat \<Rightarrow> issuer_key list \<Rightarrow> nat \<Rightarrow> bytes \<Rightarrow> account_error + (issuer_key list \<times> nat \<times> bytes \<times> bool)" where
  "readKeys A 0 keys consumed r = Inr (keys, consumed, r, False)"
| "readKeys A (Suc n) keys consumed r =
     bind_res (rd get_le r) (\<lambda>(keyType, r).
       if keyType = BlockIssuerKeyEd25519PublicKey A
       then bind_res (rd (take_bytes (PublicKeyLength A)) r) (\<lambda>(b, r).
              readKeys A n (KeysAdd A (KeyFromPublicKey A b) keys) (consumed + 1 + length b) r)
       else if keyType = BlockIssuerKeyPublicKeyHash A
       then bind_res (rd (take_bytes (ImplicitAddressLength A)) r) (\<lambda>(b, r).
              readKeys A n (KeysAdd A (KeyFromImplicitAddress A b) keys) (consumed + 1 + length b) r)
       else (case WrapfNil A of Some e \<Rightarrow> Inl e | None \<Rightarrow> Inr (keys, consumed + 1, r, True)))"

definition AccountData_readFromReadSeeker :: "account_api \<Rightarrow> AccountData \<Rightarrow> bytes \<Rightarrow> account_error + (AccountData \<times> nat \<times> bytes)" where
  "AccountData_readFromReadSeeker A a r =
     bind_res (rd (take_bytes (AccountIDLength A)) r) (\<lambda>(i, r).
     bind_res (rd get_le r) (\<lambda>(v, r).
     bind_res (rd get_le r) (\<lambda>(t, r).
     bind_res (rd get_le r) (\<lambda>(x, r).
     bind_res (rd (take_bytes (OutputIDLen A)) r) (\<lambda>(oid, r).
     bind_res (rd get_le r) (\<lambda>(blockIssuerKeyCount :: u8, r).
     let consumed = length i + 8 + SlotIndexSize A + SlotIndexSize A + OutputIDLen A + 1 in
     bind_res (readKeys A (unat blockIssuerKeyCount) [] consumed r) (\<lambda>(keys, consumed, r, unsupported).
     let a = a\<lparr>accountID := i, Credits := \<lparr>creditsValue = v, creditsUpdateTime = t\<rparr>, ExpirySlot := x, accountOutputID := oid, BlockIssuerKeys := keys\<rparr> in
     if unsupported then Inr (a, consumed, r)
     else
       bind_res (rd get_le r) (\<lambda>(vs, r).
       bind_res (rd get_le r) (\<lambda>(dst, r).
       bind_res (rd get_le r) (\<lambda>(fc, r).
       bind_res (rd get_le r) (\<lambda>(se, r).
       bind_res (rd (take_bytes (VersionAndHashSize A)) r) (\<lambda>(vb, r).
       bind_res (VersionAndHashFromBytes A vb) (\<lambda>(vh, _).
         Inr (a\<lparr>ValidatorStake := vs, DelegationStake := dst, FixedCost := fc, StakeEndEpoch := se, LatestSupportedProtocolVersionAndHash := vh\<rparr>,
              consumed + BaseTokenSize A + BaseTokenSize A + ManaSize A + EpochIndexLength A + length vb, r))))))))))))))"

definition AccountData_FromBytes :: "account_api \<Rightarrow> bytes \<Rightarrow> AccountData \<Rightarrow> account_error + (AccountData \<times> nat)" where
  "AccountData_FromBytes A bs a = bind_res (AccountData_readFromReadSeeker A a bs) (\<lambda>(a, n, _). Inr (a, n))"

definition AccountData_FromReader :: "account_api \<Rightarrow> AccountData \<Rightarrow> bytes \<Rightarrow> account_error + (AccountData \<times> bytes)" where
  "AccountData_FromReader A a r = bind_res (AccountData_readFromReadSeeker A a r) (\<lambda>(a, _, r). Inr (a, r))"

section \<open>Account diffs\<close>

record AccountDiff =
  BICChange :: i64
  PreviousUpdatedTime :: slot
  NewExpirySlot :: slot
  PreviousExpirySlot :: slot
  NewOutputID :: bytes
  PreviousOutputID :: bytes
  BlockIssuerKeysAdded :: "issuer_key list"
  BlockIssuerKeysRemoved :: "issuer_key list"
  ValidatorStakeChange :: i64
  DelegationStakeChange :: i64
  StakeEndEpochChange :: i64
  FixedCostChange :: i64
  PrevLatestSupportedVersionAndHash :: VersionAndHash
  NewLatestSupportedVersionAndHash :: VersionAndHash

definition NewAccountDiff :: "account_api \<Rightarrow> AccountDiff" where
  "NewAccountDiff A =
     \<lparr>BICChange = 0, PreviousUpdatedTime = 0, NewExpirySlot = 0, PreviousExpirySlot = 0, NewOutputID = EmptyOutputID A,
      PreviousOutputID = EmptyOutputID A, BlockIssuerKeysAdded = [], BlockIssuerKeysRemoved = [], ValidatorStakeChange = 0,
      DelegationStakeChange = 0, StakeEndEpochChange = 0, FixedCostChange = 0,
      PrevLatestSupportedVersionAndHash = noVersionAndHash A, NewLatestSupportedVersionAndHash = noVersionAndHash A\<rparr>"

definition AccountDiff_Clone :: "AccountDiff \<Rightarrow> AccountDiff" where
  "AccountDiff_Clone d =
     \<lparr>BICChange = BICChange d, PreviousUpdatedTime = PreviousUpdatedTime d, NewExpirySlot = NewExpirySlot d,
      PreviousExpirySlot = PreviousExpirySlot d, NewOutputID = NewOutputID d, PreviousOutputID = PreviousOutputID d,
      BlockIssuerKeysAdded = BlockIssuerKeysAdded d, BlockIssuerKeysRemoved = BlockIssuerKeysRemoved d,
      ValidatorStakeChange = ValidatorStakeChange d, DelegationStakeChange = DelegationStakeChange d,
      StakeEndEpochChange = StakeEndEpochChange d, FixedCostChange = FixedCostChange d,
      PrevLatestSupportedVersionAndHash = PrevLatestSupportedVersionAndHash d,
      NewLatestSupportedVersionAndHash = NewLatestSupportedVersionAndHash d\<rparr>"

definition writeBlockIssuerKeys :: "account_api \<Rightarrow> issuer_key list \<Rightarrow> bytes \<Rightarrow> account_error + bytes" where
  "writeBlockIssuerKeys A ks m =
     bind_res (or_err EncodeError (EncodeKeys A ks)) (\<lambda>b.
       Inr (WriteBytes (MU A) b (WriteUint64 (MU A) (word_of_nat (length b)) m)))"

definition readBlockIssuerKeys :: "account_api \<Rightarrow> bytes \<Rightarrow> account_error + (issuer_key list \<times> nat \<times> bytes)" where
  "readBlockIssuerKeys A r =
     bind_res (rd (ReadBlob A) r) (\<lambda>(b, r).
     bind_res (or_err DecodeError (DecodeKeys A b)) (\<lambda>ks. Inr (ks, 8 + length b, r)))"

definition AccountDiff_Bytes :: "account_api \<Rightarrow> AccountDiff \<Rightarrow> account_error + bytes" where
  "AccountDiff_Bytes A d =
     (let m = WriteInt64 (MU A) (BICChange d) [];
          m = WriteUint32 (MU A) (PreviousUpdatedTime d) m;
          m = WriteUint32 (MU A) (NewExpirySlot d) m;
          m = WriteUint32 (MU A) (PreviousExpirySlot d) m;
          m = WriteBytes (MU A) (NewOutputID d) m;
          m = WriteBytes (MU A) (PreviousOutputID d) m
      in bind_res (writeBlockIssuerKeys A (BlockIssuerKeysAdded d) m) (\<lambda>m.
         bind_res (writeBlockIssuerKeys A (BlockIssuerKeysRemoved d) m) (\<lambda>m.
         let m = WriteInt64 (MU A) (ValidatorStakeChange d) m;
             m = WriteInt64 (MU A) (DelegationStakeChange d) m;
             m = WriteInt64 (MU A) (FixedCostChange d) m;
             m = WriteUint64 (MU A) (StakeEndEpochChange d) m;
             m = WriteBytes (MU A) (VersionAndHash_Bytes A (NewLatestSupportedVersionAndHash d)) m
         in Inr (WriteBytes (MU A) (VersionAndHash_Bytes A (PrevLatestSupportedVersionAndHash d)) m))))"

definition AccountDiff_readFromReadSeeker :: "account_api \<Rightarrow> bytes \<Rightarrow> account_error + (AccountDiff \<times> nat \<times> bytes)" where
  "AccountDiff_readFromReadSeeker A r =
     bind_res (rd get_le r) (\<lambda>(bic, r).
     bind_res (rd get_le r) (\<lambda>(put, r).
     bind_res (rd get_le r) (\<lambda>(nes, r).
     bind_res (rd get_le r) (\<lambda>(pes, r).
     bind_res (rd (take_bytes (OutputIDLen A)) r) (\<lambda>(noid, r).
     bind_res (rd (take_bytes (OutputIDLen A)) r) (\<lambda>(poid, r).
     bind_res (readBlockIssuerKeys A r) (\<lambda>(added, n, r).
     bind_res (readBlockIssuerKeys A r) (\<lambda>(removed, k, r).
     bind_res (rd get_le r) (\<lambda>(vs, r).
     bind_res (rd get_le r) (\<lambda>(dst, r).
     bind_res (rd get_le r) (\<lambda>(fc, r).
     bind_res (rd get_le r) (\<lambda>(se, r).
     bind_res (rd (take_bytes (VersionAndHashSize A)) r) (\<lambda>(nb, r).
     bind_res (VersionAndHashFromBytes A nb) (\<lambda>(nvh, _).
     bind_res (rd (take_bytes (VersionAndHashSize A)) r) (\<lambda>(pb, r).
     bind_res (VersionAndHashFromBytes A pb) (\<lambda>(pvh, _).
       Inr (\<lparr>BICChange = bic, PreviousUpdatedTime = put, NewExpirySlot = nes, PreviousExpirySlot = pes, NewOutputID = noid, PreviousOutputID = poid,
             BlockIssuerKeysAdded = added, BlockIssuerKeysRemoved = removed, ValidatorStakeChange = vs, DelegationStakeChange = dst,
             StakeEndEpochChange = se, FixedCostChange = fc, PrevLatestSupportedVersionAndHash = pvh, NewLatestSupportedVersionAndHash = nvh\<rparr>,
            8 + 3 * SlotIndexSize A + 2 * OutputIDLen A + n + k + 32 + length nb + length pb, r)))))))))))))))))"

definition AccountDiff_FromBytes :: "account_api \<Rightarrow> bytes \<Rightarrow> account_error + (AccountDiff \<times> nat)" where
  "AccountDiff_FromBytes A bs = bind_res (AccountDiff_readFromReadSeeker A bs) (\<lambda>(d, n, _). Inr (d, n))"

definition AccountDiff_FromReader :: "account_api \<Rightarrow> bytes \<Rightarrow> account_error + (AccountDiff \<times> bytes)" where
  "AccountDiff_FromReader A r = bind_res (AccountDiff_readFromReadSeeker A r) (\<lambda>(d, _, r). Inr (d, r))"

section \<open>The changes of a slot\<close>

text \<open>
  A typed store is a map from the keys to the decoded values; iterating visits the entries in the
  order \<open>order\<close> of the keys, which the key-value store chooses.
\<close>

record AccountDiffs =
  diffChangeStore :: "bytes \<rightharpoonup> AccountDiff"
  destroyedStore :: "bytes \<rightharpoonup> unit"

definition NewAccountDiffs :: AccountDiffs where
  "NewAccountDiffs = \<lparr>diffChangeStore = Map.empty, destroyedStore = Map.empty\<rparr>"

text \<open>Storing a nil diff dereferences it when it is serialized.\<close>

definition AccountDiffs_Store :: "bytes \<Rightarrow> AccountDiff option \<Rightarrow> bool \<Rightarrow> AccountDiffs \<Rightarrow> account_error + AccountDiffs" where
  "AccountDiffs_Store i accountDiff destroyed s =
     (let s = if destroyed then s\<lparr>destroyedStore := (destroyedStore s)(i \<mapsto> ())\<rparr> else s
      in case accountDiff of
           None \<Rightarrow> Inl NilDereference
         | Some d \<Rightarrow> Inr (s\<lparr>diffChangeStore := (diffChangeStore s)(i \<mapsto> d)\<rparr>))"

definition AccountDiffs_Load :: "bytes \<Rightarrow> AccountDiffs \<Rightarrow> account_error + (AccountDiff \<times> bool)" where
  "AccountDiffs_Load i s =
     (let destroyed = destroyedStore s i \<noteq> None
      in bind_res (or_err (DiffMissing i) (diffChangeStore s i)) (\<lambda>d. Inr (d, destroyed)))"

definition AccountDiffs_Has :: "bytes \<Rightarrow> AccountDiffs \<Rightarrow> bool" where
  "AccountDiffs_Has i s \<longleftrightarrow> diffChangeStore s i \<noteq> None"

definition AccountDiffs_Delete :: "bytes \<Rightarrow> AccountDiffs \<Rightarrow> AccountDiffs" where
  "AccountDiffs_Delete i s = s\<lparr>diffChangeStore := (diffChangeStore s)(i := None)\<rparr>"

text \<open>A consumer that may end the iteration: it returns its state and whether to go on.\<close>

fun iterate_while :: "('x \<Rightarrow> 's \<Rightarrow> 's \<times> bool) \<Rightarrow> 'x list \<Rightarrow> 's \<Rightarrow> 's" where
  "iterate_while f [] s = s"
| "iterate_while f (x # xs) s = (let (s', go) = f x s in if go then iterate_while f xs s' else s')"

definition AccountDiffs_Stream ::
  "(bytes set \<Rightarrow> bytes list) \<Rightarrow> (bytes \<Rightarrow> AccountDiff option \<Rightarrow> bool \<Rightarrow> 's \<Rightarrow> 's \<times> bool) \<Rightarrow> AccountDiffs \<Rightarrow> 's \<Rightarrow> 's" where
  "AccountDiffs_Stream order consumer d s =
     (let s = iterate_while (\<lambda>i. consumer i None True) (order (dom (destroyedStore d))) s
      in iterate_while (\<lambda>i. consumer i (diffChangeStore d i) False) (order (dom (diffChangeStore d))) s)"

definition AccountDiffs_StreamDestroyed :: "(bytes set \<Rightarrow> bytes list) \<Rightarrow> (bytes \<Rightarrow> 's \<Rightarrow> 's \<times> bool) \<Rightarrow> AccountDiffs \<Rightarrow> 's \<Rightarrow> 's" where
  "AccountDiffs_StreamDestroyed order consumer d s = iterate_while consumer (order (dom (destroyedStore d))) s"

section \<open>What the formats rely on\<close>

text \<open>
  Documented: \<open>BlockIssuerKeys\<close> is sorted and without duplicates, and adding or removing a key keeps
  it so; a key is written as its type and its content; versions take one byte, slot and epoch
  indices four, token and mana amounts eight; identifiers and the codec of \<open>serix\<close> read back what was
  written; a blob is its length in eight bytes and its content.
\<close>

definition keys_ok :: "issuer_key list \<Rightarrow> bool" where
  "keys_ok ks \<longleftrightarrow> sorted ks \<and> distinct ks"

definition keys_spec :: "account_api \<Rightarrow> bool" where
  "keys_spec A \<longleftrightarrow>
     (\<forall>k ks. keys_ok ks \<longrightarrow> KeysAdd A k ks = sorted_list_of_set (insert k (set ks)) \<and>
        KeysRemove A k ks = sorted_list_of_set (set ks - {k}))"

definition account_api_ok :: "account_api \<Rightarrow> bool" where
  "account_api_ok A \<longleftrightarrow>
     marshalutil_spec (MU A) \<and> keys_spec A \<and>
     SlotIndexSize A = 4 \<and> EpochIndexLength A = 4 \<and> BaseTokenSize A = 8 \<and> ManaSize A = 8 \<and>
     length (EmptyOutputID A) = OutputIDLen A \<and>
     (\<forall>v. VersionBytes A v = [v]) \<and> (\<forall>v r. VersionFromBytes A (v # r) = Some (v, 1)) \<and>
     (\<forall>h. length h = IdentifierLength A \<longrightarrow> IdentifierFromBytes A h = Some (h, IdentifierLength A)) \<and>
     BlockIssuerKeyEd25519PublicKey A \<noteq> BlockIssuerKeyPublicKeyHash A \<and>
     (\<forall>b. KeyFromPublicKey A b = BlockIssuerKeyEd25519PublicKey A # b) \<and>
     (\<forall>b. KeyFromImplicitAddress A b = BlockIssuerKeyPublicKeyHash A # b) \<and>
     (\<forall>ks b. EncodeKeys A ks = Some b \<longrightarrow> DecodeKeys A b = Some ks) \<and>
     (\<forall>n b r. length b = unat n \<longrightarrow> ReadBlob A (put_le (n :: u64) @ b @ r) = Some (b, r))"

definition issuer_key_ok :: "account_api \<Rightarrow> issuer_key \<Rightarrow> bool" where
  "issuer_key_ok A k \<longleftrightarrow>
     (\<exists>b. k = BlockIssuerKeyEd25519PublicKey A # b \<and> length b = PublicKeyLength A) \<or>
     (\<exists>b. k = BlockIssuerKeyPublicKeyHash A # b \<and> length b = ImplicitAddressLength A)"

definition wf_version :: "account_api \<Rightarrow> VersionAndHash \<Rightarrow> bool" where
  "wf_version A v \<longleftrightarrow> length (vhHash v) = IdentifierLength A"

definition wf_account :: "account_api \<Rightarrow> AccountData \<Rightarrow> bool" where
  "wf_account A a \<longleftrightarrow>
     length (accountID a) = AccountIDLength A \<and> length (accountOutputID a) = OutputIDLen A \<and>
     keys_ok (BlockIssuerKeys a) \<and> (\<forall>k \<in> set (BlockIssuerKeys a). issuer_key_ok A k) \<and> length (BlockIssuerKeys a) < 256 \<and>
     wf_version A (LatestSupportedProtocolVersionAndHash a)"

definition wf_diff :: "account_api \<Rightarrow> AccountDiff \<Rightarrow> bool" where
  "wf_diff A d \<longleftrightarrow>
     length (NewOutputID d) = OutputIDLen A \<and> length (PreviousOutputID d) = OutputIDLen A \<and>
     wf_version A (NewLatestSupportedVersionAndHash d) \<and> wf_version A (PrevLatestSupportedVersionAndHash d) \<and>
     (\<forall>b. EncodeKeys A (BlockIssuerKeysAdded d) = Some b \<longrightarrow> length b < 2 ^ 64) \<and>
     (\<forall>b. EncodeKeys A (BlockIssuerKeysRemoved d) = Some b \<longrightarrow> length b < 2 ^ 64)"

lemma rd_simps [simp]:
  "rd get_le (put_le (x8 :: u8) @ r) = Inr (x8, r)" "rd get_le (put_le (x32 :: u32) @ r) = Inr (x32, r)"
  "rd get_le (put_le (x64 :: u64) @ r) = Inr (x64, r)" "length b = n \<Longrightarrow> rd (take_bytes n) (b @ r) = Inr (b, r)"
  by (simp_all add: rd_def get_put_le_width take_bytes_append)

lemma MU_writes:
  assumes "account_api_ok A"
  shows "WriteBytes (MU A) = (\<lambda>b m. m @ b)" "WriteByte (MU A) y m = m @ put_le y" "WriteUint32 (MU A) x32 m = m @ put_le x32"
    "WriteUint64 (MU A) x64 m = m @ put_le x64" "WriteInt64 (MU A) x64 m = m @ put_le x64"
proof -
  show "WriteBytes (MU A) = (\<lambda>b m. m @ b)" "WriteByte (MU A) y m = m @ put_le y" "WriteUint32 (MU A) x32 m = m @ put_le x32"
    "WriteUint64 (MU A) x64 m = m @ put_le x64" "WriteInt64 (MU A) x64 m = m @ put_le x64"
    using assms by (simp_all add: account_api_ok_def marshalutil_spec_def fun_eq_iff put_le_u8)
qed

lemma VersionAndHash_read:
  assumes "account_api_ok A" and "wf_version A v"
  shows "VersionAndHashFromBytes A (VersionAndHash_Bytes A v) = Inr (v, VersionAndHashSize A)"
    and "length (VersionAndHash_Bytes A v) = VersionAndHashSize A"
  using assms by (simp_all add: account_api_ok_def wf_version_def VersionAndHashFromBytes_def VersionAndHash_Bytes_def VersionAndHashSize_def)

text \<open>Adding the keys of a sorted list one by one gives the list.\<close>

lemma keys_ok_sorted_list_of_set: "keys_ok (sorted_list_of_set S)"
  by (simp add: keys_ok_def)

lemma fold_KeysAdd:
  assumes "keys_spec A" and "keys_ok ks0"
  shows "fold (KeysAdd A) ks ks0 = sorted_list_of_set (set ks \<union> set ks0) \<and> keys_ok (fold (KeysAdd A) ks ks0)"
  using assms(2)
proof (induction ks arbitrary: ks0)
  case Nil
  then show ?case by (simp add: keys_ok_def sorted_distinct_set_unique)
next
  case (Cons k ks)
  have k: "KeysAdd A k ks0 = sorted_list_of_set (insert k (set ks0))" using assms(1) Cons.prems unfolding keys_spec_def by blast
  have "keys_ok (KeysAdd A k ks0)" unfolding k by (rule keys_ok_sorted_list_of_set)
  moreover have "set (KeysAdd A k ks0) = insert k (set ks0)" unfolding k by (rule set_sorted_list_of_set) simp
  then have "set (k # ks) \<union> set ks0 = set ks \<union> set (KeysAdd A k ks0)" by auto
  ultimately show ?case using Cons.IH[of "KeysAdd A k ks0"] unfolding fold_simps(2) by (simp only: keys_ok_sorted_list_of_set simp_thms)
qed

lemma keys_ok_sorted_list: "keys_ok ks \<Longrightarrow> sorted_list_of_set (set ks) = ks"
  by (simp add: keys_ok_def sorted_distinct_set_unique)

lemma readKeys_keys:
  assumes A: "account_api_ok A" and "\<forall>k \<in> set ks. issuer_key_ok A k"
  shows "readKeys A (length ks) ks0 n (concat ks @ r) = Inr (fold (KeysAdd A) ks ks0, n + length (concat ks), r, False)"
  using assms(2)
proof (induction ks arbitrary: ks0 n)
  case (Cons k ks)
  have h: "rd get_le (y # q) = Inr (y :: u8, q)" for y q using rd_simps(1)[of y q] by (simp add: put_le_u8)
  from Cons.prems consider
    b where "k = BlockIssuerKeyEd25519PublicKey A # b" "length b = PublicKeyLength A" |
    b where "k = BlockIssuerKeyPublicKeyHash A # b" "length b = ImplicitAddressLength A"
    by (auto simp: issuer_key_ok_def)
  moreover have "BlockIssuerKeyPublicKeyHash A \<noteq> BlockIssuerKeyEd25519PublicKey A"
    "KeyFromPublicKey A b = BlockIssuerKeyEd25519PublicKey A # b" "KeyFromImplicitAddress A b = BlockIssuerKeyPublicKeyHash A # b" for b
    using A by (auto simp: account_api_ok_def)
  ultimately show ?case using Cons.IH Cons.prems by cases (simp_all add: h)
qed simp

lemma fold_append: "fold (\<lambda>b m. m @ b) bs m = m @ concat bs"
  by (induction bs arbitrary: m) auto

lemma AccountData_read:
  assumes A: "account_api_ok A" and a: "wf_account A a"
  shows "AccountData_readFromReadSeeker A a0 (AccountData_Bytes A a @ r) = Inr (a, length (AccountData_Bytes A a), r)"
proof -
  have ks: "keys_spec A" using A by (simp add: account_api_ok_def)
  have "fold (KeysAdd A) (BlockIssuerKeys a) [] = BlockIssuerKeys a"
    using fold_KeysAdd[OF ks, of "[]" "BlockIssuerKeys a"] keys_ok_sorted_list a by (simp add: keys_ok_def wf_account_def)
  moreover have "unat (word_of_nat (length (BlockIssuerKeys a)) :: u8) = length (BlockIssuerKeys a)"
    using a by (simp add: wf_account_def unat_of_nat_small)
  ultimately have keys: "readKeys A (unat (word_of_nat (length (BlockIssuerKeys a)) :: u8)) [] n (concat (BlockIssuerKeys a) @ q) =
      Inr (BlockIssuerKeys a, n + length (concat (BlockIssuerKeys a)), q, False)" for n q
    using readKeys_keys[OF A, of "BlockIssuerKeys a" "[]" n q] a by (simp add: wf_account_def)
  have "wf_version A (LatestSupportedProtocolVersionAndHash a)" "length (accountID a) = AccountIDLength A" "length (accountOutputID a) = OutputIDLen A"
    using a by (simp_all add: wf_account_def)
  moreover have "SlotIndexSize A = 4" "EpochIndexLength A = 4" "BaseTokenSize A = 8" "ManaSize A = 8" using A by (simp_all add: account_api_ok_def)
  ultimately show ?thesis
    by (simp add: AccountData_readFromReadSeeker_def AccountData_Bytes_def Credits_Bytes_def MU_writes[OF A] fold_append keys
        VersionAndHash_read[OF A] del: length_concat)
qed

lemma blockIssuerKeys_read:
  assumes "account_api_ok A" and "EncodeKeys A ks = Some b" and "length b < 2 ^ 64"
  shows "readBlockIssuerKeys A (put_le (word_of_nat (length b) :: u64) @ b @ r) = Inr (ks, 8 + length b, r)"
proof -
  have "unat (word_of_nat (length b) :: u64) = length b" using assms(3) by (simp add: unat_of_nat_small)
  then have "ReadBlob A (put_le (word_of_nat (length b) :: u64) @ b @ r) = Some (b, r)" "DecodeKeys A b = Some ks"
    using assms(1,2) by (simp_all add: account_api_ok_def)
  then show ?thesis by (simp add: readBlockIssuerKeys_def rd_def)
qed

lemma AccountDiff_read:
  assumes A: "account_api_ok A" and d: "wf_diff A d" and b: "AccountDiff_Bytes A d = Inr b"
  shows "AccountDiff_readFromReadSeeker A (b @ r) = Inr (d, length b, r)"
proof -
  obtain ba br where enc: "EncodeKeys A (BlockIssuerKeysAdded d) = Some ba" "EncodeKeys A (BlockIssuerKeysRemoved d) = Some br"
    using b by (auto simp: AccountDiff_Bytes_def writeBlockIssuerKeys_def Let_def)
  then have len: "length ba < 2 ^ 64" "length br < 2 ^ 64" using d by (simp_all add: wf_diff_def)
  note ks = blockIssuerKeys_read[OF A enc(1) len(1)] blockIssuerKeys_read[OF A enc(2) len(2)]
  have "b = put_le (BICChange d) @ put_le (PreviousUpdatedTime d) @ put_le (NewExpirySlot d) @ put_le (PreviousExpirySlot d) @
      NewOutputID d @ PreviousOutputID d @ put_le (word_of_nat (length ba) :: u64) @ ba @ put_le (word_of_nat (length br) :: u64) @ br @
      put_le (ValidatorStakeChange d) @ put_le (DelegationStakeChange d) @ put_le (FixedCostChange d) @ put_le (StakeEndEpochChange d) @
      VersionAndHash_Bytes A (NewLatestSupportedVersionAndHash d) @ VersionAndHash_Bytes A (PrevLatestSupportedVersionAndHash d)"
    using b by (simp add: AccountDiff_Bytes_def writeBlockIssuerKeys_def Let_def enc MU_writes[OF A])
  moreover have "wf_version A (NewLatestSupportedVersionAndHash d)" "wf_version A (PrevLatestSupportedVersionAndHash d)"
    "length (NewOutputID d) = OutputIDLen A" "length (PreviousOutputID d) = OutputIDLen A" "SlotIndexSize A = 4"
    using d A by (simp_all add: wf_diff_def account_api_ok_def)
  ultimately show ?thesis
    by (simp add: AccountDiff_readFromReadSeeker_def ks VersionAndHash_read[OF A])
qed

interpretation accountData: codec "AccountData_Bytes A"
  "\<lambda>r. case AccountData_FromReader A (NewAccountData A []) r of Inl _ \<Rightarrow> None | Inr x \<Rightarrow> Some x" "\<lambda>a. account_api_ok A \<and> wf_account A a" for A
  by unfold_locales (simp add: AccountData_FromReader_def AccountData_read)

section \<open>A concrete instance\<close>

definition exampleAccounts :: account_api where
  "exampleAccounts =
     \<lparr>MU = marshalutil_le, AccountIDLength = 1, OutputIDLen = 2, IdentifierLength = 1, SlotIndexSize = 4, EpochIndexLength = 4,
      BaseTokenSize = 8, ManaSize = 8, EmptyOutputID = [0, 0], VersionBytes = (\<lambda>v. [v]),
      VersionFromBytes = (\<lambda>b. case b of [] \<Rightarrow> None | v # _ \<Rightarrow> Some (v, 1)),
      IdentifierFromBytes = (\<lambda>b. case b of [] \<Rightarrow> None | h # _ \<Rightarrow> Some ([h], 1)),
      BlockIssuerKeyEd25519PublicKey = 0, BlockIssuerKeyPublicKeyHash = 1, PublicKeyLength = 1, ImplicitAddressLength = 1,
      KeyFromPublicKey = (\<lambda>b. 0 # b), KeyFromImplicitAddress = (\<lambda>b. 1 # b),
      KeysAdd = (\<lambda>k ks. sorted_list_of_set (insert k (set ks))), KeysRemove = (\<lambda>k ks. sorted_list_of_set (set ks - {k})),
      EncodeKeys = (\<lambda>ks. case ks of [] \<Rightarrow> Some [0] | [k] \<Rightarrow> Some (1 # k) | _ \<Rightarrow> None),
      DecodeKeys = (\<lambda>b. case b of [] \<Rightarrow> None | t # k \<Rightarrow> Some (if t = 0 then [] else [k])),
      ReadBlob = (\<lambda>r. case get_le r of None \<Rightarrow> None | Some (n :: u64, r) \<Rightarrow> take_bytes (unat n) r), WrapfNil = None\<rparr>"

lemma exampleAccounts_ok [simp]: "account_api_ok exampleAccounts"
  by (simp add: account_api_ok_def exampleAccounts_def keys_spec_def get_put_le_width take_bytes_append length_Suc_conv split: list.splits)

end
