(* ===== verification/AccountsLedger.thy ===== *)
theory AccountsLedger
  imports AccountsData
begin

text \<open>
  The accounts ledger (\<open>pkg/protocol/engine/accounts/accountsledger/manager.go\<close>) with the signalled
  protocol versions (\<open>pkg/model/signaled_block.go\<close>): the account tree at the latest committed slot,
  the diffs that lead there from earlier slots, the block burns and version signals of the slots
  that are not committed yet. Maps and stores are iterated in the order \<open>order\<close> of their keys, which
  the Go runtime or the key-value store chooses. A store of a slot that can not be opened is \<open>None\<close>.
  What the code takes from \<open>iota.go\<close> are the fields of the record \<open>account_env\<close>.
\<close>

section \<open>Blocks and protocol parameters\<close>

datatype block_body = BasicBody | ValidationBody u8 bytes | OtherBody

record issuer_block =
  ibID :: bytes
  ibSlot :: slot
  ibIssuer :: bytes
  ibIssuingTime :: int
  ibWorkScore :: work_score
  ibBody :: block_body

record account_env =
  api :: account_api
  safe :: "i64 safemath"
  MaxCommittableAge :: "slot \<Rightarrow> slot"
  ValidationBlocksPerSlot :: "slot \<Rightarrow> u8"
  PunishmentEpochs :: "slot \<Rightarrow> epoch"
  EpochDurationSlots :: "slot \<Rightarrow> slot"
  ManaWithDecay :: "slot \<Rightarrow> mana \<Rightarrow> slot \<Rightarrow> slot \<Rightarrow> mana option"
  ManaGenerationWithDecay :: "slot \<Rightarrow> base_token \<Rightarrow> slot \<Rightarrow> slot \<Rightarrow> mana option"
  blockFunc :: "bytes \<Rightarrow> issuer_block option"
  order :: "bytes set \<Rightarrow> bytes list"

section \<open>Signalled versions\<close>

record SignaledBlock =
  sbID :: bytes
  sbIssuingTime :: int
  HighestSupportedVersion :: u8
  ProtocolParametersHash :: bytes

definition NewSignaledBlock :: "issuer_block \<Rightarrow> u8 \<Rightarrow> bytes \<Rightarrow> SignaledBlock" where
  "NewSignaledBlock b version hash =
     \<lparr>sbID = ibID b, sbIssuingTime = ibIssuingTime b, HighestSupportedVersion = version, ProtocolParametersHash = hash\<rparr>"

text \<open>A nil pointer is \<open>None\<close>.\<close>

definition SignaledBlock_Compare :: "SignaledBlock option \<Rightarrow> SignaledBlock option \<Rightarrow> int" where
  "SignaledBlock_Compare s other =
     (case (s, other) of
        (None, None) \<Rightarrow> 0
      | (None, Some _) \<Rightarrow> -1
      | (Some _, None) \<Rightarrow> 1
      | (Some a, Some b) \<Rightarrow>
          if HighestSupportedVersion b < HighestSupportedVersion a then 1
          else if HighestSupportedVersion a < HighestSupportedVersion b then -1
          else if sbIssuingTime b < sbIssuingTime a then 1
          else if sbIssuingTime a < sbIssuingTime b then -1
          else bytes_Compare (sbID a) (sbID b))"

section \<open>The manager\<close>

record AccountsManager =
  blockBurns :: "slot \<rightharpoonup> bytes list"
  latestSupportedVersionSignals :: "slot \<rightharpoonup> (bytes \<rightharpoonup> SignaledBlock)"
  latestCommittedSlot :: slot
  accountsTree :: "bytes \<rightharpoonup> AccountData"
  slotDiff :: "slot \<rightharpoonup> AccountDiffs"

definition NewAccountsManager :: "(slot \<rightharpoonup> AccountDiffs) \<Rightarrow> (bytes \<rightharpoonup> AccountData) \<Rightarrow> AccountsManager" where
  "NewAccountsManager diffs accountsStore =
     \<lparr>blockBurns = Map.empty, latestSupportedVersionSignals = Map.empty, latestCommittedSlot = 0, accountsTree = accountsStore, slotDiff = diffs\<rparr>"

definition SetLatestCommittedSlot :: "slot \<Rightarrow> AccountsManager \<Rightarrow> AccountsManager" where
  "SetLatestCommittedSlot sl m = m\<lparr>latestCommittedSlot := sl\<rparr>"

definition TrackBlock :: "issuer_block \<Rightarrow> AccountsManager \<Rightarrow> AccountsManager" where
  "TrackBlock b m =
     (let s = ibSlot b;
          ids = (case blockBurns m s of None \<Rightarrow> [] | Some ids \<Rightarrow> ids);
          ids = (if ibID b \<in> set ids then ids else ids @ [ibID b]);
          m = m\<lparr>blockBurns := (blockBurns m)(s \<mapsto> ids)\<rparr>
      in case ibBody b of
           ValidationBody version hash \<Rightarrow>
             let newSignaledBlock = NewSignaledBlock b version hash;
                 signals = (case latestSupportedVersionSignals m s of None \<Rightarrow> Map.empty | Some x \<Rightarrow> x);
                 val = (case signals (ibIssuer b) of
                          None \<Rightarrow> newSignaledBlock
                        | Some currentValue \<Rightarrow>
                            if SignaledBlock_Compare (Some newSignaledBlock) (Some currentValue) = 1 then newSignaledBlock else currentValue)
             in m\<lparr>latestSupportedVersionSignals := (latestSupportedVersionSignals m)(s \<mapsto> signals(ibIssuer b \<mapsto> val))\<rparr>
         | _ \<Rightarrow> m)"

definition LoadSlotDiff :: "slot \<Rightarrow> bytes \<Rightarrow> AccountsManager \<Rightarrow> account_error + (AccountDiff \<times> bool)" where
  "LoadSlotDiff sl i m = bind_res (or_err (SlotPruned sl) (slotDiff m sl)) (AccountDiffs_Load i)"

section \<open>Rolling an account back\<close>

text \<open>The body of the loop of \<open>rollbackAccountTo\<close> for a slot whose store has a diff of the account.\<close>

definition rollbackAccount :: "account_env \<Rightarrow> AccountDiff \<Rightarrow> AccountData \<Rightarrow> account_error + AccountData" where
  "rollbackAccount E d a =
     (let a = a\<lparr>Credits := Credits_Update (- BICChange d) (Some (PreviousUpdatedTime d)) (Credits a)\<rparr>;
          a = (if PreviousExpirySlot d \<noteq> NewExpirySlot d then a\<lparr>ExpirySlot := PreviousExpirySlot d\<rparr> else a);
          a = (if PreviousOutputID d \<noteq> EmptyOutputID (api E) then a\<lparr>accountOutputID := PreviousOutputID d\<rparr> else a);
          a = AddBlockIssuerKeys (api E) (BlockIssuerKeysRemoved d) a;
          a = RemoveBlockIssuerKey (api E) (BlockIssuerKeysAdded d) a
      in bind_res (or_err StakeOutOfRange (SafeSub (safe E) (ValidatorStake a) (ValidatorStakeChange d))) (\<lambda>vs.
         let a = a\<lparr>ValidatorStake := vs\<rparr> in
         bind_res (or_err StakeOutOfRange (SafeSub (safe E) (DelegationStake a) (DelegationStakeChange d))) (\<lambda>ds.
         let a = a\<lparr>DelegationStake := ds\<rparr> in
         bind_res (or_err StakeOutOfRange (SafeSub (safe E) (ucast (StakeEndEpoch a)) (StakeEndEpochChange d))) (\<lambda>se.
         let a = a\<lparr>StakeEndEpoch := ucast se\<rparr> in
         bind_res (or_err StakeOutOfRange (SafeSub (safe E) (FixedCost a) (FixedCostChange d))) (\<lambda>fc.
         let a = a\<lparr>FixedCost := fc\<rparr> in
         Inr (if PrevLatestSupportedVersionAndHash d \<noteq> NewLatestSupportedVersionAndHash d
              then a\<lparr>LatestSupportedProtocolVersionAndHash := PrevLatestSupportedVersionAndHash d\<rparr> else a))))))"

definition rollbackSlot :: "account_env \<Rightarrow> AccountsManager \<Rightarrow> slot \<Rightarrow> AccountData \<times> bool \<Rightarrow> account_error + (AccountData \<times> bool)" where
  "rollbackSlot E m diffSlot = (\<lambda>(a, wasDestroyed).
     bind_res (or_err (SlotPruned diffSlot) (slotDiff m diffSlot)) (\<lambda>diffStore.
       if \<not> AccountDiffs_Has (accountID a) diffStore then Inr (a, wasDestroyed)
       else bind_res (AccountDiffs_Load (accountID a) diffStore) (\<lambda>(diffChange, destroyed).
            bind_res (rollbackAccount E diffChange a) (\<lambda>a. Inr (a, wasDestroyed \<or> destroyed)))))"

definition rollbackAccountTo :: "account_env \<Rightarrow> AccountData \<Rightarrow> slot \<Rightarrow> AccountsManager \<Rightarrow> account_error + (AccountData \<times> bool)" where
  "rollbackAccountTo E a targetSlot m = for_down_res (rollbackSlot E m) (latestCommittedSlot m) targetSlot (a, False)"

definition newPastAccount :: "account_env \<Rightarrow> bytes \<Rightarrow> slot \<Rightarrow> AccountData" where
  "newPastAccount E i targetSlot = WithCredits (NewBlockIssuanceCredits 0 targetSlot) (NewAccountData (api E) i)"

definition account :: "account_env \<Rightarrow> bytes \<Rightarrow> slot \<Rightarrow> AccountsManager \<Rightarrow> account_error + AccountData option" where
  "account E i targetSlot m =
     (let maxCommittableAge = MaxCommittableAge E targetSlot in
      if maxCommittableAge \<le> latestCommittedSlot m \<and> targetSlot + maxCommittableAge < latestCommittedSlot m then Inl (TargetTooOld targetSlot)
      else if latestCommittedSlot m < targetSlot then Inl (NotCommitted targetSlot)
      else
        let exists = accountsTree m i \<noteq> None;
            loaded = (case accountsTree m i of Some a \<Rightarrow> a | None \<Rightarrow> newPastAccount E i targetSlot)
        in bind_res (rollbackAccountTo E loaded targetSlot m) (\<lambda>(a, wasDestroyed).
             if \<not> exists \<and> \<not> wasDestroyed then Inr None else Inr (Some a)))"

definition pastAccount :: "account_env \<Rightarrow> slot \<Rightarrow> AccountsManager \<Rightarrow> bytes \<Rightarrow> (bytes \<rightharpoonup> AccountData) \<Rightarrow> (bytes \<rightharpoonup> AccountData)" where
  "pastAccount E targetSlot m i result =
     (let exists = accountsTree m i \<noteq> None;
          loaded = (case accountsTree m i of Some a \<Rightarrow> a | None \<Rightarrow> newPastAccount E i targetSlot)
      in case rollbackAccountTo E loaded targetSlot m of
           Inl _ \<Rightarrow> result
         | Inr (a, wasDestroyed) \<Rightarrow> if \<not> exists \<and> \<not> wasDestroyed then result else result(i \<mapsto> a))"

definition PastAccounts :: "account_env \<Rightarrow> bytes list \<Rightarrow> slot \<Rightarrow> AccountsManager \<Rightarrow> (bytes \<rightharpoonup> AccountData)" where
  "PastAccounts E accountIDs targetSlot m = fold (pastAccount E targetSlot m) accountIDs Map.empty"

text \<open>One account of the stream of \<open>Rollback\<close>: the tree, and the error that ends the stream.\<close>

definition rollbackStreamed ::
  "account_env \<Rightarrow> slot \<Rightarrow> bytes \<Rightarrow> AccountDiff option \<Rightarrow> bool \<Rightarrow> AccountsManager \<times> account_error option \<Rightarrow> (AccountsManager \<times> account_error option) \<times> bool" where
  "rollbackStreamed E targetSlot i accountDiff destroyed = (\<lambda>(m, internalErr).
     let a = (case accountsTree m i of Some a \<Rightarrow> a | None \<Rightarrow> NewAccountData (api E) i)
     in case rollbackAccountTo E a targetSlot m of
          Inl e \<Rightarrow> ((m, Some e), False)
        | Inr (a, _) \<Rightarrow> ((m\<lparr>accountsTree := (accountsTree m)(i \<mapsto> a)\<rparr>, internalErr), True))"

definition Accounts_Rollback :: "account_env \<Rightarrow> slot \<Rightarrow> AccountsManager \<Rightarrow> account_error + AccountsManager" where
  "Accounts_Rollback E targetSlot m =
     for_down_res (\<lambda>sl m.
       bind_res (or_err NilDereference (slotDiff m sl)) (\<lambda>diffs.
         case AccountDiffs_Stream (order E) (rollbackStreamed E targetSlot) diffs (m, None) of
           (m, None) \<Rightarrow> Inr m
         | (_, Some e) \<Rightarrow> Inl e)) (latestCommittedSlot m) targetSlot m"

section \<open>Adding an account\<close>

record account_output =
  aoAccountID :: bytes
  aoStaking :: "(base_token \<times> epoch \<times> mana) option"
  aoBlockIssuer :: "(issuer_key list \<times> slot) option"

text \<open>The decoded output is \<open>None\<close> when it is not an account output; reading the keys of a missing
  block issuer feature dereferences nil.\<close>

definition AddAccount :: "account_env \<Rightarrow> bytes \<Rightarrow> account_output option \<Rightarrow> i64 \<Rightarrow> AccountsManager \<Rightarrow> account_error + AccountsManager" where
  "AddAccount E outID decoded credits m =
     bind_res (or_err NotAccountOutput decoded) (\<lambda>ao.
     let stakingOpts = (case aoStaking ao of None \<Rightarrow> id
           | Some (staked, endEpoch, cost) \<Rightarrow> WithFixedCost cost \<circ> WithStakeEndEpoch endEpoch \<circ> WithValidatorStake staked)
     in bind_res (or_err NilDereference (aoBlockIssuer ao)) (\<lambda>(keys, expiry).
        let a = stakingOpts (NewAccountData (api E) (aoAccountID ao));
            a = WithCredits (NewBlockIssuanceCredits credits (latestCommittedSlot m)) a;
            a = WithOutputID outID a;
            a = WithBlockIssuerKeys (api E) keys a;
            a = WithExpirySlot expiry a
        in Inr (m\<lparr>accountsTree := (accountsTree m)(aoAccountID ao \<mapsto> a)\<rparr>)))"

section \<open>Committing a slot\<close>

definition preserveDestroyedAccountData :: "account_env \<Rightarrow> bytes \<Rightarrow> AccountsManager \<Rightarrow> AccountDiff option" where
  "preserveDestroyedAccountData E i m =
     (case accountsTree m i of
        None \<Rightarrow> None
      | Some a \<Rightarrow> Some ((NewAccountDiff (api E))\<lparr>
          BICChange := - creditsValue (Credits a),
          NewExpirySlot := 0,
          PreviousExpirySlot := ExpirySlot a,
          NewOutputID := EmptyOutputID (api E),
          PreviousOutputID := accountOutputID a,
          PreviousUpdatedTime := creditsUpdateTime (Credits a),
          BlockIssuerKeysRemoved := BlockIssuerKeys a,
          ValidatorStakeChange := - ValidatorStake a,
          DelegationStakeChange := - DelegationStake a,
          StakeEndEpochChange := - ucast (StakeEndEpoch a),
          FixedCostChange := - FixedCost a,
          NewLatestSupportedVersionAndHash := noVersionAndHash (api E),
          PrevLatestSupportedVersionAndHash := LatestSupportedProtocolVersionAndHash a\<rparr>))"

text \<open>The two loops of \<open>computeBlockBurnsForSlot\<close>: over the blocks, and over the over-issuing validators.\<close>

definition burnBlock :: "account_env \<Rightarrow> mana \<Rightarrow> bytes \<Rightarrow> (bytes \<Rightarrow> mana option) \<times> (bytes \<Rightarrow> int option) \<Rightarrow>
    account_error + ((bytes \<Rightarrow> mana option) \<times> (bytes \<Rightarrow> int option))" where
  "burnBlock E rmc blockID = (\<lambda>(burns, counts).
     bind_res (or_err (BlockMissing blockID) (blockFunc E blockID)) (\<lambda>b.
       case ibBody b of
         BasicBody \<Rightarrow>
           Inr (burns(ibIssuer b \<mapsto> (case burns (ibIssuer b) of None \<Rightarrow> 0 | Some x \<Rightarrow> x) + ucast (ibWorkScore b) * rmc), counts)
       | ValidationBody _ _ \<Rightarrow>
           Inr (burns, counts(ibIssuer b \<mapsto> (case counts (ibIssuer b) of None \<Rightarrow> 0 | Some n \<Rightarrow> n) + 1))
       | OtherBody \<Rightarrow> Inr (burns, counts)))"

text \<open>\<open>None\<close> ends the function with no burns and no error: \<open>ierrors.Wrapf\<close> of a nil error.\<close>

definition punish :: "account_env \<Rightarrow> slot \<Rightarrow> AccountsManager \<Rightarrow> (bytes \<Rightarrow> int option) \<Rightarrow> bytes \<Rightarrow> (bytes \<Rightarrow> mana option) option \<Rightarrow>
    account_error + (bytes \<Rightarrow> mana option) option" where
  "punish E sl m counts i burns =
     (case burns of None \<Rightarrow> Inr None | Some burns \<Rightarrow>
      let n = (case counts i of None \<Rightarrow> 0 | Some n \<Rightarrow> n); perSlot = uint (ValidationBlocksPerSlot E sl) in
      if perSlot < n
      then (case account E i (latestCommittedSlot m) m of
              Inl e \<Rightarrow> Inl e
            | Inr None \<Rightarrow> (case WrapfNil (api E) of Some e \<Rightarrow> Inl e | None \<Rightarrow> Inr None)
            | Inr (Some a) \<Rightarrow>
                bind_res (or_err DecayError (ManaGenerationWithDecay E sl (ValidatorStake a) sl (sl + EpochDurationSlots E sl * PunishmentEpochs E sl)))
                  (\<lambda>manaPunishment.
                    Inr (Some (burns(i \<mapsto> (case burns i of None \<Rightarrow> 0 | Some x \<Rightarrow> x) + word_of_int (n - perSlot) * manaPunishment)))))
      else Inr (Some burns))"

definition computeBlockBurnsForSlot :: "account_env \<Rightarrow> slot \<Rightarrow> mana \<Rightarrow> AccountsManager \<Rightarrow> account_error + (bytes \<Rightarrow> mana option)" where
  "computeBlockBurnsForSlot E sl rmc m =
     (case blockBurns m sl of
        None \<Rightarrow> Inr Map.empty
      | Some ids \<Rightarrow>
          bind_res (fold_res (burnBlock E rmc) ids (Map.empty, Map.empty)) (\<lambda>(burns, counts).
          bind_res (fold_res (punish E sl m counts) (order E (dom counts)) (Some burns)) (\<lambda>burns.
            Inr (case burns of None \<Rightarrow> Map.empty | Some burns \<Rightarrow> burns))))"

definition diffOf :: "account_env \<Rightarrow> (bytes \<rightharpoonup> AccountDiff) \<Rightarrow> bytes \<Rightarrow> AccountDiff" where
  "diffOf E accountDiffs i = (case accountDiffs i of None \<Rightarrow> NewAccountDiff (api E) | Some d \<Rightarrow> d)"

definition updateSlotDiffWithBurns :: "account_env \<Rightarrow> slot \<Rightarrow> mana \<Rightarrow> (bytes \<rightharpoonup> AccountDiff) \<Rightarrow> AccountsManager \<Rightarrow> account_error + (bytes \<rightharpoonup> AccountDiff)" where
  "updateSlotDiffWithBurns E sl rmc accountDiffs m =
     bind_res (computeBlockBurnsForSlot E sl rmc m) (\<lambda>burns.
       Inr (fold (\<lambda>i accountDiffs.
              let d = diffOf E accountDiffs i in accountDiffs(i \<mapsto> d\<lparr>BICChange := BICChange d - the (burns i)\<rparr>))
            (order E (dom burns)) accountDiffs))"

definition signalVersion :: "account_env \<Rightarrow> AccountsManager \<Rightarrow> (bytes \<rightharpoonup> SignaledBlock) \<Rightarrow> bytes \<Rightarrow> (bytes \<rightharpoonup> AccountDiff) \<Rightarrow> (bytes \<rightharpoonup> AccountDiff)" where
  "signalVersion E m signals i accountDiffs =
     (let a = (case accountsTree m i of Some a \<Rightarrow> a | None \<Rightarrow> NewAccountData (api E) i);
          d = diffOf E accountDiffs i;
          sb = the (signals i);
          newVersionAndHash = \<lparr>vhVersion = HighestSupportedVersion sb, vhHash = ProtocolParametersHash sb\<rparr>
      in if LatestSupportedProtocolVersionAndHash a \<noteq> newVersionAndHash \<and>
            vhVersion (LatestSupportedProtocolVersionAndHash a) < vhVersion newVersionAndHash
         then accountDiffs(i \<mapsto> d\<lparr>NewLatestSupportedVersionAndHash := newVersionAndHash,
                                  PrevLatestSupportedVersionAndHash := LatestSupportedProtocolVersionAndHash a\<rparr>)
         else accountDiffs)"

definition updateSlotDiffWithVersionSignals :: "account_env \<Rightarrow> slot \<Rightarrow> (bytes \<rightharpoonup> AccountDiff) \<Rightarrow> AccountsManager \<Rightarrow> (bytes \<rightharpoonup> AccountDiff)" where
  "updateSlotDiffWithVersionSignals E sl accountDiffs m =
     (case latestSupportedVersionSignals m sl of
        None \<Rightarrow> accountDiffs
      | Some signals \<Rightarrow> fold (signalVersion E m signals) (order E (dom signals)) accountDiffs)"

text \<open>
  Committing the diff of an account that is not destroyed: the diff with the decay of the credits
  taken into account, and the new account.
\<close>

definition decayCredits :: "account_env \<Rightarrow> slot \<Rightarrow> bool \<Rightarrow> AccountDiff \<Rightarrow> AccountData \<Rightarrow> account_error + (AccountDiff \<times> AccountData)" where
  "decayCredits E sl exists d a =
     (if BICChange d \<noteq> 0 \<or> \<not> exists
      then bind_res
             (if exists
              then bind_res (or_err DecayError (ManaWithDecay E sl (creditsValue (Credits a)) (creditsUpdateTime (Credits a)) sl))
                     (\<lambda>decayed. Inr (d\<lparr>BICChange := BICChange d - (creditsValue (Credits a) - decayed)\<rparr>))
              else Inr d)
             (\<lambda>d. Inr (d, a\<lparr>Credits := Credits_Update (BICChange d) (Some sl) (Credits a)\<rparr>))
      else Inr (d, a))"

definition applyAccount :: "account_env \<Rightarrow> AccountDiff \<Rightarrow> AccountData \<Rightarrow> account_error + AccountData" where
  "applyAccount E d a =
     (let a = (if PreviousExpirySlot d \<noteq> NewExpirySlot d then a\<lparr>ExpirySlot := NewExpirySlot d\<rparr> else a);
          a = (if NewOutputID d \<noteq> EmptyOutputID (api E) then a\<lparr>accountOutputID := NewOutputID d\<rparr> else a);
          a = AddBlockIssuerKeys (api E) (BlockIssuerKeysAdded d) a;
          a = RemoveBlockIssuerKey (api E) (BlockIssuerKeysRemoved d) a
      in bind_res (or_err StakeOutOfRange (SafeAdd (safe E) (ValidatorStake a) (ValidatorStakeChange d))) (\<lambda>vs.
         let a = a\<lparr>ValidatorStake := vs\<rparr> in
         bind_res (or_err StakeOutOfRange (SafeAdd (safe E) (DelegationStake a) (DelegationStakeChange d))) (\<lambda>ds.
         let a = a\<lparr>DelegationStake := ds\<rparr> in
         bind_res (or_err StakeOutOfRange (SafeAdd (safe E) (ucast (StakeEndEpoch a)) (StakeEndEpochChange d))) (\<lambda>se.
         let a = a\<lparr>StakeEndEpoch := ucast se\<rparr> in
         bind_res (or_err StakeOutOfRange (SafeAdd (safe E) (FixedCost a) (FixedCostChange d))) (\<lambda>fc.
         let a = a\<lparr>FixedCost := fc\<rparr> in
         Inr (if PrevLatestSupportedVersionAndHash d \<noteq> NewLatestSupportedVersionAndHash d \<and>
                 vhVersion (LatestSupportedProtocolVersionAndHash a) < vhVersion (NewLatestSupportedVersionAndHash d)
              then a\<lparr>LatestSupportedProtocolVersionAndHash := NewLatestSupportedVersionAndHash d\<rparr> else a))))))"

definition commitAccount :: "account_env \<Rightarrow> slot \<Rightarrow> bytes set \<Rightarrow> bytes \<Rightarrow> (bytes \<rightharpoonup> AccountDiff option) \<times> AccountsManager \<Rightarrow>
    account_error + ((bytes \<rightharpoonup> AccountDiff option) \<times> AccountsManager)" where
  "commitAccount E sl destroyedAccounts i = (\<lambda>(changes, m).
     if i \<in> destroyedAccounts then Inr (changes, m\<lparr>accountsTree := (accountsTree m)(i := None)\<rparr>)
     else
       let exists = accountsTree m i \<noteq> None;
           a = (case accountsTree m i of Some a \<Rightarrow> a | None \<Rightarrow> NewAccountData (api E) i)
       in bind_res (or_err NilDereference (the (changes i))) (\<lambda>d.
          bind_res (decayCredits E sl exists d a) (\<lambda>(d, a).
          bind_res (applyAccount E d a) (\<lambda>a.
            Inr (changes(i \<mapsto> Some d), m\<lparr>accountsTree := (accountsTree m)(i \<mapsto> a)\<rparr>)))))"

definition commitAccountTree :: "account_env \<Rightarrow> slot \<Rightarrow> bytes set \<Rightarrow> (bytes \<rightharpoonup> AccountDiff option) \<Rightarrow> AccountsManager \<Rightarrow>
    account_error + ((bytes \<rightharpoonup> AccountDiff option) \<times> AccountsManager)" where
  "commitAccountTree E sl destroyedAccounts changes m = fold_res (commitAccount E sl destroyedAccounts) (order E (dom changes)) (changes, m)"

definition evict :: "slot \<Rightarrow> AccountsManager \<Rightarrow> AccountsManager" where
  "evict sl m =
     m\<lparr>blockBurns := (blockBurns m)(sl := None), latestSupportedVersionSignals := (latestSupportedVersionSignals m)(sl := None)\<rparr>"

definition storeDiffOf :: "slot \<Rightarrow> bytes set \<Rightarrow> (bytes \<rightharpoonup> AccountDiff option) \<Rightarrow> bytes \<Rightarrow> AccountsManager \<Rightarrow> account_error + AccountsManager" where
  "storeDiffOf sl destroyedAccounts changes i m =
     bind_res (or_err (SlotPruned sl) (slotDiff m sl)) (\<lambda>s.
     bind_res (AccountDiffs_Store i (the (changes i)) (i \<in> destroyedAccounts) s) (\<lambda>s.
       Inr (m\<lparr>slotDiff := (slotDiff m)(sl \<mapsto> s)\<rparr>)))"

text \<open>
  The map \<open>accountDiffs\<close> belongs to the caller, who sees what the function has changed in it:
  \<open>applyDiffs\<close> has that map as a result, too.
\<close>

definition applyDiffs :: "account_env \<Rightarrow> slot \<Rightarrow> mana \<Rightarrow> (bytes \<rightharpoonup> AccountDiff) \<Rightarrow> bytes set \<Rightarrow> AccountsManager \<Rightarrow>
    account_error + ((bytes \<rightharpoonup> AccountDiff option) \<times> AccountsManager)" where
  "applyDiffs E sl rmc accountDiffs destroyedAccounts m =
     (if sl \<noteq> latestCommittedSlot m + 1 then Inl (GapInSlots (latestCommittedSlot m) sl)
      else
        bind_res (updateSlotDiffWithBurns E sl rmc accountDiffs m) (\<lambda>accountDiffs.
        let accountDiffs = updateSlotDiffWithVersionSignals E sl accountDiffs m;
            changes = (\<lambda>i. map_option (\<lambda>d. if i \<in> destroyedAccounts then preserveDestroyedAccountData E i m else Some d) (accountDiffs i))
        in bind_res (commitAccountTree E sl destroyedAccounts changes m) (\<lambda>(changes, m).
           bind_res (fold_res (storeDiffOf sl destroyedAccounts changes) (order E (dom changes)) m) (\<lambda>m.
             Inr (changes, evict (sl - MaxCommittableAge E sl - 1) (m\<lparr>latestCommittedSlot := sl\<rparr>))))))"

definition ApplyDiff :: "account_env \<Rightarrow> slot \<Rightarrow> mana \<Rightarrow> (bytes \<rightharpoonup> AccountDiff) \<Rightarrow> bytes set \<Rightarrow> AccountsManager \<Rightarrow> account_error + AccountsManager" where
  "ApplyDiff E sl rmc accountDiffs destroyedAccounts m =
     bind_res (applyDiffs E sl rmc accountDiffs destroyedAccounts m) (\<lambda>(_, m). Inr m)"

end
