(* ===== verification/AccountsHistory.thy ===== *)
theory AccountsHistory
  imports AccountsLedger
begin

text \<open>
  What the accounts ledger reports for past slots. Committing the diff of a slot and rolling it
  back are inverse when the diff was computed from the account it is applied to; so committing a
  slot does not change what the ledger reports for the slots before it. The properties that rest on
  this are in \<open>AccountsProperties\<close>.
\<close>

section \<open>What the ledger relies on\<close>

text \<open>Documented: an iteration visits every key once; checked arithmetic is exact.\<close>

definition account_env_ok :: "account_env \<Rightarrow> bool" where
  "account_env_ok E \<longleftrightarrow>
     safemath_signed (safe E) \<and> keys_spec (api E) \<and>
     (\<forall>S. finite S \<longrightarrow> distinct (order E S) \<and> set (order E S) = S)"

lemma order_singleton:
  assumes "account_env_ok E"
  shows "order E {x} = [x]" and "order E {} = []"
proof -
  have "set ys = {x} \<Longrightarrow> distinct ys \<Longrightarrow> ys = [x]" for ys by (cases ys; cases "tl ys") auto
  moreover have "set (order E {x}) = {x}" "distinct (order E {x})" "set (order E {}) = {}" using assms by (simp_all add: account_env_ok_def)
  ultimately show "order E {x} = [x]" "order E {} = []" by simp_all
qed

lemma fold_KeysRemove:
  assumes "keys_spec A" and "keys_ok ks0"
  shows "fold (KeysRemove A) ks ks0 = sorted_list_of_set (set ks0 - set ks) \<and> keys_ok (fold (KeysRemove A) ks ks0)"
  using assms(2)
proof (induction ks arbitrary: ks0)
  case Nil
  then show ?case by (simp add: keys_ok_sorted_list)
next
  case (Cons k ks)
  have k: "KeysRemove A k ks0 = sorted_list_of_set (set ks0 - {k})" using assms(1) Cons.prems unfolding keys_spec_def by blast
  have "keys_ok (KeysRemove A k ks0)" unfolding k by (rule keys_ok_sorted_list_of_set)
  moreover have "set (KeysRemove A k ks0) = set ks0 - {k}" unfolding k by (rule set_sorted_list_of_set) simp
  then have "set ks0 - set (k # ks) = set (KeysRemove A k ks0) - set ks" by auto
  ultimately show ?case using Cons.IH[of "KeysRemove A k ks0"] unfolding fold_simps(2) by (simp only: keys_ok_sorted_list_of_set simp_thms)
qed

text \<open>Adding fresh keys and removing present ones is undone by the opposite.\<close>

lemma keys_undo:
  assumes A: "keys_spec A" and ks: "keys_ok ks" and "set added \<inter> set ks = {}" and "set removed \<subseteq> set ks"
  shows "fold (KeysRemove A) added (fold (KeysAdd A) removed (fold (KeysRemove A) removed (fold (KeysAdd A) added ks))) = ks"
proof -
  let ?a = "fold (KeysAdd A) added ks" and ?r = "\<lambda>x. fold (KeysRemove A) removed x"
  note 1 = fold_KeysAdd[OF A ks, of added]
  note 2 = fold_KeysRemove[OF A, of ?a removed]
  note 3 = fold_KeysAdd[OF A, of "?r ?a" removed]
  note 4 = fold_KeysRemove[OF A, of "fold (KeysAdd A) removed (?r ?a)" added]
  have ok: "keys_ok ?a" "keys_ok (?r ?a)" "keys_ok (fold (KeysAdd A) removed (?r ?a))" using 1 2 3 by blast+
  have s1: "set ?a = set added \<union> set ks" using 1 by (metis finite_Un finite_set set_sorted_list_of_set)
  have s2: "set (?r ?a) = set added \<union> set ks - set removed" using 2 ok s1 by (metis finite_Diff finite_set set_sorted_list_of_set)
  have s3: "set (fold (KeysAdd A) removed (?r ?a)) = set added \<union> set ks"
    using 3 ok s2 assms(4) by (metis Un_Diff_cancel finite_Un finite_set le_supI2 set_sorted_list_of_set sup.absorb_iff2)
  have "set (fold (KeysAdd A) removed (?r ?a)) - set added = set ks" using s3 assms(3) by auto
  then show ?thesis using 4 ok keys_ok_sorted_list[OF ks] by simp
qed

section \<open>A diff and the account it was computed from\<close>

definition diff_matches :: "account_env \<Rightarrow> AccountDiff \<Rightarrow> AccountData \<Rightarrow> bool" where
  "diff_matches E d a \<longleftrightarrow>
     (PreviousExpirySlot d \<noteq> NewExpirySlot d \<longrightarrow> PreviousExpirySlot d = ExpirySlot a) \<and>
     (PreviousOutputID d \<noteq> EmptyOutputID (api E) \<longrightarrow> PreviousOutputID d = accountOutputID a) \<and>
     (NewOutputID d \<noteq> EmptyOutputID (api E) \<longrightarrow> PreviousOutputID d = accountOutputID a \<and> PreviousOutputID d \<noteq> EmptyOutputID (api E)) \<and>
     keys_ok (BlockIssuerKeys a) \<and> set (BlockIssuerKeysAdded d) \<inter> set (BlockIssuerKeys a) = {} \<and>
     set (BlockIssuerKeysRemoved d) \<subseteq> set (BlockIssuerKeys a) \<and>
     0 \<le> uint (StakeEndEpoch a) + sint (StakeEndEpochChange d) \<and> uint (StakeEndEpoch a) + sint (StakeEndEpochChange d) < 2 ^ 32 \<and>
     (PrevLatestSupportedVersionAndHash d \<noteq> NewLatestSupportedVersionAndHash d \<longrightarrow>
        PrevLatestSupportedVersionAndHash d = LatestSupportedProtocolVersionAndHash a)"

lemma safe_undo:
  assumes "safemath_signed sm" and "SafeAdd sm x d = Some y"
  shows "SafeSub sm y d = Some x"
  using assms by (simp add: safe_signed_iff[OF assms(1)])

lemma epoch_undo:
  fixes e :: epoch and sm :: "i64 safemath"
  assumes "safemath_signed sm" and "SafeAdd sm (ucast e) d = Some y" and "0 \<le> uint e + sint d" and "uint e + sint d < 2 ^ 32"
  shows "SafeSub sm (ucast (ucast y :: epoch)) d = Some (ucast e)"
proof -
  have y: "sint y = sint (ucast e :: i64) + sint d" using assms(1,2) by (simp add: safe_signed_iff)
  have b: "0 \<le> uint e" "uint e < 2 ^ 32" using uint_bounded[of e] by simp_all
  then have "take_bit 64 (uint e) = uint e" by (intro take_bit_int_eq_self) auto
  then have "uint (ucast e :: i64) = uint e" by (simp add: unsigned_ucast_eq)
  moreover from this have "sint (ucast e :: i64) = uint e" using sint_of_small[of "ucast e :: i64"] b by simp
  ultimately have "uint y = uint e + sint d" using uint_of_nonneg[of y] y assms(3) by simp
  then have "uint (ucast (ucast y :: epoch) :: i64) = uint y" using assms(3,4) by (simp add: unsigned_ucast_eq unsigned_take_bit_eq take_bit_int_eq_self)
  then have "(ucast (ucast y :: epoch) :: i64) = y" by (simp only: word_uint_eq_iff)
  then show ?thesis using safe_undo[OF assms(1,2)] by simp
qed

lemma ucast_epoch: "ucast (ucast (e :: epoch) :: i64) = e"
  by (simp add: unsigned_ucast_eq take_bit_word_eq_self)

lemmas account_if = if_distrib[of accountID] if_distrib[of Credits] if_distrib[of ExpirySlot] if_distrib[of accountOutputID]
  if_distrib[of BlockIssuerKeys] if_distrib[of ValidatorStake] if_distrib[of DelegationStake] if_distrib[of StakeEndEpoch]
  if_distrib[of FixedCost] if_distrib[of LatestSupportedProtocolVersionAndHash]

lemma applyAccount_fields:
  assumes "applyAccount E d a = Inr a'"
  shows "accountID a' = accountID a" and "Credits a' = Credits a"
    and "ExpirySlot a' = (if PreviousExpirySlot d \<noteq> NewExpirySlot d then NewExpirySlot d else ExpirySlot a)"
    and "accountOutputID a' = (if NewOutputID d \<noteq> EmptyOutputID (api E) then NewOutputID d else accountOutputID a)"
    and "BlockIssuerKeys a' = fold (KeysRemove (api E)) (BlockIssuerKeysRemoved d) (fold (KeysAdd (api E)) (BlockIssuerKeysAdded d) (BlockIssuerKeys a))"
    and "SafeAdd (safe E) (ValidatorStake a) (ValidatorStakeChange d) = Some (ValidatorStake a')"
    and "SafeAdd (safe E) (DelegationStake a) (DelegationStakeChange d) = Some (DelegationStake a')"
    and "\<exists>se. SafeAdd (safe E) (ucast (StakeEndEpoch a)) (StakeEndEpochChange d) = Some se \<and> StakeEndEpoch a' = ucast se"
    and "SafeAdd (safe E) (FixedCost a) (FixedCostChange d) = Some (FixedCost a')"
    and "LatestSupportedProtocolVersionAndHash a' =
      (if PrevLatestSupportedVersionAndHash d \<noteq> NewLatestSupportedVersionAndHash d \<and>
          vhVersion (LatestSupportedProtocolVersionAndHash a) < vhVersion (NewLatestSupportedVersionAndHash d)
       then NewLatestSupportedVersionAndHash d else LatestSupportedProtocolVersionAndHash a)"
  using assms
  by (auto simp: applyAccount_def Let_def AddBlockIssuerKeys_def RemoveBlockIssuerKey_def account_if cong: if_cong)

lemma rollbackAccount_Inr:
  assumes "SafeSub (safe E) (ValidatorStake a) (ValidatorStakeChange d) = Some vs"
    and "SafeSub (safe E) (DelegationStake a) (DelegationStakeChange d) = Some ds"
    and "SafeSub (safe E) (ucast (StakeEndEpoch a)) (StakeEndEpochChange d) = Some se"
    and "SafeSub (safe E) (FixedCost a) (FixedCostChange d) = Some fc"
  shows "rollbackAccount E d a = Inr \<lparr>accountID = accountID a,
      Credits = Credits_Update (- BICChange d) (Some (PreviousUpdatedTime d)) (Credits a),
      ExpirySlot = (if PreviousExpirySlot d \<noteq> NewExpirySlot d then PreviousExpirySlot d else ExpirySlot a),
      accountOutputID = (if PreviousOutputID d \<noteq> EmptyOutputID (api E) then PreviousOutputID d else accountOutputID a),
      BlockIssuerKeys = fold (KeysRemove (api E)) (BlockIssuerKeysAdded d) (fold (KeysAdd (api E)) (BlockIssuerKeysRemoved d) (BlockIssuerKeys a)),
      ValidatorStake = vs, DelegationStake = ds, FixedCost = fc, StakeEndEpoch = ucast se,
      LatestSupportedProtocolVersionAndHash =
        (if PrevLatestSupportedVersionAndHash d \<noteq> NewLatestSupportedVersionAndHash d then PrevLatestSupportedVersionAndHash d
         else LatestSupportedProtocolVersionAndHash a)\<rparr>"
  using assms by (cases a) (simp add: rollbackAccount_def Let_def AddBlockIssuerKeys_def RemoveBlockIssuerKey_def account_if cong: if_cong)

text \<open>
  Committing a diff and rolling it back: everything is restored, and the update time of the credits
  is what the diff says it was before.
\<close>

lemma decayCredits_fields:
  assumes "decayCredits E sl exists d a = Inr (d', a')"
  shows "\<exists>c. d' = d\<lparr>BICChange := creditsValue c - creditsValue (Credits a)\<rparr> \<and> a' = a\<lparr>Credits := c\<rparr>"
proof (cases "BICChange d \<noteq> 0 \<or> \<not> exists")
  case True
  let ?c = "Credits_Update (BICChange d') (Some sl) (Credits a)"
  have "d' = d\<lparr>BICChange := BICChange d'\<rparr>" "a' = a\<lparr>Credits := ?c\<rparr>"
    using True assms by (cases exists; auto simp: decayCredits_def)+
  moreover have "creditsValue ?c - creditsValue (Credits a) = BICChange d'" by (simp add: Credits_Update_def)
  ultimately show ?thesis by (metis (no_types))
next
  case False
  then have "d' = d" "a' = a" using assms by (auto simp: decayCredits_def)
  moreover have "d = d\<lparr>BICChange := creditsValue (Credits a) - creditsValue (Credits a)\<rparr>" using False by simp
  moreover have "a = a\<lparr>Credits := Credits a\<rparr>" by simp
  ultimately show ?thesis by (metis (no_types))
qed

lemma rollback_applied:
  assumes E: "account_env_ok E" and d: "diff_matches E d a"
    and "decayCredits E sl exists d a = Inr (d', a')" and "applyAccount E d' a' = Inr a''"
  shows "rollbackAccount E d' a'' = Inr (a\<lparr>Credits := (Credits a)\<lparr>creditsUpdateTime := PreviousUpdatedTime d\<rparr>\<rparr>)"
proof -
  have sm: "safemath_signed (safe E)" and ks: "keys_spec (api E)" using E by (simp_all add: account_env_ok_def)
  obtain c where c: "d' = d\<lparr>BICChange := creditsValue c - creditsValue (Credits a)\<rparr>" "a' = a\<lparr>Credits := c\<rparr>"
    using decayCredits_fields[OF assms(3)] by blast
  note f = applyAccount_fields[OF assms(4), unfolded c, simplified]
  obtain se where se: "SafeAdd (safe E) (ucast (StakeEndEpoch a)) (StakeEndEpochChange d) = Some se" "StakeEndEpoch a'' = ucast se"
    using f(8) by blast
  have k: "fold (KeysRemove (api E)) (BlockIssuerKeysAdded d) (fold (KeysAdd (api E)) (BlockIssuerKeysRemoved d) (BlockIssuerKeys a'')) = BlockIssuerKeys a"
    unfolding f(5) using d by (intro keys_undo[OF ks]) (simp_all add: diff_matches_def)
  have e: "SafeSub (safe E) (ucast (StakeEndEpoch a'')) (StakeEndEpochChange d) = Some (ucast (StakeEndEpoch a))"
    unfolding se(2) using d by (intro epoch_undo[OF sm se(1)]) (simp_all add: diff_matches_def)
  have x: "(if PreviousExpirySlot d \<noteq> NewExpirySlot d then PreviousExpirySlot d else ExpirySlot a'') = ExpirySlot a"
    using d f(3) by (simp add: diff_matches_def)
  have o': "(if PreviousOutputID d \<noteq> EmptyOutputID (api E) then PreviousOutputID d else accountOutputID a'') = accountOutputID a"
    using d f(4) by (auto simp: diff_matches_def)
  have v: "(if PrevLatestSupportedVersionAndHash d \<noteq> NewLatestSupportedVersionAndHash d then PrevLatestSupportedVersionAndHash d
      else LatestSupportedProtocolVersionAndHash a'') = LatestSupportedProtocolVersionAndHash a"
    using d f(10) by (simp add: diff_matches_def)
  have cr: "Credits_Update (- BICChange d') (Some (PreviousUpdatedTime d)) (Credits a'') = (Credits a)\<lparr>creditsUpdateTime := PreviousUpdatedTime d\<rparr>"
    by (simp add: c(1) f(2) Credits_Update_def)
  have dd: "PreviousUpdatedTime d' = PreviousUpdatedTime d" "PreviousExpirySlot d' = PreviousExpirySlot d" "NewExpirySlot d' = NewExpirySlot d"
    "PreviousOutputID d' = PreviousOutputID d" "BlockIssuerKeysAdded d' = BlockIssuerKeysAdded d" "BlockIssuerKeysRemoved d' = BlockIssuerKeysRemoved d"
    "ValidatorStakeChange d' = ValidatorStakeChange d" "DelegationStakeChange d' = DelegationStakeChange d" "StakeEndEpochChange d' = StakeEndEpochChange d"
    "FixedCostChange d' = FixedCostChange d" "PrevLatestSupportedVersionAndHash d' = PrevLatestSupportedVersionAndHash d"
    "NewLatestSupportedVersionAndHash d' = NewLatestSupportedVersionAndHash d" by (simp_all add: c(1))
  note u = ucast_epoch[of "StakeEndEpoch a"]
  have "rollbackAccount E d' a'' = Inr \<lparr>accountID = accountID a, Credits = (Credits a)\<lparr>creditsUpdateTime := PreviousUpdatedTime d\<rparr>,
      ExpirySlot = ExpirySlot a, accountOutputID = accountOutputID a, BlockIssuerKeys = BlockIssuerKeys a, ValidatorStake = ValidatorStake a,
      DelegationStake = DelegationStake a, FixedCost = FixedCost a, StakeEndEpoch = StakeEndEpoch a,
      LatestSupportedProtocolVersionAndHash = LatestSupportedProtocolVersionAndHash a\<rparr>"
    using rollbackAccount_Inr[of E a'' d' "ValidatorStake a" "DelegationStake a" "ucast (StakeEndEpoch a)" "FixedCost a"]
      safe_undo[OF sm f(6)] safe_undo[OF sm f(7)] e safe_undo[OF sm f(9)]
    by (simp only: dd x o' v cr k f(1) u)
  then show ?thesis by simp
qed

section \<open>What committing a slot does\<close>

definition accountOr :: "account_env \<Rightarrow> bytes \<Rightarrow> AccountsManager \<Rightarrow> AccountData" where
  "accountOr E i m = (case accountsTree m i of Some a \<Rightarrow> a | None \<Rightarrow> NewAccountData (api E) i)"

text \<open>The change of one account: the diff that is stored, and the account afterwards.\<close>

definition committed :: "account_env \<Rightarrow> slot \<Rightarrow> bytes set \<Rightarrow> bytes \<Rightarrow> AccountsManager \<Rightarrow> AccountDiff option \<Rightarrow> AccountData option \<Rightarrow> AccountDiff option \<Rightarrow> bool" where
  "committed E sl D i m d a' d' \<longleftrightarrow>
     (if i \<in> D then a' = None \<and> d' = d
      else \<exists>d0 d1 a1 a2. d = Some d0 \<and> decayCredits E sl (accountsTree m i \<noteq> None) d0 (accountOr E i m) = Inr (d1, a1) \<and>
             applyAccount E d1 a1 = Inr a2 \<and> a' = Some a2 \<and> d' = Some d1)"

lemma commitAccount_step:
  assumes "commitAccount E sl D i (ch, m) = Inr (ch', m')" and "ch i \<noteq> None"
  shows "committed E sl D i m (the (ch i)) (accountsTree m' i) (the (ch' i)) \<and> ch' i \<noteq> None \<and>
    (\<forall>j. j \<noteq> i \<longrightarrow> accountsTree m' j = accountsTree m j \<and> ch' j = ch j) \<and> m' = m\<lparr>accountsTree := accountsTree m'\<rparr>"
  using assms by (auto simp: commitAccount_def committed_def accountOr_def Let_def split: if_splits)

lemma committed_cong: "accountsTree m i = accountsTree m1 i \<Longrightarrow> committed E sl D i m = committed E sl D i m1"
  by (simp add: committed_def accountOr_def fun_eq_iff)

lemma commit_fold:
  assumes "fold_res (commitAccount E sl D) xs (ch, m) = Inr (ch', m')" and "distinct xs" and "\<forall>i \<in> set xs. ch i \<noteq> None"
  shows "(\<forall>i \<in> set xs. committed E sl D i m (the (ch i)) (accountsTree m' i) (the (ch' i)) \<and> ch' i \<noteq> None) \<and>
    (\<forall>j. j \<notin> set xs \<longrightarrow> accountsTree m' j = accountsTree m j \<and> ch' j = ch j) \<and> m' = m\<lparr>accountsTree := accountsTree m'\<rparr>"
  using assms
proof (induction xs arbitrary: ch m)
  case (Cons x xs)
  obtain ch1 m1 where 1: "commitAccount E sl D x (ch, m) = Inr (ch1, m1)" "fold_res (commitAccount E sl D) xs (ch1, m1) = Inr (ch', m')"
    using Cons.prems(1) by auto
  note s = commitAccount_step[OF 1(1)]
  have x: "ch x \<noteq> None" and ne: "\<forall>i \<in> set xs. i \<noteq> x" using Cons.prems by auto
  have "\<forall>i \<in> set xs. ch1 i \<noteq> None" using s x ne Cons.prems(3) by auto
  note IH = Cons.IH[OF 1(2) _ this]
  have "committed E sl D i m (the (ch i)) = committed E sl D i m1 (the (ch1 i))" if "i \<in> set xs" for i
    using s x ne that committed_cong[of m i m1] by auto
  then have "\<forall>i \<in> set xs. committed E sl D i m (the (ch i)) (accountsTree m' i) (the (ch' i)) \<and> ch' i \<noteq> None"
    using IH Cons.prems(2) by auto
  moreover have "committed E sl D x m (the (ch x)) (accountsTree m' x) (the (ch' x)) \<and> ch' x \<noteq> None"
    using s x IH Cons.prems(2) by auto
  moreover have "m' = m\<lparr>accountsTree := accountsTree m'\<rparr>"
  proof -
    have "m1 = m\<lparr>accountsTree := accountsTree m1\<rparr>" using s x by blast
    moreover have "m' = m1\<lparr>accountsTree := accountsTree m'\<rparr>" using IH Cons.prems(2) by simp
    ultimately show ?thesis by (metis AccountsManager.update_convs(4) AccountsManager.surjective)
  qed
  ultimately show ?case using s x IH Cons.prems(2) by auto
qed simp

lemma store_fold:
  assumes "fold_res (storeDiffOf sl D ch) xs m = Inr m'" and "slotDiff m sl = Some st"
  shows "(\<exists>st'. slotDiff m' sl = Some st' \<and> (\<forall>i. diffChangeStore st' i = (if i \<in> set xs then the (ch i) else diffChangeStore st i)) \<and>
      (\<forall>i. destroyedStore st' i \<noteq> None \<longleftrightarrow> i \<in> set xs \<and> i \<in> D \<or> destroyedStore st i \<noteq> None)) \<and>
    (\<forall>s. s \<noteq> sl \<longrightarrow> slotDiff m' s = slotDiff m s) \<and> accountsTree m' = accountsTree m \<and> (\<forall>i \<in> set xs. the (ch i) \<noteq> None)"
  using assms
proof (induction xs arbitrary: m st)
  case (Cons x xs)
  obtain m1 where 1: "storeDiffOf sl D ch x m = Inr m1" "fold_res (storeDiffOf sl D ch) xs m1 = Inr m'"
    using Cons.prems(1) by auto
  obtain st1 where st1: "AccountDiffs_Store x (the (ch x)) (x \<in> D) st = Inr st1" "m1 = m\<lparr>slotDiff := (slotDiff m)(sl \<mapsto> st1)\<rparr>"
    using 1(1) Cons.prems(2) by (auto simp: storeDiffOf_def)
  have "diffChangeStore st1 = (diffChangeStore st)(x := the (ch x))" "the (ch x) \<noteq> None"
    "destroyedStore st1 = (if x \<in> D then (destroyedStore st)(x \<mapsto> ()) else destroyedStore st)"
    using st1(1) by (auto simp: AccountDiffs_Store_def Let_def split: option.splits if_splits)
  then show ?case using Cons.IH[OF 1(2), of st1] st1(2) by (auto split: if_splits)
qed simp

text \<open>The diffs of a slot after the burns and the version signals were added.\<close>

definition slotDiffs :: "account_env \<Rightarrow> slot \<Rightarrow> mana \<Rightarrow> (bytes \<rightharpoonup> AccountDiff) \<Rightarrow> AccountsManager \<Rightarrow> account_error + (bytes \<rightharpoonup> AccountDiff)" where
  "slotDiffs E sl rmc ds m =
     bind_res (updateSlotDiffWithBurns E sl rmc ds m) (\<lambda>ds. Inr (updateSlotDiffWithVersionSignals E sl ds m))"

lemma finite_dom_fold:
  "finite (dom ds) \<Longrightarrow> (\<And>i ds. finite (dom ds) \<Longrightarrow> finite (dom (f i ds))) \<Longrightarrow> finite (dom (fold f xs ds))"
  by (rule fold_invariant_set[where P = "\<lambda>ds. finite (dom ds)"])

lemma finite_slotDiffs:
  assumes "slotDiffs E sl rmc ds m = Inr X" and "finite (dom ds)"
  shows "finite (dom X)"
proof -
  obtain burns where "X = updateSlotDiffWithVersionSignals E sl (fold (\<lambda>i ds. let d = diffOf E ds i in ds(i \<mapsto> d\<lparr>BICChange := BICChange d - the (burns i)\<rparr>))
      (order E (dom burns)) ds) m"
    using assms(1) by (auto simp: slotDiffs_def updateSlotDiffWithBurns_def)
  moreover have "finite (dom (fold (\<lambda>i ds. let d = diffOf E ds i in ds(i \<mapsto> d\<lparr>BICChange := BICChange d - the (burns i)\<rparr>)) xs ds))" for xs
    by (rule finite_dom_fold[OF assms(2)]) (simp add: Let_def)
  moreover have "finite (dom (updateSlotDiffWithVersionSignals E sl ds m))" if "finite (dom ds)" for ds
    unfolding updateSlotDiffWithVersionSignals_def
    by (cases "latestSupportedVersionSignals m sl") (auto intro!: finite_dom_fold[OF that] simp: that signalVersion_def Let_def)
  ultimately show ?thesis by simp
qed

lemma ApplyDiff_effect:
  assumes E: "account_env_ok E" and "ApplyDiff E sl rmc ds D m = Inr m'" and X: "slotDiffs E sl rmc ds m = Inr X" and "finite (dom ds)"
    and st: "slotDiff m sl = Some NewAccountDiffs"
  shows "sl = latestCommittedSlot m + 1 \<and> latestCommittedSlot m' = sl \<and> (\<forall>s. s \<noteq> sl \<longrightarrow> slotDiff m' s = slotDiff m s) \<and>
    (\<exists>st. slotDiff m' sl = Some st \<and>
      (\<forall>i. destroyedStore st i \<noteq> None \<longleftrightarrow> X i \<noteq> None \<and> i \<in> D) \<and>
      (\<forall>i. X i = None \<longrightarrow> accountsTree m' i = accountsTree m i \<and> diffChangeStore st i = None) \<and>
      (\<forall>i d. X i = Some d \<longrightarrow> (\<exists>d'. diffChangeStore st i = Some d' \<and>
         committed E sl D i m (if i \<in> D then preserveDestroyedAccountData E i m else Some d) (accountsTree m' i) (Some d'))))"
proof -
  define ch where "ch = (\<lambda>i. map_option (\<lambda>d. if i \<in> D then preserveDestroyedAccountData E i m else Some d) (X i))"
  have none: "ch i = None \<longleftrightarrow> X i = None" for i by (simp add: ch_def)
  have dom: "dom ch = dom X" by (auto simp: dom_def none)
  have ord: "distinct (order E (dom X))" "set (order E (dom X)) = dom X"
    using E finite_slotDiffs[OF X assms(4)] by (simp_all add: account_env_ok_def)
  obtain ch' m1 m2 where sl: "sl = latestCommittedSlot m + 1"
    and 1: "fold_res (commitAccount E sl D) (order E (dom X)) (ch, m) = Inr (ch', m1)"
    and 2: "fold_res (storeDiffOf sl D ch') (order E (dom ch')) m1 = Inr m2"
    and m': "m' = evict (sl - MaxCommittableAge E sl - 1) (m2\<lparr>latestCommittedSlot := sl\<rparr>)"
    using assms(2) X dom(1) by (auto simp: ApplyDiff_def applyDiffs_def slotDiffs_def commitAccountTree_def Let_def ch_def split: if_splits)
  have "\<forall>i \<in> set (order E (dom X)). ch i \<noteq> None" using ord(2) none by auto
  note C = commit_fold[OF 1 ord(1) this, unfolded ord(2)]
  have "ch' i \<noteq> None" if "i \<in> dom X" for i using C that by blast
  moreover have "ch' i = None" if "i \<notin> dom X" for i using C none that by (metis domIff)
  ultimately have "i \<in> dom ch' \<longleftrightarrow> i \<in> dom X" for i by (metis domIff)
  then have dom': "dom ch' = dom X" by (rule set_eqI)
  have "m1 = m\<lparr>accountsTree := accountsTree m1\<rparr>" using C by blast
  then have "slotDiff m1 = slotDiff (m\<lparr>accountsTree := accountsTree m1\<rparr>)" by (rule arg_cong)
  then have st1: "slotDiff m1 = slotDiff m" by simp
  then have st1': "slotDiff m1 sl = Some NewAccountDiffs" using st by simp
  note S = store_fold[OF 2 st1', unfolded dom' ord(2)]
  obtain st' where st': "slotDiff m2 sl = Some st'" "\<forall>i. diffChangeStore st' i = (if i \<in> dom X then the (ch' i) else None)"
    "\<forall>i. destroyedStore st' i \<noteq> None \<longleftrightarrow> i \<in> dom X \<and> i \<in> D" using S by (auto simp: NewAccountDiffs_def)
  have ev: "slotDiff m' = slotDiff m2" "accountsTree m' = accountsTree m1" "latestCommittedSlot m' = sl"
    using S by (simp_all add: m' evict_def)
  have "\<exists>d'. diffChangeStore st' i = Some d' \<and>
      committed E sl D i m (if i \<in> D then preserveDestroyedAccountData E i m else Some d) (accountsTree m' i) (Some d')" if "X i = Some d" for i d
  proof -
    have "i \<in> dom X" using that by blast
    then have "the (ch' i) \<noteq> None" "committed E sl D i m (the (ch i)) (accountsTree m1 i) (the (ch' i))"
      using C S by blast+
    then obtain d' where "the (ch' i) = Some d'" "committed E sl D i m (the (ch i)) (accountsTree m1 i) (Some d')" by (metis option.exhaust)
    then show ?thesis using st'(2) \<open>i \<in> dom X\<close> that by (simp add: ev ch_def)
  qed
  moreover have "accountsTree m' i = accountsTree m i \<and> diffChangeStore st' i = None" if "X i = None" for i
  proof -
    have "i \<notin> dom X" using that by (simp add: domIff)
    then show ?thesis using C st'(2) by (simp add: ev)
  qed
  moreover have "\<forall>s. s \<noteq> sl \<longrightarrow> slotDiff m' s = slotDiff m s" using S st1 by (simp add: ev)
  moreover have "destroyedStore st' i \<noteq> None \<longleftrightarrow> X i \<noteq> None \<and> i \<in> D" for i using st'(3) by (simp add: domIff)
  ultimately show ?thesis using sl st'(1) ev(1,3) by (metis (no_types, lifting))
qed

section \<open>Rolling back the newest slot\<close>

text \<open>An account whose amounts have an opposite in 64 bit arithmetic.\<close>

definition restorable :: "AccountData \<Rightarrow> bool" where
  "restorable a \<longleftrightarrow>
     keys_ok (BlockIssuerKeys a) \<and> uint (ValidatorStake a) < 2 ^ 63 \<and> uint (DelegationStake a) < 2 ^ 63 \<and> uint (FixedCost a) < 2 ^ 63"

lemma SafeSub_opposite:
  fixes x :: i64
  assumes "safemath_signed sm" and "uint x < 2 ^ 63"
  shows "SafeSub sm 0 (- x) = Some x"
proof -
  have x: "sint x = uint x" using assms(2) by (rule sint_of_small)
  have "- (2 ^ 63) \<le> - uint x" "- uint x < 2 ^ 63" using assms(2) uint_ge_0[of x] by linarith+
  then have "sint (word_of_int (- uint x) :: i64) = - uint x" by (rule sint_word_of_int)
  then have "sint (- x) = - sint x" using x by simp
  then show ?thesis using assms(1) by (simp add: safe_signed_iff)
qed

lemma rollback_destroyed:
  assumes E: "account_env_ok E" and "accountsTree m i = Some a" and "accountID a = i" and r: "restorable a"
    and d: "preserveDestroyedAccountData E i m = Some d"
  shows "rollbackAccount E d (newPastAccount E i t) = Inr a"
proof -
  have sm: "safemath_signed (safe E)" and ks: "keys_spec (api E)" using E by (simp_all add: account_env_ok_def)
  let ?n = "newPastAccount E i t"
  have n: "ValidatorStake ?n = 0" "DelegationStake ?n = 0" "ucast (StakeEndEpoch ?n) = (0 :: i64)" "FixedCost ?n = 0"
    by (simp_all add: newPastAccount_def WithCredits_def NewAccountData_def)
  have "take_bit 64 (uint (StakeEndEpoch a)) = uint (StakeEndEpoch a)" "uint (StakeEndEpoch a) < 2 ^ 32"
    using uint_bounded[of "StakeEndEpoch a"] by (auto intro!: take_bit_int_eq_self)
  then have e: "uint (ucast (StakeEndEpoch a) :: i64) < 2 ^ 63" by (simp add: unsigned_ucast_eq)
  have dd: "ValidatorStakeChange d = - ValidatorStake a" "DelegationStakeChange d = - DelegationStake a"
    "StakeEndEpochChange d = - ucast (StakeEndEpoch a)" "FixedCostChange d = - FixedCost a"
    "BICChange d = - creditsValue (Credits a)" "PreviousUpdatedTime d = creditsUpdateTime (Credits a)"
    "NewExpirySlot d = 0" "PreviousExpirySlot d = ExpirySlot a" "PreviousOutputID d = accountOutputID a"
    "BlockIssuerKeysRemoved d = BlockIssuerKeys a" "BlockIssuerKeysAdded d = []"
    "NewLatestSupportedVersionAndHash d = noVersionAndHash (api E)" "PrevLatestSupportedVersionAndHash d = LatestSupportedProtocolVersionAndHash a"
    using d assms(2) by (auto simp: preserveDestroyedAccountData_def NewAccountDiff_def)
  have k: "fold (KeysAdd (api E)) (BlockIssuerKeys a) [] = BlockIssuerKeys a"
    using fold_KeysAdd[OF ks, of "[]" "BlockIssuerKeys a"] keys_ok_sorted_list r by (simp add: keys_ok_def restorable_def)
  note u = ucast_epoch[of "StakeEndEpoch a"]
  have "rollbackAccount E d ?n = Inr \<lparr>accountID = accountID a, Credits = Credits a,
      ExpirySlot = ExpirySlot a, accountOutputID = accountOutputID a, BlockIssuerKeys = BlockIssuerKeys a, ValidatorStake = ValidatorStake a,
      DelegationStake = DelegationStake a, FixedCost = FixedCost a, StakeEndEpoch = StakeEndEpoch a,
      LatestSupportedProtocolVersionAndHash = LatestSupportedProtocolVersionAndHash a\<rparr>"
    using r by (subst rollbackAccount_Inr[where vs = "ValidatorStake a" and ds = "DelegationStake a" and se = "ucast (StakeEndEpoch a)" and fc = "FixedCost a"])
      (auto simp: n dd u SafeSub_opposite[OF sm] SafeSub_opposite[OF sm e] restorable_def newPastAccount_def WithCredits_def NewAccountData_def Credits_Update_def
        NewBlockIssuanceCredits_def k assms(3) intro!: BlockIssuanceCredits.equality)
  then show ?thesis by simp
qed

lemma rollbackSlot_flag:
  "rollbackSlot E m s (a, w) = map_sum id (\<lambda>(x, f). (x, w \<or> f)) (rollbackSlot E m s (a, False))"
  by (auto simp: rollbackSlot_def bind_res_def split: sum.splits)

lemma rollback_flag:
  "for_down_res (rollbackSlot E m) hi t (a, w) = map_sum id (\<lambda>(x, f). (x, w \<or> f)) (for_down_res (rollbackSlot E m) hi t (a, False))"
proof (induction hi arbitrary: a w rule: down_induct[where t = t])
  case (step hi)
  show ?case
  proof (cases "rollbackSlot E m hi (a, False)")
    case (Inl e)
    then show ?thesis using step.hyps(1) rollbackSlot_flag[of E m hi a w] by (simp add: for_down_res.simps[of _ hi])
  next
    case (Inr r)
    obtain x f where r: "r = (x, f)" by (cases r)
    have "rollbackSlot E m hi (a, w) = Inr (x, w \<or> f)" using rollbackSlot_flag[of E m hi a w] Inr r by simp
    then show ?thesis
      using step.hyps(1) Inr r step.IH[of x "w \<or> f"] step.IH[of x f]
      by (cases "for_down_res (rollbackSlot E m) (hi - 1) t (x, False)") (auto simp: for_down_res.simps[of _ hi])
  qed
qed (simp add: for_down_res.simps)

text \<open>The update time that a rollback of the newest slot restores.\<close>

definition restoredTime :: "bytes set \<Rightarrow> bytes \<Rightarrow> AccountDiff option \<Rightarrow> AccountData \<Rightarrow> slot" where
  "restoredTime D i d a = (if d = None \<or> i \<in> D then creditsUpdateTime (Credits a) else PreviousUpdatedTime (the d))"

lemma newest_slot_undone:
  assumes E: "account_env_ok E" and ap: "ApplyDiff E sl rmc ds D m = Inr m'" and X: "slotDiffs E sl rmc ds m = Inr X" and "finite (dom ds)"
    and "slotDiff m sl = Some NewAccountDiffs" and a: "accountsTree m i = Some a" "accountID a = i"
    and ok: "\<forall>d. X i = Some d \<longrightarrow> (if i \<in> D then restorable a else diff_matches E d a)"
  shows "rollbackSlot E m' sl (case accountsTree m' i of Some a \<Rightarrow> a | None \<Rightarrow> newPastAccount E i t, False) =
    Inr (a\<lparr>Credits := (Credits a)\<lparr>creditsUpdateTime := restoredTime D i (X i) a\<rparr>\<rparr>, X i \<noteq> None \<and> i \<in> D)"
proof -
  obtain st where st: "slotDiff m' sl = Some st" and
    ds: "\<forall>i. destroyedStore st i \<noteq> None \<longleftrightarrow> X i \<noteq> None \<and> i \<in> D" and
    no: "\<forall>i. X i = None \<longrightarrow> accountsTree m' i = accountsTree m i \<and> diffChangeStore st i = None" and
    some: "\<forall>i d. X i = Some d \<longrightarrow> (\<exists>d'. diffChangeStore st i = Some d' \<and>
         committed E sl D i m (if i \<in> D then preserveDestroyedAccountData E i m else Some d) (accountsTree m' i) (Some d'))"
    using ApplyDiff_effect[OF assms(1-5)] by blast
  show ?thesis
  proof (cases "X i")
    case None
    then show ?thesis using no st a by (simp add: rollbackSlot_def AccountDiffs_Has_def restoredTime_def)
  next
    case (Some d)
    then obtain d' where d': "diffChangeStore st i = Some d'"
      "committed E sl D i m (if i \<in> D then preserveDestroyedAccountData E i m else Some d) (accountsTree m' i) (Some d')" using some by blast
    show ?thesis
    proof (cases "i \<in> D")
      case True
      then have "accountsTree m' i = None" "preserveDestroyedAccountData E i m = Some d'" using d'(2) by (simp_all add: committed_def)
      moreover from this have "rollbackAccount E d' (newPastAccount E i t) = Inr a"
        using rollback_destroyed[OF E a] ok Some True by simp
      moreover have "accountID (newPastAccount E i t) = i" by (simp add: newPastAccount_def WithCredits_def NewAccountData_def)
      ultimately show ?thesis
        using st d'(1) ds Some True by (simp add: rollbackSlot_def AccountDiffs_Has_def AccountDiffs_Load_def restoredTime_def)
    next
      case False
      then obtain a1 a2 where c: "decayCredits E sl True d a = Inr (d', a1)" "applyAccount E d' a1 = Inr a2" "accountsTree m' i = Some a2"
        using d'(2) a(1) by (auto simp: committed_def accountOr_def)
      have "diff_matches E d a" using ok Some False by simp
      note r = rollback_applied[OF E this c(1,2)]
      have "accountID a2 = i" using applyAccount_fields(1)[OF c(2)] decayCredits_fields[OF c(1)] a(2) by auto
      then show ?thesis
        using st d'(1) ds Some False r c(3)
        by (simp add: rollbackSlot_def AccountDiffs_Has_def AccountDiffs_Load_def restoredTime_def)
    qed
  qed
qed

lemma slot_step:
  assumes "sl = (n :: slot) + 1" and "n \<noteq> max_slot" and "t \<le> n"
  shows "t < sl \<and> sl - 1 = n \<and> (\<forall>s. s \<le> n \<longrightarrow> s \<noteq> sl) \<and> n < sl"
proof -
  have "n < sl" using word_Suc_no_wrap[of n n] assms(1,2) by (simp add: word_less_nat_alt)
  then show ?thesis using assms by auto
qed

text \<open>Asking for a past slot after a commit: as before, from the account the newest slot is rolled back to.\<close>

definition inWindow :: "account_env \<Rightarrow> slot \<Rightarrow> AccountsManager \<Rightarrow> bool" where
  "inWindow E t m \<longleftrightarrow> \<not> (MaxCommittableAge E t \<le> latestCommittedSlot m \<and> t + MaxCommittableAge E t < latestCommittedSlot m)"

lemma account_after_commit:
  assumes "account_env_ok E" and "ApplyDiff E sl rmc ds D m = Inr m'" and "slotDiffs E sl rmc ds m = Inr X" and "finite (dom ds)"
    and "slotDiff m sl = Some NewAccountDiffs" and "accountsTree m i = Some a" "accountID a = i"
    and "\<forall>d. X i = Some d \<longrightarrow> (if i \<in> D then restorable a else diff_matches E d a)"
    and t: "t \<le> latestCommittedSlot m" "latestCommittedSlot m \<noteq> max_slot" and w: "inWindow E t m'"
  shows "account E i t m' = bind_res (for_down_res (rollbackSlot E m) (latestCommittedSlot m) t
      (a\<lparr>Credits := (Credits a)\<lparr>creditsUpdateTime := restoredTime D i (X i) a\<rparr>\<rparr>, False)) (\<lambda>(x, _). Inr (Some x))"
    and "inWindow E t m"
proof -
  let ?n = "latestCommittedSlot m" and ?a = "a\<lparr>Credits := (Credits a)\<lparr>creditsUpdateTime := restoredTime D i (X i) a\<rparr>\<rparr>"
  let ?l = "case accountsTree m' i of Some a \<Rightarrow> a | None \<Rightarrow> newPastAccount E i t"
  have ef: "sl = ?n + 1" "latestCommittedSlot m' = sl" "\<forall>s. s \<noteq> sl \<longrightarrow> slotDiff m' s = slotDiff m s"
    and live: "accountsTree m' i = None \<Longrightarrow> X i \<noteq> None \<and> i \<in> D"
    using ApplyDiff_effect[OF assms(1-5)] assms(6) by (auto simp: committed_def split: if_splits) (metis option.exhaust option.simps(3))+
  note s = slot_step[OF ef(1) t(2,1)]
  have "for_down_res (rollbackSlot E m') ?n t x = for_down_res (rollbackSlot E m) ?n t x" for x
    using s ef(3) by (intro for_down_res_cong) (auto simp: rollbackSlot_def)
  then have "rollbackAccountTo E ?l t m' = for_down_res (rollbackSlot E m) ?n t (?a, X i \<noteq> None \<and> i \<in> D)"
    using newest_slot_undone[OF assms(1-8), of t] s
    by (simp add: rollbackAccountTo_def ef(2) for_down_res.simps[of _ sl])
  moreover note rollback_flag[of E m ?n t ?a "X i \<noteq> None \<and> i \<in> D"]
  moreover have "\<not> sl < t" using s by auto
  ultimately show "account E i t m' = bind_res (for_down_res (rollbackSlot E m) ?n t (?a, False)) (\<lambda>(x, _). Inr (Some x))"
    using w live by (cases "for_down_res (rollbackSlot E m) ?n t (?a, False)") (auto simp: account_def inWindow_def ef(2) Let_def)
  show "inWindow E t m" using w s unfolding inWindow_def ef(2) by (meson less_imp_le order.strict_trans order_trans)
qed

section \<open>Diffs that no transaction touched\<close>

text \<open>A diff that only block burns and version signals contribute to.\<close>

definition burnOnly :: "account_env \<Rightarrow> AccountsManager \<Rightarrow> bytes \<Rightarrow> AccountDiff option \<Rightarrow> bool" where
  "burnOnly E m i d \<longleftrightarrow> (\<forall>x. d = Some x \<longrightarrow>
     (\<exists>b v w. x = (NewAccountDiff (api E))\<lparr>BICChange := b, PrevLatestSupportedVersionAndHash := v, NewLatestSupportedVersionAndHash := w\<rparr> \<and>
        (v \<noteq> w \<longrightarrow> v = LatestSupportedProtocolVersionAndHash (accountOr E i m))))"

lemma fold_keeps: "P s \<Longrightarrow> (\<And>x s. P s \<Longrightarrow> P (f x s)) \<Longrightarrow> P (fold f xs s)"
  by (induction xs arbitrary: s) auto

lemma burnOnly_diffOf:
  assumes "burnOnly E m i (ds i)"
  shows "burnOnly E m i (Some (diffOf E ds i))"
proof (cases "ds i")
  case None
  have "NewAccountDiff (api E) = (NewAccountDiff (api E))\<lparr>BICChange := 0, PrevLatestSupportedVersionAndHash := noVersionAndHash (api E),
      NewLatestSupportedVersionAndHash := noVersionAndHash (api E)\<rparr>"
    by (simp add: NewAccountDiff_def)
  then show ?thesis using None by (auto simp: burnOnly_def diffOf_def)
qed (use assms in \<open>simp add: diffOf_def\<close>)

lemma burnOnly_upd:
  assumes "burnOnly E m i (Some d)"
  shows "burnOnly E m i (Some (d\<lparr>BICChange := b\<rparr>))"
    and "v = LatestSupportedProtocolVersionAndHash (accountOr E i m) \<Longrightarrow>
      burnOnly E m i (Some (d\<lparr>NewLatestSupportedVersionAndHash := w, PrevLatestSupportedVersionAndHash := v\<rparr>))"
proof -
  obtain c x y where "d = (NewAccountDiff (api E))\<lparr>BICChange := c, PrevLatestSupportedVersionAndHash := x, NewLatestSupportedVersionAndHash := y\<rparr>"
    and *: "x \<noteq> y \<longrightarrow> x = LatestSupportedProtocolVersionAndHash (accountOr E i m)" using assms by (auto simp: burnOnly_def)
  then have "d\<lparr>BICChange := b\<rparr> = (NewAccountDiff (api E))\<lparr>BICChange := b, PrevLatestSupportedVersionAndHash := x, NewLatestSupportedVersionAndHash := y\<rparr>"
    "d\<lparr>NewLatestSupportedVersionAndHash := w, PrevLatestSupportedVersionAndHash := v\<rparr> =
      (NewAccountDiff (api E))\<lparr>BICChange := c, PrevLatestSupportedVersionAndHash := v, NewLatestSupportedVersionAndHash := w\<rparr>" by simp_all
  then show "burnOnly E m i (Some (d\<lparr>BICChange := b\<rparr>))"
    "v = LatestSupportedProtocolVersionAndHash (accountOr E i m) \<Longrightarrow>
      burnOnly E m i (Some (d\<lparr>NewLatestSupportedVersionAndHash := w, PrevLatestSupportedVersionAndHash := v\<rparr>))"
    using * unfolding burnOnly_def by blast+
qed

lemma slotDiffs_burnOnly:
  assumes "slotDiffs E sl rmc ds m = Inr X" and "ds i = None"
  shows "burnOnly E m i (X i)"
proof -
  let ?b = "\<lambda>burns j ds. let d = diffOf E ds j in ds(j \<mapsto> d\<lparr>BICChange := BICChange d - the (burns j)\<rparr>)"
  obtain burns :: "bytes \<Rightarrow> mana option" where X: "X = updateSlotDiffWithVersionSignals E sl (fold (?b burns) (order E (dom burns)) ds) m"
    using assms(1) by (auto simp: slotDiffs_def updateSlotDiffWithBurns_def)
  have 1: "burnOnly E m i (fold (?b burns) xs ds i)" for xs
  proof (rule fold_keeps[where P = "\<lambda>ds. burnOnly E m i (ds i)"])
    fix j ds assume "burnOnly E m i (ds i)"
    then show "burnOnly E m i (?b burns j ds i)" using burnOnly_upd(1)[OF burnOnly_diffOf[of E m i ds]] by (auto simp: Let_def)
  qed (simp add: assms(2) burnOnly_def)
  have "burnOnly E m i (fold (signalVersion E m sg) xs d i)" if "burnOnly E m i (d i)" for sg xs d
  proof (rule fold_keeps[where P = "\<lambda>ds. burnOnly E m i (ds i)"])
    fix j ds assume "burnOnly E m i (ds i)"
    then show "burnOnly E m i (signalVersion E m sg j ds i)"
      using burnOnly_upd(2)[OF burnOnly_diffOf[of E m i ds] refl] by (auto simp: signalVersion_def Let_def accountOr_def)
  qed (rule that)
  then show ?thesis using 1 by (auto simp: X updateSlotDiffWithVersionSignals_def split: option.splits)
qed

lemma burnOnly_matches:
  assumes "burnOnly E m i (Some d)" and "accountsTree m i = Some a" and "keys_ok (BlockIssuerKeys a)"
  shows "diff_matches E d a \<and> PreviousUpdatedTime d = 0"
proof -
  obtain b v w where d: "d = (NewAccountDiff (api E))\<lparr>BICChange := b, PrevLatestSupportedVersionAndHash := v, NewLatestSupportedVersionAndHash := w\<rparr>"
    and v: "v \<noteq> w \<longrightarrow> v = LatestSupportedProtocolVersionAndHash a" using assms(1,2) by (auto simp: burnOnly_def accountOr_def)
  show ?thesis unfolding d using v assms(3) uint_bounded[of "StakeEndEpoch a"] by (simp add: diff_matches_def NewAccountDiff_def)
qed

text \<open>Rolling back a diff of the credits alone.\<close>

lemma rollback_credits:
  assumes "account_env_ok E" and "keys_ok (BlockIssuerKeys a)"
  shows "rollbackAccount E ((NewAccountDiff (api E))\<lparr>BICChange := b\<rparr>) a =
    Inr (a\<lparr>Credits := \<lparr>creditsValue = creditsValue (Credits a) - b, creditsUpdateTime = 0\<rparr>\<rparr>)"
proof -
  have sm: "safemath_signed (safe E)" using assms(1) by (simp add: account_env_ok_def)
  have "SafeSub (safe E) x 0 = Some x" for x using safe_signed_iff(2)[OF sm, of x 0 x] by simp
  then show ?thesis
    by (subst rollbackAccount_Inr[where vs = "ValidatorStake a" and ds = "DelegationStake a" and se = "ucast (StakeEndEpoch a)" and fc = "FixedCost a"])
      (auto simp: NewAccountDiff_def Credits_Update_def ucast_epoch intro!: AccountData.equality BlockIssuanceCredits.equality)
qed

end
