(* ===== verification/AccountsProperties.thy ===== *)
theory AccountsProperties
  imports AccountsHistory
begin

text \<open>
  The properties of the account formats and of the accounts ledger. Committing a slot keeps the
  history of the accounts; the rest shows where the code leaves that ground: diffs without an
  allotment, accounts that did not exist yet, and a rollback of the whole tree.
\<close>

section \<open>A concrete ledger\<close>

definition exampleAccount :: AccountData where
  "exampleAccount =
     \<lparr>accountID = [7], Credits = \<lparr>creditsValue = 50, creditsUpdateTime = 2\<rparr>, ExpirySlot = 9, accountOutputID = [7, 1],
      BlockIssuerKeys = [[0, 5]], ValidatorStake = 100, DelegationStake = 0, FixedCost = 1, StakeEndEpoch = 3,
      LatestSupportedProtocolVersionAndHash = \<lparr>vhVersion = 3, vhHash = [1]\<rparr>\<rparr>"

definition exampleChange :: AccountDiff where
  "exampleChange = (NewAccountDiff exampleAccounts)\<lparr>BICChange := 5, PreviousUpdatedTime := 2, NewOutputID := [8, 2], PreviousOutputID := [7, 1],
     PreviousExpirySlot := 9, NewExpirySlot := 12, BlockIssuerKeysAdded := [[0, 6]], ValidatorStakeChange := 20\<rparr>"

definition exampleEnv :: account_env where
  "exampleEnv =
     \<lparr>api = exampleAccounts, safe = safemath_s, MaxCommittableAge = (\<lambda>_. 10), ValidationBlocksPerSlot = (\<lambda>_. 2), PunishmentEpochs = (\<lambda>_. 1),
      EpochDurationSlots = (\<lambda>_. 8), ManaWithDecay = (\<lambda>_ x _ _. Some x), ManaGenerationWithDecay = (\<lambda>_ _ _ _. Some 1),
      blockFunc = [[1] \<mapsto> \<lparr>ibID = [1], ibSlot = 5, ibIssuer = [7], ibIssuingTime = 0, ibWorkScore = 2, ibBody = BasicBody\<rparr>],
      order = sorted_list_of_set\<rparr>"

lemma exampleEnv_ok [simp]: "account_env_ok exampleEnv"
  using exampleAccounts_ok by (simp add: account_env_ok_def exampleEnv_def account_api_ok_def)

definition exampleLedger :: "(bytes \<rightharpoonup> AccountData) \<Rightarrow> (slot \<rightharpoonup> bytes list) \<Rightarrow> AccountsManager" where
  "exampleLedger tree burns =
     \<lparr>blockBurns = burns, latestSupportedVersionSignals = Map.empty, latestCommittedSlot = 4, accountsTree = tree, slotDiff = [5 \<mapsto> NewAccountDiffs]\<rparr>"

lemmas example_defs = exampleEnv_def exampleAccounts_def exampleAccount_def exampleChange_def exampleLedger_def NewAccountDiff_def NewAccountDiffs_def
  noVersionAndHash_def NewAccountData_def

lemma ApplyDiff_single:
  assumes E: "account_env_ok E" and "slotDiffs E sl rmc ds m = Inr [i \<mapsto> d]" and "sl = latestCommittedSlot m + 1" and "slotDiff m sl = Some st"
    and "bind_res (decayCredits E sl (accountsTree m i \<noteq> None) d (accountOr E i m)) (\<lambda>(d, a). applyAccount E d a) = Inr a2"
  shows "\<exists>m'. ApplyDiff E sl rmc ds {} m = Inr m'"
proof -
  obtain d1 a1 where d1: "decayCredits E sl (accountsTree m i \<noteq> None) d (accountOr E i m) = Inr (d1, a1)" "applyAccount E d1 a1 = Inr a2"
    using assms(5) by auto
  obtain X where X: "updateSlotDiffWithBurns E sl rmc ds m = Inr X" "updateSlotDiffWithVersionSignals E sl X m = [i \<mapsto> d]"
    using assms(2) by (auto simp: slotDiffs_def)
  have ch: "(\<lambda>j. map_option Some (if j = i then Some d else None)) = [i \<mapsto> Some d]" by auto
  have c: "commitAccount E sl {} i ([i \<mapsto> Some d], m) = Inr ([i \<mapsto> Some d1], m\<lparr>accountsTree := (accountsTree m)(i \<mapsto> a2)\<rparr>)"
    using d1 by (simp add: commitAccount_def accountOr_def)
  show ?thesis
    using assms(4) by (simp add: ApplyDiff_def applyDiffs_def assms(3)[symmetric] X ch commitAccountTree_def order_singleton[OF E] c storeDiffOf_def AccountDiffs_Store_def Let_def)
qed

lemmas update_defs = slotDiffs_def updateSlotDiffWithBurns_def computeBlockBurnsForSlot_def updateSlotDiffWithVersionSignals_def burnBlock_def diffOf_def

lemmas apply_defs = decayCredits_def applyAccount_def Credits_Update_def AddBlockIssuerKeys_def RemoveBlockIssuerKey_def accountOr_def safemath_s_def checked_signed_def

lemma example_commits:
  "\<exists>x. bind_res (decayCredits exampleEnv 5 True exampleChange exampleAccount) (\<lambda>(d, a). applyAccount exampleEnv d a) = Inr x"
  "\<exists>x. bind_res (decayCredits exampleEnv 5 True ((NewAccountDiff exampleAccounts)\<lparr>BICChange := - 6\<rparr>) exampleAccount) (\<lambda>(d, a). applyAccount exampleEnv d a) = Inr x"
  by (simp_all add: apply_defs example_defs Let_def fits_signed_def)

lemma accountOr_example: "accountOr exampleEnv [7] (exampleLedger [[7] \<mapsto> exampleAccount] b) = exampleAccount"
  "accountOr exampleEnv [7] (exampleLedger Map.empty b) = NewAccountData exampleAccounts [7]"
  "(accountsTree (exampleLedger T b) [7] \<noteq> None) = (T [7] \<noteq> None)"
  by (simp_all add: accountOr_def exampleLedger_def exampleEnv_def)

section \<open>Formats\<close>

text \<open>C22: An account and the change of an account are read back from their bytes exactly as written, and
  reading stops where the bytes end, whatever follows.\<close>

theorem accounts_read_back:
  assumes "account_api_ok A" and "wf_account A a" and "wf_diff A d" and "AccountDiff_Bytes A d = Inr b"
  shows "AccountData_FromReader A a0 (AccountData_Bytes A a @ r) = Inr (a, r) \<and>
    AccountData_FromBytes A (AccountData_Bytes A a) a0 = Inr (a, length (AccountData_Bytes A a)) \<and>
    AccountDiff_FromReader A (b @ r) = Inr (d, r) \<and> AccountDiff_FromBytes A b = Inr (d, length b)"
  using AccountData_read[OF assms(1,2)] AccountData_read[OF assms(1,2), of a0 "[]"]
    AccountDiff_read[OF assms(1,3,4)] AccountDiff_read[OF assms(1,3,4), of "[]"]
  by (simp add: AccountData_FromReader_def AccountData_FromBytes_def AccountDiff_FromReader_def AccountDiff_FromBytes_def)

theorem accounts_read_back_witness:
  "\<exists>b. AccountDiff_Bytes exampleAccounts exampleChange = Inr b \<and>
     AccountData_FromReader exampleAccounts (NewAccountData exampleAccounts []) (AccountData_Bytes exampleAccounts exampleAccount @ [1, 2]) =
       Inr (exampleAccount, [1, 2]) \<and>
     AccountDiff_FromBytes exampleAccounts b = Inr (exampleChange, length b)"
proof -
  have "wf_account exampleAccounts exampleAccount"
    by (simp add: wf_account_def exampleAccounts_def exampleAccount_def keys_ok_def issuer_key_ok_def wf_version_def)
  moreover have "wf_diff exampleAccounts exampleChange"
    by (simp add: wf_diff_def exampleAccounts_def exampleChange_def NewAccountDiff_def noVersionAndHash_def wf_version_def)
  moreover obtain b where "AccountDiff_Bytes exampleAccounts exampleChange = Inr b"
    by (simp add: AccountDiff_Bytes_def writeBlockIssuerKeys_def exampleAccounts_def exampleChange_def NewAccountDiff_def Let_def)
  ultimately show ?thesis using accounts_read_back[OF exampleAccounts_ok] by blast
qed

section \<open>History\<close>

text \<open>C21: Committing a slot does not rewrite history. For an account that existed before, if the
  slot's diff was computed from it, or the account is destroyed, every past slot that is still within
  the maximum committable age is answered exactly as before the commit, in particular the slot
  before it with the account as it was.\<close>

theorem commit_keeps_history:
  assumes "account_env_ok E" and "ApplyDiff E sl rmc ds D m = Inr m'" and "slotDiffs E sl rmc ds m = Inr X" and "finite (dom ds)"
    and "slotDiff m sl = Some NewAccountDiffs" and "accountsTree m i = Some a" and "accountID a = i"
    and "\<forall>d. X i = Some d \<longrightarrow> (if i \<in> D then restorable a else diff_matches E d a \<and> PreviousUpdatedTime d = creditsUpdateTime (Credits a))"
    and "t \<le> latestCommittedSlot m" and "latestCommittedSlot m \<noteq> max_slot" and "inWindow E t m'"
  shows "account E i t m' = account E i t m \<and> (t = latestCommittedSlot m \<longrightarrow> account E i t m' = Inr (Some a))"
proof -
  have ok: "\<forall>d. X i = Some d \<longrightarrow> (if i \<in> D then restorable a else diff_matches E d a)" using assms(8) by auto
  have "restoredTime D i (X i) a = creditsUpdateTime (Credits a)" using assms(8) by (cases "X i") (auto simp: restoredTime_def)
  then have "account E i t m' = bind_res (for_down_res (rollbackSlot E m) (latestCommittedSlot m) t (a, False)) (\<lambda>(x, _). Inr (Some x))"
    and w: "inWindow E t m"
    using account_after_commit[OF assms(1-7) ok assms(9-11)] by simp_all
  moreover have "\<not> latestCommittedSlot m < t" using assms(9) by simp
  ultimately have "account E i t m' = account E i t m"
    using assms(6) by (auto simp: account_def inWindow_def rollbackAccountTo_def case_prod_unfold Let_def)
  moreover have "t = latestCommittedSlot m \<Longrightarrow> account E i t m = Inr (Some a)"
    using assms(6) w by (simp add: account_def inWindow_def rollbackAccountTo_def for_down_res.simps Let_def)
  ultimately show ?thesis by metis
qed

theorem commit_keeps_history_witness:
  "\<exists>m'. ApplyDiff exampleEnv 5 3 [[7] \<mapsto> exampleChange] {} (exampleLedger [[7] \<mapsto> exampleAccount] Map.empty) = Inr m' \<and>
     account exampleEnv [7] 4 m' = Inr (Some exampleAccount)"
proof -
  let ?m = "exampleLedger [[7] \<mapsto> exampleAccount] Map.empty"
  have X: "slotDiffs exampleEnv 5 3 [[7] \<mapsto> exampleChange] ?m = Inr [[7] \<mapsto> exampleChange]"
    by (simp add: update_defs exampleLedger_def exampleEnv_def)
  then obtain m' where m': "ApplyDiff exampleEnv 5 3 [[7] \<mapsto> exampleChange] {} ?m = Inr m'"
    using ApplyDiff_single[OF exampleEnv_ok X] example_commits(1) by (auto simp: accountOr_example) (auto simp: exampleLedger_def)
  have f: "slotDiff ?m 5 = Some NewAccountDiffs" "accountsTree ?m [7] = Some exampleAccount" "accountID exampleAccount = [7]"
    "latestCommittedSlot ?m = 4" by (simp_all add: exampleLedger_def exampleAccount_def)
  have ok: "\<forall>d. [[7] \<mapsto> exampleChange] [7] = Some d \<longrightarrow> (if [7] \<in> {} then restorable exampleAccount
      else diff_matches exampleEnv d exampleAccount \<and> PreviousUpdatedTime d = creditsUpdateTime (Credits exampleAccount))"
    by (simp add: diff_matches_def) (simp add: example_defs keys_ok_def)
  have "latestCommittedSlot m' = 5" using ApplyDiff_effect[OF exampleEnv_ok m' X] f(1) by simp
  then have "inWindow exampleEnv 4 m'" by (simp add: inWindow_def exampleEnv_def)
  then have "account exampleEnv [7] 4 m' = Inr (Some exampleAccount)"
    using commit_keeps_history[OF exampleEnv_ok m' X _ f(1-3) ok, of 4, THEN conjunct2] unfolding f(4) by simp
  then show ?thesis using m' by blast
qed


text \<open>A slot in which an account only burned mana or signalled a version changes history: asked
  for the slot before, the ledger reports the account with its credits last updated in slot 0, because
  the diff carries the previous update time only when a transaction or an allotment touched the account.\<close>

theorem burn_forgets_update_time:
  assumes "account_env_ok E" and "ApplyDiff E sl rmc ds D m = Inr m'" and "slotDiffs E sl rmc ds m = Inr X" and "finite (dom ds)"
    and "slotDiff m sl = Some NewAccountDiffs" and "accountsTree m i = Some a" and "accountID a = i" and "keys_ok (BlockIssuerKeys a)"
    and "ds i = None" and "i \<notin> D" and "X i \<noteq> None"
    and "latestCommittedSlot m \<noteq> max_slot" and "inWindow E (latestCommittedSlot m) m'"
  shows "account E i (latestCommittedSlot m) m' = Inr (Some (a\<lparr>Credits := (Credits a)\<lparr>creditsUpdateTime := 0\<rparr>\<rparr>))
    \<and> account E i (latestCommittedSlot m) m = Inr (Some a)"
proof -
  obtain d where d: "X i = Some d" using assms(11) by blast
  have "burnOnly E m i (Some d)" using slotDiffs_burnOnly[OF assms(3,9)] d by simp
  note b = burnOnly_matches[OF this assms(6,8)]
  have ok: "\<forall>d. X i = Some d \<longrightarrow> (if i \<in> D then restorable a else diff_matches E d a)" using b d assms(10) by simp
  note c = account_after_commit[OF assms(1-7) ok order_refl assms(12,13)]
  have "restoredTime D i (X i) a = 0" using b d assms(10) by (simp add: restoredTime_def)
  then have "account E i (latestCommittedSlot m) m' = Inr (Some (a\<lparr>Credits := (Credits a)\<lparr>creditsUpdateTime := 0\<rparr>\<rparr>))"
    using c(1) by (simp add: for_down_res.simps)
  moreover have "account E i (latestCommittedSlot m) m = Inr (Some a)"
    using c(2) assms(6) by (auto simp: account_def inWindow_def rollbackAccountTo_def for_down_res.simps Let_def)
  ultimately show ?thesis by blast
qed

theorem burn_forgets_update_time_witness:
  "\<exists>m'. ApplyDiff exampleEnv 5 3 Map.empty {} (exampleLedger [[7] \<mapsto> exampleAccount] [5 \<mapsto> [[1]]]) = Inr m' \<and>
     account exampleEnv [7] 4 m' = Inr (Some (exampleAccount\<lparr>Credits := (Credits exampleAccount)\<lparr>creditsUpdateTime := 0\<rparr>\<rparr>))"
proof -
  let ?m = "exampleLedger [[7] \<mapsto> exampleAccount] [5 \<mapsto> [[1]]]" and ?d = "(NewAccountDiff exampleAccounts)\<lparr>BICChange := - 6\<rparr>"
  have X: "slotDiffs exampleEnv 5 3 Map.empty ?m = Inr [[7] \<mapsto> ?d]"
    by (simp add: update_defs exampleLedger_def exampleEnv_def NewAccountDiff_def)
  then obtain m' where m': "ApplyDiff exampleEnv 5 3 Map.empty {} ?m = Inr m'"
    using ApplyDiff_single[OF exampleEnv_ok X] example_commits(2) by (auto simp: accountOr_example) (auto simp: exampleLedger_def)
  have f: "slotDiff ?m 5 = Some NewAccountDiffs" "accountsTree ?m [7] = Some exampleAccount" "accountID exampleAccount = [7]"
    "latestCommittedSlot ?m = 4" "keys_ok (BlockIssuerKeys exampleAccount)" by (simp_all add: exampleLedger_def exampleAccount_def keys_ok_def)
  have "latestCommittedSlot m' = 5" using ApplyDiff_effect[OF exampleEnv_ok m' X] f(1) by simp
  then have "inWindow exampleEnv 4 m'" by (simp add: inWindow_def exampleEnv_def)
  then show ?thesis
    using burn_forgets_update_time[OF exampleEnv_ok m' X _ f(1,2,3,5)] m' by (simp add: f(4))
qed

text \<open>Rolling the diff of a new account back succeeds, and keeps the output if the diff names no previous one.\<close>

lemma rollback_created:
  assumes E: "account_env_ok E" and "decayCredits E sl False d (NewAccountData (api E) i) = Inr (d1, a1)" and "applyAccount E d1 a1 = Inr a2"
    and "0 \<le> sint (StakeEndEpochChange d)"
  shows "\<exists>a. rollbackAccount E d1 a2 = Inr a \<and> accountID a = i \<and>
    accountOutputID a = (if PreviousOutputID d \<noteq> EmptyOutputID (api E) then PreviousOutputID d else accountOutputID a2)"
proof -
  have sm: "safemath_signed (safe E)" using E by (simp add: account_env_ok_def)
  obtain c where c: "d1 = d\<lparr>BICChange := creditsValue c - creditsValue (Credits (NewAccountData (api E) i))\<rparr>" "a1 = (NewAccountData (api E) i)\<lparr>Credits := c\<rparr>"
    using decayCredits_fields[OF assms(2)] by blast
  note f = applyAccount_fields[OF assms(3)]
  let ?e = "ucast (StakeEndEpoch a2) :: i64"
  have "uint ?e = uint (StakeEndEpoch a2)" by (simp add: unsigned_ucast_eq take_bit_int_eq_self_iff uint_bounded[THEN order.strict_trans2])
  moreover have "uint (StakeEndEpoch a2) < 2 ^ 32" using uint_bounded[of "StakeEndEpoch a2"] by simp
  ultimately have "0 \<le> sint ?e" "sint ?e < 2 ^ 32" using sint_of_small[of ?e] by simp_all
  then have "fits_signed TYPE(64) (sint ?e - sint (StakeEndEpochChange d))"
    using assms(4) sint_less[of "StakeEndEpochChange d"] by (simp add: fits_signed_def)
  then obtain se where se: "SafeSub (safe E) ?e (StakeEndEpochChange d1) = Some se"
    using sm by (auto simp: safemath_signed_def checked_signed_def c(1))
  show ?thesis
    using rollbackAccount_Inr[OF safe_undo[OF sm f(6)] safe_undo[OF sm f(7)] se safe_undo[OF sm f(9)]] f(1)
    by (simp add: c NewAccountData_def)
qed

text \<open>C23: An account that a slot creates is reported as existing for the slot before its creation: once the
  slot is committed and as long as the slot before is within the committable age, the ledger answers for it with an
  account, whose output is the one that creates it later, although it answered before the commit that there is no such
  account. The stake end epoch of the new account must not be negative.\<close>

theorem created_account_exists_in_past:
  assumes "account_env_ok E" and "ApplyDiff E sl rmc ds D m = Inr m'" and "slotDiffs E sl rmc ds m = Inr X" and "finite (dom ds)"
    and "slotDiff m sl = Some NewAccountDiffs" and "accountsTree m i = None" and "X i = Some d" and "i \<notin> D"
    and "NewOutputID d \<noteq> EmptyOutputID (api E)" and "PreviousOutputID d = EmptyOutputID (api E)" and "0 \<le> sint (StakeEndEpochChange d)"
    and "latestCommittedSlot m \<noteq> max_slot" and "inWindow E (latestCommittedSlot m) m'"
  shows "account E i (latestCommittedSlot m) m = Inr None \<and>
    (\<exists>a. account E i (latestCommittedSlot m) m' = Inr (Some a) \<and> accountID a = i \<and> accountOutputID a = NewOutputID d)"
proof -
  let ?n = "latestCommittedSlot m"
  obtain st d1 where ef: "sl = ?n + 1" "latestCommittedSlot m' = sl" "slotDiff m' sl = Some st" "diffChangeStore st i = Some d1"
    and com: "committed E sl D i m (if i \<in> D then preserveDestroyedAccountData E i m else Some d) (accountsTree m' i) (Some d1)"
    and live: "destroyedStore st i = None"
    using ApplyDiff_effect[OF assms(1-5)] assms(7,8) by blast
  obtain a1 a2 where a: "decayCredits E sl False d (NewAccountData (api E) i) = Inr (d1, a1)" "applyAccount E d1 a1 = Inr a2" "accountsTree m' i = Some a2"
    using com assms(6,8) by (auto simp: committed_def accountOr_def)
  obtain x where x: "rollbackAccount E d1 a2 = Inr x" "accountID x = i" "accountOutputID x = accountOutputID a2"
    using rollback_created[OF assms(1) a(1,2) assms(11)] assms(10) by auto
  obtain c where c: "d1 = d\<lparr>BICChange := c\<rparr>" "accountID a1 = i" using decayCredits_fields[OF a(1)] by (auto simp: NewAccountData_def)
  have out: "accountID a2 = i" "accountOutputID a2 = NewOutputID d" using applyAccount_fields(1,4)[OF a(2)] c assms(9) by simp_all
  note s = slot_step[OF ef(1) assms(12) order_refl]
  have "rollbackSlot E m' sl (a2, False) = Inr (x, False)"
    using ef(3,4) x(1) out(1) live by (simp add: rollbackSlot_def AccountDiffs_Has_def AccountDiffs_Load_def)
  moreover have "for_down_res (rollbackSlot E m') ?n ?n z = Inr z" for z by (simp add: for_down_res.simps)
  ultimately have "rollbackAccountTo E a2 ?n m' = Inr (x, False)"
    using s unfolding rollbackAccountTo_def ef(2) by (subst for_down_res.simps) simp
  then have "account E i ?n m' = Inr (Some x)" using a(3) assms(13) s by (auto simp: account_def inWindow_def ef(2) Let_def)
  moreover have "inWindow E ?n m" using assms(13) s unfolding inWindow_def ef(2) by (meson less_imp_le order.strict_trans order_trans)
  then have "account E i ?n m = Inr None"
    using assms(6) by (auto simp: account_def inWindow_def rollbackAccountTo_def for_down_res.simps Let_def)
  ultimately show ?thesis using x(2,3) out(2) by auto
qed

text \<open>Account \<open>[7]\<close> is created in slot 5 by the output \<open>[8, 2]\<close>.\<close>

definition exampleCreation :: AccountDiff where
  "exampleCreation = (NewAccountDiff exampleAccounts)\<lparr>BICChange := 5, NewOutputID := [8, 2], NewExpirySlot := 12, BlockIssuerKeysAdded := [[0, 6]], ValidatorStakeChange := 20\<rparr>"

theorem created_account_exists_in_past_witness:
  "\<exists>m' a. ApplyDiff exampleEnv 5 3 [[7] \<mapsto> exampleCreation] {} (exampleLedger Map.empty Map.empty) = Inr m' \<and>
     account exampleEnv [7] 4 m' = Inr (Some a) \<and> accountOutputID a = [8, 2] \<and> account exampleEnv [7] 4 (exampleLedger Map.empty Map.empty) = Inr None"
proof -
  let ?m = "exampleLedger Map.empty Map.empty"
  have X: "slotDiffs exampleEnv 5 3 [[7] \<mapsto> exampleCreation] ?m = Inr [[7] \<mapsto> exampleCreation]"
    by (simp add: update_defs exampleLedger_def exampleEnv_def)
  have "\<exists>x. bind_res (decayCredits exampleEnv 5 False exampleCreation (NewAccountData exampleAccounts [7])) (\<lambda>(d, a). applyAccount exampleEnv d a) = Inr x"
    by (simp add: apply_defs example_defs exampleCreation_def Let_def fits_signed_def)
  then obtain m' where m': "ApplyDiff exampleEnv 5 3 [[7] \<mapsto> exampleCreation] {} ?m = Inr m'"
    using ApplyDiff_single[OF exampleEnv_ok X] by (auto simp: accountOr_example) (auto simp: exampleLedger_def)
  have f: "slotDiff ?m 5 = Some NewAccountDiffs" "accountsTree ?m [7] = None" "latestCommittedSlot ?m = 4" by (simp_all add: exampleLedger_def)
  have d: "NewOutputID exampleCreation = [8, 2]" "PreviousOutputID exampleCreation = EmptyOutputID (api exampleEnv)" "EmptyOutputID (api exampleEnv) = [0, 0]"
    "StakeEndEpochChange exampleCreation = 0" by (simp_all add: exampleCreation_def exampleEnv_def NewAccountDiff_def exampleAccounts_def)
  have "latestCommittedSlot m' = 5" using ApplyDiff_effect[OF exampleEnv_ok m' X] f(1) by simp
  then have "inWindow exampleEnv 4 m'" by (simp add: inWindow_def exampleEnv_def)
  then show ?thesis
    using created_account_exists_in_past[OF exampleEnv_ok m' X _ f(1,2), of exampleCreation] m' by (auto simp: f(3) d)
qed

text \<open>The tree is rolled back once for every slot an account changed in.\<close>

definition creditStore :: "account_env \<Rightarrow> bytes \<Rightarrow> i64 \<Rightarrow> AccountDiffs" where
  "creditStore E i b = NewAccountDiffs\<lparr>diffChangeStore := [i \<mapsto> (NewAccountDiff (api E))\<lparr>BICChange := b\<rparr>]\<rparr>"

definition twoSlots :: "account_env \<Rightarrow> slot \<Rightarrow> i64 \<Rightarrow> i64 \<Rightarrow> AccountData \<Rightarrow> AccountsManager" where
  "twoSlots E t b c a =
     \<lparr>blockBurns = Map.empty, latestSupportedVersionSignals = Map.empty, latestCommittedSlot = t + 2,
      accountsTree = [accountID a \<mapsto> a],
      slotDiff = [t + 1 \<mapsto> creditStore E (accountID a) b, t + 2 \<mapsto> creditStore E (accountID a) c]\<rparr>"

lemma two_slots:
  assumes "uint (t :: slot) + 2 < 2 ^ 32"
  shows "t < t + 1" and "t < t + 2" and "t + 2 - 1 = t + 1" and "t + 1 \<noteq> t + 2"
proof -
  have "uint (t + 1) = uint t + 1" "uint (t + 2) = uint t + 2" using assms by (simp_all add: uint_word_ariths mod_pos_pos_trivial)
  then show "t < t + 1" "t < t + 2" by (simp_all add: word_less_def)
qed simp_all

lemma for_down_two_slots:
  assumes "uint (t :: slot) + 2 < 2 ^ 32"
  shows "for_down_res f (t + 2) t s = bind_res (f (t + 2) s) (f (t + 1))"
proof -
  note w = two_slots[OF assms]
  have "for_down_res f t t = Inr" by (rule ext) (simp add: for_down_res.simps)
  then have "for_down_res f (t + 1) t = f (t + 1)"
    by (intro ext) (subst for_down_res.simps, simp add: w(1) bind_res_def split: sum.splits)
  then show ?thesis by (subst for_down_res.simps) (simp only: w(2,3) if_True)
qed

lemma rollback_two_slots:
  assumes E: "account_env_ok E" and t: "uint t + 2 < 2 ^ 32" and "keys_ok (BlockIssuerKeys x)" and "accountID x = accountID a"
  shows "for_down_res (rollbackSlot E (m\<lparr>slotDiff := slotDiff (twoSlots E t b c a)\<rparr>)) (t + 2) t (x, False) =
    Inr (x\<lparr>Credits := \<lparr>creditsValue = creditsValue (Credits x) - (b + c), creditsUpdateTime = 0\<rparr>\<rparr>, False)"
proof -
  note w = two_slots[OF t]
  note s = twoSlots_def creditStore_def NewAccountDiffs_def rollbackSlot_def AccountDiffs_Has_def AccountDiffs_Load_def
  have "rollbackSlot E (m\<lparr>slotDiff := slotDiff (twoSlots E t b c a)\<rparr>) (t + 2) (x, False) =
      Inr (x\<lparr>Credits := \<lparr>creditsValue = creditsValue (Credits x) - c, creditsUpdateTime = 0\<rparr>\<rparr>, False)"
    using assms(3,4) w by (simp add: s rollback_credits[OF E])
  moreover have "rollbackSlot E (m\<lparr>slotDiff := slotDiff (twoSlots E t b c a)\<rparr>) (t + 1) (x\<lparr>Credits := cr\<rparr>, False) =
      Inr (x\<lparr>Credits := \<lparr>creditsValue = creditsValue cr - b, creditsUpdateTime = 0\<rparr>\<rparr>, False)" for cr
    using assms(3,4) w by (simp add: s rollback_credits[OF E])
  ultimately show ?thesis by (simp add: for_down_two_slots[OF t])
qed

text \<open>C24: Rolling the account tree back over two slots in which the same account changed subtracts the
  changes twice: the loop visits the account in both slots, and each visit rolls it back all the way
  from the latest committed slot. The rollback of that account alone subtracts them once.\<close>

theorem tree_rollback_repeats:
  assumes "account_env_ok E" and "uint t + 2 < 2 ^ 32" and "keys_ok (BlockIssuerKeys a)"
  shows "(\<exists>m'. Accounts_Rollback E t (twoSlots E t b c a) = Inr m' \<and> accountsTree m' (accountID a) =
      Some (a\<lparr>Credits := \<lparr>creditsValue = creditsValue (Credits a) - 2 * (b + c), creditsUpdateTime = 0\<rparr>\<rparr>)) \<and>
    rollbackAccountTo E a t (twoSlots E t b c a) =
      Inr (a\<lparr>Credits := \<lparr>creditsValue = creditsValue (Credits a) - (b + c), creditsUpdateTime = 0\<rparr>\<rparr>, False)"
proof -
  let ?M = "twoSlots E t b c a" and ?i = "accountID a"
  note w = two_slots[OF assms(2)]
  have lat: "latestCommittedSlot ?M = t + 2" by (simp add: twoSlots_def)
  have r: "rollbackAccountTo E x t (?M\<lparr>accountsTree := T\<rparr>) =
      Inr (x\<lparr>Credits := \<lparr>creditsValue = creditsValue (Credits x) - (b + c), creditsUpdateTime = 0\<rparr>\<rparr>, False)"
    if "keys_ok (BlockIssuerKeys x)" "accountID x = ?i" for x T
    using rollback_two_slots[OF assms(1,2) that, where m = "?M\<lparr>accountsTree := T\<rparr>" and b = b and c = c] by (simp add: rollbackAccountTo_def lat)
  define cr where "cr = (\<lambda>n. a\<lparr>Credits := \<lparr>creditsValue = creditsValue (Credits a) - n * (b + c), creditsUpdateTime = 0\<rparr>\<rparr>)"
  let ?f = "\<lambda>sl m. bind_res (or_err NilDereference (slotDiff m sl)) (\<lambda>diffs.
      case AccountDiffs_Stream (order E) (rollbackStreamed E t) diffs (m, None) of (m, None) \<Rightarrow> Inr m | (_, Some e) \<Rightarrow> Inl e)"
  have f: "?f sl (?M\<lparr>accountsTree := [?i \<mapsto> x]\<rparr>) = Inr (?M\<lparr>accountsTree := [?i \<mapsto> y]\<rparr>)"
    if "rollbackAccountTo E x t (?M\<lparr>accountsTree := [?i \<mapsto> x]\<rparr>) = Inr (y, False)" "sl = t + 1 \<or> sl = t + 2" for sl x y
    using that w(4) by (auto simp: AccountDiffs_Stream_def rollbackStreamed_def order_singleton[OF assms(1)] twoSlots_def creditStore_def NewAccountDiffs_def)
  have "?f (t + 2) ?M = Inr (?M\<lparr>accountsTree := [?i \<mapsto> cr 1]\<rparr>)"
    using f[of a "cr 1" "t + 2"] r[of a "[?i \<mapsto> a]"] assms(3) by (simp add: cr_def twoSlots_def)
  moreover have "?f (t + 1) (?M\<lparr>accountsTree := [?i \<mapsto> cr 1]\<rparr>) = Inr (?M\<lparr>accountsTree := [?i \<mapsto> cr 2]\<rparr>)"
    using r assms(3) by (intro f; simp add: cr_def)
  moreover have "Accounts_Rollback E t ?M = bind_res (?f (t + 2) ?M) (?f (t + 1))"
    unfolding Accounts_Rollback_def lat by (rule for_down_two_slots[OF assms(2)])
  ultimately have "Accounts_Rollback E t ?M = Inr (?M\<lparr>accountsTree := [?i \<mapsto> cr 2]\<rparr>)" by (simp only: bind_res_simps)
  then show ?thesis using r[of a "accountsTree ?M"] assms(3) by (simp add: cr_def)
qed

theorem tree_rollback_repeats_witness:
  "\<exists>m'. Accounts_Rollback exampleEnv 3 (twoSlots exampleEnv 3 10 5 exampleAccount) = Inr m' \<and>
     map_option (creditsValue \<circ> Credits) (accountsTree m' [7]) = Some 20 \<and>
     rollbackAccountTo exampleEnv exampleAccount 3 (twoSlots exampleEnv 3 10 5 exampleAccount) =
       Inr (exampleAccount\<lparr>Credits := \<lparr>creditsValue = 35, creditsUpdateTime = 0\<rparr>\<rparr>, False)"
proof -
  have "keys_ok (BlockIssuerKeys exampleAccount)" "accountID exampleAccount = [7]" "creditsValue (Credits exampleAccount) = 50"
    by (simp_all add: exampleAccount_def keys_ok_def)
  then show ?thesis using tree_rollback_repeats[OF exampleEnv_ok, of 3 exampleAccount 10 5] by auto
qed

end
