(* ===== verification/AccountsSnapshot.thy ===== *)
theory AccountsSnapshot
  imports AccountsProperties IoUtils
begin

text \<open>
  Snapshots of the accounts ledger (\<open>pkg/protocol/engine/accounts/accountsledger/snapshot.go\<close>): the
  accounts as they were at the target slot, and the diffs of the slots within the committable age
  before it. A reader is the list of the bytes it has not delivered yet, a writer the file of
  \<open>IoUtils\<close>. An import that fails gives an error and no ledger.
\<close>

datatype accounts_snapshot_error = WriterError io_error | LedgerError account_error | NotDestroyed bytes

section \<open>Import\<close>

text \<open>The zero value that \<open>FromReader\<close> fills.\<close>

definition zeroAccountData :: "account_api \<Rightarrow> AccountData" where
  "zeroAccountData A = (NewAccountData A (replicate (AccountIDLength A) 0))\<lparr>accountOutputID := replicate (OutputIDLen A) 0\<rparr>"

fun importAccountTree :: "account_env \<Rightarrow> nat \<Rightarrow> AccountsManager \<Rightarrow> bytes \<Rightarrow> account_error + (AccountsManager \<times> bytes)" where
  "importAccountTree E 0 m r = Inr (m, r)"
| "importAccountTree E (Suc n) m r =
     bind_res (AccountData_FromReader (api E) (zeroAccountData (api E)) r) (\<lambda>(a, r).
       importAccountTree E n (m\<lparr>accountsTree := (accountsTree m)(accountID a \<mapsto> a)\<rparr>) r)"

text \<open>The accounts of one slot, written to its store.\<close>

fun readDiffs :: "account_env \<Rightarrow> nat \<Rightarrow> AccountDiffs \<Rightarrow> bytes \<Rightarrow> account_error + (AccountDiffs \<times> bytes)" where
  "readDiffs E 0 diffStore r = Inr (diffStore, r)"
| "readDiffs E (Suc n) diffStore r =
     bind_res (rd (take_bytes (AccountIDLength (api E))) r) (\<lambda>(i, r).
     bind_res (rd get_le r) (\<lambda>(flag :: u8, r).
     let destroyed = flag \<noteq> 0 in
     bind_res (if destroyed then Inr (NewAccountDiff (api E), r) else AccountDiff_FromReader (api E) r) (\<lambda>(accountDiff, r).
     bind_res (AccountDiffs_Store i (Some accountDiff) destroyed diffStore) (\<lambda>diffStore.
       readDiffs E n diffStore r))))"

fun readSlotDiffs :: "account_env \<Rightarrow> nat \<Rightarrow> AccountsManager \<Rightarrow> bytes \<Rightarrow> account_error + (AccountsManager \<times> bytes)" where
  "readSlotDiffs E 0 m r = Inr (m, r)"
| "readSlotDiffs E (Suc n) m r =
     bind_res (rd get_le r) (\<lambda>(sl, r).
     bind_res (rd get_le r) (\<lambda>(accountsInDiffCount :: u64, r).
     if accountsInDiffCount = 0 then readSlotDiffs E n m r
     else bind_res (or_err (SlotPruned sl) (slotDiff m sl)) (\<lambda>diffStore.
          bind_res (readDiffs E (unat accountsInDiffCount) diffStore r) (\<lambda>(diffStore, r).
            readSlotDiffs E n (m\<lparr>slotDiff := (slotDiff m)(sl \<mapsto> diffStore)\<rparr>) r))))"

definition Accounts_Import :: "account_env \<Rightarrow> bytes \<Rightarrow> AccountsManager \<Rightarrow> account_error + (AccountsManager \<times> bytes)" where
  "Accounts_Import E r m =
     bind_res (rd get_le r) (\<lambda>(accountCount :: u64, r).
     bind_res (rd get_le r) (\<lambda>(slotDiffCount :: u64, r).
     bind_res (importAccountTree E (unat accountCount) m r) (\<lambda>(m, r).
       readSlotDiffs E (unat slotDiffCount) m r)))"

section \<open>Export\<close>

definition writeAccountData :: "account_env \<Rightarrow> AccountData \<Rightarrow> PositionedWriter \<Rightarrow> accounts_snapshot_error + PositionedWriter" where
  "writeAccountData E a p = lift_err WriterError (PositionedWriter_WriteBytes (AccountData_Bytes (api E) a) p)"

definition exportAccount :: "account_env \<Rightarrow> slot \<Rightarrow> AccountsManager \<Rightarrow> bytes \<Rightarrow> u64 \<times> PositionedWriter \<Rightarrow> accounts_snapshot_error + (u64 \<times> PositionedWriter)" where
  "exportAccount E targetIndex m i = (\<lambda>(accountCount, p).
     bind_res (lift_err LedgerError (rollbackAccountTo E (the (accountsTree m i)) targetIndex m)) (\<lambda>(a, _).
     bind_res (writeAccountData E a p) (\<lambda>p. Inr (accountCount + 1, p))))"

text \<open>The accounts that were destroyed after the target slot, and how often they were seen.\<close>

definition collectDestroyed :: "account_env \<Rightarrow> AccountsManager \<Rightarrow> slot \<Rightarrow> (bytes \<rightharpoonup> AccountData) \<times> u64 \<Rightarrow> account_error + ((bytes \<rightharpoonup> AccountData) \<times> u64)" where
  "collectDestroyed E m sl s =
     bind_res (or_err NilDereference (slotDiff m sl)) (\<lambda>diffs.
       Inr (AccountDiffs_StreamDestroyed (order E)
              (\<lambda>i (destroyedAccounts, n). ((destroyedAccounts(i \<mapsto> NewAccountData (api E) i), n + 1), True)) diffs s))"

definition recreateAccount :: "account_env \<Rightarrow> slot \<Rightarrow> AccountsManager \<Rightarrow> (bytes \<rightharpoonup> AccountData) \<Rightarrow> bytes \<Rightarrow> PositionedWriter \<Rightarrow> accounts_snapshot_error + PositionedWriter" where
  "recreateAccount E targetSlot m destroyedAccounts i p =
     bind_res (lift_err LedgerError (rollbackAccountTo E (the (destroyedAccounts i)) targetSlot m)) (\<lambda>(a, wasDestroyed).
       if \<not> wasDestroyed then Inl (NotDestroyed i) else writeAccountData E a p)"

definition recreateDestroyedAccounts :: "account_env \<Rightarrow> slot \<Rightarrow> AccountsManager \<Rightarrow> PositionedWriter \<Rightarrow> accounts_snapshot_error + (u64 \<times> PositionedWriter)" where
  "recreateDestroyedAccounts E targetSlot m p =
     bind_res (lift_err LedgerError (for_down_res (collectDestroyed E m) (latestCommittedSlot m) targetSlot (Map.empty, 0))) (\<lambda>(destroyedAccounts, n).
     bind_res (fold_res (recreateAccount E targetSlot m destroyedAccounts) (order E (dom destroyedAccounts)) p) (\<lambda>p. Inr (n, p)))"

definition exportAccountTree :: "account_env \<Rightarrow> slot \<Rightarrow> AccountsManager \<Rightarrow> PositionedWriter \<Rightarrow> accounts_snapshot_error + (u64 \<times> PositionedWriter)" where
  "exportAccountTree E targetIndex m p =
     bind_res (fold_res (exportAccount E targetIndex m) (order E (dom (accountsTree m))) (0, p)) (\<lambda>(accountCount, p).
     bind_res (recreateDestroyedAccounts E targetIndex m p) (\<lambda>(recreatedAccountsCount, p).
       Inr (accountCount + recreatedAccountsCount, p)))"

text \<open>
  One account of a slot's stream: a failed write is remembered in \<open>innerErr\<close> and the stream goes on; a
  diff that can not be encoded panics and ends everything.
\<close>

definition tryWrite :: "(PositionedWriter \<Rightarrow> io_error + PositionedWriter) \<Rightarrow> PositionedWriter \<times> io_error option \<Rightarrow> PositionedWriter \<times> io_error option" where
  "tryWrite f = (\<lambda>(p, innerErr). case f p of Inl e \<Rightarrow> (p, Some e) | Inr p \<Rightarrow> (p, innerErr))"

definition writeStreamed ::
  "account_env \<Rightarrow> bytes \<Rightarrow> AccountDiff option \<Rightarrow> bool \<Rightarrow> account_error + ((PositionedWriter \<times> io_error option) \<times> u64) \<Rightarrow>
     (account_error + ((PositionedWriter \<times> io_error option) \<times> u64)) \<times> bool" where
  "writeStreamed E i accountDiff destroyed s =
     (case s of Inl e \<Rightarrow> (Inl e, False)
      | Inr (pe, accountsInDiffCount) \<Rightarrow>
          let pe = tryWrite (PositionedWriter_WriteBytes i) pe;
              pe = tryWrite (WriteValue ''destroyed flag'' (Some [if destroyed then 1 else 0]) False) pe
          in if destroyed then (Inr (pe, accountsInDiffCount + 1), True)
             else case bind_res (or_err NilDereference accountDiff) (AccountDiff_Bytes (api E)) of
                    Inl e \<Rightarrow> (Inl e, False)
                  | Inr b \<Rightarrow> (Inr (tryWrite (PositionedWriter_WriteBytes b) pe, accountsInDiffCount + 1), True))"

definition writeSlotDiff :: "account_env \<Rightarrow> AccountsManager \<Rightarrow> slot \<Rightarrow> u64 \<times> PositionedWriter \<Rightarrow> accounts_snapshot_error + (u64 \<times> PositionedWriter)" where
  "writeSlotDiff E m sl = (\<lambda>(slotDiffsCount, p).
     bind_res (lift_err WriterError (WriteValue ''slot index'' (Some (put_le sl)) False p)) (\<lambda>p.
     bind_res (lift_err WriterError (WriteValue ''inDiff accounts count'' (Some (put_le (0 :: u64))) True p)) (\<lambda>p.
     case slotDiff m sl of None \<Rightarrow> Inr (slotDiffsCount + 1, p)
     | Some sds \<Rightarrow>
         bind_res (lift_err LedgerError (AccountDiffs_Stream (order E) (writeStreamed E) sds (Inr ((p, None), 0)))) (\<lambda>((p, innerErr), accountsInDiffCount).
         case innerErr of Some e \<Rightarrow> Inl (WriterError e)
         | None \<Rightarrow> bind_res (lift_err WriterError (WriteValueAtBookmark ''inDiff accounts count'' (Some (put_le accountsInDiffCount)) p)) (\<lambda>p.
             Inr (slotDiffsCount + 1, p))))))"

text \<open>\<open>None\<close> is a loop that never ends: \<open>slot <= targetSlot\<close> always holds for the largest slot.\<close>

definition writeSlotDiffs :: "account_env \<Rightarrow> slot \<Rightarrow> AccountsManager \<Rightarrow> PositionedWriter \<Rightarrow> (accounts_snapshot_error + (u64 \<times> PositionedWriter)) option" where
  "writeSlotDiffs E targetSlot m p =
     (let maxCommittableAge = MaxCommittableAge E targetSlot;
          sl = (if maxCommittableAge < targetSlot then targetSlot - maxCommittableAge else 1)
      in for_up_while (\<lambda>sl s. let s = bind_res s (writeSlotDiff E m sl) in (case s of Inl _ \<Rightarrow> False | Inr _ \<Rightarrow> True, s)) sl targetSlot (Inr (0, p)))"

definition Accounts_Export :: "account_env \<Rightarrow> WriteSeeker \<Rightarrow> slot \<Rightarrow> AccountsManager \<Rightarrow> (accounts_snapshot_error + WriteSeeker) option" where
  "Accounts_Export E w targetIndex m =
     (let p = NewPositionedWriter w in
      case bind_res (lift_err WriterError (WriteValue ''accounts count'' (Some (put_le (0 :: u64))) True p)) (\<lambda>p.
           bind_res (lift_err WriterError (WriteValue ''slot diffs count'' (Some (put_le (0 :: u64))) True p)) (\<lambda>p.
           bind_res (exportAccountTree E targetIndex m p) (\<lambda>(accountCount, p).
             lift_err WriterError (WriteValueAtBookmark ''accounts count'' (Some (put_le accountCount)) p)))) of
        Inl e \<Rightarrow> Some (Inl e)
      | Inr p \<Rightarrow> (case writeSlotDiffs E targetIndex m p of
           None \<Rightarrow> None
         | Some (Inl e) \<Rightarrow> Some (Inl e)
         | Some (Inr (slotDiffsCount, p)) \<Rightarrow>
             Some (bind_res (lift_err WriterError (WriteValueAtBookmark ''slot diffs count'' (Some (put_le slotDiffsCount)) p)) (\<lambda>p.
               Inr (writer p)))))"

section \<open>Writing\<close>

lemma pw_writes:
  assumes "at_end (writer p)"
  shows "PositionedWriter_WriteBytes bs p = Inr (p\<lparr>writer := appended bs (writer p)\<rparr>)"
    and "WriteValue n (Some bs) False p = Inr (p\<lparr>writer := appended bs (writer p)\<rparr>)"
    and "WriteValue n (Some bs) True p =
      Inr (p\<lparr>writer := appended bs (writer p), bookmarks := (bookmarks p)(n \<mapsto> int (length (content (writer p))))\<rparr>)"
  using assms by (simp_all add: PositionedWriter_WriteBytes_def WriteValue_def appended_simps) (simp add: at_end_def)

lemma pw_patches:
  assumes "bookmarks p n = Some (int (length a))" and "writer p = appended (b @ c) w" and "content w = a" and "length b' = length b" and "0 < length b"
  shows "WriteValueAtBookmark n (Some b') p = Inr (p\<lparr>writer := appended (b' @ c) w\<rparr>)"
proof -
  have w: "content (writer p) = a @ b @ c" "position (writer p) = length a + (length b + length c)"
    using assms(2,3) by (simp_all add: appended_simps)
  have "WriteValueAtBookmark n (Some b') p = Inr (p\<lparr>writer := (writer p)\<lparr>content := a @ b' @ c\<rparr>\<rparr>)"
    using Write_patch[of "(writer p)\<lparr>position := length a\<rparr>" a b c b'] assms(1,4,5) w
    by (simp add: WriteValueAtBookmark_def SeekStart_def)
  then show ?thesis using assms(2-4) by (simp add: appended_def)
qed

text \<open>What is written for the accounts of a slot.\<close>

definition diffBytes :: "account_env \<Rightarrow> AccountDiff \<Rightarrow> bytes" where
  "diffBytes E d = (case AccountDiff_Bytes (api E) d of Inl _ \<Rightarrow> [] | Inr b \<Rightarrow> b)"

definition slotEntries :: "account_env \<Rightarrow> AccountDiffs \<Rightarrow> bytes" where
  "slotEntries E st =
     concat (map (\<lambda>i. i @ [1]) (order E (dom (destroyedStore st)))) @
     concat (map (\<lambda>i. i @ [0] @ diffBytes E (the (diffChangeStore st i))) (order E (dom (diffChangeStore st))))"

definition slotCount :: "account_env \<Rightarrow> AccountDiffs \<Rightarrow> nat" where
  "slotCount E st = length (order E (dom (destroyedStore st))) + length (order E (dom (diffChangeStore st)))"

definition slotBytes :: "account_env \<Rightarrow> AccountsManager \<Rightarrow> slot \<Rightarrow> bytes" where
  "slotBytes E m sl = put_le sl @ put_le (word_of_nat (slotCount E (the (slotDiff m sl))) :: u64) @ slotEntries E (the (slotDiff m sl))"

definition store_ok :: "account_env \<Rightarrow> AccountDiffs \<Rightarrow> bool" where
  "store_ok E st \<longleftrightarrow>
     finite (dom (diffChangeStore st)) \<and> dom (destroyedStore st) \<subseteq> dom (diffChangeStore st) \<and> card (dom (diffChangeStore st)) < 2 ^ 63 \<and>
     (\<forall>i d. diffChangeStore st i = Some d \<longrightarrow>
        length i = AccountIDLength (api E) \<and> wf_diff (api E) d \<and> (\<exists>b. AccountDiff_Bytes (api E) d = Inr b))"

lemma writeStreamed_steps:
  assumes "at_end (writer p)"
  shows "writeStreamed E i d True (Inr ((p, None), n)) = (Inr ((p\<lparr>writer := appended (i @ [1]) (writer p)\<rparr>, None), n + 1), True)"
    and "d = Some x \<Longrightarrow> AccountDiff_Bytes (api E) x = Inr b \<Longrightarrow> writeStreamed E i d False (Inr ((p, None), n)) =
      (Inr ((p\<lparr>writer := appended (i @ [0] @ diffBytes E x) (writer p)\<rparr>, None), n + 1), True)"
  using assms by (simp_all add: writeStreamed_def tryWrite_def pw_writes appended_simps diffBytes_def)

lemma stream_destroyed:
  assumes "at_end (writer p)"
  shows "iterate_while (\<lambda>i. writeStreamed E i None True) xs (Inr ((p, None), n)) =
    Inr ((p\<lparr>writer := appended (concat (map (\<lambda>i. i @ [1]) xs)) (writer p)\<rparr>, None), n + word_of_nat (length xs))"
  using assms
proof (induction xs arbitrary: p n)
  case (Cons x xs)
  from Cons.IH[of "p\<lparr>writer := appended (x @ [1]) (writer p)\<rparr>" "n + 1"] Cons.prems
  show ?case by (simp add: writeStreamed_steps appended_simps add.assoc)
qed (simp add: appended_simps)

lemma stream_diffs:
  assumes "at_end (writer p)" and "\<forall>i \<in> set xs. \<exists>d b. D i = Some d \<and> AccountDiff_Bytes (api E) d = Inr b"
  shows "iterate_while (\<lambda>i. writeStreamed E i (D i) False) xs (Inr ((p, None), n)) =
    Inr ((p\<lparr>writer := appended (concat (map (\<lambda>i. i @ [0] @ diffBytes E (the (D i))) xs)) (writer p)\<rparr>, None), n + word_of_nat (length xs))"
  using assms
proof (induction xs arbitrary: p n)
  case (Cons x xs)
  obtain d b where "D x = Some d" "AccountDiff_Bytes (api E) d = Inr b" using Cons.prems(2) by auto
  with Cons.IH[of "p\<lparr>writer := appended (x @ [0] @ diffBytes E d) (writer p)\<rparr>" "n + 1"] Cons.prems
  show ?case by (simp add: writeStreamed_steps appended_simps add.assoc)
qed (simp add: appended_simps)

lemma order_facts:
  assumes "account_env_ok E" and "finite S"
  shows "distinct (order E S)" and "set (order E S) = S" and "length (order E S) = card S"
  using assms distinct_card[of "order E S"] by (auto simp: account_env_ok_def)

lemma store_ok_order:
  assumes "account_env_ok E" and "store_ok E st"
  shows "set (order E (dom (destroyedStore st))) = dom (destroyedStore st)" "set (order E (dom (diffChangeStore st))) = dom (diffChangeStore st)"
    and "slotCount E st < 2 ^ 64"
proof -
  have f: "finite (dom (diffChangeStore st))" "finite (dom (destroyedStore st))" "card (dom (destroyedStore st)) \<le> card (dom (diffChangeStore st))"
    using assms(2) by (auto simp: store_ok_def intro: finite_subset card_mono)
  then show "set (order E (dom (destroyedStore st))) = dom (destroyedStore st)" "set (order E (dom (diffChangeStore st))) = dom (diffChangeStore st)"
    using order_facts[OF assms(1)] by simp_all
  show "slotCount E st < 2 ^ 64" using f assms(2) order_facts(3)[OF assms(1)] by (simp add: slotCount_def store_ok_def)
qed

lemma writeSlotDiff_appends:
  assumes E: "account_env_ok E" and p: "at_end (writer p)" and st: "slotDiff m sl = Some st" "store_ok E st"
  shows "\<exists>q. writeSlotDiff E m sl (n, p) = Inr (n + 1, q) \<and> writer q = appended (slotBytes E m sl) (writer p) \<and>
    (\<forall>x. x \<noteq> ''inDiff accounts count'' \<longrightarrow> bookmarks q x = bookmarks p x)"
proof -
  let ?b = "''inDiff accounts count''" and ?w = "appended (put_le sl) (writer p)"
  let ?p = "p\<lparr>writer := appended (put_le (0 :: u64)) ?w, bookmarks := (bookmarks p)(?b \<mapsto> int (length (content ?w)))\<rparr>"
  let ?q = "?p\<lparr>writer := appended (put_le (0 :: u64) @ slotEntries E st) ?w\<rparr>"
  have "\<forall>i \<in> set (order E (dom (diffChangeStore st))). \<exists>d b. diffChangeStore st i = Some d \<and> AccountDiff_Bytes (api E) d = Inr b"
    using st(2) store_ok_order(2)[OF E st(2)] by (auto simp: store_ok_def)
  then have "AccountDiffs_Stream (order E) (writeStreamed E) st (Inr ((?p, None), 0)) = Inr ((?q, None), word_of_nat (slotCount E st))"
    by (simp add: AccountDiffs_Stream_def stream_destroyed stream_diffs appended_simps slotEntries_def slotCount_def)
  moreover have "WriteValueAtBookmark ?b (Some (put_le (word_of_nat (slotCount E st) :: u64))) ?q =
      Inr (?q\<lparr>writer := appended (put_le (word_of_nat (slotCount E st) :: u64) @ slotEntries E st) ?w\<rparr>)"
    by (rule pw_patches[where a = "content ?w" and b = "put_le (0 :: u64)"]) simp_all
  ultimately show ?thesis
    using p st(1) by (simp add: writeSlotDiff_def pw_writes appended_simps slotBytes_def)
qed

text \<open>The slots that an export covers.\<close>

definition snapshotStart :: "account_env \<Rightarrow> slot \<Rightarrow> slot" where
  "snapshotStart E t = (if MaxCommittableAge E t < t then t - MaxCommittableAge E t else 1)"

lemma writeSlots_append:
  assumes E: "account_env_ok E" and "\<forall>sl \<in> set sls. \<exists>st. slotDiff m sl = Some st \<and> store_ok E st" and "at_end (writer p)"
  shows "\<exists>q. run_while (\<lambda>sl s. let s = bind_res s (writeSlotDiff E m sl) in (case s of Inl _ \<Rightarrow> False | Inr _ \<Rightarrow> True, s)) sls (Inr (n, p)) =
      Inr (n + word_of_nat (length sls), q) \<and> writer q = appended (concat (map (slotBytes E m) sls)) (writer p) \<and>
    (\<forall>x. x \<noteq> ''inDiff accounts count'' \<longrightarrow> bookmarks q x = bookmarks p x)"
  using assms(2,3)
proof (induction sls arbitrary: n p)
  case Nil
  then show ?case by (simp add: appended_simps)
next
  case (Cons sl sls)
  obtain st where "slotDiff m sl = Some st" "store_ok E st" using Cons.prems(1) by auto
  then obtain q where q: "writeSlotDiff E m sl (n, p) = Inr (n + 1, q)" "writer q = appended (slotBytes E m sl) (writer p)"
    "\<forall>x. x \<noteq> ''inDiff accounts count'' \<longrightarrow> bookmarks q x = bookmarks p x"
    using writeSlotDiff_appends[OF E Cons.prems(2), of m sl st n] by blast
  show ?case
    using Cons.IH[of q "n + 1"] Cons.prems(1) q by (fastforce simp: appended_simps add.assoc)
qed

lemma writeSlotDiffs_appends:
  assumes "account_env_ok E" and "t \<noteq> max_slot" and "\<forall>sl. snapshotStart E t \<le> sl \<and> sl \<le> t \<longrightarrow> (\<exists>st. slotDiff m sl = Some st \<and> store_ok E st)"
    and "at_end (writer p)"
  shows "\<exists>q. writeSlotDiffs E t m p = Some (Inr (word_of_nat (length (wrange (snapshotStart E t) t)), q)) \<and>
    writer q = appended (concat (map (slotBytes E m) (wrange (snapshotStart E t) t))) (writer p) \<and>
    (\<forall>x. x \<noteq> ''inDiff accounts count'' \<longrightarrow> bookmarks q x = bookmarks p x)"
proof -
  have "\<forall>sl \<in> set (wrange (snapshotStart E t) t). \<exists>st. slotDiff m sl = Some st \<and> store_ok E st" using assms(3) by simp
  from writeSlots_append[OF assms(1) this assms(4), of 0] show ?thesis
    using assms(2) by (simp add: writeSlotDiffs_def for_up_while_returns snapshotStart_def Let_def)
qed

section \<open>The accounts that are written\<close>

text \<open>The accounts destroyed after the target slot, and an account as it was at the target slot.\<close>

definition destroyedAfter :: "slot \<Rightarrow> AccountsManager \<Rightarrow> bytes set" where
  "destroyedAfter t m = {i. \<exists>sl st. t < sl \<and> sl \<le> latestCommittedSlot m \<and> slotDiff m sl = Some st \<and> i \<in> dom (destroyedStore st)}"

definition rolledBack :: "account_env \<Rightarrow> slot \<Rightarrow> AccountsManager \<Rightarrow> AccountData \<Rightarrow> AccountData" where
  "rolledBack E t m a = (case rollbackAccountTo E a t m of Inl _ \<Rightarrow> a | Inr (x, _) \<Rightarrow> x)"

definition snapshotAccounts :: "account_env \<Rightarrow> slot \<Rightarrow> AccountsManager \<Rightarrow> AccountData list" where
  "snapshotAccounts E t m =
     map (\<lambda>i. rolledBack E t m (the (accountsTree m i))) (order E (dom (accountsTree m))) @
     map (\<lambda>i. rolledBack E t m (NewAccountData (api E) i)) (order E (destroyedAfter t m))"

text \<open>
  A ledger that can be exported for slot \<open>t\<close>: the diffs back to the first exported slot are there and can
  be encoded; every account can be rolled back; an account is destroyed at most once and does not come
  back; an account that changed after \<open>t\<close> still exists or was destroyed.
\<close>

definition snapshot_ready :: "account_env \<Rightarrow> slot \<Rightarrow> AccountsManager \<Rightarrow> bool" where
  "snapshot_ready E t m \<longleftrightarrow>
     t \<noteq> max_slot \<and> t \<le> latestCommittedSlot m \<and>
     (\<forall>sl. snapshotStart E t \<le> sl \<and> sl \<le> latestCommittedSlot m \<longrightarrow> (\<exists>st. slotDiff m sl = Some st \<and> store_ok E st)) \<and>
     finite (dom (accountsTree m)) \<and> card (dom (accountsTree m)) + card (destroyedAfter t m) < 2 ^ 64 \<and>
     (\<forall>i a. accountsTree m i = Some a \<longrightarrow> accountID a = i \<and> (\<exists>x f. rollbackAccountTo E a t m = Inr (x, f) \<and> wf_account (api E) x)) \<and>
     (\<forall>i \<in> destroyedAfter t m. accountsTree m i = None \<and>
        (\<exists>x. rollbackAccountTo E (NewAccountData (api E) i) t m = Inr (x, True) \<and> wf_account (api E) x)) \<and>
     (\<forall>s1 s2 st1 st2. t < s1 \<and> s1 < s2 \<and> s2 \<le> latestCommittedSlot m \<and> slotDiff m s1 = Some st1 \<and> slotDiff m s2 = Some st2 \<longrightarrow>
        dom (destroyedStore st1) \<inter> dom (destroyedStore st2) = {}) \<and>
     (\<forall>sl st i. t < sl \<and> sl \<le> latestCommittedSlot m \<and> slotDiff m sl = Some st \<and> i \<in> dom (diffChangeStore st) \<longrightarrow>
        accountsTree m i \<noteq> None \<or> i \<in> destroyedAfter t m)"

lemma snapshot_readyD:
  assumes "snapshot_ready E t m"
  shows "t \<noteq> max_slot" and "t \<le> latestCommittedSlot m" and "finite (dom (accountsTree m))"
    and "card (dom (accountsTree m)) + card (destroyedAfter t m) < 2 ^ 64"
    and "snapshotStart E t \<le> sl \<Longrightarrow> sl \<le> latestCommittedSlot m \<Longrightarrow> \<exists>st. slotDiff m sl = Some st \<and> store_ok E st"
    and "accountsTree m i = Some a \<Longrightarrow> accountID a = i \<and> (\<exists>x f. rollbackAccountTo E a t m = Inr (x, f) \<and> wf_account (api E) x)"
    and "i \<in> destroyedAfter t m \<Longrightarrow> accountsTree m i = None \<and>
        (\<exists>x. rollbackAccountTo E (NewAccountData (api E) i) t m = Inr (x, True) \<and> wf_account (api E) x)"
    and "t < s1 \<Longrightarrow> s1 < s2 \<Longrightarrow> s2 \<le> latestCommittedSlot m \<Longrightarrow> slotDiff m s1 = Some st1 \<Longrightarrow> slotDiff m s2 = Some st2 \<Longrightarrow>
        dom (destroyedStore st1) \<inter> dom (destroyedStore st2) = {}"
    and "t < sl \<Longrightarrow> sl \<le> latestCommittedSlot m \<Longrightarrow> slotDiff m sl = Some st \<Longrightarrow> diffChangeStore st i \<noteq> None \<Longrightarrow>
        accountsTree m i \<noteq> None \<or> i \<in> destroyedAfter t m"
  using assms unfolding snapshot_ready_def by (simp_all add: domIff)

lemma snapshotStart_le: "t < sl \<Longrightarrow> snapshotStart E t \<le> sl"
proof -
  assume *: "t < sl"
  then have "1 \<le> sl" by (simp add: word_le_nat_alt word_less_nat_alt Suc_le_eq) 
  moreover have "t - MaxCommittableAge E t \<le> t" if "MaxCommittableAge E t < t"
    using that by (simp add: word_le_nat_alt word_less_nat_alt unat_sub)
  ultimately show ?thesis using * by (auto simp: snapshotStart_def)
qed

lemma writeAccounts:
  assumes "at_end (writer p)" and "\<forall>i \<in> set xs. \<exists>x f. rollbackAccountTo E (the (accountsTree m i)) t m = Inr (x, f)"
  shows "fold_res (exportAccount E t m) xs (n, p) = Inr (n + word_of_nat (length xs),
    p\<lparr>writer := appended (concat (map (AccountData_Bytes (api E)) (map (\<lambda>i. rolledBack E t m (the (accountsTree m i))) xs))) (writer p)\<rparr>)"
  using assms
proof (induction xs arbitrary: p n)
  case (Cons x xs)
  obtain y f where "rollbackAccountTo E (the (accountsTree m x)) t m = Inr (y, f)" using Cons.prems(2) by auto
  with Cons.IH[of "p\<lparr>writer := appended (AccountData_Bytes (api E) y) (writer p)\<rparr>" "n + 1"] Cons.prems
  show ?case by (simp add: exportAccount_def writeAccountData_def pw_writes appended_simps rolledBack_def add.assoc)
qed (simp add: appended_simps)

lemma recreateAccounts:
  assumes "at_end (writer p)" and "\<forall>i \<in> set xs. M i = Some (NewAccountData (api E) i) \<and> (\<exists>x. rollbackAccountTo E (NewAccountData (api E) i) t m = Inr (x, True))"
  shows "fold_res (recreateAccount E t m M) xs p =
    Inr (p\<lparr>writer := appended (concat (map (AccountData_Bytes (api E)) (map (\<lambda>i. rolledBack E t m (NewAccountData (api E) i)) xs))) (writer p)\<rparr>)"
  using assms
proof (induction xs arbitrary: p)
  case (Cons x xs)
  obtain y where "rollbackAccountTo E (NewAccountData (api E) x) t m = Inr (y, True)" using Cons.prems(2) by auto
  with Cons.IH[of "p\<lparr>writer := appended (AccountData_Bytes (api E) y) (writer p)\<rparr>"] Cons.prems
  show ?case by (simp add: recreateAccount_def writeAccountData_def pw_writes appended_simps rolledBack_def)
qed (simp add: appended_simps)

text \<open>The map of destroyed accounts: each is a new account, and the counter is the number of them.\<close>

definition collected :: "account_env \<Rightarrow> (bytes \<rightharpoonup> AccountData) \<Rightarrow> u64 \<Rightarrow> bool" where
  "collected E M n \<longleftrightarrow> finite (dom M) \<and> (\<forall>i a. M i = Some a \<longrightarrow> a = NewAccountData (api E) i) \<and> n = word_of_nat (card (dom M))"

lemma collect_slot:
  assumes "collected E M n" and "distinct xs" and "dom M \<inter> set xs = {}"
  shows "\<exists>M' n'. iterate_while (\<lambda>i (M, n). ((M(i \<mapsto> NewAccountData (api E) i), n + 1), True)) xs (M, n) = (M', n') \<and>
    collected E M' n' \<and> dom M' = dom M \<union> set xs"
  using assms
proof (induction xs arbitrary: M n)
  case (Cons x xs)
  have "x \<notin> dom M" using Cons.prems(3) by auto
  then have "collected E (M(x \<mapsto> NewAccountData (api E) x)) (n + 1)"
    using Cons.prems(1) by (simp add: collected_def add.commute)
  moreover have "dom (M(x \<mapsto> NewAccountData (api E) x)) \<inter> set xs = {}" using Cons.prems(2,3) by auto
  moreover have "distinct xs" using Cons.prems(2) by simp
  ultimately obtain M' n' where "iterate_while (\<lambda>i (M, n). ((M(i \<mapsto> NewAccountData (api E) i), n + 1), True)) xs (M(x \<mapsto> NewAccountData (api E) x), n + 1) = (M', n')"
    "collected E M' n'" "dom M' = dom (M(x \<mapsto> NewAccountData (api E) x)) \<union> set xs" using Cons.IH by blast
  moreover from this(3) have "dom M' = dom M \<union> set (x # xs)" by (simp only: dom_fun_upd list.set) auto
  ultimately show ?case by (intro exI[of _ M'] exI[of _ n']) (simp del: fun_upd_apply)
qed simp

lemma collect_loop:
  assumes E: "account_env_ok E" and "\<forall>sl. t < sl \<and> sl \<le> hi \<longrightarrow> (\<exists>st. slotDiff m sl = Some st \<and> store_ok E st)"
    and "\<forall>s1 s2 st1 st2. t < s1 \<and> s1 < s2 \<and> s2 \<le> hi \<and> slotDiff m s1 = Some st1 \<and> slotDiff m s2 = Some st2 \<longrightarrow>
        dom (destroyedStore st1) \<inter> dom (destroyedStore st2) = {}"
    and "collected E M n" and "\<forall>sl st. t < sl \<and> sl \<le> hi \<and> slotDiff m sl = Some st \<longrightarrow> dom M \<inter> dom (destroyedStore st) = {}"
  shows "\<exists>M' n'. for_down_res (collectDestroyed E m) hi t (M, n) = Inr (M', n') \<and> collected E M' n' \<and>
    dom M' = dom M \<union> {i. \<exists>sl st. t < sl \<and> sl \<le> hi \<and> slotDiff m sl = Some st \<and> i \<in> dom (destroyedStore st)}"
  using assms(2-5)
proof (induction hi arbitrary: M n rule: down_induct[where t = t])
  case (step hi)
  note le = step.hyps(2)
  obtain st where st: "slotDiff m hi = Some st" "store_ok E st" using step.prems(1) step.hyps(1) by auto
  have f: "finite (dom (destroyedStore st))" using st(2) by (auto simp: store_ok_def intro: finite_subset)
  have "dom M \<inter> dom (destroyedStore st) = {}" using step.prems(4) step.hyps(1) st(1) by blast
  then obtain M1 n1 where 1: "collectDestroyed E m hi (M, n) = Inr (M1, n1)" "collected E M1 n1" "dom M1 = dom M \<union> dom (destroyedStore st)"
    using collect_slot[OF step.prems(3), of "order E (dom (destroyedStore st))"] order_facts[OF E f] st(1)
    by (auto simp: collectDestroyed_def AccountDiffs_StreamDestroyed_def)
  have "dom M1 \<inter> dom (destroyedStore st') = {}" if "t < sl" "sl < hi" "slotDiff m sl = Some st'" for sl st'
  proof -
    have "dom M \<inter> dom (destroyedStore st') = {}" using step.prems(4) that by (meson less_imp_le)
    moreover have "dom (destroyedStore st') \<inter> dom (destroyedStore st) = {}" using step.prems(2) that st(1) by (meson order_refl)
    ultimately show ?thesis unfolding 1(3) by blast
  qed
  then have d: "\<forall>sl st. t < sl \<and> sl \<le> hi - 1 \<and> slotDiff m sl = Some st \<longrightarrow> dom M1 \<inter> dom (destroyedStore st) = {}" unfolding le by blast
  have "\<exists>M' n'. for_down_res (collectDestroyed E m) (hi - 1) t (M1, n1) = Inr (M', n') \<and> collected E M' n' \<and>
      dom M' = dom M1 \<union> {i. \<exists>sl st. t < sl \<and> sl \<le> hi - 1 \<and> slotDiff m sl = Some st \<and> i \<in> dom (destroyedStore st)}"
    by (rule step.IH[OF _ _ 1(2) d]) (use step.prems(1,2) in \<open>unfold le; meson less_imp_le order.strict_trans\<close>)+
  moreover have "dom (destroyedStore st) \<union> {i. \<exists>sl st. t < sl \<and> sl < hi \<and> slotDiff m sl = Some st \<and> i \<in> dom (destroyedStore st)} =
      {i. \<exists>sl st. t < sl \<and> sl \<le> hi \<and> slotDiff m sl = Some st \<and> i \<in> dom (destroyedStore st)}"
    using st(1) step.hyps(1) by (auto simp: le_less)
  ultimately show ?case using step.hyps(1) 1 by (auto simp: for_down_res.simps[of _ hi] le Un_assoc)
qed (auto simp: for_down_res.simps)

lemma collect_destroyed:
  assumes E: "account_env_ok E" and S: "snapshot_ready E t m"
  shows "\<exists>M n. for_down_res (collectDestroyed E m) (latestCommittedSlot m) t (Map.empty, 0) = Inr (M, n) \<and> collected E M n \<and> dom M = destroyedAfter t m"
proof -
  note R = snapshot_readyD[OF S]
  have "collected E Map.empty 0" by (simp add: collected_def)
  moreover have "\<forall>sl. t < sl \<and> sl \<le> latestCommittedSlot m \<longrightarrow> (\<exists>st. slotDiff m sl = Some st \<and> store_ok E st)"
    using R(5) snapshotStart_le[of t _ E] by blast
  ultimately have "\<exists>M n. for_down_res (collectDestroyed E m) (latestCommittedSlot m) t (Map.empty, 0) = Inr (M, n) \<and> collected E M n \<and>
      dom M = dom (Map.empty :: bytes \<rightharpoonup> AccountData) \<union> {i. \<exists>sl st. t < sl \<and> sl \<le> latestCommittedSlot m \<and> slotDiff m sl = Some st \<and> i \<in> dom (destroyedStore st)}"
    using R(8) by (intro collect_loop[OF E]) (blast | simp)+
  then show ?thesis by (simp add: destroyedAfter_def)
qed

lemma finite_destroyedAfter: "account_env_ok E \<Longrightarrow> snapshot_ready E t m \<Longrightarrow> finite (destroyedAfter t m)"
  using collect_destroyed[of E t m] by (auto simp: collected_def)

lemma exportAccountTree_appends:
  assumes E: "account_env_ok E" and S: "snapshot_ready E t m" and p: "at_end (writer p)"
  shows "exportAccountTree E t m p = Inr (word_of_nat (length (snapshotAccounts E t m)),
    p\<lparr>writer := appended (concat (map (AccountData_Bytes (api E)) (snapshotAccounts E t m))) (writer p)\<rparr>)"
proof -
  let ?xs = "order E (dom (accountsTree m))" and ?p1 = "p\<lparr>writer := appended (concat (map (AccountData_Bytes (api E))
      (map (\<lambda>i. rolledBack E t m (the (accountsTree m i))) (order E (dom (accountsTree m)))))) (writer p)\<rparr>"
  note R = snapshot_readyD[OF S]
  have "\<forall>i \<in> set ?xs. \<exists>x f. rollbackAccountTo E (the (accountsTree m i)) t m = Inr (x, f)"
    using R(6) unfolding order_facts(2)[OF E R(3)] by fastforce
  then have 1: "fold_res (exportAccount E t m) ?xs (0, p) = Inr (word_of_nat (length ?xs), ?p1)"
    using writeAccounts[OF p, where n = 0] by simp
  obtain M n where M: "for_down_res (collectDestroyed E m) (latestCommittedSlot m) t (Map.empty, 0) = Inr (M, n)" "collected E M n"
    "dom M = destroyedAfter t m" using collect_destroyed[OF E S] by blast
  have D: "finite (destroyedAfter t m)" using M(2,3) by (simp add: collected_def)
  have "\<forall>i \<in> set (order E (dom M)). M i = Some (NewAccountData (api E) i) \<and> (\<exists>x. rollbackAccountTo E (NewAccountData (api E) i) t m = Inr (x, True))"
    using R(7) M(2,3) order_facts(2)[OF E D] by (fastforce simp: collected_def)
  moreover have "at_end (writer ?p1)" by (simp add: appended_simps)
  ultimately have "fold_res (recreateAccount E t m M) (order E (dom M)) ?p1 =
      Inr (?p1\<lparr>writer := appended (concat (map (AccountData_Bytes (api E)) (map (\<lambda>i. rolledBack E t m (NewAccountData (api E) i)) (order E (dom M))))) (writer ?p1)\<rparr>)"
    by (intro recreateAccounts)
  moreover have "n = word_of_nat (length (order E (dom M)))" using M(2,3) order_facts(3)[OF E D] by (simp add: collected_def)
  ultimately show ?thesis
    by (simp add: exportAccountTree_def 1 recreateDestroyedAccounts_def M(1,3) appended_simps snapshotAccounts_def)
qed

text \<open>The bytes of a snapshot.\<close>

definition accountsBytes :: "account_env \<Rightarrow> slot \<Rightarrow> AccountsManager \<Rightarrow> bytes" where
  "accountsBytes E t m =
     put_le (word_of_nat (length (snapshotAccounts E t m)) :: u64) @ put_le (word_of_nat (length (wrange (snapshotStart E t) t)) :: u64) @
     concat (map (AccountData_Bytes (api E)) (snapshotAccounts E t m)) @ concat (map (slotBytes E m) (wrange (snapshotStart E t) t))"

lemma Accounts_Export_content:
  assumes E: "account_env_ok E" and S: "snapshot_ready E t m" and w: "at_end w"
  shows "Accounts_Export E w t m = Some (Inr (appended (accountsBytes E t m) w))"
proof -
  let ?A = "''accounts count''" and ?D = "''slot diffs count''" and ?z = "put_le (0 :: u64)"
    and ?acc = "concat (map (AccountData_Bytes (api E)) (snapshotAccounts E t m))"
    and ?n = "put_le (word_of_nat (length (snapshotAccounts E t m)) :: u64)"
    and ?sls = "wrange (snapshotStart E t) t"
  let ?bm = "[?A \<mapsto> int (length (content w)), ?D \<mapsto> int (length (content (appended ?z w)))]"
  let ?p1 = "\<lparr>bookmarks = ?bm, writer = appended (?z @ ?z @ ?acc) w\<rparr>"
  let ?p2 = "\<lparr>bookmarks = ?bm, writer = appended (?n @ ?z @ ?acc) w\<rparr>"
  have patch: "WriteValueAtBookmark ?A (Some ?n) ?p1 = Inr (?p1\<lparr>writer := appended (?n @ ?z @ ?acc) w\<rparr>)"
    by (rule pw_patches[where a = "content w" and b = ?z]) simp_all
  have "\<forall>sl. snapshotStart E t \<le> sl \<and> sl \<le> t \<longrightarrow> (\<exists>st. slotDiff m sl = Some st \<and> store_ok E st)" "t \<noteq> max_slot"
    using snapshot_readyD(1,2,5)[OF S] by auto
  from writeSlotDiffs_appends[OF E this(2,1), of ?p2]
  obtain q where q: "writeSlotDiffs E t m ?p2 = Some (Inr (word_of_nat (length ?sls), q))"
    "writer q = appended (?n @ ?z @ ?acc @ concat (map (slotBytes E m) ?sls)) w" "bookmarks q ?D = ?bm ?D"
    by (auto simp: appended_simps)
  have "writer q = appended (?z @ ?acc @ concat (map (slotBytes E m) ?sls)) (appended ?n w)" by (simp add: q(2) appended_simps)
  from pw_patches[OF _ this refl, where n = ?D and b' = "put_le (word_of_nat (length ?sls) :: u64)"]
  have "WriteValueAtBookmark ?D (Some (put_le (word_of_nat (length ?sls) :: u64))) q = Inr (q\<lparr>writer := appended (accountsBytes E t m) w\<rparr>)"
    using q(3) by (simp add: appended_simps accountsBytes_def)
  then show ?thesis
    using exportAccountTree_appends[OF E S] w patch q(1)
    by (simp add: Accounts_Export_def pw_writes NewPositionedWriter_def appended_simps)
qed

section \<open>Reading back\<close>

lemma importAccountTree_accounts:
  assumes A: "account_api_ok (api E)" and "\<forall>a \<in> set as. wf_account (api E) a"
  shows "importAccountTree E (length as) m (concat (map (AccountData_Bytes (api E)) as) @ r) =
    Inr (m\<lparr>accountsTree := fold (\<lambda>a T. T(accountID a \<mapsto> a)) as (accountsTree m)\<rparr>, r)"
  using assms(2)
proof (induction as arbitrary: m)
  case (Cons a as)
  then have "AccountData_FromReader (api E) (zeroAccountData (api E)) (AccountData_Bytes (api E) a @ q) = Inr (a, q)" for q
    using AccountData_read[OF A] by (simp add: AccountData_FromReader_def)
  then show ?case using Cons by (simp del: fun_upd_apply)
qed simp

lemma readDiffs_destroyed:
  assumes "\<forall>i \<in> set xs. length i = AccountIDLength (api E)"
  shows "readDiffs E (length xs + n) st (concat (map (\<lambda>i. i @ [1]) xs) @ r) =
    readDiffs E n (st\<lparr>destroyedStore := (\<lambda>i. if i \<in> set xs then Some () else destroyedStore st i),
      diffChangeStore := (\<lambda>i. if i \<in> set xs then Some (NewAccountDiff (api E)) else diffChangeStore st i)\<rparr>) r"
  using assms
proof (induction xs arbitrary: st)
  case (Cons x xs)
  have h: "rd get_le (1 # q) = Inr (1 :: u8, q)" for q using rd_simps(1)[of 1 q] by (simp add: put_le_u8)
  show ?case using Cons by (simp add: h AccountDiffs_Store_def) (rule arg_cong[where f = "\<lambda>s. readDiffs E n s r"], rule AccountDiffs.equality, auto)
qed simp

lemma readDiffs_diffs:
  assumes A: "account_api_ok (api E)"
    and "\<forall>i \<in> set xs. length i = AccountIDLength (api E) \<and> (\<exists>d b. D i = Some d \<and> wf_diff (api E) d \<and> AccountDiff_Bytes (api E) d = Inr b)"
  shows "readDiffs E (length xs) st (concat (map (\<lambda>i. i @ [0] @ diffBytes E (the (D i))) xs) @ r) =
    Inr (st\<lparr>diffChangeStore := (\<lambda>i. if i \<in> set xs then D i else diffChangeStore st i)\<rparr>, r)"
  using assms(2)
proof (induction xs arbitrary: st)
  case (Cons x xs)
  have h: "rd get_le (0 # q) = Inr (0 :: u8, q)" for q using rd_simps(1)[of 0 q] by (simp add: put_le_u8)
  obtain d b where d: "D x = Some d" "wf_diff (api E) d" "AccountDiff_Bytes (api E) d = Inr b" using Cons.prems by auto
  have "AccountDiff_FromReader (api E) (diffBytes E d @ q) = Inr (d, q)" for q
    using AccountDiff_read[OF A d(2,3)] d(3) by (simp add: AccountDiff_FromReader_def diffBytes_def)
  then show ?case using Cons d(1) by (simp add: h AccountDiffs_Store_def) (rule AccountDiffs.equality, auto)
qed simp

lemma readDiffs_slot:
  assumes E: "account_env_ok E" and A: "account_api_ok (api E)" and st: "store_ok E st"
  shows "readDiffs E (slotCount E st) NewAccountDiffs (slotEntries E st @ r) = Inr (st, r)"
proof -
  let ?xs = "order E (dom (destroyedStore st))" and ?ys = "order E (dom (diffChangeStore st))"
  note o = store_ok_order(1,2)[OF E st]
  have "\<forall>i \<in> set ?xs. length i = AccountIDLength (api E)" using st unfolding o by (auto simp: store_ok_def)
  moreover have "\<forall>i \<in> set ?ys. length i = AccountIDLength (api E) \<and>
      (\<exists>d b. diffChangeStore st i = Some d \<and> wf_diff (api E) d \<and> AccountDiff_Bytes (api E) d = Inr b)"
    using st unfolding o by (auto simp: store_ok_def)
  moreover have "\<lparr>diffChangeStore = (\<lambda>i. if i \<in> dom (diffChangeStore st) then diffChangeStore st i
        else if i \<in> dom (destroyedStore st) then Some (NewAccountDiff (api E)) else None),
      destroyedStore = (\<lambda>i. if i \<in> dom (destroyedStore st) then Some () else None)\<rparr> = st"
  proof -
    have "(if i \<in> dom (destroyedStore st) then Some () else None) = destroyedStore st i" for i
      by (cases "destroyedStore st i") (simp_all add: domIff)
    moreover have "(if i \<in> dom (diffChangeStore st) then diffChangeStore st i else if i \<in> dom (destroyedStore st) then x else None) = diffChangeStore st i" for x i
      using st by (auto simp: store_ok_def)
    ultimately show ?thesis by (simp only: AccountDiffs.surjective[symmetric]) simp
  qed
  ultimately show ?thesis
    by (simp add: slotCount_def slotEntries_def readDiffs_destroyed readDiffs_diffs[OF A, simplified] o NewAccountDiffs_def cong: if_cong)
qed

lemma readSlotDiffs_slots:
  assumes E: "account_env_ok E" and A: "account_api_ok (api E)" and "\<forall>sl \<in> set sls. \<exists>st. slotDiff m sl = Some st \<and> store_ok E st"
    and "distinct sls" and "\<forall>sl \<in> set sls. slotDiff m1 sl = Some NewAccountDiffs"
  shows "readSlotDiffs E (length sls) m1 (concat (map (slotBytes E m) sls) @ r) =
    Inr (m1\<lparr>slotDiff := (\<lambda>sl. if sl \<in> set sls then slotDiff m sl else slotDiff m1 sl)\<rparr>, r)"
  using assms(3-5)
proof (induction sls arbitrary: m1)
  case (Cons sl sls)
  obtain st where st: "slotDiff m sl = Some st" "store_ok E st" using Cons.prems(1) by auto
  let ?m = "m1\<lparr>slotDiff := (slotDiff m1)(sl \<mapsto> st)\<rparr>" and ?q = "concat (map (slotBytes E m) sls) @ r"
  have n: "unat (word_of_nat (slotCount E st) :: u64) = slotCount E st" using store_ok_order(3)[OF E st(2)] by (simp add: unat_of_nat_small)
  have "readSlotDiffs E (length (sl # sls)) m1 (slotBytes E m sl @ ?q) = readSlotDiffs E (length sls) ?m ?q"
  proof (cases "slotCount E st = 0")
    case True
    then have "dom (diffChangeStore st) = {}" "dom (destroyedStore st) = {}" "slotEntries E st = []"
      using store_ok_order(1,2)[OF E st(2)] by (auto simp: slotCount_def slotEntries_def)
    then have "st = NewAccountDiffs" by (simp add: NewAccountDiffs_def)
    then have "?m = m1" using Cons.prems(3) by (simp add: map_upd_triv)
    then show ?thesis using True st(1) \<open>slotEntries E st = []\<close> by (simp add: slotBytes_def)
  next
    case False
    then have "(word_of_nat (slotCount E st) :: u64) \<noteq> 0" using n by (metis unat_0)
    then show ?thesis using st(1) Cons.prems(3) readDiffs_slot[OF E A st(2)] by (simp add: slotBytes_def n)
  qed
  also have "\<dots> = Inr (?m\<lparr>slotDiff := (\<lambda>x. if x \<in> set sls then slotDiff m x else slotDiff ?m x)\<rparr>, r)"
    using Cons.prems by (intro Cons.IH) auto
  also have "?m\<lparr>slotDiff := (\<lambda>x. if x \<in> set sls then slotDiff m x else slotDiff ?m x)\<rparr> =
      m1\<lparr>slotDiff := (\<lambda>x. if x \<in> set (sl # sls) then slotDiff m x else slotDiff m1 x)\<rparr>"
    using st(1) by (intro AccountsManager.equality) auto
  finally show ?case by simp
qed simp

lemma rollbackSlot_keeps_id:
  assumes "rollbackSlot E m sl (a, w) = Inr (b, v)"
  shows "accountID b = accountID a"
proof -
  have "accountID y = accountID x" if "rollbackAccount E d x = Inr y" for d x y
    using that by (auto simp: rollbackAccount_def Let_def AddBlockIssuerKeys_def RemoveBlockIssuerKey_def account_if)
  then show ?thesis using assms by (auto simp: rollbackSlot_def split: if_splits)
qed

lemma rolledBack_id: "accountID (rolledBack E t m a) = accountID a"
proof (cases "rollbackAccountTo E a t m")
  case (Inr r)
  then have "(\<lambda>s. accountID (fst s) = accountID a) r" unfolding rollbackAccountTo_def
    by (rule for_down_res_invariant) (auto dest: rollbackSlot_keeps_id)
  then show ?thesis using Inr by (simp add: rolledBack_def split_beta)
qed (simp add: rolledBack_def)

lemma fold_by_id:
  assumes "\<forall>i \<in> set xs. accountID (f i) = i"
  shows "fold (\<lambda>a T. T(accountID a \<mapsto> a)) (map f xs) T i = (if i \<in> set xs then Some (f i) else T i)"
  using assms by (induction xs arbitrary: T) auto

text \<open>The account tree that an import gives.\<close>

definition snapshotTree :: "account_env \<Rightarrow> slot \<Rightarrow> AccountsManager \<Rightarrow> bytes \<rightharpoonup> AccountData" where
  "snapshotTree E t m i =
     (case accountsTree m i of
        Some a \<Rightarrow> Some (rolledBack E t m a)
      | None \<Rightarrow> if i \<in> destroyedAfter t m then Some (rolledBack E t m (NewAccountData (api E) i)) else None)"

lemma length_wrange_slot: "length (wrange (a :: slot) b) < 2 ^ 64"
proof -
  have "unat b < 2 ^ LENGTH(32)" by (rule unsigned_less)
  moreover have "length (wrange a b) \<le> Suc (unat b)" by (simp add: wrange_def del: upt.simps upt_Suc)
  ultimately show ?thesis by simp
qed

lemma snapshotAccounts_facts:
  assumes E: "account_env_ok E" and S: "snapshot_ready E t m"
  shows "\<forall>a \<in> set (snapshotAccounts E t m). wf_account (api E) a" and "length (snapshotAccounts E t m) < 2 ^ 64"
    and "fold (\<lambda>a T. T(accountID a \<mapsto> a)) (snapshotAccounts E t m) Map.empty = snapshotTree E t m"
proof -
  note R = snapshot_readyD[OF S]
  note o = order_facts[OF E R(3)] order_facts[OF E finite_destroyedAfter[OF E S]]
  show "length (snapshotAccounts E t m) < 2 ^ 64" using R(4) by (simp add: snapshotAccounts_def o)
  have "wf_account (api E) (rolledBack E t m a)" if "accountsTree m i = Some a" for i a
    using R(6)[OF that] by (auto simp: rolledBack_def)
  moreover have "wf_account (api E) (rolledBack E t m (NewAccountData (api E) i))" if "i \<in> destroyedAfter t m" for i
    using R(7)[OF that] by (auto simp: rolledBack_def)
  ultimately show "\<forall>a \<in> set (snapshotAccounts E t m). wf_account (api E) a"
    by (auto simp: snapshotAccounts_def o)
  have id: "\<forall>i \<in> set (order E (dom (accountsTree m))). accountID (rolledBack E t m (the (accountsTree m i))) = i"
    "\<forall>i \<in> set (order E (destroyedAfter t m)). accountID (rolledBack E t m (NewAccountData (api E) i)) = i"
    using R(6) by (auto simp: o rolledBack_id NewAccountData_def)
  show "fold (\<lambda>a T. T(accountID a \<mapsto> a)) (snapshotAccounts E t m) Map.empty = snapshotTree E t m"
  proof
    fix i
    show "fold (\<lambda>a T. T(accountID a \<mapsto> a)) (snapshotAccounts E t m) Map.empty i = snapshotTree E t m i"
      using R(7)[of i] unfolding snapshotAccounts_def List.fold_append comp_apply fold_by_id[OF id(1)] fold_by_id[OF id(2)] o
      by (cases "accountsTree m i") (auto simp: snapshotTree_def domIff)
  qed
qed

lemma Accounts_Import_snapshot:
  assumes E: "account_env_ok E" and A: "account_api_ok (api E)" and S: "snapshot_ready E t m"
    and "accountsTree m0 = Map.empty" and "\<forall>sl. snapshotStart E t \<le> sl \<and> sl \<le> t \<longrightarrow> slotDiff m0 sl = Some NewAccountDiffs"
  shows "Accounts_Import E (accountsBytes E t m @ r) m0 = Inr (m0\<lparr>accountsTree := snapshotTree E t m,
    slotDiff := (\<lambda>sl. if snapshotStart E t \<le> sl \<and> sl \<le> t then slotDiff m sl else slotDiff m0 sl)\<rparr>, r)"
proof -
  let ?sls = "wrange (snapshotStart E t) t" and ?m = "m0\<lparr>accountsTree := snapshotTree E t m\<rparr>"
  note F = snapshotAccounts_facts[OF E S]
  have "\<forall>sl \<in> set ?sls. \<exists>st. slotDiff m sl = Some st \<and> store_ok E st" using snapshot_readyD(2,5)[OF S] by auto
  moreover have "\<forall>sl \<in> set ?sls. slotDiff ?m sl = Some NewAccountDiffs" using assms(5) by simp
  ultimately have "readSlotDiffs E (length ?sls) ?m (concat (map (slotBytes E m) ?sls) @ r) =
      Inr (?m\<lparr>slotDiff := (\<lambda>sl. if sl \<in> set ?sls then slotDiff m sl else slotDiff ?m sl)\<rparr>, r)"
    by (intro readSlotDiffs_slots[OF E A]) simp_all
  moreover have "importAccountTree E (length (snapshotAccounts E t m)) m0 (concat (map (AccountData_Bytes (api E)) (snapshotAccounts E t m)) @ q) = Inr (?m, q)" for q
    using importAccountTree_accounts[OF A F(1)] F(3) assms(4) by simp
  ultimately show ?thesis
    using F(2) length_wrange_slot[of "snapshotStart E t" t] by (simp add: Accounts_Import_def accountsBytes_def unat_of_nat_small cong: if_cong)
qed

section \<open>Asking for past slots\<close>

lemma rollbackAccount_time: "rollbackAccount E d (a\<lparr>Credits := (Credits a)\<lparr>creditsUpdateTime := u\<rparr>\<rparr>) = rollbackAccount E d a"
proof -
  have "a\<lparr>Credits := Credits_Update x (Some y) ((Credits a)\<lparr>creditsUpdateTime := u\<rparr>)\<rparr> = a\<lparr>Credits := Credits_Update x (Some y) (Credits a)\<rparr>" for x y
    by (simp add: Credits_Update_def)
  then show ?thesis by (simp add: rollbackAccount_def Let_def)
qed

text \<open>The update time of the credits is irrelevant if some slot has a diff of the account.\<close>

lemma rollback_time:
  assumes "t < sl" and "sl \<le> hi" and "slotDiff m sl = Some st" and "diffChangeStore st (accountID a) \<noteq> None"
  shows "for_down_res (rollbackSlot E m) hi t (a\<lparr>Credits := (Credits a)\<lparr>creditsUpdateTime := u\<rparr>\<rparr>, w) = for_down_res (rollbackSlot E m) hi t (a, w)"
  using assms(2)
proof (induction hi rule: down_induct[where t = t])
  case (stop hi)
  then show ?case using assms(1) by auto
next
  case (step hi)
  let ?b = "a\<lparr>Credits := (Credits a)\<lparr>creditsUpdateTime := u\<rparr>\<rparr>"
  show ?case
  proof (cases "\<exists>st. slotDiff m hi = Some st \<and> \<not> AccountDiffs_Has (accountID a) st")
    case True
    then have "sl < hi" using assms(3,4) step.prems by (auto simp: AccountDiffs_Has_def le_less)
    moreover have "rollbackSlot E m hi (?b, w) = Inr (?b, w)" "rollbackSlot E m hi (a, w) = Inr (a, w)" using True by (auto simp: rollbackSlot_def)
    ultimately show ?thesis using step by (simp add: for_down_res_step)
  next
    case False
    then have "rollbackSlot E m hi (?b, w) = rollbackSlot E m hi (a, w)"
      by (cases "slotDiff m hi") (auto simp: rollbackSlot_def rollbackAccount_time)
    then show ?thesis using step.hyps(1) by (simp add: for_down_res_step)
  qed
qed

lemma rollback_untouched:
  assumes "\<And>sl. t < sl \<Longrightarrow> sl \<le> hi \<Longrightarrow> \<exists>st. slotDiff m sl = Some st \<and> diffChangeStore st (accountID a) = None"
  shows "for_down_res (rollbackSlot E m) hi t (a, w) = Inr (a, w)"
  using assms
proof (induction hi rule: down_induct[where t = t])
  case (step hi)
  obtain st where "slotDiff m hi = Some st" "diffChangeStore st (accountID a) = None" using step.prems[of hi] step.hyps(1) by auto
  then have "rollbackSlot E m hi (a, w) = Inr (a, w)" by (simp add: rollbackSlot_def AccountDiffs_Has_def)
  moreover have "for_down_res (rollbackSlot E m) (hi - 1) t (a, w) = Inr (a, w)" using step by auto
  ultimately show ?case using step.hyps(1) by (simp add: for_down_res_step)
qed (simp add: for_down_res_stop)

text \<open>An account that exists at \<open>t\<close>, in the ledger or in the snapshot.\<close>

definition accountFrom :: "account_env \<Rightarrow> AccountsManager \<Rightarrow> slot \<Rightarrow> slot \<Rightarrow> AccountData \<Rightarrow> account_error + AccountData option" where
  "accountFrom E m t t' x = bind_res (for_down_res (rollbackSlot E m) t t' (x, False)) (\<lambda>(y, _). Inr (Some y))"

lemma account_existing:
  assumes "inWindow E t' m" and "t' \<le> latestCommittedSlot m" and "t' \<le> t" and "t \<le> latestCommittedSlot m"
    and "rollbackAccountTo E (case accountsTree m i of Some a \<Rightarrow> a | None \<Rightarrow> newPastAccount E i t') t m = Inr (x, f)" and "accountsTree m i \<noteq> None \<or> f"
  shows "account E i t' m = accountFrom E m t t' x"
proof -
  let ?l = "case accountsTree m i of Some a \<Rightarrow> a | None \<Rightarrow> newPastAccount E i t'"
  have "rollbackAccountTo E ?l t' m = for_down_res (rollbackSlot E m) t t' (x, f)"
    using assms(5) for_down_res_split[OF assms(3,4), of "rollbackSlot E m"] by (simp add: rollbackAccountTo_def)
  then show ?thesis
    using assms(1,2,6) rollback_flag[of E m t t' x f]
    by (cases "for_down_res (rollbackSlot E m) t t' (x, False)") (auto simp: account_def inWindow_def accountFrom_def Let_def)
qed

lemma account_absent:
  assumes "inWindow E t' m" and "t' \<le> t" and "t \<le> latestCommittedSlot m" and "accountsTree m i = None"
    and "\<And>sl. t < sl \<Longrightarrow> sl \<le> latestCommittedSlot m \<Longrightarrow> \<exists>st. slotDiff m sl = Some st \<and> diffChangeStore st i = None"
  shows "account E i t' m = bind_res (for_down_res (rollbackSlot E m) t t' (newPastAccount E i t', False))
    (\<lambda>(a, wasDestroyed). if \<not> wasDestroyed then Inr None else Inr (Some a))"
proof -
  have "accountID (newPastAccount E i t') = i" by (simp add: newPastAccount_def WithCredits_def NewAccountData_def)
  then have "for_down_res (rollbackSlot E m) (latestCommittedSlot m) t (newPastAccount E i t', False) = Inr (newPastAccount E i t', False)"
    using assms(5) by (intro rollback_untouched) simp
  then have "rollbackAccountTo E (newPastAccount E i t') t' m = for_down_res (rollbackSlot E m) t t' (newPastAccount E i t', False)"
    using for_down_res_split[OF assms(2,3), of "rollbackSlot E m"] by (simp add: rollbackAccountTo_def)
  moreover have "\<not> latestCommittedSlot m < t'" using assms(2,3) by auto
  ultimately show ?thesis using assms(1,4) by (auto simp: account_def inWindow_def Let_def)
qed

text \<open>The ledger that was imported, at the slot of the snapshot.\<close>

lemma snapshot_queries:
  assumes E: "account_env_ok E" and S: "snapshot_ready E t m"
    and m2: "latestCommittedSlot m2 = t" "accountsTree m2 = snapshotTree E t m" "\<And>sl. t' < sl \<Longrightarrow> sl \<le> t \<Longrightarrow> slotDiff m2 sl = slotDiff m sl"
    and t': "t' \<le> t" and w: "inWindow E t' m"
  shows "account E i t' m2 = account E i t' m"
proof -
  note R = snapshot_readyD[OF S]
  have w2: "inWindow E t' m2" using w R(2) unfolding inWindow_def m2(1) by (meson less_le_trans order_trans)
  have N: "for_down_res (rollbackSlot E m2) t t' = for_down_res (rollbackSlot E m) t t'"
    by (intro ext for_down_res_cong) (simp add: rollbackSlot_def m2(3))
  have here: "rollbackAccountTo E x t m2 = Inr (x, False)" for x by (simp add: rollbackAccountTo_def m2(1) for_down_res_stop)
  have snap: "account E i t' m2 = accountFrom E m t t' x" if "snapshotTree E t m i = Some x" for x
    using account_existing[OF w2 _ t' _ , of i x False] that here t' by (simp add: m2 accountFrom_def N)
  have le: "t' \<le> latestCommittedSlot m" using t' R(2) by simp
  show ?thesis
  proof (cases "accountsTree m i")
    case (Some a)
    then obtain x f where "rollbackAccountTo E a t m = Inr (x, f)" using R(6) by blast
    then show ?thesis using account_existing[OF w le t' R(2), of i x f] snap[of x] Some by (simp add: snapshotTree_def rolledBack_def)
  next
    case None
    show ?thesis
    proof (cases "i \<in> destroyedAfter t m")
      case True
      then obtain sl st where sl: "t < sl" "sl \<le> latestCommittedSlot m" "slotDiff m sl = Some st" "destroyedStore st i \<noteq> None"
        by (auto simp: destroyedAfter_def)
      have "store_ok E st" using R(5)[of sl] sl snapshotStart_le[OF sl(1), of E] by auto
      then have d: "diffChangeStore st (accountID (NewAccountData (api E) i)) \<noteq> None"
        using sl(4) by (auto simp: store_ok_def NewAccountData_def domIff)
      have "newPastAccount E i t' = (NewAccountData (api E) i)\<lparr>Credits := (Credits (NewAccountData (api E) i))\<lparr>creditsUpdateTime := t'\<rparr>\<rparr>"
        by (simp add: newPastAccount_def WithCredits_def NewAccountData_def NewBlockIssuanceCredits_def)
      then have "rollbackAccountTo E (newPastAccount E i t') t m = rollbackAccountTo E (NewAccountData (api E) i) t m"
        using rollback_time[OF sl(1-3) d] by (simp add: rollbackAccountTo_def)
      moreover obtain x where "rollbackAccountTo E (NewAccountData (api E) i) t m = Inr (x, True)" using R(7)[OF True] by blast
      ultimately show ?thesis using account_existing[OF w le t' R(2), of i x True] snap[of x] None True by (simp add: snapshotTree_def rolledBack_def)
    next
      case False
      have "\<exists>st. slotDiff m sl = Some st \<and> diffChangeStore st i = None" if "t < sl" "sl \<le> latestCommittedSlot m" for sl
        using R(5)[of sl] R(9)[of sl _ i] that snapshotStart_le[OF that(1), of E] None False by blast
      then have "account E i t' m = bind_res (for_down_res (rollbackSlot E m) t t' (newPastAccount E i t', False))
          (\<lambda>(a, wasDestroyed). if \<not> wasDestroyed then Inr None else Inr (Some a))" by (intro account_absent[OF w t' R(2) None])
      moreover have "account E i t' m2 = bind_res (for_down_res (rollbackSlot E m2) t t' (newPastAccount E i t', False))
          (\<lambda>(a, wasDestroyed). if \<not> wasDestroyed then Inr None else Inr (Some a))"
        using None False by (intro account_absent[OF w2 t']) (simp_all add: m2(1,2) snapshotTree_def)
      ultimately show ?thesis by (simp add: N)
    qed
  qed
qed

section \<open>Properties\<close>

text \<open>C25: An accounts snapshot for an earlier slot is complete: imported into an empty ledger that is then
  set to the slot of the snapshot, it answers every query for an account at that slot, and at every
  earlier slot whose diffs it holds, as the exported ledger does, destroyed and unknown accounts
  included; and the import reads exactly the bytes that were written.\<close>

theorem snapshot_answers_alike:
  assumes "account_env_ok E" and "account_api_ok (api E)" and "snapshot_ready E t m" and "at_end w" and "accountsTree m0 = Map.empty"
    and "\<forall>sl. snapshotStart E t \<le> sl \<and> sl \<le> t \<longrightarrow> slotDiff m0 sl = Some NewAccountDiffs"
  shows "\<exists>bs w' m'. Accounts_Export E w t m = Some (Inr w') \<and> content w' = content w @ bs \<and> at_end w' \<and>
    Accounts_Import E (bs @ r) m0 = Inr (m', r) \<and>
    (\<forall>i t'. t' \<le> t \<and> snapshotStart E t \<le> t' + 1 \<and> inWindow E t' m \<longrightarrow>
       account E i t' (SetLatestCommittedSlot t m') = account E i t' m)"
proof -
  let ?m' = "m0\<lparr>accountsTree := snapshotTree E t m, slotDiff := (\<lambda>sl. if snapshotStart E t \<le> sl \<and> sl \<le> t then slotDiff m sl else slotDiff m0 sl)\<rparr>"
  have "account E i t' (SetLatestCommittedSlot t ?m') = account E i t' m"
    if "t' \<le> t" "snapshotStart E t \<le> t' + 1" "inWindow E t' m" for i t'
    using that order_trans[OF that(2) inc_le[of t']] by (intro snapshot_queries[OF assms(1,3)]) (simp_all add: SetLatestCommittedSlot_def)
  then show ?thesis
    using Accounts_Export_content[OF assms(1,3,4)] Accounts_Import_snapshot[OF assms(1-3,5,6), of r] appended_simps(2,5)
    by (intro exI[of _ "accountsBytes E t m"] exI[of _ "appended (accountsBytes E t m) w"] exI[of _ ?m']) auto
qed

text \<open>A ledger at slot 2 whose account changed in that slot.\<close>

definition exampleTwoSlots :: AccountsManager where
  "exampleTwoSlots =
     \<lparr>blockBurns = Map.empty, latestSupportedVersionSignals = Map.empty, latestCommittedSlot = 2, accountsTree = [[7] \<mapsto> exampleAccount],
      slotDiff = [1 \<mapsto> NewAccountDiffs, 2 \<mapsto> creditStore exampleEnv [7] 5]\<rparr>"

lemma slots_to_2: "sl \<le> 2 \<Longrightarrow> sl = 0 \<or> sl = 1 \<or> sl = (2 :: slot)"
  by (auto simp: word_le_nat_alt word_unat_eq_iff)

lemma exampleTwoSlots_ready: "snapshot_ready exampleEnv 1 exampleTwoSlots"
proof -
  let ?m = exampleTwoSlots and ?a = "exampleAccount\<lparr>Credits := \<lparr>creditsValue = 45, creditsUpdateTime = 0\<rparr>\<rparr>"
  have f: "latestCommittedSlot ?m = 2" "accountsTree ?m = [[7] \<mapsto> exampleAccount]" "slotDiff ?m 1 = Some NewAccountDiffs" "slotDiff ?m 2 = Some (creditStore exampleEnv [7] 5)"
    by (simp_all add: exampleTwoSlots_def)
  have s: "snapshotStart exampleEnv 1 = 1" by (simp add: snapshotStart_def exampleEnv_def)
  have sl: "sl = 1 \<or> sl = 2" if "1 \<le> sl" "sl \<le> 2" for sl :: slot using slots_to_2[OF that(2)] that(1) by auto
  have sl': "sl = 2" if "1 < sl" "sl \<le> 2" for sl :: slot using slots_to_2[OF that(2)] that(1) by auto
  have ok: "store_ok exampleEnv NewAccountDiffs" by (simp add: store_ok_def NewAccountDiffs_def)
  have "wf_diff exampleAccounts ((NewAccountDiff exampleAccounts)\<lparr>BICChange := 5\<rparr>)"
    "\<exists>b. AccountDiff_Bytes exampleAccounts ((NewAccountDiff exampleAccounts)\<lparr>BICChange := 5\<rparr>) = Inr b"
    by (simp_all add: wf_diff_def wf_version_def AccountDiff_Bytes_def writeBlockIssuerKeys_def example_defs Let_def)
  moreover have "api exampleEnv = exampleAccounts" "AccountIDLength exampleAccounts = 1" by (simp_all add: exampleEnv_def exampleAccounts_def)
  ultimately have ok2: "store_ok exampleEnv (creditStore exampleEnv [7] 5)"
    by (simp add: store_ok_def creditStore_def NewAccountDiffs_def)
  have "destroyedStore st x = None" if "1 < sl" "sl \<le> 2" "slotDiff ?m sl = Some st" for sl st x
    using sl'[OF that(1,2)] that(3) f(4) by (auto simp: creditStore_def NewAccountDiffs_def)
  then have d: "destroyedAfter 1 ?m = {}" by (auto simp: destroyedAfter_def f(1))
  have "rollbackSlot exampleEnv ?m 2 (exampleAccount, False) = Inr (?a, False)"
    using rollback_credits[OF exampleEnv_ok, of exampleAccount 5]
    by (simp add: rollbackSlot_def f AccountDiffs_Has_def AccountDiffs_Load_def creditStore_def NewAccountDiffs_def exampleAccount_def keys_ok_def)
  then have r: "rollbackAccountTo exampleEnv exampleAccount 1 ?m = Inr (?a, False)"
    by (simp add: rollbackAccountTo_def f for_down_res.simps)
  have wf: "wf_account (api exampleEnv) ?a"
    by (simp add: exampleEnv_def wf_account_def exampleAccounts_def exampleAccount_def keys_ok_def issuer_key_ok_def wf_version_def)
  have tree: "accountID a = i \<and> (\<exists>x f. rollbackAccountTo exampleEnv a 1 ?m = Inr (x, f) \<and> wf_account (api exampleEnv) x)" if "accountsTree ?m i = Some a" for i a
    using that r wf by (auto simp: f exampleAccount_def split: if_splits)
  have stores: "\<exists>st. slotDiff ?m sl = Some st \<and> store_ok exampleEnv st" if "1 \<le> sl" "sl \<le> 2" for sl using sl[OF that] f(3,4) ok ok2 by auto
  have dis: "dom (destroyedStore st1) \<inter> dom (destroyedStore st2) = {}"
    if "1 < s1 \<and> s1 < s2 \<and> s2 \<le> 2 \<and> slotDiff ?m s1 = Some st1 \<and> slotDiff ?m s2 = Some st2" for s1 s2 st1 st2
  proof -
    have "s1 \<le> 2" "1 < s2" using that by auto
    then show ?thesis using sl'[of s1] sl'[of s2] that by auto
  qed
  have touched: "accountsTree ?m i \<noteq> None" if "1 < sl \<and> sl \<le> 2 \<and> slotDiff ?m sl = Some st \<and> i \<in> dom (diffChangeStore st)" for sl st i
    using sl'[of sl] that by (auto simp: f creditStore_def NewAccountDiffs_def split: if_splits)
  show ?thesis unfolding snapshot_ready_def f(1) s d using tree stores dis touched by (simp add: f(2))
qed

theorem snapshot_answers_alike_witness:
  "\<exists>bs w' m'. Accounts_Export exampleEnv \<lparr>content = [], position = 0\<rparr> 1 exampleTwoSlots = Some (Inr w') \<and> content w' = bs \<and>
     Accounts_Import exampleEnv bs (NewAccountsManager [1 \<mapsto> NewAccountDiffs] Map.empty) = Inr (m', []) \<and>
     account exampleEnv [7] 1 (SetLatestCommittedSlot 1 m') = account exampleEnv [7] 1 exampleTwoSlots"
proof -
  have s: "snapshotStart exampleEnv 1 = 1" by (simp add: snapshotStart_def exampleEnv_def)
  have a: "account_api_ok (api exampleEnv)" by (simp add: exampleEnv_def)
  have w: "at_end \<lparr>content = [], position = 0\<rparr>" by (simp add: at_end_def)
  have m0: "accountsTree (NewAccountsManager [1 \<mapsto> NewAccountDiffs] Map.empty) = Map.empty"
    "\<forall>sl. snapshotStart exampleEnv 1 \<le> sl \<and> sl \<le> 1 \<longrightarrow> slotDiff (NewAccountsManager [1 \<mapsto> NewAccountDiffs] Map.empty) sl = Some NewAccountDiffs"
    by (auto simp: NewAccountsManager_def s)
  have q: "inWindow exampleEnv 1 exampleTwoSlots" by (simp add: inWindow_def exampleEnv_def exampleTwoSlots_def)
  from snapshot_answers_alike[OF exampleEnv_ok a exampleTwoSlots_ready w m0, of "[]"] obtain bs w' m' where
    1: "Accounts_Export exampleEnv \<lparr>content = [], position = 0\<rparr> 1 exampleTwoSlots = Some (Inr w')" "content w' = bs"
      "Accounts_Import exampleEnv bs (NewAccountsManager [1 \<mapsto> NewAccountDiffs] Map.empty) = Inr (m', [])"
    and 2: "\<forall>i t'. t' \<le> 1 \<and> snapshotStart exampleEnv 1 \<le> t' + 1 \<and> inWindow exampleEnv t' exampleTwoSlots \<longrightarrow>
      account exampleEnv i t' (SetLatestCommittedSlot 1 m') = account exampleEnv i t' exampleTwoSlots"
    by auto
  have "account exampleEnv [7] 1 (SetLatestCommittedSlot 1 m') = account exampleEnv [7] 1 exampleTwoSlots"
    using 2[rule_format, of 1 "[7]"] q by (simp add: s)
  then show ?thesis using 1 by blast
qed

end
