(* ===== verification/ManaManager.thy ===== *)
theory ManaManager
  imports AccountsProperties UtxoProperties
begin

text \<open>
  The mana of an account (\<open>pkg/protocol/engine/accounts/mana.go\<close>,
  \<open>pkg/protocol/engine/accounts/mana/manager.go\<close>): stored and potential mana of the account output
  and the block issuance credits, brought to a common slot, kept in a cache and decayed to the slot
  that is asked for. The account and its output are found by two functions the ledger passes in.
  The cache (a least recently used cache of \<open>zyedidia/generic\<close>), the minimum deposit and the
  stored mana of an output come from outside and are fields of the record \<open>mana_env\<close>.
\<close>

section \<open>The manager\<close>

record Mana =
  manaValue :: mana
  excessBaseTokens :: base_token
  updateTime :: slot

definition NewMana :: "mana \<Rightarrow> base_token \<Rightarrow> slot \<Rightarrow> Mana" where
  "NewMana v excess t = \<lparr>manaValue = v, excessBaseTokens = excess, updateTime = t\<rparr>"

record 'c mana_cache =
  cacheNew :: 'c
  cacheGet :: "bytes \<Rightarrow> 'c \<Rightarrow> Mana option \<times> 'c"
  cachePut :: "bytes \<Rightarrow> Mana \<Rightarrow> 'c \<Rightarrow> 'c"
  cacheRemove :: "bytes \<Rightarrow> 'c \<Rightarrow> 'c"

text \<open>
  Documented: a cache answers with what was put last for a key, unless it evicted the key; putting
  a key may evict others. \<open>entries\<close> is what it holds.
\<close>

definition cache_ok :: "'c mana_cache \<Rightarrow> ('c \<Rightarrow> bytes \<rightharpoonup> Mana) \<Rightarrow> bool" where
  "cache_ok C entries \<longleftrightarrow>
     entries (cacheNew C) = Map.empty \<and>
     (\<forall>k c. fst (cacheGet C k c) = entries c k \<and> entries (snd (cacheGet C k c)) = entries c) \<and>
     (\<forall>k v c. entries (cachePut C k v c) k = Some v \<and> (\<forall>k'. k' \<noteq> k \<longrightarrow> entries (cachePut C k v c) k' \<in> {None, entries c k'})) \<and>
     (\<forall>k c. entries (cacheRemove C k c) = (entries c)(k := None))"

record mana_env =
  manaAccounts :: account_env
  manaOutputs :: utxo_env
  MinDeposit :: "slot \<Rightarrow> Output \<Rightarrow> base_token option"
  StoredMana :: "Output \<Rightarrow> mana"
  manaMath :: "mana safemath"

datatype resolve_error = AccountError account_error | NoAccount bytes | OutputNotUnspent bytes | OutputUnreadable utxo_error

datatype mana_error =
  OutputUnresolved resolve_error | AccountUnresolved account_error | AccountDataMissing bytes | LaterThanSlot slot | ManaDecayError | ManaOverflow | MinDepositPanic |
  NilDiff bytes

text \<open>The functions of the ledger that the manager calls; a missing account is \<open>Inr None\<close>.\<close>

record account_source =
  accountOutputResolveFunc :: "bytes \<Rightarrow> slot \<Rightarrow> resolve_error + Output"
  accountRetrieveFunc :: "bytes \<Rightarrow> slot \<Rightarrow> account_error + AccountData option"

definition getBIC :: "account_source \<Rightarrow> bytes \<Rightarrow> slot \<Rightarrow> mana_error + (mana \<times> slot)" where
  "getBIC S i sl =
     bind_res (lift_err AccountUnresolved (accountRetrieveFunc S i sl)) (\<lambda>r.
       case r of
         None \<Rightarrow> Inl (AccountDataMissing i)
       | Some a \<Rightarrow>
           if sint (creditsValue (Credits a)) \<le> 0 then Inr (0, 0)
           else Inr (creditsValue (Credits a), creditsUpdateTime (Credits a)))"

definition getMana :: "mana_env \<Rightarrow> account_source \<Rightarrow> bytes \<Rightarrow> Output \<Rightarrow> slot \<Rightarrow> mana_error + Mana" where
  "getMana M S i out sl =
     bind_res (getBIC S i sl) (\<lambda>(bic, bicUpdateTime).
     bind_res (or_err MinDepositPanic (MinDeposit M sl out)) (\<lambda>minDeposit.
     let excess = (case SafeSub (manaMath M) (BaseTokenAmount (manaOutputs M) out) minDeposit of None \<Rightarrow> 0 | Some e \<Rightarrow> e);
         created = SlotCreated (manaOutputs M) out;
         withDecay = ManaWithDecay (manaAccounts M) sl;
         generation = ManaGenerationWithDecay (manaAccounts M) sl
     in if sl < created \<or> sl < bicUpdateTime then Inl (LaterThanSlot sl)
        else if created < bicUpdateTime then
          bind_res (or_err ManaDecayError (generation excess created bicUpdateTime)) (\<lambda>manaPotential.
          bind_res (or_err ManaDecayError (withDecay (StoredMana M out) created bicUpdateTime)) (\<lambda>manaStored.
          bind_res (or_err ManaOverflow (SafeAdd (manaMath M) manaStored manaPotential)) (\<lambda>manaStoredPotential.
          bind_res (or_err ManaOverflow (SafeAdd (manaMath M) bic manaStoredPotential)) (\<lambda>totalMana.
            Inr (NewMana totalMana excess bicUpdateTime)))))
        else if bicUpdateTime < created then
          bind_res (or_err ManaDecayError (withDecay bic bicUpdateTime created)) (\<lambda>bicWithDecay.
          bind_res (or_err ManaOverflow (SafeAdd (manaMath M) bicWithDecay (StoredMana M out))) (\<lambda>totalMana.
            Inr (NewMana totalMana excess created)))
        else
          bind_res (or_err ManaOverflow (SafeAdd (manaMath M) bic (StoredMana M out))) (\<lambda>totalMana.
            Inr (NewMana totalMana excess created))))"

text \<open>The end of \<open>GetManaOnAccount\<close>: the mana of the entry at the slot.\<close>

definition manaAt :: "mana_env \<Rightarrow> slot \<Rightarrow> Mana \<Rightarrow> mana_error + mana" where
  "manaAt M sl m =
     (if sl = updateTime m then Inr (manaValue m)
      else
        bind_res (or_err ManaDecayError (ManaWithDecay (manaAccounts M) sl (manaValue m) (updateTime m) sl)) (\<lambda>manaWithDecay.
        bind_res (or_err ManaDecayError (ManaGenerationWithDecay (manaAccounts M) sl (excessBaseTokens m) (updateTime m) sl)) (\<lambda>manaPotential.
          or_err ManaOverflow (SafeAdd (manaMath M) manaWithDecay manaPotential))))"

definition GetManaOnAccount :: "mana_env \<Rightarrow> 'c mana_cache \<Rightarrow> account_source \<Rightarrow> bytes \<Rightarrow> slot \<Rightarrow> 'c \<Rightarrow> (mana_error + mana) \<times> 'c" where
  "GetManaOnAccount M C S i sl c =
     (let (cached, c) = cacheGet C i c in
      if cached = None \<or> sl < updateTime (the cached)
      then case bind_res (lift_err OutputUnresolved (accountOutputResolveFunc S i sl)) (\<lambda>out. getMana M S i out sl) of
             Inl e \<Rightarrow> (Inl e, c)
           | Inr m \<Rightarrow> (manaAt M sl m, if cached = None then cachePut C i m c else c)
      else (manaAt M sl (the cached), c))"

text \<open>The body of the loop of \<open>ApplyDiff\<close>. A nil diff is \<open>None\<close>.\<close>

definition updateCached ::
  "mana_env \<Rightarrow> 'c mana_cache \<Rightarrow> account_source \<Rightarrow> slot \<Rightarrow> (bytes \<rightharpoonup> Output) \<Rightarrow> (bytes \<rightharpoonup> AccountDiff option) \<Rightarrow> bytes \<Rightarrow> 'c \<Rightarrow> mana_error + 'c" where
  "updateCached M C S sl accountOutputs accountDiffs i c =
     (let (cached, c) = cacheGet C i c in
      if cached = None then Inr c
      else
        bind_res
          (case accountOutputs i of
             Some out \<Rightarrow> Inr (Some out)
           | None \<Rightarrow>
               bind_res (or_err (NilDiff i) (the (accountDiffs i))) (\<lambda>d.
                 if BICChange d \<noteq> 0 then lift_err OutputUnresolved (map_sum id Some (accountOutputResolveFunc S i sl)) else Inr None))
          (\<lambda>accountOutput.
             case accountOutput of
               None \<Rightarrow> Inr c
             | Some out \<Rightarrow> bind_res (getMana M S i out sl) (\<lambda>m. Inr (cachePut C i m c))))"

definition Mana_ApplyDiff ::
  "mana_env \<Rightarrow> 'c mana_cache \<Rightarrow> account_source \<Rightarrow> slot \<Rightarrow> bytes set \<Rightarrow> (bytes \<rightharpoonup> Output) \<Rightarrow> (bytes \<rightharpoonup> AccountDiff option) \<Rightarrow> 'c \<Rightarrow> mana_error + 'c" where
  "Mana_ApplyDiff M C S sl destroyedAccounts accountOutputs accountDiffs c =
     (let ord = order (manaAccounts M);
          c = fold (cacheRemove C) (ord destroyedAccounts) c
      in fold_res (updateCached M C S sl accountOutputs accountDiffs) (ord (dom accountDiffs)) c)"

section \<open>The cache does not change the answers\<close>

text \<open>Every entry is what is computed from the account and its output at the slot.\<close>

definition coherent :: "mana_env \<Rightarrow> ('c \<Rightarrow> bytes \<rightharpoonup> Mana) \<Rightarrow> account_source \<Rightarrow> slot \<Rightarrow> 'c \<Rightarrow> bool" where
  "coherent M entries S sl c \<longleftrightarrow>
     (\<forall>i m. entries c i = Some m \<longrightarrow> (\<exists>out. accountOutputResolveFunc S i sl = Inr out \<and> getMana M S i out sl = Inr m))"

lemma cache_okD:
  assumes "cache_ok C entries"
  shows "entries (cacheNew C) = Map.empty" "cacheGet C k c = (entries c k, snd (cacheGet C k c))" "entries (snd (cacheGet C k c)) = entries c"
    "entries (cachePut C k v c) k = Some v" "k' \<noteq> k \<Longrightarrow> entries (cachePut C k v c) k' = Some m \<Longrightarrow> entries c k' = Some m"
    "entries (cacheRemove C k c) = (entries c)(k := None)"
proof -
  show "entries c k' = Some m" if "k' \<noteq> k" "entries (cachePut C k v c) k' = Some m"
    using assms that unfolding cache_ok_def by (metis insert_iff option.distinct(1) singletonD)
qed (use assms in \<open>auto simp: cache_ok_def intro!: prod_eqI\<close>)

lemma getMana_time: "getMana M S i out sl = Inr m \<Longrightarrow> updateTime m \<le> sl"
  by (auto simp: getMana_def NewMana_def Let_def not_less split: if_splits)

lemma coherent_answers:
  assumes C: "cache_ok C entries" and "coherent M entries S sl c"
  shows "fst (GetManaOnAccount M C S i sl c) = fst (GetManaOnAccount M C S i sl (cacheNew C))"
    and "coherent M entries S sl (snd (GetManaOnAccount M C S i sl c))"
proof -
  obtain c1 where get: "cacheGet C i c = (entries c i, c1)" "entries c1 = entries c" using cache_okD(2,3)[OF C] by metis
  obtain c2 where new: "cacheGet C i (cacheNew C) = (None, c2)" using cache_okD(1,2)[OF C] by metis
  have put: "coherent M entries S sl (cachePut C i m c1)"
    if "accountOutputResolveFunc S i sl = Inr out" "getMana M S i out sl = Inr m" for out m
    unfolding coherent_def
  proof (intro allI impI)
    fix k x assume k: "entries (cachePut C i m c1) k = Some x"
    show "\<exists>out. accountOutputResolveFunc S k sl = Inr out \<and> getMana M S k out sl = Inr x"
    proof (cases "k = i")
      case True
      then show ?thesis using k that cache_okD(4)[OF C] by auto
    next
      case False
      then have "entries c k = Some x" using cache_okD(5)[OF C False k] by (simp add: get(2))
      then show ?thesis using assms(2) by (simp add: coherent_def)
    qed
  qed
  have same: "coherent M entries S sl c1" using assms(2) by (simp add: coherent_def get(2))
  have hit: "\<exists>out. accountOutputResolveFunc S i sl = Inr out \<and> getMana M S i out sl = Inr m \<and> \<not> sl < updateTime m" if "entries c i = Some m" for m
    using assms(2) that getMana_time[of M S i _ sl m] by (fastforce simp: coherent_def not_less)
  show "fst (GetManaOnAccount M C S i sl c) = fst (GetManaOnAccount M C S i sl (cacheNew C))"
    using hit by (cases "entries c i") (auto simp: GetManaOnAccount_def get(1) new split: sum.splits)
  show "coherent M entries S sl (snd (GetManaOnAccount M C S i sl c))"
    using hit put same by (cases "entries c i") (auto simp: GetManaOnAccount_def get(1) lift_err_eq_Inr split: sum.splits)
qed

text \<open>
  A query for an earlier slot that finds no entry leaves one behind, from the credits of that slot,
  and later slots are answered from it.
\<close>

lemma past_query_answers_later:
  assumes C: "cache_ok C entries" and "entries c i = None" "accountOutputResolveFunc S i sl = Inr out" "getMana M S i out sl = Inr m" "sl \<le> sl'"
  shows "fst (GetManaOnAccount M C S i sl' (snd (GetManaOnAccount M C S i sl c))) = manaAt M sl' m"
proof -
  obtain c1 where get: "cacheGet C i c = (None, c1)" using cache_okD(2)[OF C] assms(2) by metis
  obtain c2 where get': "cacheGet C i (cachePut C i m c1) = (Some m, c2)" using cache_okD(2,4)[OF C] by metis
  have "snd (GetManaOnAccount M C S i sl c) = cachePut C i m c1" by (simp add: GetManaOnAccount_def get assms(3,4))
  moreover have "\<not> sl' < updateTime m" using getMana_time[OF assms(4)] assms(5) by simp
  ultimately show ?thesis by (simp add: GetManaOnAccount_def get')
qed

definition fresh :: "mana_env \<Rightarrow> account_source \<Rightarrow> slot \<Rightarrow> bytes \<Rightarrow> Mana \<Rightarrow> bool" where
  "fresh M S sl i m \<longleftrightarrow> (\<exists>out. accountOutputResolveFunc S i sl = Inr out \<and> getMana M S i out sl = Inr m)"

text \<open>The accounts whose entry \<open>ApplyDiff\<close> computes anew.\<close>

definition touched :: "(bytes \<rightharpoonup> Output) \<Rightarrow> (bytes \<rightharpoonup> AccountDiff option) \<Rightarrow> bytes \<Rightarrow> bool" where
  "touched outs diffs i \<longleftrightarrow> diffs i \<noteq> None \<and> (outs i \<noteq> None \<or> (\<exists>d. diffs i = Some (Some d) \<and> BICChange d \<noteq> 0))"

lemma updateCached_step:
  assumes C: "cache_ok C entries" and "updateCached M C S sl outs diffs i c = Inr c1" "i \<in> dom diffs"
    and outs: "\<forall>i out. outs i = Some out \<longrightarrow> accountOutputResolveFunc S i sl = Inr out"
    and k: "entries c1 k = Some m"
  shows "if k = i \<and> touched outs diffs i then fresh M S sl i m else entries c k = Some m"
proof -
  obtain c0 where get: "cacheGet C i c = (entries c i, c0)" "entries c0 = entries c" using cache_okD(2,3)[OF C] by metis
  obtain d where d: "diffs i = Some d" using assms(3) by blast
  consider (same) "c1 = c0" "entries c i = None \<or> \<not> touched outs diffs i"
    | (new) out m' where "c1 = cachePut C i m' c0" "touched outs diffs i" "accountOutputResolveFunc S i sl = Inr out" "getMana M S i out sl = Inr m'"
  proof (cases "entries c i = None")
    case True
    then show ?thesis using assms(2) same by (simp add: updateCached_def get(1))
  next
    case False
    show ?thesis
    proof (cases "outs i")
      case None
      then show ?thesis using assms(2) d False same new
        by (auto simp: updateCached_def get(1) touched_def map_sum_def lift_err_eq_Inr split: if_splits sum.splits)
    next
      case (Some out)
      then show ?thesis using assms(2) d False new outs by (auto simp: updateCached_def get(1) touched_def)
    qed
  qed
  then show ?thesis
  proof cases
    case same
    then show ?thesis using k by (auto simp: get(2))
  next
    case new
    then show ?thesis using k cache_okD(4)[OF C] cache_okD(5)[OF C, of k i m' c0 m] by (auto simp: fresh_def get(2))
  qed
qed

lemma updateCached_fold:
  assumes C: "cache_ok C entries" and "fold_res (updateCached M C S sl outs diffs) xs c = Inr c1" "set xs \<subseteq> dom diffs"
    and outs: "\<forall>i out. outs i = Some out \<longrightarrow> accountOutputResolveFunc S i sl = Inr out"
    and "entries c1 k = Some m"
  shows "if k \<in> set xs \<and> touched outs diffs k then fresh M S sl k m else entries c k = Some m"
  using assms(2,3,5)
proof (induction xs arbitrary: c)
  case (Cons i xs)
  then obtain c0 where c0: "updateCached M C S sl outs diffs i c = Inr c0" "fold_res (updateCached M C S sl outs diffs) xs c0 = Inr c1" by auto
  have IH: "if k \<in> set xs \<and> touched outs diffs k then fresh M S sl k m else entries c0 k = Some m"
    using Cons.IH[OF c0(2) _ Cons.prems(3)] Cons.prems(2) by simp
  have "if k = i \<and> touched outs diffs i then fresh M S sl i m else entries c k = Some m" if "entries c0 k = Some m"
    using updateCached_step[OF C c0(1) _ outs that] Cons.prems(2) by simp
  with IH show ?case by (auto split: if_splits)
qed simp

lemma entries_removed: "cache_ok C entries \<Longrightarrow> entries (fold (cacheRemove C) xs c) = (\<lambda>k. if k \<in> set xs then None else entries c k)"
  by (induction xs arbitrary: c) (auto simp: cache_okD(6))

text \<open>
  The account of the new slot is the account of the old one as far as the mana depends on it: same
  output, same credits, and the protocol parameters of the mana are the same in both slots.
\<close>

definition sameMana :: "mana_env \<Rightarrow> account_source \<Rightarrow> slot \<Rightarrow> account_source \<Rightarrow> slot \<Rightarrow> bytes \<Rightarrow> bool" where
  "sameMana M S sl S' sl' i \<longleftrightarrow> accountOutputResolveFunc S' i sl' = accountOutputResolveFunc S i sl \<and>
     map_sum id (map_option Credits) (accountRetrieveFunc S' i sl') = map_sum id (map_option Credits) (accountRetrieveFunc S i sl) \<and>
     MinDeposit M sl' = MinDeposit M sl \<and> ManaWithDecay (manaAccounts M) sl' = ManaWithDecay (manaAccounts M) sl \<and>
     ManaGenerationWithDecay (manaAccounts M) sl' = ManaGenerationWithDecay (manaAccounts M) sl"

lemma getBIC_credits:
  "getBIC S i sl = bind_res (lift_err AccountUnresolved (map_sum id (map_option Credits) (accountRetrieveFunc S i sl)))
     (\<lambda>r. case r of None \<Rightarrow> Inl (AccountDataMissing i)
            | Some cr \<Rightarrow> if sint (creditsValue cr) \<le> 0 then Inr (0, 0) else Inr (creditsValue cr, creditsUpdateTime cr))"
  by (cases "accountRetrieveFunc S i sl") (auto simp: getBIC_def split: option.splits)

lemma getBIC_same: "sameMana M S sl S' sl' i \<Longrightarrow> getBIC S' i sl' = getBIC S i sl"
  by (simp add: getBIC_credits sameMana_def)

lemma getMana_same:
  assumes "sameMana M S sl S' sl' i" "sl \<le> sl'" "getMana M S i out sl = Inr m"
  shows "getMana M S' i out sl' = Inr m"
proof -
  have u: "MinDeposit M sl' = MinDeposit M sl" "ManaWithDecay (manaAccounts M) sl' = ManaWithDecay (manaAccounts M) sl"
    "ManaGenerationWithDecay (manaAccounts M) sl' = ManaGenerationWithDecay (manaAccounts M) sl"
    using assms(1) by (auto simp: sameMana_def)
  have "\<not> sl' < x" if "\<not> sl < x" for x using that assms(2) by simp
  then show ?thesis
    using assms(3) by (auto simp: getMana_def getBIC_same[OF assms(1)] u Let_def split: if_splits)
qed

text \<open>What an entry is after the diff of a slot: computed anew, or the entry of an account that is neither touched nor destroyed.\<close>

lemma ApplyDiff_entries:
  assumes "cache_ok C entries" "account_env_ok (manaAccounts M)" "finite D" "finite (dom diffs)"
    and "\<forall>i out. outs i = Some out \<longrightarrow> accountOutputResolveFunc S' i sl' = Inr out"
    and "Mana_ApplyDiff M C S' sl' D outs diffs c = Inr c'" and "entries c' k = Some m"
  shows "if touched outs diffs k then fresh M S' sl' k m else k \<notin> D \<and> entries c k = Some m"
proof -
  have ord: "set (order (manaAccounts M) D) = D" "set (order (manaAccounts M) (dom diffs)) = dom diffs"
    using assms(2-4) by (auto simp: account_env_ok_def)
  have "touched outs diffs k \<Longrightarrow> k \<in> dom diffs" by (simp add: touched_def domIff)
  then show ?thesis
    using updateCached_fold[OF assms(1) assms(6)[unfolded Mana_ApplyDiff_def Let_def] _ assms(5,7)]
    by (auto simp: ord entries_removed[OF assms(1)] split: if_splits)
qed

text \<open>An answer depends on the entry of the account only.\<close>

lemma answer_from_entry:
  assumes C: "cache_ok C entries" and "updateTime m \<le> sl" and "entries c i = Some m"
  shows "fst (GetManaOnAccount M C S i sl c) = manaAt M sl m"
proof -
  obtain c1 where "cacheGet C i c = (Some m, c1)" using cache_okD(2)[OF C] assms(3) by metis
  then show ?thesis using assms(2) by (simp add: GetManaOnAccount_def leD)
qed

lemma answer_exact:
  assumes C: "cache_ok C entries" and "\<And>m. entries c i = Some m \<Longrightarrow> fresh M S sl i m"
  shows "fst (GetManaOnAccount M C S i sl c) = fst (GetManaOnAccount M C S i sl (cacheNew C))"
proof (cases "entries c i")
  case None
  obtain c1 c2 where "cacheGet C i c = (None, c1)" "cacheGet C i (cacheNew C) = (None, c2)" using cache_okD(1,2)[OF C] None by metis
  then show ?thesis by (auto simp: GetManaOnAccount_def split: sum.splits)
next
  case (Some m)
  then obtain out where out: "accountOutputResolveFunc S i sl = Inr out" "getMana M S i out sl = Inr m" using assms(2) by (auto simp: fresh_def)
  obtain c2 where "cacheGet C i (cacheNew C) = (None, c2)" using cache_okD(1,2)[OF C] by metis
  then show ?thesis using answer_from_entry[OF C getMana_time[OF out(2)] Some] out by (simp add: GetManaOnAccount_def)
qed

section \<open>Properties\<close>

text \<open>C29: When every entry of the cache is what is computed from the account and its output at a slot, a query
  at that slot answers as with an empty cache and keeps the cache that way. Let the diff of a later slot be
  applied, with the created outputs being those that the accounts resolve to. Then a query at the new slot
  answers as with an empty cache for every account that is destroyed, has a new output in the diff or a
  change of its credits other than 0 in it; and for any other account if it has the same output and
  credits at both slots and the minimum deposit and the mana functions of the protocol parameters are the same for both.
  If every account is of one of these kinds, the whole cache is again as computed at the new
  slot. For an account that the diff does not touch an entry is the one from before the diff, and the answer comes
  from it, whatever has happened to its credits and the parameters.\<close>

theorem mana_cache_transparent:
  assumes "cache_ok C entries" "account_env_ok (manaAccounts M)" "coherent M entries S sl c"
    and "sl \<le> sl'" "finite D" "finite (dom diffs)"
    and "\<forall>i out. outs i = Some out \<longrightarrow> accountOutputResolveFunc S' i sl' = Inr out"
    and "Mana_ApplyDiff M C S' sl' D outs diffs c = Inr c'"
  defines "current \<equiv> \<lambda>i. i \<in> D \<or> touched outs diffs i \<or> sameMana M S sl S' sl' i"
  shows "fst (GetManaOnAccount M C S i sl c) = fst (GetManaOnAccount M C S i sl (cacheNew C)) \<and>
    coherent M entries S sl (snd (GetManaOnAccount M C S i sl c)) \<and>
    (current i \<longrightarrow> fst (GetManaOnAccount M C S' i sl' c') = fst (GetManaOnAccount M C S' i sl' (cacheNew C))) \<and>
    ((\<forall>i. current i) \<longrightarrow> coherent M entries S' sl' c') \<and>
    (\<not> touched outs diffs i \<longrightarrow> (\<forall>m. entries c' i = Some m \<longrightarrow>
       i \<notin> D \<and> entries c i = Some m \<and> fst (GetManaOnAccount M C S' i sl' c') = manaAt M sl' m))"
proof -
  note entry = ApplyDiff_entries[OF assms(1,2,5,6,7,8)]
  have fresh: "fresh M S' sl' k m" if "current k" "entries c' k = Some m" for k m
  proof (cases "touched outs diffs k")
    case False
    then have same: "sameMana M S sl S' sl' k" and "entries c k = Some m" using entry[OF that(2)] that(1) by (auto simp: current_def)
    then obtain out where "accountOutputResolveFunc S k sl = Inr out" "getMana M S k out sl = Inr m" using assms(3) by (auto simp: coherent_def)
    then show ?thesis using getMana_same[OF same assms(4)] same by (simp add: fresh_def sameMana_def)
  qed (use entry[OF that(2)] in simp)
  moreover have "i \<notin> D \<and> entries c i = Some m \<and> fst (GetManaOnAccount M C S' i sl' c') = manaAt M sl' m"
    if "\<not> touched outs diffs i" "entries c' i = Some m" for m
  proof -
    have e: "i \<notin> D" "entries c i = Some m" using entry[OF that(2)] that(1) by auto
    then have "updateTime m \<le> sl'" using assms(3,4) getMana_time[of M S i _ sl m] by (fastforce simp: coherent_def)
    then show ?thesis using e answer_from_entry[OF assms(1) _ that(2)] by blast
  qed
  moreover have "(\<forall>i. current i) \<Longrightarrow> coherent M entries S' sl' c'" using fresh by (auto simp: coherent_def fresh_def)
  ultimately show ?thesis using coherent_answers[OF assms(1,3)] answer_exact[OF assms(1)] by blast
qed

section \<open>An example\<close>

text \<open>An account whose credits change from 50 to 55 in slot 5; the cache is a map that never evicts.\<close>

definition mapCache :: "(bytes \<rightharpoonup> Mana) mana_cache" where
  "mapCache = \<lparr>cacheNew = Map.empty, cacheGet = \<lambda>k c. (c k, c), cachePut = \<lambda>k v c. c(k \<mapsto> v), cacheRemove = \<lambda>k c. c(k := None)\<rparr>"

definition exampleMana :: mana_env where
  "exampleMana = \<lparr>manaAccounts = exampleEnv, manaOutputs = exampleUtxo, MinDeposit = \<lambda>_ _. Some 1, StoredMana = \<lambda>_. 10, manaMath = safemath_u\<rparr>"

definition exampleSource :: "i64 \<Rightarrow> slot \<Rightarrow> account_source" where
  "exampleSource credits t = \<lparr>
     accountOutputResolveFunc = \<lambda>i _. if i = [7] then Inr exampleOut2 else Inl (NoAccount i),
     accountRetrieveFunc = \<lambda>i _. if i = [7] then Inr (Some (exampleAccount\<lparr>Credits := NewBlockIssuanceCredits credits t\<rparr>)) else Inr None\<rparr>"

lemma mapCache_ok: "cache_ok mapCache (\<lambda>c. c)"
  by (simp add: cache_ok_def mapCache_def)

lemmas exampleMana_defs = exampleMana_def exampleSource_def exampleEnv_def exampleUtxo_def exampleOut2_def NewBlockIssuanceCredits_def
  safemath_u_def checked_unsigned_def fits_unsigned_def SlotCreated_def BaseTokenAmount_def NewMana_def

lemma example_getMana:
  "getMana exampleMana (exampleSource 50 2) [7] exampleOut2 4 = Inr (NewMana 61 2 2)"
  "getMana exampleMana (exampleSource 55 5) [7] exampleOut2 5 = Inr (NewMana 66 2 5)"
  by (simp_all add: getMana_def getBIC_def exampleMana_defs)

theorem mana_cache_transparent_witness:
  "fst (GetManaOnAccount exampleMana mapCache (exampleSource 50 2) [7] 4 [[7] \<mapsto> NewMana 61 2 2]) = Inr 62 \<and>
   Mana_ApplyDiff exampleMana mapCache (exampleSource 55 5) 5 {} Map.empty [[7] \<mapsto> Some exampleChange] [[7] \<mapsto> NewMana 61 2 2] = Inr [[7] \<mapsto> NewMana 66 2 5] \<and>
   fst (GetManaOnAccount exampleMana mapCache (exampleSource 55 5) [7] 5 [[7] \<mapsto> NewMana 66 2 5]) = Inr 66"
proof -
  let ?S = "exampleSource 50 2" and ?S' = "exampleSource 55 5"
  have res: "accountOutputResolveFunc (exampleSource v t) [7] sl = Inr exampleOut2" for v t sl by (simp add: exampleSource_def)
  have env: "account_env_ok (manaAccounts exampleMana)" by (simp add: exampleMana_def)
  have co: "coherent exampleMana (\<lambda>c. c) ?S 4 [[7] \<mapsto> NewMana 61 2 2]"
    by (simp add: coherent_def res example_getMana)
  have touched: "touched Map.empty [[7] \<mapsto> Some exampleChange] [7]" by (simp add: touched_def exampleChange_def)
  have app: "Mana_ApplyDiff exampleMana mapCache ?S' 5 {} Map.empty [[7] \<mapsto> Some exampleChange] [[7] \<mapsto> NewMana 61 2 2] = Inr [[7] \<mapsto> NewMana 66 2 5]"
    by (simp add: Mana_ApplyDiff_def updateCached_def mapCache_def res example_getMana exampleMana_def[THEN arg_cong[where f = manaAccounts]]
        exampleEnv_def[THEN arg_cong[where f = order]] exampleChange_def lift_err_def)
  note t = mana_cache_transparent[OF mapCache_ok env co, of 5 "{}" "[[7] \<mapsto> Some exampleChange]" Map.empty ?S' _ "[7]", OF _ _ _ _ app]
  have "fst (GetManaOnAccount exampleMana mapCache ?S [7] 4 (cacheNew mapCache)) = Inr 62"
    "fst (GetManaOnAccount exampleMana mapCache ?S' [7] 5 (cacheNew mapCache)) = Inr 66"
    by (simp_all add: GetManaOnAccount_def mapCache_def res example_getMana manaAt_def) (simp_all add: exampleMana_defs)
  then show ?thesis using t touched app by simp
qed

end
