(* ===== verification/Rmc.thy ===== *)
theory Rmc
  imports External
begin

text \<open>
  The reference mana cost (\<open>pkg/protocol/engine/congestioncontrol/rmc/rmc.go\<close>): the work of the
  accepted blocks of a slot, and the cost of a slot that follows from it and from the cost in the
  commitment of the slot before. The commitments are what the loader of the storage returns,
  \<open>None\<close> for an error; protocol parameters and checked arithmetic are parameters too.
\<close>

section \<open>The manager\<close>

record CongestionControlParameters =
  MinReferenceManaCost :: mana
  Increase :: mana
  Decrease :: mana
  IncreaseThreshold :: work_score
  DecreaseThreshold :: work_score

record rmc_env =
  ccParameters :: "slot \<Rightarrow> CongestionControlParameters"
  rmcCommittableAge :: "slot \<Rightarrow> slot"
  commitmentLoader :: "slot \<Rightarrow> mana option"
  rmcMath :: "mana safemath"

record RmcManager =
  slotWork :: "slot \<rightharpoonup> work_score"
  rmc :: "slot \<rightharpoonup> mana"
  rmcCommittedSlot :: slot

datatype rmc_error = AlreadyCommitted slot | NotCommittedYet slot | Evicted slot | CommitmentMissing slot | RmcOutOfRange slot | RmcExists slot

definition NewRmcManager :: RmcManager where
  "NewRmcManager = \<lparr>slotWork = Map.empty, rmc = Map.empty, rmcCommittedSlot = 0\<rparr>"

definition Rmc_SetLatestCommittedSlot :: "slot \<Rightarrow> RmcManager \<Rightarrow> RmcManager" where
  "Rmc_SetLatestCommittedSlot index m = m\<lparr>rmcCommittedSlot := index\<rparr>"

definition Rmc_BlockAccepted :: "slot \<Rightarrow> work_score \<Rightarrow> RmcManager \<Rightarrow> rmc_error + RmcManager" where
  "Rmc_BlockAccepted sl workScore m =
     (if sl \<le> rmcCommittedSlot m then Inl (AlreadyCommitted sl)
      else Inr (m\<lparr>slotWork := (slotWork m)(sl \<mapsto> (case slotWork m sl of None \<Rightarrow> 0 | Some w \<Rightarrow> w) + workScore)\<rparr>))"

text \<open>The new cost from the last cost and the work of the slot; \<open>None\<close> if the arithmetic fails.\<close>

definition newRMC :: "rmc_env \<Rightarrow> slot \<Rightarrow> mana \<Rightarrow> work_score \<Rightarrow> mana option" where
  "newRMC E index lastRMC currentSlotWork =
     (let cc = ccParameters E index in
      if currentSlotWork < DecreaseThreshold cc \<and> MinReferenceManaCost cc < lastRMC
      then map_option (\<lambda>r. max r (MinReferenceManaCost cc)) (SafeSub (rmcMath E) lastRMC (Decrease cc))
      else if IncreaseThreshold cc < currentSlotWork then SafeAdd (rmcMath E) lastRMC (Increase cc)
      else Some lastRMC)"

definition Rmc_CommitSlot :: "rmc_env \<Rightarrow> slot \<Rightarrow> RmcManager \<Rightarrow> (rmc_error + mana) \<times> RmcManager" where
  "Rmc_CommitSlot E index m =
     (if index \<le> rmcCommittedSlot m then (Inl (AlreadyCommitted index), m)
      else case commitmentLoader E (index - 1) of
        None \<Rightarrow> (Inl (CommitmentMissing (index - 1)), m)
      | Some lastRMC \<Rightarrow>
          let currentSlotWork = (case slotWork m index of None \<Rightarrow> 0 | Some w \<Rightarrow> w) in
          case newRMC E index lastRMC currentSlotWork of
            None \<Rightarrow> (Inl (RmcOutOfRange index), m)
          | Some r \<Rightarrow>
              let wasCreated = (rmc m index = None);
                  m = m\<lparr>rmc := (rmc m)(index \<mapsto> r)\<rparr> in
              if \<not> wasCreated then (Inl (RmcExists index), m)
              else
                let m = m\<lparr>slotWork := (slotWork m)(index := None)\<rparr>;
                    maxCommittableAge = rmcCommittableAge E index;
                    m = (if maxCommittableAge < index then m\<lparr>rmc := (rmc m)(index - maxCommittableAge := None)\<rparr> else m)
                in (Inr r, m\<lparr>rmcCommittedSlot := index\<rparr>))"

definition RMC :: "rmc_env \<Rightarrow> slot \<Rightarrow> RmcManager \<Rightarrow> rmc_error + mana" where
  "RMC E sl m =
     (if rmcCommittedSlot m < sl then Inl (NotCommittedYet sl)
      else if sl + rmcCommittableAge E sl < rmcCommittedSlot m then Inl (Evicted sl)
      else case rmc m sl of
             Some r \<Rightarrow> Inr r
           | None \<Rightarrow> or_err (CommitmentMissing sl) (commitmentLoader E sl))"

section \<open>The cost of a slot\<close>

text \<open>The cost without limits of the integer type, and when the code can not compute it.\<close>

definition idealRMC :: "CongestionControlParameters \<Rightarrow> int \<Rightarrow> work_score \<Rightarrow> int" where
  "idealRMC cc lastRMC currentSlotWork =
     (if currentSlotWork < DecreaseThreshold cc \<and> uint (MinReferenceManaCost cc) < lastRMC
      then max (lastRMC - uint (Decrease cc)) (uint (MinReferenceManaCost cc))
      else if IncreaseThreshold cc < currentSlotWork then lastRMC + uint (Increase cc)
      else lastRMC)"

definition rmcFails :: "CongestionControlParameters \<Rightarrow> int \<Rightarrow> work_score \<Rightarrow> bool" where
  "rmcFails cc lastRMC currentSlotWork \<longleftrightarrow>
     (if currentSlotWork < DecreaseThreshold cc \<and> uint (MinReferenceManaCost cc) < lastRMC then lastRMC < uint (Decrease cc)
      else IncreaseThreshold cc < currentSlotWork \<and> 2 ^ 64 \<le> lastRMC + uint (Increase cc))"

lemma idealRMC_range:
  assumes "\<not> rmcFails cc (uint (r :: mana)) w"
  shows "0 \<le> idealRMC cc (uint r) w" "idealRMC cc (uint r) w < 2 ^ 64"
    "uint (word_of_int (idealRMC cc (uint r) w) :: mana) = idealRMC cc (uint r) w"
proof -
  have "uint r < 2 ^ 64" "uint (MinReferenceManaCost cc) < 2 ^ 64" "0 \<le> uint (Decrease cc)"
    using uint_bounded[of r] uint_bounded[of "MinReferenceManaCost cc"] by simp_all
  then have b: "uint r < 2 ^ 64" "uint (MinReferenceManaCost cc) < 2 ^ 64" "uint r - uint (Decrease cc) < 2 ^ 64"
    by linarith+
  show *: "0 \<le> idealRMC cc (uint r) w" using assms by (auto simp: idealRMC_def rmcFails_def)
  show **: "idealRMC cc (uint r) w < 2 ^ 64" using assms b by (auto simp: idealRMC_def rmcFails_def max_def)
  show "uint (word_of_int (idealRMC cc (uint r) w) :: mana) = idealRMC cc (uint r) w"
    using * ** by (simp add: unsigned_word_eqI uint_word_of_int take_bit_int_eq_self)
qed

lemma newRMC_exact:
  assumes "safemath_unsigned (rmcMath E)"
  shows "newRMC E index r w = (if rmcFails (ccParameters E index) (uint r) w then None
    else Some (word_of_int (idealRMC (ccParameters E index) (uint r) w)))"
proof -
  have lt: "MinReferenceManaCost cc < r \<longleftrightarrow> uint (MinReferenceManaCost cc) < uint r" for cc :: CongestionControlParameters by (simp add: word_less_def)
  have small: "uint r < 2 ^ 64" using uint_bounded[of r] by simp
  have "uint r - uint x < 2 ^ 64" for x :: mana using small uint_nonnegative[of x] by linarith
  note small = small this
  have add: "SafeAdd (rmcMath E) r x = (if 2 ^ 64 \<le> uint r + uint x then None else Some (word_of_int (uint r + uint x)))" for x
    using assms by (simp add: safemath_unsigned_def checked_unsigned_def fits_unsigned_def)
  have sub: "SafeSub (rmcMath E) r x = (if uint r < uint x then None else Some (word_of_int (uint r - uint x)))" for x
    using assms small(2)[of x] by (simp add: safemath_unsigned_def checked_unsigned_def fits_unsigned_def)
  have mx: "max (r - x) c = word_of_int (max (uint r - uint x) (uint c))" if "\<not> uint r < uint x" for x c :: mana
  proof -
    have "uint (r - x) = uint r - uint x" using that by (simp add: uint_minus_simple_alt[symmetric] word_le_def)
    then show ?thesis by (simp add: max_def word_le_def)
  qed
  show ?thesis
    using small by (auto simp: mx newRMC_def Let_def lt idealRMC_def rmcFails_def add sub)
qed

lemma idealRMC_bounds:
  assumes "uint (MinReferenceManaCost cc) \<le> r"
  shows "uint (MinReferenceManaCost cc) \<le> idealRMC cc r w"
    "r - uint (Decrease cc) \<le> idealRMC cc r w" "idealRMC cc r w \<le> r + uint (Increase cc)"
proof -
  have *: "- uint (Decrease cc) \<le> uint (Increase cc)"
    using uint_nonnegative[of "Decrease cc"] uint_nonnegative[of "Increase cc"] by linarith
  show "uint (MinReferenceManaCost cc) \<le> idealRMC cc r w"
    using assms by (auto simp: idealRMC_def intro: order_trans)
  show "r - uint (Decrease cc) \<le> idealRMC cc r w" "idealRMC cc r w \<le> r + uint (Increase cc)"
    using assms * by (auto simp: idealRMC_def max_def intro: order_trans)
qed

section \<open>Executions\<close>

text \<open>
  A manager started at a committed slot, with the slots and the work of the blocks it accepted
  since. A committed slot has a commitment in the storage that carries the cost the manager
  returned for it, as the notarization does with the result of \<open>CommitSlot\<close>.
\<close>

inductive rmc_reachable :: "rmc_env \<Rightarrow> (slot \<times> work_score) list \<Rightarrow> RmcManager \<Rightarrow> bool" for E where
  start: "rmc_reachable E [] (Rmc_SetLatestCommittedSlot sl NewRmcManager)"
| accept: "rmc_reachable E bs m \<Longrightarrow> Rmc_BlockAccepted sl w m = Inr m' \<Longrightarrow> rmc_reachable E ((sl, w) # bs) m'"
| reject: "rmc_reachable E bs m \<Longrightarrow> Rmc_BlockAccepted sl w m = Inl e \<Longrightarrow> rmc_reachable E bs m"
| commit: "rmc_reachable E bs m \<Longrightarrow> Rmc_CommitSlot E index m = (Inr r, m') \<Longrightarrow> commitmentLoader E index = Some r \<Longrightarrow> rmc_reachable E bs m'"
| fail: "rmc_reachable E bs m \<Longrightarrow> Rmc_CommitSlot E index m = (Inl e, m') \<Longrightarrow> rmc_reachable E bs m'"

definition workOf :: "(slot \<times> work_score) list \<Rightarrow> slot \<Rightarrow> work_score" where
  "workOf bs sl = sum_list (map snd (filter (\<lambda>b. fst b = sl) bs))"

definition rmc_inv :: "rmc_env \<Rightarrow> (slot \<times> work_score) list \<Rightarrow> RmcManager \<Rightarrow> bool" where
  "rmc_inv E bs m \<longleftrightarrow>
     (\<forall>sl r. rmc m sl = Some r \<longrightarrow> commitmentLoader E sl = Some r \<and> sl \<le> rmcCommittedSlot m) \<and>
     (\<forall>sl > rmcCommittedSlot m. (case slotWork m sl of None \<Rightarrow> 0 | Some w \<Rightarrow> w) = workOf bs sl)"

lemma rmc_invD:
  assumes "rmc_inv E bs m"
  shows "rmc m sl = Some r \<Longrightarrow> commitmentLoader E sl = Some r"
    "rmc m sl = Some r \<Longrightarrow> sl \<le> rmcCommittedSlot m"
    "rmcCommittedSlot m < sl \<Longrightarrow> rmc m sl = None"
    "rmcCommittedSlot m < sl \<Longrightarrow> (case slotWork m sl of None \<Rightarrow> 0 | Some w \<Rightarrow> w) = workOf bs sl"
proof -
  show *: "rmc m sl = Some r \<Longrightarrow> commitmentLoader E sl = Some r" "rmc m sl = Some r \<Longrightarrow> sl \<le> rmcCommittedSlot m" for r
    using assms by (auto simp: rmc_inv_def)
  show "rmcCommittedSlot m < sl \<Longrightarrow> rmc m sl = None"
    using *(2) by (cases "rmc m sl") (auto simp: not_le[symmetric])
  show "rmcCommittedSlot m < sl \<Longrightarrow> (case slotWork m sl of None \<Rightarrow> 0 | Some w \<Rightarrow> w) = workOf bs sl"
    using assms by (auto simp: rmc_inv_def)
qed

lemma Rmc_CommitSlot_fail:
  assumes "rmc_inv E bs m" "Rmc_CommitSlot E index m = (Inl e, m')"
  shows "m' = m"
  using assms(2) rmc_invD(3)[OF assms(1), of index]
  by (auto simp: Rmc_CommitSlot_def Let_def split: if_splits option.splits)

lemma Rmc_CommitSlot_ok:
  assumes "Rmc_CommitSlot E index m = (Inr r, m')"
  shows "rmcCommittedSlot m < index" "rmcCommittedSlot m' = index"
    "slotWork m' = (slotWork m)(index := None)" "rmc m' \<subseteq>\<^sub>m (rmc m)(index \<mapsto> r)"
  using assms by (auto simp: Rmc_CommitSlot_def Let_def map_le_def split: if_splits option.splits)

lemma rmc_reachable_inv: "rmc_reachable E bs m \<Longrightarrow> rmc_inv E bs m"
proof (induction rule: rmc_reachable.induct)
  case (start sl)
  show ?case by (simp add: rmc_inv_def Rmc_SetLatestCommittedSlot_def NewRmcManager_def workOf_def)
next
  case (accept bs m sl w m')
  then show ?case by (auto simp: rmc_inv_def Rmc_BlockAccepted_def workOf_def add.commute split: if_splits)
next
  case (commit bs m index r m')
  note ok = Rmc_CommitSlot_ok[OF commit.hyps(2)]
  have "commitmentLoader E sl = Some x \<and> sl \<le> index" if "rmc m' sl = Some x" for sl x
  proof -
    from ok(4) that have "((rmc m)(index \<mapsto> r)) sl = Some x" by (auto simp: map_le_def dom_def)
    with commit ok(1) rmc_invD(1,2)[OF commit.IH] show ?thesis by (fastforce split: if_splits)
  qed
  moreover have "(case slotWork m' sl of None \<Rightarrow> 0 | Some w \<Rightarrow> w) = workOf bs sl" if "index < sl" for sl
    using rmc_invD(4)[OF commit.IH, of sl] ok that by auto
  ultimately show ?case by (simp add: rmc_inv_def ok(2))
next
  case (fail bs m index e m')
  with Rmc_CommitSlot_fail[OF fail.IH fail.hyps(2)] show ?case by simp
qed

section \<open>Properties\<close>

text \<open>C26: In every execution, committing the next slots sets the reference mana cost by the work
  of the blocks accepted for the slot, added modulo \<open>2 ^ 32\<close>: above the increase threshold it grows
  by the increase, below the decrease threshold it falls by the decrease but not below the minimum,
  else it stays. A cost at or above the minimum stays there and moves by at most one step. The commit
  fails exactly when the sum leaves 64 bits or the decrease is more than the last cost, also if the
  minimum is then the cost that was meant.\<close>

theorem rmc_follows_slot_work:
  assumes "safemath_unsigned (rmcMath E)" "rmc_reachable E bs m"
    and "rmcCommittedSlot m < index" "commitmentLoader E (index - 1) = Some lastRMC"
  defines "cc \<equiv> ccParameters E index" and "w \<equiv> workOf bs index"
  shows "(rmcFails cc (uint lastRMC) w \<longrightarrow> Rmc_CommitSlot E index m = (Inl (RmcOutOfRange index), m)) \<and>
    (\<not> rmcFails cc (uint lastRMC) w \<longrightarrow> (\<exists>r m'. Rmc_CommitSlot E index m = (Inr r, m') \<and> uint r = idealRMC cc (uint lastRMC) w \<and>
       (MinReferenceManaCost cc \<le> lastRMC \<longrightarrow> MinReferenceManaCost cc \<le> r \<and>
          uint lastRMC - uint (Decrease cc) \<le> uint r \<and> uint r \<le> uint lastRMC + uint (Increase cc))))"
proof -
  note inv = rmc_reachable_inv[OF assms(2)]
  note res = Rmc_CommitSlot_def[of E index m] newRMC_exact[OF assms(1), of index lastRMC w]
    rmc_invD(3,4)[OF inv assms(3)] assms(3,4) w_def[symmetric] cc_def[symmetric]
  show ?thesis
    using idealRMC_bounds[of cc "uint lastRMC" w] assms(3)
    by (cases "rmcFails cc (uint lastRMC) w") (simp_all add: res Let_def not_le idealRMC_range word_le_def[of "MinReferenceManaCost cc"])
qed

text \<open>C27: In every execution, what the manager answers for the cost of a slot is the cost in the
  commitment of that slot, whether it was computed here or belongs to the time before the start; and
  it answers for every committed slot whose commitment the storage has and that is within the
  committable age of the latest one.\<close>

theorem rmc_answers_commitment:
  assumes "rmc_reachable E bs m"
  shows "(RMC E sl m = Inr r \<longrightarrow> commitmentLoader E sl = Some r) \<and>
    (sl \<le> rmcCommittedSlot m \<and> uint (rmcCommittedSlot m) \<le> uint sl + uint (rmcCommittableAge E sl) \<and>
     uint sl + uint (rmcCommittableAge E sl) < 2 ^ 32 \<and> commitmentLoader E sl = Some r \<longrightarrow> RMC E sl m = Inr r)"
proof -
  note inv = rmc_invD(1,2)[OF rmc_reachable_inv[OF assms]]
  have "uint (sl + rmcCommittableAge E sl) = uint sl + uint (rmcCommittableAge E sl)"
    if "uint sl + uint (rmcCommittableAge E sl) < 2 ^ 32"
    using that by (simp add: uint_plus_if')
  then show ?thesis
    using inv by (auto simp: RMC_def word_less_def word_le_def not_less split: if_splits option.splits)
qed

section \<open>An example\<close>

text \<open>Cost 25 in the first commitment, minimum 20, decrease 30, increase 10: an idle slot
  fails, a busy one raises the cost to 35.\<close>

definition exampleRmcEnv :: rmc_env where
  "exampleRmcEnv = \<lparr>ccParameters = \<lambda>_. \<lparr>MinReferenceManaCost = 20, Increase = 10, Decrease = 30, IncreaseThreshold = 100, DecreaseThreshold = 50\<rparr>,
     rmcCommittableAge = \<lambda>_. 10, commitmentLoader = [0 \<mapsto> 25, 1 \<mapsto> 35], rmcMath = safemath_u\<rparr>"

definition exampleRmc :: RmcManager where
  "exampleRmc = NewRmcManager\<lparr>slotWork := [1 \<mapsto> 120]\<rparr>"

lemma exampleRmc_reachable: "rmc_reachable exampleRmcEnv [(1, 70), (1, 50)] exampleRmc"
proof -
  have "rmc_reachable exampleRmcEnv [] NewRmcManager"
    using rmc_reachable.start[of exampleRmcEnv 0] by (simp add: Rmc_SetLatestCommittedSlot_def NewRmcManager_def)
  then have "rmc_reachable exampleRmcEnv [(1, 50)] (NewRmcManager\<lparr>slotWork := [1 \<mapsto> 50]\<rparr>)"
    by (rule rmc_reachable.accept) (simp add: Rmc_BlockAccepted_def NewRmcManager_def)
  then show ?thesis
    by (rule rmc_reachable.accept) (simp add: Rmc_BlockAccepted_def NewRmcManager_def exampleRmc_def)
qed

theorem rmc_follows_slot_work_witness:
  "(\<exists>m'. Rmc_CommitSlot exampleRmcEnv 1 exampleRmc = (Inr 35, m')) \<and>
   Rmc_CommitSlot exampleRmcEnv 1 NewRmcManager = (Inl (RmcOutOfRange 1), NewRmcManager)"
proof -
  have start: "rmc_reachable exampleRmcEnv [] NewRmcManager"
    using rmc_reachable.start[of exampleRmcEnv 0] by (simp add: Rmc_SetLatestCommittedSlot_def NewRmcManager_def)
  have math: "safemath_unsigned (rmcMath exampleRmcEnv)" by (simp add: exampleRmcEnv_def safemath_instances)
  note ex = exampleRmcEnv_def workOf_def rmcFails_def idealRMC_def
  have "\<exists>r m'. Rmc_CommitSlot exampleRmcEnv 1 exampleRmc = (Inr r, m') \<and> uint r = 35"
    using rmc_follows_slot_work[OF math exampleRmc_reachable, of 1 25] by (auto simp: ex exampleRmc_def NewRmcManager_def)
  then have "\<exists>m'. Rmc_CommitSlot exampleRmcEnv 1 exampleRmc = (Inr 35, m')" by (auto simp: word_uint_eq_iff)
  moreover have "Rmc_CommitSlot exampleRmcEnv 1 NewRmcManager = (Inl (RmcOutOfRange 1), NewRmcManager)"
    using rmc_follows_slot_work[OF math start, of 1 25] by (simp add: ex NewRmcManager_def)
  ultimately show ?thesis by simp
qed

theorem rmc_answers_commitment_witness: "RMC exampleRmcEnv 0 exampleRmc = Inr 25"
  using rmc_answers_commitment[OF exampleRmc_reachable, of 0 25] by (simp add: exampleRmcEnv_def exampleRmc_def NewRmcManager_def)

end
