(* ===== verification/StateDiff.thy ===== *)
theory StateDiff
  imports UtxoCodec
begin

text \<open>
  The state diff of a slot in the mempool (\<open>pkg/protocol/engine/mempool/v1/state_diff.go\<close>): the
  transactions executed in the slot, how often each state was created and consumed by them, and the
  compacted sets of created and destroyed states that follow from the counters. Transactions are
  added when they are accepted and rolled back when they become pending again. The authenticated
  set of transaction IDs (\<open>ads.Set\<close> of \<open>hive.go\<close>) is the set it holds, its operations are parameters that may fail.
\<close>

section \<open>States and transactions\<close>

text \<open>A state is an output of the UTXO ledger or another input type of \<open>iota.go\<close>, with its ID and
  whether it is read-only.\<close>

datatype mempool_state = OutputState Output | OtherState bytes bool

record StateMetadata =
  metaState :: mempool_state
  acceptedSpender :: "bytes option"

record transaction =
  txInputRefs :: "bytes list option"
  txAllotments :: "(bytes \<times> mana) list"

record TransactionMetadata =
  txID :: bytes
  txInputs :: "StateMetadata list"
  txOutputs :: "StateMetadata list"
  txTransaction :: "transaction option"
  EarliestIncludedAttachment :: bytes

record diff_env =
  IdentifierFromData :: "bytes \<Rightarrow> bytes"
  mutationsAdd :: "bytes \<Rightarrow> bytes set \<Rightarrow> bytes set option"
  mutationsDelete :: "bytes \<Rightarrow> bytes set \<Rightarrow> bytes set option"

text \<open>Documented: a set of \<open>ads\<close> adds and deletes keys, when its store does not fail.\<close>

definition diff_env_ok :: "diff_env \<Rightarrow> bool" where
  "diff_env_ok D \<longleftrightarrow> (\<forall>x S. mutationsAdd D x S = Some (insert x S)) \<and> (\<forall>x S. mutationsDelete D x S = Some (S - {x}))"

fun StateID :: "diff_env \<Rightarrow> mempool_state \<Rightarrow> bytes" where
  "StateID D (OutputState o') = IdentifierFromData D (outputID o')"
| "StateID D (OtherState i _) = i"

fun IsReadOnly :: "mempool_state \<Rightarrow> bool" where
  "IsReadOnly (OutputState _) = False"
| "IsReadOnly (OtherState _ ro) = ro"

section \<open>The state diff\<close>

record StateDiff =
  diffSlot :: slot
  spentOutputs :: "bytes \<rightharpoonup> StateMetadata"
  createdOutputs :: "bytes \<rightharpoonup> StateMetadata"
  executedTransactions :: "(bytes \<times> TransactionMetadata) list"
  stateUsageCounters :: "bytes \<rightharpoonup> int"
  mutations :: "bytes set"

definition NewStateDiff :: "slot \<Rightarrow> StateDiff" where
  "NewStateDiff sl =
     \<lparr>diffSlot = sl, spentOutputs = Map.empty, createdOutputs = Map.empty, executedTransactions = [],
      stateUsageCounters = Map.empty, mutations = {}\<rparr>"

definition compactStateChanges :: "diff_env \<Rightarrow> StateMetadata \<Rightarrow> int \<Rightarrow> StateDiff \<Rightarrow> StateDiff" where
  "compactStateChanges D md usageCounter s =
     (let i = StateID D (metaState md) in
      if 0 < usageCounter then s\<lparr>createdOutputs := (createdOutputs s)(i \<mapsto> md)\<rparr>
      else if usageCounter < 0 then
        (if \<not> IsReadOnly (metaState md) then s\<lparr>spentOutputs := (spentOutputs s)(i \<mapsto> md)\<rparr> else s)
      else s\<lparr>createdOutputs := (createdOutputs s)(i := None), spentOutputs := (spentOutputs s)(i := None)\<rparr>)"

text \<open>The body of the two loops of \<open>updateCompactedStateChanges\<close>: count, then compact.\<close>

definition useState :: "diff_env \<Rightarrow> int \<Rightarrow> StateMetadata \<Rightarrow> StateDiff \<Rightarrow> StateDiff" where
  "useState D change md s =
     (let i = StateID D (metaState md);
          n = (case stateUsageCounters s i of None \<Rightarrow> 0 | Some n \<Rightarrow> n) + change
      in compactStateChanges D md n (s\<lparr>stateUsageCounters := (stateUsageCounters s)(i \<mapsto> n)\<rparr>))"

definition updateCompactedStateChanges :: "diff_env \<Rightarrow> TransactionMetadata \<Rightarrow> int \<Rightarrow> StateDiff \<Rightarrow> StateDiff" where
  "updateCompactedStateChanges D tx direction s =
     fold (useState D direction) (txOutputs tx) (fold (useState D (- direction)) (txInputs tx) s)"

text \<open>An ordered map keeps the position of a key that is set again. \<open>None\<close> is an error of the store.\<close>

definition orderedSet :: "'k \<Rightarrow> 'v \<Rightarrow> ('k \<times> 'v) list \<Rightarrow> ('k \<times> 'v) list" where
  "orderedSet k v xs = (if k \<in> fst ` set xs then map (\<lambda>(k', v'). if k' = k then (k, v) else (k', v')) xs else xs @ [(k, v)])"

definition AddTransaction :: "diff_env \<Rightarrow> TransactionMetadata \<Rightarrow> StateDiff \<Rightarrow> StateDiff option" where
  "AddTransaction D tx s =
     (let existed = txID tx \<in> fst ` set (executedTransactions s);
          s = s\<lparr>executedTransactions := orderedSet (txID tx) tx (executedTransactions s)\<rparr>
      in if existed then Some s
         else case mutationsAdd D (txID tx) (mutations s) of
                None \<Rightarrow> None
              | Some ms \<Rightarrow> Some (updateCompactedStateChanges D tx 1 (s\<lparr>mutations := ms\<rparr>)))"

definition RollbackTransaction :: "diff_env \<Rightarrow> TransactionMetadata \<Rightarrow> StateDiff \<Rightarrow> StateDiff option" where
  "RollbackTransaction D tx s =
     (if txID tx \<in> fst ` set (executedTransactions s)
      then case mutationsDelete D (txID tx) (mutations s) of
             None \<Rightarrow> None
           | Some ms \<Rightarrow>
               Some (updateCompactedStateChanges D tx (- 1)
                 (s\<lparr>executedTransactions := filter (\<lambda>(k, _). k \<noteq> txID tx) (executedTransactions s), mutations := ms\<rparr>))
      else Some s)"

section \<open>Executions\<close>

text \<open>Transactions are known by their ID; a slot's diff is changed by adding and rolling back.\<close>

inductive diff_reachable :: "diff_env \<Rightarrow> slot \<Rightarrow> (bytes \<Rightarrow> TransactionMetadata) \<Rightarrow> StateDiff \<Rightarrow> bool" for D sl txs where
  new: "diff_reachable D sl txs (NewStateDiff sl)"
| add: "diff_reachable D sl txs s \<Longrightarrow> AddTransaction D (txs i) s = Some s' \<Longrightarrow> diff_reachable D sl txs s'"
| rollback: "diff_reachable D sl txs s \<Longrightarrow> RollbackTransaction D (txs i) s = Some s' \<Longrightarrow> diff_reachable D sl txs s'"

definition stateIDs :: "diff_env \<Rightarrow> StateMetadata list \<Rightarrow> bytes list" where
  "stateIDs D = map (\<lambda>md. StateID D (metaState md))"

definition netUsage :: "diff_env \<Rightarrow> TransactionMetadata list \<Rightarrow> bytes \<Rightarrow> int" where
  "netUsage D txs i = sum_list (map (\<lambda>tx. int (count_list (stateIDs D (txOutputs tx)) i) - int (count_list (stateIDs D (txInputs tx)) i)) txs)"

definition counter :: "StateDiff \<Rightarrow> bytes \<Rightarrow> int" where
  "counter s i = (case stateUsageCounters s i of None \<Rightarrow> 0 | Some n \<Rightarrow> n)"

text \<open>The compacted maps agree with the counters; \<open>ro\<close> tells the read-only IDs.\<close>

definition compacted :: "diff_env \<Rightarrow> (bytes \<Rightarrow> bool) \<Rightarrow> StateDiff \<Rightarrow> bool" where
  "compacted D ro s \<longleftrightarrow>
     (\<forall>i. (createdOutputs s i \<noteq> None \<longleftrightarrow> 0 < counter s i) \<and> (spentOutputs s i \<noteq> None \<longleftrightarrow> counter s i < 0 \<and> \<not> ro i) \<and>
          (\<forall>md. createdOutputs s i = Some md \<or> spentOutputs s i = Some md \<longrightarrow> StateID D (metaState md) = i))"

definition useStep :: "diff_env \<Rightarrow> StateDiff \<Rightarrow> StateDiff \<Rightarrow> (bytes \<Rightarrow> int) \<Rightarrow> bool" where
  "useStep D s s' delta \<longleftrightarrow> (\<forall>i. counter s' i = counter s i + delta i) \<and>
     executedTransactions s' = executedTransactions s \<and> mutations s' = mutations s \<and> diffSlot s' = diffSlot s"

lemma useState_counts:
  "useStep D s (useState D change md s) (\<lambda>i. if i = StateID D (metaState md) then change else 0)"
  by (simp add: useStep_def useState_def compactStateChanges_def counter_def Let_def)

lemma useState_compacted:
  assumes "compacted D ro s" "change = 1 \<or> change = - 1" "IsReadOnly (metaState md) = ro (StateID D (metaState md))"
  shows "compacted D ro (useState D change md s)"
proof -
  define i where "i = StateID D (metaState md)"
  define n where "n = counter s i + change"
  have c: "counter (useState D change md s) j = (if j = i then n else counter s j)" for j
    using useState_counts[of D s change md] by (simp add: useStep_def i_def n_def)
  have u: "useState D change md s = compactStateChanges D md n (s\<lparr>stateUsageCounters := (stateUsageCounters s)(i \<mapsto> n)\<rparr>)"
    by (simp add: useState_def i_def n_def counter_def Let_def)
  have at_i: "createdOutputs s i \<noteq> None \<longleftrightarrow> 0 < counter s i" "spentOutputs s i \<noteq> None \<longleftrightarrow> counter s i < 0 \<and> \<not> ro i"
    using assms(1) by (auto simp: compacted_def)
  have "createdOutputs s i = None \<and> \<not> 0 < counter s i" if "n < 0" using at_i(1) that assms(2) by (auto simp: n_def)
  moreover have "spentOutputs s i = None \<and> \<not> counter s i < 0" if "0 < n" using at_i(2) that assms(2) by (auto simp: n_def)
  ultimately show ?thesis
    using assms(1,3) unfolding compacted_def c
    by (auto simp: u compactStateChanges_def i_def[symmetric] Let_def)
qed

lemma uses:
  assumes "compacted D ro s" "change = 1 \<or> change = - 1" "\<forall>md \<in> set mds. IsReadOnly (metaState md) = ro (StateID D (metaState md))"
  shows "compacted D ro (fold (useState D change) mds s) \<and>
    useStep D s (fold (useState D change) mds s) (\<lambda>i. change * int (count_list (stateIDs D mds) i))"
  using assms
proof (induction mds arbitrary: s)
  case Nil
  then show ?case by (simp add: useStep_def stateIDs_def)
next
  case (Cons md mds)
  let ?s = "useState D change md s"
  have "compacted D ro ?s" using Cons.prems by (intro useState_compacted) simp_all
  then have IH: "compacted D ro (fold (useState D change) mds ?s)"
    "useStep D ?s (fold (useState D change) mds ?s) (\<lambda>i. change * int (count_list (stateIDs D mds) i))"
    using Cons.IH[of ?s] Cons.prems by simp_all
  then show ?case
    using useState_counts[of D s change md] by (auto simp: useStep_def stateIDs_def algebra_simps)
qed

text \<open>The states of the transactions agree on what is read-only.\<close>

definition states_agree :: "diff_env \<Rightarrow> (bytes \<Rightarrow> bool) \<Rightarrow> (bytes \<Rightarrow> TransactionMetadata) \<Rightarrow> bool" where
  "states_agree D ro txs \<longleftrightarrow> (\<forall>i. txID (txs i) = i \<and>
     (\<forall>md \<in> set (txInputs (txs i)) \<union> set (txOutputs (txs i)). IsReadOnly (metaState md) = ro (StateID D (metaState md))))"

lemma updateCompactedStateChanges_step:
  assumes "compacted D ro s" "direction = 1 \<or> direction = - 1" "states_agree D ro txs"
  shows "compacted D ro (updateCompactedStateChanges D (txs i) direction s) \<and>
    useStep D s (updateCompactedStateChanges D (txs i) direction s) (\<lambda>k. direction * netUsage D [txs i] k)"
proof -
  have ro: "\<forall>md \<in> set (txInputs (txs i)). IsReadOnly (metaState md) = ro (StateID D (metaState md))"
    "\<forall>md \<in> set (txOutputs (txs i)). IsReadOnly (metaState md) = ro (StateID D (metaState md))"
    using assms(3) by (auto simp: states_agree_def)
  let ?s = "fold (useState D (- direction)) (txInputs (txs i)) s"
  have 1: "compacted D ro ?s" "useStep D s ?s (\<lambda>k. - direction * int (count_list (stateIDs D (txInputs (txs i))) k))"
    using uses[OF assms(1) _ ro(1), of "- direction"] assms(2) by auto
  have "useStep D s t (\<lambda>k. direction * netUsage D [txs i] k)"
    if "useStep D ?s t (\<lambda>k. direction * int (count_list (stateIDs D (txOutputs (txs i))) k))" for t
    using 1(2) that by (auto simp: useStep_def netUsage_def algebra_simps)
  then show ?thesis
    using uses[OF 1(1) assms(2) ro(2)] by (simp add: updateCompactedStateChanges_def)
qed

subsection \<open>The invariant\<close>

abbreviation executed :: "StateDiff \<Rightarrow> TransactionMetadata list" where
  "executed s \<equiv> map snd (executedTransactions s)"

definition diff_inv :: "diff_env \<Rightarrow> (bytes \<Rightarrow> bool) \<Rightarrow> (bytes \<Rightarrow> TransactionMetadata) \<Rightarrow> StateDiff \<Rightarrow> bool" where
  "diff_inv D ro txs s \<longleftrightarrow> compacted D ro s \<and> (\<forall>i. counter s i = netUsage D (executed s) i) \<and>
     (\<exists>ids. executedTransactions s = map (\<lambda>i. (i, txs i)) ids \<and> distinct ids \<and> mutations s = set ids)"

lemma netUsage_simps:
  "netUsage D [] i = 0" "netUsage D (tx # xs) i = netUsage D [tx] i + netUsage D xs i" "netUsage D (xs @ ys) i = netUsage D xs i + netUsage D ys i"
  by (simp_all add: netUsage_def)

lemma netUsage_remove:
  "distinct ids \<Longrightarrow> k \<in> set ids \<Longrightarrow>
   netUsage D (map txs (filter (\<lambda>i. i \<noteq> k) ids)) x = netUsage D (map txs ids) x - netUsage D [txs k] x"
proof (induction ids)
  case (Cons a ids)
  show ?case
  proof (cases "a = k")
    case True
    then have "filter (\<lambda>i. i \<noteq> k) ids = ids" using Cons.prems by (auto intro: filter_True)
    then show ?thesis using True by (simp add: netUsage_simps(2)[of D "txs k" "map txs ids"])
  next
    case False
    with Cons show ?thesis
      by (simp add: netUsage_simps(2)[of D "txs a" "map txs ids"] netUsage_simps(2)[of D "txs a" "map txs (filter _ ids)"])
  qed
qed simp

lemma compacted_cong:
  "compacted D ro (s\<lparr>executedTransactions := xs, mutations := ms\<rparr>) = compacted D ro s"
  "counter (s\<lparr>executedTransactions := xs, mutations := ms\<rparr>) i = counter s i"
  by (simp_all add: compacted_def counter_def)

lemma diff_inv_add:
  assumes "diff_env_ok D" "states_agree D ro txs" "diff_inv D ro txs s" "AddTransaction D (txs i) s = Some s'"
  shows "diff_inv D ro txs s'"
proof -
  from assms(3) obtain ids where ids: "executedTransactions s = map (\<lambda>i. (i, txs i)) ids" "distinct ids" "mutations s = set ids"
    and inv: "compacted D ro s" "\<forall>k. counter s k = netUsage D (map txs ids) k" by (auto simp: diff_inv_def comp_def)
  have tx: "txID (txs i) = i" using assms(2) by (simp add: states_agree_def)
  have mem: "i \<in> fst ` set (executedTransactions s) \<longleftrightarrow> i \<in> set ids" using ids(1) by force
  show ?thesis
  proof (cases "i \<in> set ids")
    case True
    then have "orderedSet i (txs i) (executedTransactions s) = executedTransactions s"
      by (simp add: orderedSet_def mem) (auto simp: ids(1))
    then have "s' = s" using assms(4) True by (simp add: AddTransaction_def tx mem Let_def)
    then show ?thesis using assms(3) by simp
  next
    case False
    let ?s = "s\<lparr>executedTransactions := map (\<lambda>i. (i, txs i)) (ids @ [i]), mutations := insert i (set ids)\<rparr>"
    have "orderedSet i (txs i) (executedTransactions s) = map (\<lambda>i. (i, txs i)) (ids @ [i])"
      using False by (simp add: orderedSet_def mem) (simp add: ids(1))
    then have s': "s' = updateCompactedStateChanges D (txs i) 1 ?s"
      using assms(1,4) False by (simp add: AddTransaction_def tx mem Let_def diff_env_ok_def ids(3))
    have "compacted D ro ?s" using inv(1) by (simp add: compacted_cong)
    from updateCompactedStateChanges_step[OF this _ assms(2), of 1 i]
    have "compacted D ro s'" "useStep D ?s s' (netUsage D [txs i])" by (simp_all add: s')
    moreover have "counter ?s k = netUsage D (map txs ids) k" for k using inv(2) by (simp only: compacted_cong)
    ultimately show ?thesis
      using False ids(2) by (auto simp: diff_inv_def useStep_def comp_def netUsage_simps(3) intro!: exI[of _ "ids @ [i]"])
  qed
qed

lemma diff_inv_rollback:
  assumes "diff_env_ok D" "states_agree D ro txs" "diff_inv D ro txs s" "RollbackTransaction D (txs i) s = Some s'"
  shows "diff_inv D ro txs s'"
proof -
  from assms(3) obtain ids where ids: "executedTransactions s = map (\<lambda>i. (i, txs i)) ids" "distinct ids" "mutations s = set ids"
    and inv: "compacted D ro s" "\<forall>k. counter s k = netUsage D (map txs ids) k" by (auto simp: diff_inv_def comp_def)
  have tx: "txID (txs i) = i" using assms(2) by (simp add: states_agree_def)
  have mem: "i \<in> fst ` set (executedTransactions s) \<longleftrightarrow> i \<in> set ids" using ids(1) by force
  show ?thesis
  proof (cases "i \<in> set ids")
    case False
    then have "s' = s" using assms(4) by (simp add: RollbackTransaction_def tx mem)
    then show ?thesis using assms(3) by simp
  next
    case True
    let ?ids = "filter (\<lambda>k. k \<noteq> i) ids"
    let ?s = "s\<lparr>executedTransactions := map (\<lambda>i. (i, txs i)) ?ids, mutations := set ids - {i}\<rparr>"
    have s': "s' = updateCompactedStateChanges D (txs i) (- 1) ?s"
      using assms(1,4) True by (simp add: RollbackTransaction_def tx mem diff_env_ok_def ids(3)) (simp add: ids(1) filter_map comp_def)
    have "compacted D ro ?s" using inv(1) by (simp add: compacted_cong)
    from updateCompactedStateChanges_step[OF this _ assms(2), of "- 1" i]
    have "compacted D ro s'" "useStep D ?s s' (\<lambda>k. - netUsage D [txs i] k)" by (simp_all add: s')
    moreover have "counter ?s k = netUsage D (map txs ids) k" for k using inv(2) by (simp only: compacted_cong)
    moreover have "set ids - {i} = set ?ids" by auto
    ultimately show ?thesis
      using ids(2) by (auto simp: diff_inv_def useStep_def comp_def netUsage_remove[OF ids(2) True] intro!: exI[of _ ?ids])
  qed
qed

lemma diff_reachable_inv:
  assumes "diff_reachable D sl txs s" "diff_env_ok D" "states_agree D ro txs"
  shows "diff_inv D ro txs s"
  using assms
proof (induction rule: diff_reachable.induct)
  case new
  show ?case by (simp add: diff_inv_def NewStateDiff_def compacted_def counter_def netUsage_simps)
next
  case (add s i s')
  then show ?case using diff_inv_add by blast
next
  case (rollback s i s')
  then show ?case using diff_inv_rollback by blast
qed

section \<open>Property\<close>

definition produced :: "diff_env \<Rightarrow> StateDiff \<Rightarrow> bytes list" where
  "produced D s = concat (map (\<lambda>tx. stateIDs D (txOutputs tx)) (executed s))"

definition consumed :: "diff_env \<Rightarrow> StateDiff \<Rightarrow> bytes list" where
  "consumed D s = concat (map (\<lambda>tx. stateIDs D (txInputs tx)) (executed s))"

lemma netUsage_counts: "netUsage D (executed s) i = int (count_list (produced D s) i) - int (count_list (consumed D s) i)"
proof -
  have "netUsage D txs i = int (count_list (concat (map (\<lambda>tx. stateIDs D (txOutputs tx)) txs)) i) - int (count_list (concat (map (\<lambda>tx. stateIDs D (txInputs tx)) txs)) i)" for txs
    by (induction txs) (simp_all add: netUsage_def)
  then show ?thesis by (simp add: produced_def consumed_def)
qed

lemma count_list_distinct: "distinct xs \<Longrightarrow> count_list xs x = (if x \<in> set xs then 1 else 0)"
  by (induction xs) auto

lemma count_list_filter: "P x \<Longrightarrow> count_list (filter P xs) x = count_list xs x"
  by (induction xs) auto

text \<open>C28: However transactions are added to the diff of a slot and rolled back from it, in any
  order, the diff is the net effect of the transactions that are in it: a state is in the created
  states exactly when the transactions create it more often than they consume it, in the destroyed
  states exactly when they consume it more often and it is not read-only; the authenticated set
  holds exactly their IDs. When no state is created twice and none but read-only ones is consumed twice,
  the created states are those created and not consumed, and the destroyed ones those consumed and
  not created.\<close>

theorem state_diff_is_net_effect:
  assumes "diff_reachable D sl txs s" "diff_env_ok D" "states_agree D ro txs"
  shows "(\<forall>i. (createdOutputs s i \<noteq> None \<longleftrightarrow> 0 < netUsage D (executed s) i) \<and> (spentOutputs s i \<noteq> None \<longleftrightarrow> netUsage D (executed s) i < 0 \<and> \<not> ro i)) \<and>
    mutations s = fst ` set (executedTransactions s) \<and>
    (distinct (produced D s) \<and> distinct (filter (\<lambda>i. \<not> ro i) (consumed D s)) \<longrightarrow>
       (\<forall>i. \<not> ro i \<longrightarrow> (createdOutputs s i \<noteq> None \<longleftrightarrow> i \<in> set (produced D s) - set (consumed D s)) \<and>
                      (spentOutputs s i \<noteq> None \<longleftrightarrow> i \<in> set (consumed D s) - set (produced D s))))"
proof -
  from diff_reachable_inv[OF assms] obtain ids where "compacted D ro s" "\<forall>i. counter s i = netUsage D (executed s) i"
    and ids: "executedTransactions s = map (\<lambda>i. (i, txs i)) ids" "mutations s = set ids" by (auto simp: diff_inv_def)
  then have net: "\<forall>i. (createdOutputs s i \<noteq> None \<longleftrightarrow> 0 < netUsage D (executed s) i) \<and> (spentOutputs s i \<noteq> None \<longleftrightarrow> netUsage D (executed s) i < 0 \<and> \<not> ro i)"
    by (simp add: compacted_def)
  have "netUsage D (executed s) i = (if i \<in> set (produced D s) then 1 else 0) - (if i \<in> set (consumed D s) then 1 else 0)"
    if "distinct (produced D s)" "distinct (filter (\<lambda>i. \<not> ro i) (consumed D s))" "\<not> ro i" for i
    using that count_list_distinct[OF that(2), of i] count_list_filter[of "\<lambda>i. \<not> ro i" i "consumed D s"]
    by (auto simp: netUsage_counts count_list_distinct split: if_splits)
  moreover have "mutations s = fst ` set (executedTransactions s)" using ids by force
  ultimately show ?thesis using net by auto
qed

definition exampleOutput :: "u8 \<Rightarrow> StateMetadata" where
  "exampleOutput n = \<lparr>metaState = OutputState \<lparr>outputID = [n], blockID = [], slotBooked = 0, encodedOutput = [], encodedProof = []\<rparr>, acceptedSpender = None\<rparr>"

text \<open>Transaction \<open>[1]\<close> turns output 1 into 2 and 3, \<open>[2]\<close> turns 2 into 4; any other has no states.\<close>

definition exampleTx :: "bytes \<Rightarrow> TransactionMetadata" where
  "exampleTx i = \<lparr>txID = i,
     txInputs = (if i = [1] then [exampleOutput 1] else if i = [2] then [exampleOutput 2] else []),
     txOutputs = (if i = [1] then [exampleOutput 2, exampleOutput 3] else if i = [2] then [exampleOutput 4] else []),
     txTransaction = None, EarliestIncludedAttachment = []\<rparr>"

definition exampleDiffEnv :: diff_env where
  "exampleDiffEnv = \<lparr>IdentifierFromData = \<lambda>x. x, mutationsAdd = \<lambda>x S. Some (insert x S), mutationsDelete = \<lambda>x S. Some (S - {x})\<rparr>"

definition exampleDiff :: StateDiff where
  "exampleDiff = the (AddTransaction exampleDiffEnv (exampleTx [2]) (the (AddTransaction exampleDiffEnv (exampleTx [1]) (NewStateDiff 5))))"

lemmas exampleDiff_defs = exampleDiffEnv_def exampleTx_def exampleOutput_def AddTransaction_def orderedSet_def

lemma exampleDiff_reachable: "diff_reachable exampleDiffEnv 5 exampleTx exampleDiff"
proof -
  have some: "AddTransaction exampleDiffEnv tx s = Some (the (AddTransaction exampleDiffEnv tx s))" for tx s
    by (simp add: AddTransaction_def exampleDiffEnv_def Let_def)
  have "diff_reachable exampleDiffEnv 5 exampleTx (the (AddTransaction exampleDiffEnv (exampleTx [1]) (NewStateDiff 5)))"
    by (rule diff_reachable.add[OF diff_reachable.new some])
  then show ?thesis unfolding exampleDiff_def by (rule diff_reachable.add[OF _ some])
qed

lemma exampleDiff_executed: "executedTransactions exampleDiff = [([1], exampleTx [1]), ([2], exampleTx [2])]"
  by (simp add: exampleDiff_def exampleDiff_defs NewStateDiff_def updateCompactedStateChanges_def useState_def compactStateChanges_def Let_def)

theorem state_diff_is_net_effect_witness:
  "createdOutputs exampleDiff [2] = None \<and> createdOutputs exampleDiff [4] \<noteq> None \<and> spentOutputs exampleDiff [1] \<noteq> None \<and>
   spentOutputs exampleDiff [2] = None \<and> mutations exampleDiff = {[1], [2]}"
proof -
  have agree: "states_agree exampleDiffEnv (\<lambda>_. False) exampleTx" by (auto simp: states_agree_def exampleTx_def exampleOutput_def)
  have ok: "diff_env_ok exampleDiffEnv" by (simp add: diff_env_ok_def exampleDiffEnv_def)
  have sets: "produced exampleDiffEnv exampleDiff = [[2], [3], [4]]" "consumed exampleDiffEnv exampleDiff = [[1], [2]]"
    by (simp_all add: produced_def consumed_def exampleDiff_executed exampleTx_def exampleOutput_def stateIDs_def exampleDiffEnv_def)
  note net = state_diff_is_net_effect[OF exampleDiff_reachable ok agree]
  have d: "distinct (produced exampleDiffEnv exampleDiff) \<and> distinct (filter (\<lambda>i. \<not> False) (consumed exampleDiffEnv exampleDiff))"
    by (simp add: sets)
  note at = net[THEN conjunct2, THEN conjunct2, THEN mp, OF d, THEN spec, THEN mp, unfolded sets]
  have "mutations exampleDiff = {[1], [2]}" using net[THEN conjunct2, THEN conjunct1] by (simp add: exampleDiff_executed)
  with at[of "[1]"] at[of "[2]"] at[of "[4]"] show ?thesis by simp
qed

end
