(* ===== verification/LedgerCommit.thy ===== *)
theory LedgerCommit
  imports ManaManager Rmc StateDiff
begin

text \<open>
  The ledger of the engine (\<open>pkg/protocol/engine/ledger/ledger/ledger.go\<close>): how the state diff of a
  slot becomes a diff of the UTXO ledger and of the accounts, and how the parts of the ledger are
  committed together. The parts are those of the theories imported here. What the mempool answers
  to the ledger comes from the record \<open>MemPool\<close>; outputs are decoded by \<open>iota.go\<close>, a field of \<open>ledger_env\<close>.
  A panic is an error that ends the call.
\<close>

section \<open>Outputs and the parts of the ledger\<close>

text \<open>A basic output carries its implicit account creation address, if its address is one.\<close>

datatype ledger_output = AccountOut account_output | DelegationOut bytes bytes base_token | BasicOut "bytes option" | OtherOut

fun blockIssuerOf :: "ledger_output \<Rightarrow> (issuer_key list \<times> slot) option" where
  "blockIssuerOf (AccountOut ao) = aoBlockIssuer ao"
| "blockIssuerOf _ = None"

fun stakingOf :: "ledger_output \<Rightarrow> (base_token \<times> epoch \<times> mana) option" where
  "stakingOf (AccountOut ao) = aoStaking ao"
| "stakingOf _ = None"

text \<open>
  A Go error: a sentinel, an error that wraps another, several joined errors. \<open>ierrors.Is\<close> looks for
  the target in the tree of its first argument.
\<close>

datatype sentinel = ErrInputAlreadySpent | ErrStateNotFound | ErrUTXOInputInvalid | ErrCommitmentInputInvalid | ErrLoad | ErrUnsupported

datatype go_error = Sentinel sentinel | Wrapped go_error | Joined "go_error list"

fun ierrors_Is :: "go_error \<Rightarrow> go_error \<Rightarrow> bool" where
  "ierrors_Is (Sentinel e) target = (Sentinel e = target)"
| "ierrors_Is (Wrapped e) target = (Wrapped e = target \<or> ierrors_Is e target)"
| "ierrors_Is (Joined es) target = (Joined es = target \<or> (\<exists>e \<in> set es. ierrors_Is e target))"

text \<open>References to states: the inputs of \<open>iota.go\<close>; block issuance credit and reward inputs are states themselves.\<close>

datatype state_ref = UTXOInput bytes | CommitmentInput bytes | ContextInput mempool_state | UnsupportedInput

record 'c ledger_env =
  manaEnv :: mana_env
  cacheOps :: "'c mana_cache"
  rmcEnv :: rmc_env
  diffEnv :: diff_env
  DecodedOutput :: "Output \<Rightarrow> ledger_output"
  AccountIDFromOutputID :: "bytes \<Rightarrow> bytes"
  DelegationIDFromOutputID :: "bytes \<Rightarrow> bytes"
  EmptyAccountID :: bytes
  EmptyDelegationID :: bytes
  KeysHas :: "issuer_key list \<Rightarrow> issuer_key \<Rightarrow> bool"
  TransactionIDOf :: "bytes \<Rightarrow> bytes"
  BlockIDSlot :: "bytes \<Rightarrow> slot"
  TransactionIDSlot :: "bytes \<Rightarrow> slot"
  MutationsRoot :: "bytes set \<Rightarrow> bytes"
  commitmentAt :: "slot \<Rightarrow> go_error + bytes option option"
  CommitmentIDSlot :: "bytes \<Rightarrow> slot"
  CommitmentState :: "bytes \<Rightarrow> mempool_state"
  ReferencedStateID :: "state_ref \<Rightarrow> bytes"
  mutationsFunc :: "slot \<Rightarrow> bool"
  AccountsRoot :: "(bytes \<rightharpoonup> AccountData) \<Rightarrow> bytes"
  slotMath :: "slot safemath"

abbreviation accEnv :: "'c ledger_env \<Rightarrow> account_env" where
  "accEnv E \<equiv> manaAccounts (manaEnv E)"

abbreviation utxoEnv :: "'c ledger_env \<Rightarrow> utxo_env" where
  "utxoEnv E \<equiv> manaOutputs (manaEnv E)"

section \<open>The mempool as the ledger sees it\<close>

text \<open>A state request is a promise that is open or has a result.\<close>

datatype request = Open | Completed "go_error + StateMetadata"

record MemPool =
  cachedStateRequests :: "bytes \<rightharpoonup> request"
  cachedTransactions :: "bytes \<rightharpoonup> TransactionMetadata"
  stateDiffs :: "slot \<rightharpoonup> StateDiff"
  lastEvictedSlot :: slot
  committedTransactions :: "bytes list"

definition NewStateMetadata :: "mempool_state \<Rightarrow> StateMetadata" where
  "NewStateMetadata st = \<lparr>metaState = st, acceptedSpender = None\<rparr>"

record 'c LedgerState =
  utxoLedger :: Manager
  accountsLedger :: AccountsManager
  manaCache :: 'c
  rmcManager :: RmcManager
  memPool :: MemPool

datatype ledger_error =
  UtxoError utxo_error | AccountsError account_error | ManaError mana_error | RmcError rmc_error | StateDiffError slot |
  PoolError go_error | UnexpectedState | GapPanic slot slot | LoadPanic bytes account_error | MissingAccountPanic bytes | StateTypePanic | NilPanic

subsection \<open>Resolving states from the ledger\<close>

definition loadCommitment :: "'c ledger_env \<Rightarrow> bytes \<Rightarrow> go_error + mempool_state" where
  "loadCommitment E i =
     (case commitmentAt E (CommitmentIDSlot E i) of
        Inl e \<Rightarrow> Inl (Wrapped e)
      | Inr None \<Rightarrow> Inl (Sentinel ErrLoad)
      | Inr (Some None) \<Rightarrow> Inl (Wrapped (Sentinel ErrLoad))
      | Inr (Some (Some storedCommitmentID)) \<Rightarrow>
          if storedCommitmentID \<noteq> i then Inl (Sentinel ErrLoad) else Inr (CommitmentState E i))"

definition resolveState :: "'c ledger_env \<Rightarrow> Manager \<Rightarrow> state_ref \<Rightarrow> go_error + mempool_state" where
  "resolveState E u ref =
     (case ref of
        UTXOInput i \<Rightarrow>
          if \<not> IsOutputIDUnspentWithoutLocking (utxoEnv E) u i
          then Inl (Joined [Sentinel ErrInputAlreadySpent, Wrapped (Sentinel ErrStateNotFound)])
          else (case ReadOutputByOutputIDWithoutLocking (utxoEnv E) u i of
                  Inl _ \<Rightarrow> Inl (Wrapped (Sentinel ErrUTXOInputInvalid))
                | Inr out \<Rightarrow> Inr (OutputState out))
      | CommitmentInput i \<Rightarrow>
          (case loadCommitment E i of
             Inl e \<Rightarrow> Inl (Joined [Sentinel ErrCommitmentInputInvalid, Wrapped e])
           | Inr c \<Rightarrow> Inr c)
      | ContextInput st \<Rightarrow> Inr st
      | UnsupportedInput \<Rightarrow> Inl (Sentinel ErrUnsupported))"

text \<open>\<open>requestState\<close> without waiting for missing states, and \<open>StateMetadata\<close>.\<close>

definition requestState :: "'c ledger_env \<Rightarrow> Manager \<Rightarrow> state_ref \<Rightarrow> go_error + StateMetadata" where
  "requestState E u ref = (case resolveState E u ref of Inl e \<Rightarrow> Inl e | Inr st \<Rightarrow> Inr (NewStateMetadata st))"

definition PoolStateMetadata :: "'c ledger_env \<Rightarrow> 'c LedgerState \<Rightarrow> state_ref \<Rightarrow> go_error + StateMetadata" where
  "PoolStateMetadata E L ref =
     (case cachedStateRequests (memPool L) (ReferencedStateID E ref) of
        Some (Completed r) \<Rightarrow> r
      | _ \<Rightarrow> requestState E (utxoLedger L) ref)"

text \<open>The state diff of a slot, created when it does not exist.\<close>

definition PoolStateDiff :: "'c ledger_env \<Rightarrow> slot \<Rightarrow> MemPool \<Rightarrow> (StateDiff \<times> MemPool) option" where
  "PoolStateDiff E sl p =
     (if sl \<le> lastEvictedSlot p \<or> \<not> mutationsFunc E sl then None
      else case stateDiffs p sl of
             Some d \<Rightarrow> Some (d, p)
           | None \<Rightarrow> Some (NewStateDiff sl, p\<lparr>stateDiffs := (stateDiffs p)(sl \<mapsto> NewStateDiff sl)\<rparr>))"

section \<open>Finding outputs\<close>

definition outputFromState :: "'c ledger_env \<Rightarrow> 'c LedgerState \<Rightarrow> mempool_state \<Rightarrow> ledger_error + Output" where
  "outputFromState E L st =
     (case st of
        OutputState out \<Rightarrow>
          Inr (if slotBooked out = 0
               then case cachedTransactions (memPool L) (TransactionIDOf E (outputID out)) of
                      Some tx \<Rightarrow> CopyWithBlockIDAndSlotBooked (EarliestIncludedAttachment tx) (BlockIDSlot E (EarliestIncludedAttachment tx)) out
                    | None \<Rightarrow> out
               else out)
      | OtherState _ _ \<Rightarrow> Inl StateTypePanic)"

definition OutputOrSpent :: "'c ledger_env \<Rightarrow> 'c LedgerState \<Rightarrow> bytes \<Rightarrow> ledger_error + (Output + Spent)" where
  "OutputOrSpent E L i =
     (case PoolStateMetadata E L (UTXOInput i) of
        Inl err \<Rightarrow>
          if ierrors_Is (Sentinel ErrInputAlreadySpent) err
          then map_sum UtxoError Inr (ReadSpentForOutputIDWithoutLocking (utxoEnv E) (utxoLedger L) i)
          else Inl (PoolError err)
      | Inr md \<Rightarrow>
          bind_res (outputFromState E L (metaState md)) (\<lambda>out.
            Inr (case acceptedSpender md of
                   Some spender \<Rightarrow> Inr (NewSpent out spender (TransactionIDSlot E spender))
                 | None \<Rightarrow> Inl out)))"

definition Ledger_Output :: "'c ledger_env \<Rightarrow> 'c LedgerState \<Rightarrow> bytes \<Rightarrow> ledger_error + Output" where
  "Ledger_Output E L i =
     bind_res (OutputOrSpent E L i) (\<lambda>r. Inr (case r of Inl out \<Rightarrow> out | Inr sp \<Rightarrow> spentOutput sp))"

definition resolveAccountOutput :: "'c ledger_env \<Rightarrow> AccountsManager \<Rightarrow> Manager \<Rightarrow> bytes \<Rightarrow> slot \<Rightarrow> resolve_error + Output" where
  "resolveAccountOutput E m u i sl =
     bind_res (lift_err AccountError (account (accEnv E) i sl m)) (\<lambda>r.
       case r of
         None \<Rightarrow> Inl (NoAccount i)
       | Some a \<Rightarrow>
           if \<not> IsOutputIDUnspentWithoutLocking (utxoEnv E) u (accountOutputID a) then Inl (OutputNotUnspent (accountOutputID a))
           else lift_err OutputUnreadable (ReadOutputByOutputIDWithoutLocking (utxoEnv E) u (accountOutputID a)))"

text \<open>What the ledger passes to the mana manager.\<close>

definition accountSource :: "'c ledger_env \<Rightarrow> AccountsManager \<Rightarrow> Manager \<Rightarrow> account_source" where
  "accountSource E m u = \<lparr>accountOutputResolveFunc = resolveAccountOutput E m u, accountRetrieveFunc = \<lambda>i sl. account (accEnv E) i sl m\<rparr>"

section \<open>Collecting the changes of a slot\<close>

text \<open>\<open>getAccountDiff\<close> adds an empty diff to the map if there is none.\<close>

definition getAccountDiff :: "account_env \<Rightarrow> bytes \<Rightarrow> (bytes \<rightharpoonup> AccountDiff) \<Rightarrow> AccountDiff \<times> (bytes \<rightharpoonup> AccountDiff)" where
  "getAccountDiff A i accountDiffs =
     (case accountDiffs i of
        Some d \<Rightarrow> (d, accountDiffs)
      | None \<Rightarrow> (NewAccountDiff (api A), accountDiffs(i \<mapsto> NewAccountDiff (api A))))"

subsection \<open>The executed transactions\<close>

text \<open>The loops of the callback: the flag is false when the loop over the transactions ends there.\<close>

fun collectSpents :: "'c ledger_env \<Rightarrow> 'c LedgerState \<Rightarrow> slot \<Rightarrow> bytes \<Rightarrow> bytes list \<Rightarrow> Spent list \<Rightarrow> ledger_error + (Spent list \<times> bool)" where
  "collectSpents E L sl tx [] spents = Inr (spents, True)"
| "collectSpents E L sl tx (inputRef # refs) spents =
     (case PoolStateMetadata E L (UTXOInput inputRef) of
        Inl _ \<Rightarrow> Inr (spents, False)
      | Inr md \<Rightarrow> bind_res (outputFromState E L (metaState md)) (\<lambda>out. collectSpents E L sl tx refs (spents @ [NewSpent out tx sl])))"

fun collectOutputs :: "slot \<Rightarrow> bytes \<Rightarrow> StateMetadata list \<Rightarrow> Output list \<Rightarrow> Output list \<times> bool" where
  "collectOutputs sl blk [] outs = (outs, True)"
| "collectOutputs sl blk (md # mds) outs =
     (case metaState md of
        OutputState typedOutput \<Rightarrow> collectOutputs sl blk mds (outs @ [CopyWithBlockIDAndSlotBooked blk sl typedOutput])
      | OtherState _ _ \<Rightarrow> (outs, False))"

definition processAllotment :: "account_env \<Rightarrow> AccountsManager \<Rightarrow> slot \<Rightarrow> bytes \<times> mana \<Rightarrow> (bytes \<rightharpoonup> AccountDiff) \<Rightarrow> ledger_error + (bytes \<rightharpoonup> AccountDiff)" where
  "processAllotment A m sl = (\<lambda>(i, val) accountDiffs.
     let (d, accountDiffs) = getAccountDiff A i accountDiffs
     in case account A i (sl - 1) m of
          Inl e \<Rightarrow> Inl (LoadPanic i e)
        | Inr None \<Rightarrow> Inr accountDiffs
        | Inr (Some a) \<Rightarrow>
            Inr (accountDiffs(i \<mapsto> d\<lparr>BICChange := BICChange d + val, PreviousUpdatedTime := creditsUpdateTime (Credits a),
              PreviousExpirySlot := ExpirySlot a, NewExpirySlot := ExpirySlot a,
              NewOutputID := accountOutputID a, PreviousOutputID := accountOutputID a\<rparr>)))"

type_synonym collected = "Spent list \<times> Output list \<times> (bytes \<rightharpoonup> AccountDiff)"

definition processTransaction :: "'c ledger_env \<Rightarrow> 'c LedgerState \<Rightarrow> slot \<Rightarrow> bytes \<times> TransactionMetadata \<Rightarrow> collected \<Rightarrow> ledger_error + (collected \<times> bool)" where
  "processTransaction E L sl = (\<lambda>(_, txWithMeta) (spents, outputs, accountDiffs).
     case txTransaction txWithMeta of
       None \<Rightarrow> Inr ((spents, outputs, accountDiffs), False)
     | Some tx \<Rightarrow>
         (case txInputRefs tx of
            None \<Rightarrow> Inr ((spents, outputs, accountDiffs), False)
          | Some inputRefs \<Rightarrow>
              bind_res (collectSpents E L sl (txID txWithMeta) inputRefs spents) (\<lambda>(spents, ok).
                if \<not> ok then Inr ((spents, outputs, accountDiffs), False)
                else
                  let (outputs, ok) = collectOutputs sl (EarliestIncludedAttachment txWithMeta) (txOutputs txWithMeta) outputs
                  in if \<not> ok then Inr ((spents, outputs, accountDiffs), False)
                     else bind_res (fold_res (processAllotment (accEnv E) (accountsLedger L) sl) (txAllotments tx) accountDiffs) (\<lambda>accountDiffs.
                            Inr ((spents, outputs, accountDiffs), True)))))"

text \<open>An error of the callback ends the loop, but the function returns no error.\<close>

definition processStateDiffTransactions :: "'c ledger_env \<Rightarrow> 'c LedgerState \<Rightarrow> StateDiff \<Rightarrow> ledger_error + collected" where
  "processStateDiffTransactions E L sd = for_each (processTransaction E L (diffSlot sd)) (executedTransactions sd) ([], [], Map.empty)"

subsection \<open>Created and consumed accounts\<close>

text \<open>The event \<open>AccountCreated\<close>, which is triggered for every new account, is not part of the state of the ledger and left out.\<close>

type_synonym delegations = "bytes \<rightharpoonup> bytes \<times> base_token"

definition createdAccountID :: "'c ledger_env \<Rightarrow> Output \<Rightarrow> account_output \<Rightarrow> bytes" where
  "createdAccountID E out ao = (if aoAccountID ao = EmptyAccountID E then AccountIDFromOutputID E (outputID out) else aoAccountID ao)"

definition processCreated :: "'c ledger_env \<Rightarrow> StateMetadata \<Rightarrow> (bytes \<rightharpoonup> Output) \<times> delegations \<Rightarrow> ledger_error + ((bytes \<rightharpoonup> Output) \<times> delegations)" where
  "processCreated E md = (\<lambda>(createdAccounts, newAccountDelegation).
     case metaState md of
       OtherState _ _ \<Rightarrow> Inl UnexpectedState
     | OutputState createdOutput \<Rightarrow>
         (case DecodedOutput E createdOutput of
            AccountOut ao \<Rightarrow>
              if aoBlockIssuer ao = None \<and> aoStaking ao = None then Inr (createdAccounts, newAccountDelegation)
              else Inr (createdAccounts(createdAccountID E createdOutput ao \<mapsto> createdOutput), newAccountDelegation)
          | DelegationOut delegationID validator amount \<Rightarrow>
              if delegationID = EmptyDelegationID E
              then Inr (createdAccounts, newAccountDelegation(DelegationIDFromOutputID E (outputID createdOutput) \<mapsto> (validator, amount)))
              else Inr (createdAccounts, newAccountDelegation)
          | BasicOut (Some _) \<Rightarrow> Inr (createdAccounts(AccountIDFromOutputID E (outputID createdOutput) \<mapsto> createdOutput), newAccountDelegation)
          | _ \<Rightarrow> Inr (createdAccounts, newAccountDelegation)))"

definition changeDelegation :: "account_env \<Rightarrow> bytes \<Rightarrow> i64 \<Rightarrow> (bytes \<rightharpoonup> AccountDiff) \<Rightarrow> (bytes \<rightharpoonup> AccountDiff)" where
  "changeDelegation A validator change accountDiffs =
     (let (d, accountDiffs) = getAccountDiff A validator accountDiffs
      in accountDiffs(validator \<mapsto> d\<lparr>DelegationStakeChange := DelegationStakeChange d + change\<rparr>))"

type_synonym consumed_state = "(bytes \<rightharpoonup> Output) \<times> bytes set \<times> delegations \<times> (bytes \<rightharpoonup> AccountDiff)"

definition processDestroyed :: "'c ledger_env \<Rightarrow> (bytes \<rightharpoonup> Output) \<Rightarrow> StateMetadata \<Rightarrow> consumed_state \<Rightarrow> ledger_error + consumed_state" where
  "processDestroyed E createdAccounts md = (\<lambda>(consumedAccounts, destroyedAccounts, newAccountDelegation, accountDiffs).
     case metaState md of
       OtherState _ _ \<Rightarrow> Inl UnexpectedState
     | OutputState out \<Rightarrow>
         (case DecodedOutput E out of
            AccountOut ao \<Rightarrow>
              if aoBlockIssuer ao = None \<and> aoStaking ao = None then Inr (consumedAccounts, destroyedAccounts, newAccountDelegation, accountDiffs)
              else
                let consumedAccounts = consumedAccounts(aoAccountID ao \<mapsto> out);
                    destroyedAccounts = (if createdAccounts (aoAccountID ao) = None then insert (aoAccountID ao) destroyedAccounts else destroyedAccounts)
                in Inr (consumedAccounts, destroyedAccounts, newAccountDelegation, accountDiffs)
          | DelegationOut d validator amount \<Rightarrow>
              let delegationID = (if d = EmptyDelegationID E then DelegationIDFromOutputID E (outputID out) else d)
              in if newAccountDelegation delegationID \<noteq> None
                 then Inr (consumedAccounts, destroyedAccounts, newAccountDelegation(delegationID := None), accountDiffs)
                 else if d = EmptyDelegationID E
                 then Inr (consumedAccounts, destroyedAccounts, newAccountDelegation, changeDelegation (accEnv E) validator (- amount) accountDiffs)
                 else Inr (consumedAccounts, destroyedAccounts, newAccountDelegation, accountDiffs)
          | BasicOut (Some _) \<Rightarrow>
              Inr (consumedAccounts(AccountIDFromOutputID E (outputID out) \<mapsto> out), destroyedAccounts, newAccountDelegation, accountDiffs)
          | _ \<Rightarrow> Inr (consumedAccounts, destroyedAccounts, newAccountDelegation, accountDiffs)))"

text \<open>The result: created, consumed and destroyed accounts, and the account diffs.\<close>

definition processCreatedAndConsumedAccountOutputs ::
  "'c ledger_env \<Rightarrow> StateDiff \<Rightarrow> (bytes \<rightharpoonup> AccountDiff) \<Rightarrow> ledger_error + ((bytes \<rightharpoonup> Output) \<times> (bytes \<rightharpoonup> Output) \<times> bytes set \<times> (bytes \<rightharpoonup> AccountDiff))" where
  "processCreatedAndConsumedAccountOutputs E sd accountDiffs =
     (let ord = order (accEnv E);
          created = map (\<lambda>i. the (createdOutputs sd i)) (ord (dom (createdOutputs sd)));
          spent = map (\<lambda>i. the (spentOutputs sd i)) (ord (dom (spentOutputs sd)))
      in bind_res (fold_res (processCreated E) created (Map.empty, Map.empty)) (\<lambda>(createdAccounts, newAccountDelegation).
         bind_res (fold_res (processDestroyed E createdAccounts) spent (Map.empty, {}, newAccountDelegation, accountDiffs))
           (\<lambda>(consumedAccounts, destroyedAccounts, newAccountDelegation, accountDiffs).
              let accountDiffs = fold (\<lambda>i. changeDelegation (accEnv E) (fst (the (newAccountDelegation i))) (snd (the (newAccountDelegation i))))
                    (ord (dom newAccountDelegation)) accountDiffs
              in Inr (createdAccounts, consumedAccounts, destroyedAccounts, accountDiffs))))"

subsection \<open>The diffs of the accounts\<close>

definition keysWithout :: "'c ledger_env \<Rightarrow> issuer_key list \<Rightarrow> issuer_key list \<Rightarrow> issuer_key list" where
  "keysWithout E ks other = fold (\<lambda>k acc. if \<not> KeysHas E other k then KeysAdd (api (accEnv E)) k acc else acc) ks []"

text \<open>Case 2 of \<open>prepareAccountDiffs\<close>: the account is transitioned; \<open>None\<close> if a feature is missing.\<close>

definition transitionDiff :: "'c ledger_env \<Rightarrow> Output \<Rightarrow> Output \<Rightarrow> AccountData \<Rightarrow> AccountDiff \<Rightarrow> AccountDiff option" where
  "transitionDiff E consumedOutput createdOutput a d =
     (let old = DecodedOutput E consumedOutput; new = DecodedOutput E createdOutput in
      case (case old of AccountOut ao \<Rightarrow> map_option snd (aoBlockIssuer ao) | BasicOut _ \<Rightarrow> Some max_slot | _ \<Rightarrow> Some (PreviousExpirySlot d)) of
        None \<Rightarrow> None
      | Some previousExpiry \<Rightarrow>
          (case blockIssuerOf new of
             None \<Rightarrow> None
           | Some (keys, expiry) \<Rightarrow>
               let newPubKeysSet = fold (KeysAdd (api (accEnv E))) keys [];
                   d = d\<lparr>PreviousExpirySlot := previousExpiry, PreviousOutputID := outputID consumedOutput, NewOutputID := outputID createdOutput,
                        NewExpirySlot := expiry, BlockIssuerKeysAdded := keysWithout E newPubKeysSet (BlockIssuerKeys a),
                        BlockIssuerKeysRemoved := keysWithout E (BlockIssuerKeys a) newPubKeysSet\<rparr>
               in Some (case stakingOf new of
                          Some (staked, endEpoch, cost) \<Rightarrow>
                            d\<lparr>ValidatorStakeChange := staked - ValidatorStake a, StakeEndEpochChange := ucast endEpoch - ucast (StakeEndEpoch a),
                              FixedCostChange := cost - FixedCost a\<rparr>
                        | None \<Rightarrow>
                            if stakingOf old \<noteq> None
                            then d\<lparr>ValidatorStakeChange := - ValidatorStake a, StakeEndEpochChange := - ucast (StakeEndEpoch a), FixedCostChange := - FixedCost a\<rparr>
                            else d)))"

text \<open>Case 3: the account is new.\<close>

definition creationDiff :: "'c ledger_env \<Rightarrow> Output \<Rightarrow> AccountDiff \<Rightarrow> AccountDiff option" where
  "creationDiff E createdOutput d =
     (let d = d\<lparr>NewOutputID := outputID createdOutput, PreviousOutputID := EmptyOutputID (api (accEnv E)), PreviousExpirySlot := 0\<rparr> in
      case DecodedOutput E createdOutput of
        AccountOut ao \<Rightarrow>
          (case aoBlockIssuer ao of
             None \<Rightarrow> None
           | Some (keys, expiry) \<Rightarrow>
               let d = d\<lparr>BlockIssuerKeysAdded := keys, NewExpirySlot := expiry\<rparr>
               in Some (case aoStaking ao of
                          Some (staked, endEpoch, cost) \<Rightarrow> d\<lparr>ValidatorStakeChange := staked, StakeEndEpochChange := ucast endEpoch, FixedCostChange := cost\<rparr>
                        | None \<Rightarrow> d))
      | BasicOut (Some address) \<Rightarrow>
          Some (d\<lparr>BlockIssuerKeysAdded := KeysAdd (api (accEnv E)) (KeyFromImplicitAddress (api (accEnv E)) address) [], NewExpirySlot := max_slot\<rparr>)
      | BasicOut None \<Rightarrow> None
      | _ \<Rightarrow> Some d)"

definition prepareConsumed :: "'c ledger_env \<Rightarrow> AccountsManager \<Rightarrow> slot \<Rightarrow> (bytes \<rightharpoonup> Output) \<Rightarrow> (bytes \<rightharpoonup> Output) \<Rightarrow> bytes \<Rightarrow>
    (bytes \<rightharpoonup> AccountDiff) \<Rightarrow> ledger_error + (bytes \<rightharpoonup> AccountDiff)" where
  "prepareConsumed E m sl consumedAccounts createdAccounts i accountDiffs =
     (let (d, accountDiffs) = getAccountDiff (accEnv E) i accountDiffs
      in case account (accEnv E) i (sl - 1) m of
           Inl e \<Rightarrow> Inl (LoadPanic i e)
         | Inr None \<Rightarrow> Inl (MissingAccountPanic i)
         | Inr (Some a) \<Rightarrow>
             (case createdAccounts i of
                None \<Rightarrow> Inr accountDiffs
              | Some createdOutput \<Rightarrow>
                  bind_res (or_err NilPanic (transitionDiff E (the (consumedAccounts i)) createdOutput a d)) (\<lambda>d. Inr (accountDiffs(i \<mapsto> d)))))"

definition prepareCreated :: "'c ledger_env \<Rightarrow> (bytes \<rightharpoonup> Output) \<Rightarrow> (bytes \<rightharpoonup> Output) \<Rightarrow> bytes \<Rightarrow>
    (bytes \<rightharpoonup> AccountDiff) \<Rightarrow> ledger_error + (bytes \<rightharpoonup> AccountDiff)" where
  "prepareCreated E consumedAccounts createdAccounts i accountDiffs =
     (if consumedAccounts i \<noteq> None then Inr accountDiffs
      else
        let (d, accountDiffs) = getAccountDiff (accEnv E) i accountDiffs
        in bind_res (or_err NilPanic (creationDiff E (the (createdAccounts i)) d)) (\<lambda>d. Inr (accountDiffs(i \<mapsto> d))))"

definition prepareAccountDiffs :: "'c ledger_env \<Rightarrow> AccountsManager \<Rightarrow> (bytes \<rightharpoonup> AccountDiff) \<Rightarrow> slot \<Rightarrow> (bytes \<rightharpoonup> Output) \<Rightarrow> (bytes \<rightharpoonup> Output) \<Rightarrow>
    ledger_error + (bytes \<rightharpoonup> AccountDiff)" where
  "prepareAccountDiffs E m accountDiffs sl consumedAccounts createdAccounts =
     bind_res (fold_res (prepareConsumed E m sl consumedAccounts createdAccounts) (order (accEnv E) (dom consumedAccounts)) accountDiffs)
       (fold_res (prepareCreated E consumedAccounts createdAccounts) (order (accEnv E) (dom createdAccounts)))"

section \<open>Committing a slot\<close>

text \<open>
  The roots of the state tree, of the mutations and of the accounts. After an error the engine does
  not go on with the ledger, so only the error is kept. A failed \<open>SafeSub\<close> returns 0.
\<close>

definition Ledger_CommitSlot :: "'c ledger_env \<Rightarrow> slot \<Rightarrow> 'c LedgerState \<Rightarrow> ledger_error + ((bytes \<times> bytes \<times> bytes) \<times> 'c LedgerState)" where
  "Ledger_CommitSlot E sl L =
     bind_res (lift_err UtxoError (ReadLedgerIndexWithoutLocking (utxoEnv E) (utxoLedger L))) (\<lambda>ledgerIndex.
     if sl \<noteq> ledgerIndex + 1 then Inl (GapPanic (ledgerIndex + 1) sl)
     else
     bind_res (or_err (StateDiffError sl) (PoolStateDiff E sl (memPool L))) (\<lambda>(stateDiff, pool).
     let L = L\<lparr>memPool := pool\<rparr> in
     bind_res (processStateDiffTransactions E L stateDiff) (\<lambda>(spends, outputs, accountDiffs).
     bind_res (processCreatedAndConsumedAccountOutputs E stateDiff accountDiffs) (\<lambda>(createdAccounts, consumedAccounts, destroyedAccounts, accountDiffs).
     bind_res (prepareAccountDiffs E (accountsLedger L) accountDiffs sl consumedAccounts createdAccounts) (\<lambda>accountDiffs.
     let utxo = ApplyDiffWithoutLocking (utxoEnv E) sl outputs spends (utxoLedger L);
         rmcIndex = (case SafeSub (slotMath E) sl (MaxCommittableAge (accEnv E) sl) of None \<Rightarrow> 0 | Some s \<Rightarrow> s)
     in bind_res (lift_err RmcError (RMC (rmcEnv E) rmcIndex (rmcManager L))) (\<lambda>rmcForSlot.
        bind_res (lift_err AccountsError (applyDiffs (accEnv E) sl rmcForSlot accountDiffs destroyedAccounts (accountsLedger L))) (\<lambda>(accountDiffs, accs).
        bind_res (lift_err ManaError (Mana_ApplyDiff (manaEnv E) (cacheOps E) (accountSource E accs utxo) sl destroyedAccounts createdAccounts accountDiffs (manaCache L))) (\<lambda>mc.
        let pool = pool\<lparr>committedTransactions := committedTransactions pool @ map fst (executedTransactions stateDiff)\<rparr>
        in Inr ((StateTreeRoot (utxoEnv E) utxo, MutationsRoot E (mutations stateDiff), AccountsRoot E (accountsTree accs)),
                L\<lparr>utxoLedger := utxo, accountsLedger := accs, manaCache := mc, memPool := pool\<rparr>)))))))))"

definition Ledger_AddAccount :: "'c ledger_env \<Rightarrow> Output \<Rightarrow> i64 \<Rightarrow> 'c LedgerState \<Rightarrow> account_error + 'c LedgerState" where
  "Ledger_AddAccount E out credits L =
     bind_res (AddAccount (accEnv E) (outputID out) (case DecodedOutput E out of AccountOut ao \<Rightarrow> Some ao | _ \<Rightarrow> None) credits (accountsLedger L))
       (\<lambda>m. Inr (L\<lparr>accountsLedger := m\<rparr>))"

definition Ledger_AddGenesisUnspentOutput :: "'c ledger_env \<Rightarrow> Output \<Rightarrow> 'c LedgerState \<Rightarrow> 'c LedgerState" where
  "Ledger_AddGenesisUnspentOutput E out L = L\<lparr>utxoLedger := AddGenesisUnspentOutputWithoutLocking (utxoEnv E) out (utxoLedger L)\<rparr>"

end
