(* ===== verification/LedgerProperties.thy ===== *)
theory LedgerProperties
  imports LedgerCommit
begin

text \<open>
  What committing a slot does to the accounts: the account tree mirrors the outputs of the accounts
  that the slot created or transitioned, loses the destroyed ones and leaves the others alone. And
  the inputs on which the commit panics or an output is not found.
\<close>

section \<open>Loops that change one key per step\<close>

lemma fold_res_keyed:
  assumes "fold_res f xs s = Inr t" "distinct xs"
    and step: "\<And>i s t. i \<in> set xs \<Longrightarrow> f i s = Inr t \<Longrightarrow> (\<forall>j. j \<noteq> i \<longrightarrow> t j = s j) \<and> R i (s i) (t i)"
  shows "if i \<in> set xs then R i (s i) (t i) else t i = s i"
  using assms
proof (induction xs arbitrary: s)
  case (Cons x xs)
  then obtain u where u: "f x s = Inr u" "fold_res f xs u = Inr t" by auto
  note s = Cons.prems(3)[of x, OF _ u(1)]
  have "if i \<in> set xs then R i (u i) (t i) else t i = u i"
    by (rule Cons.IH[OF u(2)]) (use Cons.prems in auto)
  then show ?case using s Cons.prems(2) by (auto split: if_splits)
qed simp

lemma for_each_invariant:
  assumes "for_each f xs s = Inr t" "P s" "\<And>x s s' b. x \<in> set xs \<Longrightarrow> P s \<Longrightarrow> f x s = Inr (s', b) \<Longrightarrow> P s'"
  shows "P t"
  using assms
proof (induction xs arbitrary: s)
  case (Cons x xs)
  obtain u b where u: "f x s = Inr (u, b)" "if b then for_each f xs u = Inr t else u = t" using Cons.prems(1) by (auto split: if_splits)
  have "P u" using Cons.prems(3)[OF _ Cons.prems(2) u(1)] by simp
  then show ?case using u(2) Cons.IH[of u] Cons.prems(3) by (auto split: if_splits)
qed simp

section \<open>The account at the latest slot\<close>

definition at_latest :: "account_env \<Rightarrow> AccountsManager \<Rightarrow> bool" where
  "at_latest A m \<longleftrightarrow> \<not> latestCommittedSlot m + MaxCommittableAge A (latestCommittedSlot m) < latestCommittedSlot m"

lemma account_at_latest:
  assumes "at_latest A m"
  shows "account A i (latestCommittedSlot m) m = Inr (accountsTree m i)"
  using assms by (auto simp: account_def at_latest_def rollbackAccountTo_def for_down_res_stop Let_def split: option.splits)

section \<open>Diffs that leave the output of an account alone\<close>

definition plain :: "account_env \<Rightarrow> AccountsManager \<Rightarrow> bytes \<Rightarrow> AccountDiff \<Rightarrow> bool" where
  "plain A m i d \<longleftrightarrow> ValidatorStakeChange d = 0 \<and> StakeEndEpochChange d = 0 \<and> FixedCostChange d = 0 \<and>
     BlockIssuerKeysAdded d = [] \<and> BlockIssuerKeysRemoved d = [] \<and> PreviousExpirySlot d = NewExpirySlot d \<and>
     (NewOutputID d = EmptyOutputID (api A) \<or> (\<exists>a. accountsTree m i = Some a \<and> NewOutputID d = accountOutputID a))"

definition diffs_plain :: "account_env \<Rightarrow> AccountsManager \<Rightarrow> (bytes \<rightharpoonup> AccountDiff) \<Rightarrow> bool" where
  "diffs_plain A m ds \<longleftrightarrow> finite (dom ds) \<and> (\<forall>i d. ds i = Some d \<longrightarrow> plain A m i d)"

lemma plain_new: "plain A m i (NewAccountDiff (api A))"
  by (simp add: plain_def NewAccountDiff_def)

lemma diffs_plain_upd: "diffs_plain A m ds \<Longrightarrow> plain A m i d \<Longrightarrow> diffs_plain A m (ds(i \<mapsto> d))"
  by (simp add: diffs_plain_def)

lemma getAccountDiff_plain:
  assumes "diffs_plain A m ds" "getAccountDiff A i ds = (d, ds')"
  shows "diffs_plain A m ds'" "plain A m i d" "ds' = ds(i \<mapsto> d)" "d = diffOf A ds i"
proof -
  show upd: "ds' = ds(i \<mapsto> d)" "d = diffOf A ds i" using assms(2) by (auto simp: getAccountDiff_def diffOf_def split: option.splits)
  show d: "plain A m i d" using assms(1) plain_new[of A m i] by (auto simp: upd(2) diffOf_def diffs_plain_def split: option.splits)
  show "diffs_plain A m ds'" unfolding upd(1) by (rule diffs_plain_upd[OF assms(1) d])
qed

lemma processAllotment_plain:
  assumes "at_latest A m" "diffs_plain A m ds" "processAllotment A m (latestCommittedSlot m + 1) x ds = Inr ds'"
  shows "diffs_plain A m ds'"
proof -
  obtain i v where x: "x = (i, v)" by fastforce
  obtain d ds0 where d: "getAccountDiff A i ds = (d, ds0)" by fastforce
  note g = getAccountDiff_plain[OF assms(2) d]
  show ?thesis
    using assms(3) g(1) diffs_plain_upd[OF g(1)] g(2) account_at_latest[OF assms(1), of i]
    by (auto simp: processAllotment_def x d plain_def split: option.splits)
qed

lemma changeDelegation_plain: "diffs_plain A m ds \<Longrightarrow> diffs_plain A m (changeDelegation A v c ds)"
  using getAccountDiff_plain[of A m ds v] by (auto simp: changeDelegation_def Let_def plain_def split: prod.splits intro!: diffs_plain_upd)

lemma processStateDiffTransactions_plain:
  assumes "at_latest (accEnv E) (accountsLedger L)" "diffSlot sd = latestCommittedSlot (accountsLedger L) + 1"
    and "processStateDiffTransactions E L sd = Inr (sp, outs, ds)"
  shows "diffs_plain (accEnv E) (accountsLedger L) ds"
proof -
  let ?P = "\<lambda>(s :: collected). diffs_plain (accEnv E) (accountsLedger L) (snd (snd s))"
  have "?P (sp, outs, ds)"
  proof (rule for_each_invariant[where P = ?P, OF assms(3)[unfolded processStateDiffTransactions_def]])
    fix x s s' b assume P: "?P s" and step: "processTransaction E L (diffSlot sd) x s = Inr (s', b)"
    have "?P s'" if "fold_res (processAllotment (accEnv E) (accountsLedger L) (diffSlot sd)) as (snd (snd s)) = Inr (snd (snd s'))" for as
      by (rule fold_res_invariant[where P = "diffs_plain (accEnv E) (accountsLedger L)", OF that P]) (use processAllotment_plain[OF assms(1)] assms(2) in auto)
    then show "?P s'"
      using step P by (cases s) (auto simp: processTransaction_def split: prod.splits option.splits if_splits)
  qed (simp add: diffs_plain_def)
  then show ?thesis by simp
qed

section \<open>Created and consumed accounts\<close>

definition createdID :: "'c ledger_env \<Rightarrow> Output \<Rightarrow> bytes option" where
  "createdID E out =
     (case DecodedOutput E out of
        AccountOut ao \<Rightarrow> if aoBlockIssuer ao = None \<and> aoStaking ao = None then None else Some (createdAccountID E out ao)
      | BasicOut (Some _) \<Rightarrow> Some (AccountIDFromOutputID E (outputID out))
      | _ \<Rightarrow> None)"

definition consumedID :: "'c ledger_env \<Rightarrow> Output \<Rightarrow> bytes option" where
  "consumedID E out =
     (case DecodedOutput E out of
        AccountOut ao \<Rightarrow> if aoBlockIssuer ao = None \<and> aoStaking ao = None then None else Some (aoAccountID ao)
      | BasicOut (Some _) \<Rightarrow> Some (AccountIDFromOutputID E (outputID out))
      | _ \<Rightarrow> None)"

definition stateOf :: "StateMetadata set \<Rightarrow> (Output \<Rightarrow> bytes option) \<Rightarrow> bytes \<Rightarrow> Output \<Rightarrow> bool" where
  "stateOf mds ident i out \<longleftrightarrow> (\<exists>md \<in> mds. metaState md = OutputState out) \<and> ident out = Some i"

fun isAccountOut :: "ledger_output \<Rightarrow> bool" where
  "isAccountOut (AccountOut _) = True"
| "isAccountOut _ = False"

lemma upd_ident:
  assumes "c1 = (case ident of None \<Rightarrow> c | Some i \<Rightarrow> c(i \<mapsto> out))"
  shows "c1 i = Some x \<Longrightarrow> c i = Some x \<or> (x = out \<and> ident = Some i)" "c i \<noteq> None \<or> ident = Some i \<Longrightarrow> c1 i \<noteq> None"
  using assms by (auto split: option.splits if_splits)

lemma processCreated_step:
  assumes "processCreated E md (c, dl) = Inr (c', dl')"
  shows "\<exists>out. metaState md = OutputState out \<and> c' = (case createdID E out of None \<Rightarrow> c | Some i \<Rightarrow> c(i \<mapsto> out))"
  using assms by (auto simp: processCreated_def createdID_def split: mempool_state.splits ledger_output.splits option.splits if_splits)

lemma created_fold:
  assumes "fold_res (processCreated E) mds (c, dl) = Inr (c', dl')"
  shows "(\<forall>i out. c' i = Some out \<longrightarrow> c i = Some out \<or> stateOf (set mds) (createdID E) i out) \<and>
    (\<forall>i. c i \<noteq> None \<or> (\<exists>out. stateOf (set mds) (createdID E) i out) \<longrightarrow> c' i \<noteq> None)"
  using assms
proof (induction mds arbitrary: c dl)
  case (Cons md mds)
  then obtain c1 dl1 where 1: "processCreated E md (c, dl) = Inr (c1, dl1)" "fold_res (processCreated E) mds (c1, dl1) = Inr (c', dl')" by auto
  obtain out where out: "metaState md = OutputState out" "c1 = (case createdID E out of None \<Rightarrow> c | Some i \<Rightarrow> c(i \<mapsto> out))"
    using processCreated_step[OF 1(1)] by blast
  have st: "stateOf (set (md # mds)) (createdID E) i o' \<longleftrightarrow> (o' = out \<and> createdID E out = Some i) \<or> stateOf (set mds) (createdID E) i o'" for i o'
    by (auto simp: stateOf_def out(1))
  show ?case using Cons.IH[OF 1(2)] upd_ident[OF out(2)] unfolding st by blast
qed (auto simp: stateOf_def)

lemma processDestroyed_step:
  assumes "processDestroyed E cre md (c, D, dl, ds) = Inr (c', D', dl', ds')" "diffs_plain (accEnv E) m ds"
  shows "\<exists>out. metaState md = OutputState out \<and> c' = (case consumedID E out of None \<Rightarrow> c | Some i \<Rightarrow> c(i \<mapsto> out)) \<and>
    D' = (if isAccountOut (DecodedOutput E out) then (case consumedID E out of Some i \<Rightarrow> if cre i = None then insert i D else D | None \<Rightarrow> D) else D) \<and>
    diffs_plain (accEnv E) m ds'"
  using assms by (auto simp: processDestroyed_def consumedID_def changeDelegation_plain Let_def split: mempool_state.splits ledger_output.splits option.splits if_splits)

lemma destroyed_fold:
  assumes "fold_res (processDestroyed E cre) mds (c, D, dl, ds) = Inr (c', D', dl', ds')" "diffs_plain (accEnv E) m ds"
  shows "(\<forall>i out. c' i = Some out \<longrightarrow> c i = Some out \<or> stateOf (set mds) (consumedID E) i out) \<and>
    (\<forall>i. c i \<noteq> None \<or> (\<exists>out. stateOf (set mds) (consumedID E) i out) \<longrightarrow> c' i \<noteq> None) \<and>
    (\<forall>i. i \<in> D' \<longleftrightarrow> i \<in> D \<or> cre i = None \<and> (\<exists>out. stateOf (set mds) (consumedID E) i out \<and> isAccountOut (DecodedOutput E out))) \<and>
    diffs_plain (accEnv E) m ds'"
  using assms
proof (induction mds arbitrary: c D dl ds)
  case (Cons md mds)
  then obtain c1 D1 dl1 ds1 where 1: "processDestroyed E cre md (c, D, dl, ds) = Inr (c1, D1, dl1, ds1)"
    "fold_res (processDestroyed E cre) mds (c1, D1, dl1, ds1) = Inr (c', D', dl', ds')" by auto
  obtain out where out: "metaState md = OutputState out" "c1 = (case consumedID E out of None \<Rightarrow> c | Some i \<Rightarrow> c(i \<mapsto> out))"
    "D1 = (if isAccountOut (DecodedOutput E out) then (case consumedID E out of Some i \<Rightarrow> if cre i = None then insert i D else D | None \<Rightarrow> D) else D)"
    "diffs_plain (accEnv E) m ds1"
    using processDestroyed_step[OF 1(1) Cons.prems(2)] by blast
  have st: "stateOf (set (md # mds)) (consumedID E) i o' \<longleftrightarrow> (o' = out \<and> consumedID E out = Some i) \<or> stateOf (set mds) (consumedID E) i o'" for i o'
    by (auto simp: stateOf_def out(1))
  note IH = Cons.IH[OF 1(2) out(4)]
  have "i \<in> D' \<longleftrightarrow> i \<in> D \<or> cre i = None \<and> (\<exists>o'. stateOf (set (md # mds)) (consumedID E) i o' \<and> isAccountOut (DecodedOutput E o'))" for i
    using IH unfolding st by (auto simp: out(3) split: option.splits if_splits)
  moreover have "\<forall>i o'. c' i = Some o' \<longrightarrow> c i = Some o' \<or> stateOf (set (md # mds)) (consumedID E) i o'"
    "\<forall>i. c i \<noteq> None \<or> (\<exists>o'. stateOf (set (md # mds)) (consumedID E) i o') \<longrightarrow> c' i \<noteq> None"
    using IH upd_ident[OF out(2)] unfolding st by blast+
  ultimately show ?case using IH by blast
qed (auto simp: stateOf_def)

text \<open>The states of a state diff and the accounts they belong to.\<close>

definition createdBy :: "'c ledger_env \<Rightarrow> StateDiff \<Rightarrow> bytes \<Rightarrow> Output \<Rightarrow> bool" where
  "createdBy E sd = stateOf (ran (createdOutputs sd)) (createdID E)"

definition consumedBy :: "'c ledger_env \<Rightarrow> StateDiff \<Rightarrow> bytes \<Rightarrow> Output \<Rightarrow> bool" where
  "consumedBy E sd = stateOf (ran (spentOutputs sd)) (consumedID E)"

text \<open>No account is created by two outputs of the slot or consumed by two.\<close>

definition unique_outputs :: "'c ledger_env \<Rightarrow> StateDiff \<Rightarrow> bool" where
  "unique_outputs E sd \<longleftrightarrow> finite (dom (createdOutputs sd)) \<and> finite (dom (spentOutputs sd)) \<and>
     (\<forall>i x y. createdBy E sd i x \<and> createdBy E sd i y \<longrightarrow> x = y) \<and> (\<forall>i x y. consumedBy E sd i x \<and> consumedBy E sd i y \<longrightarrow> x = y)"

lemma map_of_states:
  assumes "\<forall>i out. c' i = Some out \<longrightarrow> P i out" "\<forall>i. (\<exists>out. P i out) \<longrightarrow> c' i \<noteq> None" "\<forall>i x y. P i x \<and> P i y \<longrightarrow> x = y"
  shows "c' i = Some out \<longleftrightarrow> P i out"
  using assms by (metis option.exhaust)

lemma account_outputs:
  assumes "account_env_ok (accEnv E)" "unique_outputs E sd" "diffs_plain (accEnv E) m ds"
    and "processCreatedAndConsumedAccountOutputs E sd ds = Inr (cre, con, D, ds')"
  shows "cre i = Some out \<longleftrightarrow> createdBy E sd i out" "con i = Some out \<longleftrightarrow> consumedBy E sd i out"
    "i \<in> D \<longleftrightarrow> cre i = None \<and> (\<exists>out. consumedBy E sd i out \<and> isAccountOut (DecodedOutput E out))"
    "diffs_plain (accEnv E) m ds'"
proof -
  let ?ord = "order (accEnv E)"
  let ?cs = "map (\<lambda>i. the (createdOutputs sd i)) (?ord (dom (createdOutputs sd)))"
  let ?ss = "map (\<lambda>i. the (spentOutputs sd i)) (?ord (dom (spentOutputs sd)))"
  have ord: "set (?ord S) = S" if "finite S" for S using assms(1) that by (simp add: account_env_ok_def)
  have "(\<lambda>i. the (f i)) ` dom f = ran f" for f :: "bytes \<rightharpoonup> StateMetadata" by (force simp: ran_def)
  then have sets: "set ?cs = ran (createdOutputs sd)" "set ?ss = ran (spentOutputs sd)"
    using assms(2) by (simp_all add: unique_outputs_def ord)
  obtain dl dl' ds1 where 1: "fold_res (processCreated E) ?cs (Map.empty, Map.empty) = Inr (cre, dl)"
    "fold_res (processDestroyed E cre) ?ss (Map.empty, {}, dl, ds) = Inr (con, D, dl', ds1)"
    "ds' = fold (\<lambda>i. changeDelegation (accEnv E) (fst (the (dl' i))) (snd (the (dl' i)))) (?ord (dom dl')) ds1"
    using assms(4) by (auto simp: processCreatedAndConsumedAccountOutputs_def Let_def)
  note c = created_fold[OF 1(1), unfolded sets]
  note d = destroyed_fold[OF 1(2) assms(3), unfolded sets]
  show "cre i = Some out \<longleftrightarrow> createdBy E sd i out"
    by (rule map_of_states) (use c assms(2) in \<open>auto simp: createdBy_def unique_outputs_def\<close>)
  show "con i = Some out \<longleftrightarrow> consumedBy E sd i out"
    by (rule map_of_states) (use d assms(2) in \<open>auto simp: consumedBy_def unique_outputs_def\<close>)
  show "i \<in> D \<longleftrightarrow> cre i = None \<and> (\<exists>out. consumedBy E sd i out \<and> isAccountOut (DecodedOutput E out))"
    using d by (auto simp: consumedBy_def)
  show "diffs_plain (accEnv E) m ds'"
    unfolding 1(3) by (rule fold_keeps[where P = "diffs_plain (accEnv E) m"]) (use d changeDelegation_plain in auto)
qed

section \<open>What the diff of an account does to it\<close>

lemma set_keys:
  assumes "keys_spec A" "keys_ok ks0"
  shows "set (fold (KeysAdd A) ks ks0) = set ks \<union> set ks0" "keys_ok (fold (KeysAdd A) ks ks0)"
    "set (fold (KeysRemove A) ks ks0) = set ks0 - set ks" "keys_ok (fold (KeysRemove A) ks ks0)"
  using fold_KeysAdd[OF assms, of ks] fold_KeysRemove[OF assms, of ks]
  by (metis finite_Un finite_set set_sorted_list_of_set, blast, metis finite_Diff finite_set set_sorted_list_of_set, blast)

definition keys_has_ok :: "'c ledger_env \<Rightarrow> bool" where
  "keys_has_ok E \<longleftrightarrow> (\<forall>ks k. KeysHas E ks k \<longleftrightarrow> k \<in> set ks)"

lemma set_keysWithout:
  assumes "keys_spec (api (accEnv E))" "keys_has_ok E"
  shows "set (keysWithout E ks other) = set ks - set other"
proof -
  have f: "fold (\<lambda>k acc. if \<not> KeysHas E other k then KeysAdd A k acc else acc) ks acc = fold (KeysAdd A) (filter (\<lambda>k. k \<notin> set other) ks) acc" for A acc
    using assms(2) by (induction ks arbitrary: acc) (simp_all add: keys_has_ok_def)
  have "keys_ok []" by (simp add: keys_ok_def)
  then show ?thesis unfolding keysWithout_def f using set_keys(1)[OF assms(1)] by auto
qed

definition sameFields :: "AccountDiff \<Rightarrow> AccountDiff \<Rightarrow> bool" where
  "sameFields d d' \<longleftrightarrow> (\<exists>b v w. d' = d\<lparr>BICChange := b, PrevLatestSupportedVersionAndHash := v, NewLatestSupportedVersionAndHash := w\<rparr>)"

lemma sameFields_refl: "sameFields d d"
  unfolding sameFields_def
  by (rule exI[of _ "BICChange d"], rule exI[of _ "PrevLatestSupportedVersionAndHash d"], rule exI[of _ "NewLatestSupportedVersionAndHash d"]) simp

lemma sameFields_upd:
  assumes "sameFields d d'"
  shows "sameFields d (d'\<lparr>BICChange := b\<rparr>)" "sameFields d (d'\<lparr>NewLatestSupportedVersionAndHash := w, PrevLatestSupportedVersionAndHash := v\<rparr>)"
proof -
  obtain b' v' w' where d': "d' = d\<lparr>BICChange := b', PrevLatestSupportedVersionAndHash := v', NewLatestSupportedVersionAndHash := w'\<rparr>"
    using assms by (auto simp: sameFields_def)
  have "d'\<lparr>BICChange := b\<rparr> = d\<lparr>BICChange := b, PrevLatestSupportedVersionAndHash := v', NewLatestSupportedVersionAndHash := w'\<rparr>"
    "d'\<lparr>NewLatestSupportedVersionAndHash := w, PrevLatestSupportedVersionAndHash := v\<rparr> = d\<lparr>BICChange := b', PrevLatestSupportedVersionAndHash := v, NewLatestSupportedVersionAndHash := w\<rparr>"
    by (simp_all add: d')
  then show "sameFields d (d'\<lparr>BICChange := b\<rparr>)" "sameFields d (d'\<lparr>NewLatestSupportedVersionAndHash := w, PrevLatestSupportedVersionAndHash := v\<rparr>)"
    unfolding sameFields_def by blast+
qed

lemma slotDiffs_fields:
  assumes "slotDiffs E sl cost ds m = Inr X"
  shows "ds i \<noteq> None \<Longrightarrow> X i \<noteq> None" "X i = Some d' \<Longrightarrow> sameFields (diffOf E ds i) d'"
proof -
  let ?P = "\<lambda>ds'. (ds i \<noteq> None \<longrightarrow> ds' i \<noteq> None) \<and> (\<forall>d'. ds' i = Some d' \<longrightarrow> sameFields (diffOf E ds i) d')"
  let ?b = "\<lambda>burns j ds. let d = diffOf E ds j in ds(j \<mapsto> d\<lparr>BICChange := BICChange d - the (burns j)\<rparr>)"
  obtain burns :: "bytes \<Rightarrow> mana option" where X: "X = updateSlotDiffWithVersionSignals E sl (fold (?b burns) (order E (dom burns)) ds) m"
    using assms by (auto simp: slotDiffs_def updateSlotDiffWithBurns_def)
  have same: "sameFields (diffOf E ds i) (diffOf E ds' i)" if "?P ds'" for ds'
    using that sameFields_refl by (cases "ds' i") (auto simp: diffOf_def)
  have 1: "?P (fold (?b burns) xs ds)" for xs
    by (rule fold_keeps[where P = ?P]) (use same sameFields_upd(1) sameFields_refl in \<open>auto simp: Let_def diffOf_def\<close>)
  have 2: "?P (fold (signalVersion E m sg) xs ds')" if "?P ds'" for sg xs ds'
    by (rule fold_keeps[where P = ?P]) (use that same sameFields_upd(2) in \<open>auto simp: signalVersion_def Let_def\<close>)
  have "?P X"
  proof (cases "latestSupportedVersionSignals m sl")
    case None
    then show ?thesis unfolding X updateSlotDiffWithVersionSignals_def using 1 by simp
  next
    case (Some sg)
    show ?thesis unfolding X updateSlotDiffWithVersionSignals_def Some option.case by (rule 2, rule 1)
  qed
  then show "ds i \<noteq> None \<Longrightarrow> X i \<noteq> None" "X i = Some d' \<Longrightarrow> sameFields (diffOf E ds i) d'" by blast+
qed

lemma safe_add_word:
  assumes "safemath_signed sm" "SafeAdd sm a b = Some r"
  shows "r = a + b"
  using assms by (auto simp: safemath_signed_def checked_signed_def split: if_splits)

text \<open>The account after its diff, in terms of the diff before burns, signals and decay.\<close>

definition changed :: "account_env \<Rightarrow> AccountDiff \<Rightarrow> AccountData \<Rightarrow> AccountData \<Rightarrow> bool" where
  "changed A d a a2 \<longleftrightarrow>
     ExpirySlot a2 = (if PreviousExpirySlot d \<noteq> NewExpirySlot d then NewExpirySlot d else ExpirySlot a) \<and>
     accountOutputID a2 = (if NewOutputID d \<noteq> EmptyOutputID (api A) then NewOutputID d else accountOutputID a) \<and>
     BlockIssuerKeys a2 = fold (KeysRemove (api A)) (BlockIssuerKeysRemoved d) (fold (KeysAdd (api A)) (BlockIssuerKeysAdded d) (BlockIssuerKeys a)) \<and>
     ValidatorStake a2 = ValidatorStake a + ValidatorStakeChange d \<and> FixedCost a2 = FixedCost a + FixedCostChange d \<and>
     StakeEndEpoch a2 = ucast (ucast (StakeEndEpoch a) + StakeEndEpochChange d)"

lemma account_changed:
  assumes "account_env_ok A" "decayCredits A sl ex d0 a = Inr (d1, a1)" "applyAccount A d1 a1 = Inr a2" "sameFields d d0"
  shows "changed A d a a2"
proof -
  have sm: "safemath_signed (safe A)" using assms(1) by (simp add: account_env_ok_def)
  obtain c where c: "d1 = d0\<lparr>BICChange := creditsValue c - creditsValue (Credits a)\<rparr>" "a1 = a\<lparr>Credits := c\<rparr>"
    using decayCredits_fields[OF assms(2)] by blast
  obtain b v w where d0: "d0 = d\<lparr>BICChange := b, PrevLatestSupportedVersionAndHash := v, NewLatestSupportedVersionAndHash := w\<rparr>"
    using assms(4) by (auto simp: sameFields_def)
  note f = applyAccount_fields[OF assms(3), unfolded c d0, simplified]
  have "StakeEndEpoch a2 = ucast (ucast (StakeEndEpoch a) + StakeEndEpochChange d)" using f(8) safe_add_word[OF sm] by blast
  then show ?thesis using f(3,4,5) safe_add_word[OF sm f(6)] safe_add_word[OF sm f(9)] by (simp add: changed_def)
qed

section \<open>Accounts that mirror their output\<close>

text \<open>The data of the account that come from its output are those of the output.\<close>

definition mirrors :: "'c ledger_env \<Rightarrow> AccountData \<Rightarrow> Output \<Rightarrow> bool" where
  "mirrors E a out \<longleftrightarrow> accountOutputID a = outputID out \<and> keys_ok (BlockIssuerKeys a) \<and>
     (case DecodedOutput E out of
        AccountOut ao \<Rightarrow>
          (case aoBlockIssuer ao of
             None \<Rightarrow> False
           | Some (keys, expiry) \<Rightarrow> ExpirySlot a = expiry \<and> set (BlockIssuerKeys a) = set keys \<and>
               (ValidatorStake a, StakeEndEpoch a, FixedCost a) = (case aoStaking ao of None \<Rightarrow> (0, 0, 0) | Some s \<Rightarrow> s))
      | BasicOut (Some address) \<Rightarrow> ExpirySlot a = max_slot \<and> set (BlockIssuerKeys a) = {KeyFromImplicitAddress (api (accEnv E)) address} \<and>
          (ValidatorStake a, StakeEndEpoch a, FixedCost a) = (0, 0, 0)
      | _ \<Rightarrow> False)"

lemma transition_mirrors:
  assumes A: "account_env_ok (accEnv E)" "keys_has_ok E" and a: "mirrors E a old" and d: "plain (accEnv E) m i d"
    and t: "transitionDiff E old new a d = Some d'" and c: "changed (accEnv E) d' a a2" and ne: "outputID new \<noteq> EmptyOutputID (api (accEnv E))"
  shows "mirrors E a2 new"
proof -
  have ks: "keys_spec (api (accEnv E))" using A(1) by (simp add: account_env_ok_def)
  have ok: "keys_ok (BlockIssuerKeys a)" "keys_ok []" using a by (simp_all add: mirrors_def keys_ok_def)
  obtain ao keys expiry where new: "DecodedOutput E new = AccountOut ao" "aoBlockIssuer ao = Some (keys, expiry)"
    using t by (cases "DecodedOutput E new") (auto simp: transitionDiff_def Let_def split: option.splits)
  let ?new = "fold (KeysAdd (api (accEnv E))) keys []"
  let ?added = "keysWithout E ?new (BlockIssuerKeys a)" and ?removed = "keysWithout E (BlockIssuerKeys a) ?new"
  let ?d = "d\<lparr>PreviousExpirySlot := ExpirySlot a, PreviousOutputID := outputID old, NewOutputID := outputID new,
    NewExpirySlot := expiry, BlockIssuerKeysAdded := ?added, BlockIssuerKeysRemoved := ?removed\<rparr>"
  have "(case DecodedOutput E old of AccountOut ao \<Rightarrow> map_option snd (aoBlockIssuer ao) | BasicOut _ \<Rightarrow> Some max_slot | _ \<Rightarrow> Some (PreviousExpirySlot d)) = Some (ExpirySlot a)"
    using a by (cases "DecodedOutput E old") (auto simp: mirrors_def split: option.splits)
  then have d': "d' = (case aoStaking ao of
      Some (staked, endEpoch, cost) \<Rightarrow> ?d\<lparr>ValidatorStakeChange := staked - ValidatorStake a, StakeEndEpochChange := ucast endEpoch - ucast (StakeEndEpoch a), FixedCostChange := cost - FixedCost a\<rparr>
    | None \<Rightarrow> if stakingOf (DecodedOutput E old) \<noteq> None
        then ?d\<lparr>ValidatorStakeChange := - ValidatorStake a, StakeEndEpochChange := - ucast (StakeEndEpoch a), FixedCostChange := - FixedCost a\<rparr> else ?d)"
    using t by (simp add: transitionDiff_def new Let_def)
  have unstaked: "ValidatorStake a = 0 \<and> StakeEndEpoch a = 0 \<and> FixedCost a = 0" if "stakingOf (DecodedOutput E old) = None"
    using a that by (cases "DecodedOutput E old") (auto simp: mirrors_def split: option.splits)
  have f: "PreviousExpirySlot d' = ExpirySlot a" "NewExpirySlot d' = expiry" "NewOutputID d' = outputID new"
    "BlockIssuerKeysAdded d' = ?added" "BlockIssuerKeysRemoved d' = ?removed"
    by (simp_all add: d' split: option.split prod.split)
  have keys: "set (BlockIssuerKeys a2) = set keys" "keys_ok (BlockIssuerKeys a2)"
    using c by (auto simp: changed_def f set_keys[OF ks] ok set_keysWithout[OF ks A(2)])
  have "(ValidatorStake a2, StakeEndEpoch a2, FixedCost a2) = (case aoStaking ao of None \<Rightarrow> (0, 0, 0) | Some s \<Rightarrow> s)"
  proof (cases "aoStaking ao")
    case None
    then show ?thesis using c d unstaked by (cases "stakingOf (DecodedOutput E old) = None") (simp_all add: changed_def d' plain_def)
  next
    case (Some s)
    then show ?thesis using c by (cases s) (simp add: changed_def d' ucast_epoch)
  qed
  then show ?thesis using c ne keys by (simp add: mirrors_def new changed_def f)
qed

lemma creation_mirrors:
  assumes A: "account_env_ok (accEnv E)" and d: "plain (accEnv E) m i d" and id: "createdID E new = Some i"
    and t: "creationDiff E new d = Some d'" and c: "changed (accEnv E) d' (NewAccountData (api (accEnv E)) i) a2" and ne: "outputID new \<noteq> EmptyOutputID (api (accEnv E))"
  shows "mirrors E a2 new"
proof -
  have ks: "keys_spec (api (accEnv E))" using A(1) by (simp add: account_env_ok_def)
  have ok: "keys_ok []" by (simp add: keys_ok_def)
  have one: "KeysAdd (api (accEnv E)) k [] = [k]" for k using ks ok by (simp add: keys_spec_def)
  show ?thesis
  proof (cases "DecodedOutput E new")
    case (AccountOut ao)
    obtain keys expiry where bi: "aoBlockIssuer ao = Some (keys, expiry)"
      using t AccountOut by (auto simp: creationDiff_def Let_def split: option.splits)
    let ?d = "d\<lparr>NewOutputID := outputID new, PreviousOutputID := EmptyOutputID (api (accEnv E)), PreviousExpirySlot := 0, BlockIssuerKeysAdded := keys, NewExpirySlot := expiry\<rparr>"
    have d': "d' = (case aoStaking ao of
        Some (staked, endEpoch, cost) \<Rightarrow> ?d\<lparr>ValidatorStakeChange := staked, StakeEndEpochChange := ucast endEpoch, FixedCostChange := cost\<rparr> | None \<Rightarrow> ?d)"
      using t by (simp add: creationDiff_def AccountOut bi Let_def)
    show ?thesis
      using c d ne by (cases "aoStaking ao") (auto simp: d' mirrors_def AccountOut bi changed_def plain_def NewAccountData_def set_keys[OF ks ok] ucast_epoch)
  next
    case (BasicOut adr)
    then obtain address where adr: "adr = Some address" using id by (cases adr) (simp_all add: createdID_def)
    show ?thesis using t c d ne by (auto simp: creationDiff_def BasicOut adr mirrors_def changed_def plain_def NewAccountData_def one set_keys[OF ks ok] ucast_epoch keys_ok_def)
  qed (use id in \<open>simp_all add: createdID_def\<close>)
qed

lemma plain_keeps:
  assumes "plain A m i d" "accountsTree m i = Some a" "changed A d a a2"
  shows "accountOutputID a2 = accountOutputID a \<and> ExpirySlot a2 = ExpirySlot a \<and> BlockIssuerKeys a2 = BlockIssuerKeys a \<and>
    ValidatorStake a2 = ValidatorStake a \<and> StakeEndEpoch a2 = StakeEndEpoch a \<and> FixedCost a2 = FixedCost a"
  using assms by (auto simp: plain_def changed_def ucast_epoch)

section \<open>The prepared diffs\<close>

definition prepared :: "'c ledger_env \<Rightarrow> AccountsManager \<Rightarrow> Output option \<Rightarrow> Output option \<Rightarrow> bytes \<Rightarrow> (bytes \<rightharpoonup> AccountDiff) \<Rightarrow> AccountDiff option \<Rightarrow> bool" where
  "prepared E m old new i ds d' \<longleftrightarrow>
     (case (old, new) of
        (Some old, Some new) \<Rightarrow> \<exists>a. accountsTree m i = Some a \<and> d' \<noteq> None \<and> d' = transitionDiff E old new a (diffOf (accEnv E) ds i)
      | (Some _, None) \<Rightarrow> accountsTree m i \<noteq> None \<and> d' = Some (diffOf (accEnv E) ds i)
      | (None, Some new) \<Rightarrow> d' \<noteq> None \<and> d' = creationDiff E new (diffOf (accEnv E) ds i)
      | (None, None) \<Rightarrow> d' = ds i)"

lemma prepared_ne: "prepared E m old new i ds d' \<Longrightarrow> old \<noteq> None \<or> new \<noteq> None \<Longrightarrow> d' \<noteq> None"
  by (cases old; cases new) (auto simp: prepared_def)

lemma diffOf_Some: "ds i \<noteq> None \<Longrightarrow> Some (diffOf A ds i) = ds i"
  by (auto simp: diffOf_def)

lemma getAccountDiff_eq: "getAccountDiff A i ds = (diffOf A ds i, ds(i \<mapsto> diffOf A ds i))"
  by (auto simp: getAccountDiff_def diffOf_def split: option.splits)

lemma prepareAccountDiffs_prepared:
  assumes A: "account_env_ok (accEnv E)" "at_latest (accEnv E) m" "finite (dom con)" "finite (dom cre)"
    and "prepareAccountDiffs E m ds (latestCommittedSlot m + 1) con cre = Inr ds'"
  shows "prepared E m (con i) (cre i) i ds (ds' i)"
proof -
  let ?sl = "latestCommittedSlot m + 1" and ?A = "accEnv E"
  obtain ds1 where 1: "fold_res (prepareConsumed E m ?sl con cre) (order ?A (dom con)) ds = Inr ds1"
    "fold_res (prepareCreated E con cre) (order ?A (dom cre)) ds1 = Inr ds'"
    using assms(5) by (auto simp: prepareAccountDiffs_def)
  have ord: "distinct (order ?A (dom con))" "set (order ?A (dom con)) = dom con" "distinct (order ?A (dom cre))" "set (order ?A (dom cre)) = dom cre"
    using A by (auto simp: account_env_ok_def)
  let ?R1 = "\<lambda>i d d'. (case cre i of
      Some new \<Rightarrow> \<exists>a. accountsTree m i = Some a \<and> d' \<noteq> None \<and> d' = transitionDiff E (the (con i)) new a (case d of None \<Rightarrow> NewAccountDiff (api ?A) | Some d \<Rightarrow> d)
    | None \<Rightarrow> accountsTree m i \<noteq> None \<and> d' = Some (case d of None \<Rightarrow> NewAccountDiff (api ?A) | Some d \<Rightarrow> d))"
  have "(\<forall>j. j \<noteq> i \<longrightarrow> t j = s j) \<and> ?R1 i (s i) (t i)" if "prepareConsumed E m ?sl con cre i s = Inr t" for i s t
    using that account_at_latest[OF A(2), of i]
    by (auto simp: prepareConsumed_def getAccountDiff_eq diffOf_def split: option.splits)
  note c = fold_res_keyed[where R = ?R1, OF 1(1) ord(1) this, of i, unfolded ord(2)]
  let ?R2 = "\<lambda>i d d'. if con i \<noteq> None then d' = d
    else d' \<noteq> None \<and> d' = creationDiff E (the (cre i)) (case d of None \<Rightarrow> NewAccountDiff (api ?A) | Some d \<Rightarrow> d)"
  have "(\<forall>j. j \<noteq> i \<longrightarrow> t j = s j) \<and> ?R2 i (s i) (t i)" if "prepareCreated E con cre i s = Inr t" for i s t
    using that by (auto simp: prepareCreated_def getAccountDiff_eq diffOf_def split: if_splits option.splits)
  note d = fold_res_keyed[where R = ?R2, OF 1(2) ord(3) this, of i, unfolded ord(4)]
  show ?thesis
    using c d by (cases "con i"; cases "cre i") (auto simp: prepared_def diffOf_def domIff)
qed

lemma finite_states:
  assumes "finite (dom f)" "\<forall>i out. c i = Some out \<longrightarrow> stateOf (ran f) ident i out"
  shows "finite (dom (c :: bytes \<rightharpoonup> Output))"
proof (rule finite_subset)
  let ?g = "\<lambda>md. case metaState md of OutputState out \<Rightarrow> the (ident out) | _ \<Rightarrow> []"
  show "dom c \<subseteq> ?g ` ran f"
  proof
    fix i assume "i \<in> dom c"
    then obtain out where "c i = Some out" by blast
    then obtain md where "md \<in> ran f" "metaState md = OutputState out" "ident out = Some i" using assms(2) by (auto simp: stateOf_def)
    then show "i \<in> ?g ` ran f" by (auto intro!: image_eqI[of _ _ md])
  qed
  show "finite (?g ` ran f)" using assms(1) by (intro finite_imageI finite_ran)
qed

section \<open>Committing a slot\<close>

text \<open>The parts of a commit that concern the accounts.\<close>

lemma CommitSlot_accounts:
  assumes "Ledger_CommitSlot E sl L = Inr (roots, L')" "stateDiffs (memPool L) sl = Some sd"
  shows "\<exists>sp outs ds0 cre con D ds1 ds cost. processStateDiffTransactions E L sd = Inr (sp, outs, ds0) \<and>
    processCreatedAndConsumedAccountOutputs E sd ds0 = Inr (cre, con, D, ds1) \<and>
    prepareAccountDiffs E (accountsLedger L) ds1 sl con cre = Inr ds \<and>
    ApplyDiff (accEnv E) sl cost ds D (accountsLedger L) = Inr (accountsLedger L') \<and>
    utxoLedger L' = ApplyDiffWithoutLocking (utxoEnv E) sl outs sp (utxoLedger L)"
proof -
  have pool: "PoolStateDiff E sl (memPool L) = None \<or> PoolStateDiff E sl (memPool L) = Some (sd, memPool L)"
    using assms(2) by (auto simp: PoolStateDiff_def)
  obtain sp outs ds0 cre con D ds1 ds cost ch accs mc where
    "processStateDiffTransactions E (L\<lparr>memPool := memPool L\<rparr>) sd = Inr (sp, outs, ds0)"
    "processCreatedAndConsumedAccountOutputs E sd ds0 = Inr (cre, con, D, ds1)"
    "prepareAccountDiffs E (accountsLedger L) ds1 sl con cre = Inr ds"
    "applyDiffs (accEnv E) sl cost ds D (accountsLedger L) = Inr (ch, accs)"
    "L' = L\<lparr>utxoLedger := ApplyDiffWithoutLocking (utxoEnv E) sl outs sp (utxoLedger L), accountsLedger := accs, manaCache := mc,
      memPool := (memPool L)\<lparr>committedTransactions := committedTransactions (memPool L) @ map fst (executedTransactions sd)\<rparr>\<rparr>"
    using assms(1) pool unfolding Ledger_CommitSlot_def Let_def
    by (auto simp: lift_err_eq_Inr split: if_splits simp del: LedgerState.surjective)
  then show ?thesis by (auto simp: ApplyDiff_def)
qed

lemma ApplyDiff_slot: "ApplyDiff A sl cost ds D m = Inr m' \<Longrightarrow> sl = latestCommittedSlot m + 1 \<and> (\<exists>X. slotDiffs A sl cost ds m = Inr X)"
  by (auto simp: ApplyDiff_def applyDiffs_def slotDiffs_def split: if_splits)

text \<open>The account after the commit, from the diff that was prepared for it.\<close>

lemma commit_account:
  assumes A: "account_env_ok A" and app: "ApplyDiff A sl cost ds D m = Inr m'" and "finite (dom ds)" "slotDiff m sl = Some NewAccountDiffs"
  shows "i \<in> D \<Longrightarrow> ds i \<noteq> None \<Longrightarrow> accountsTree m' i = None"
    "i \<notin> D \<Longrightarrow> ds i \<noteq> None \<Longrightarrow> \<exists>a2. accountsTree m' i = Some a2 \<and> changed A (diffOf A ds i) (accountOr A i m) a2"
    "i \<notin> D \<Longrightarrow> ds i = None \<Longrightarrow> accountsTree m' i = accountsTree m i \<or> (\<exists>a2. accountsTree m' i = Some a2 \<and> changed A (NewAccountDiff (api A)) (accountOr A i m) a2)"
proof -
  obtain X where X: "slotDiffs A sl cost ds m = Inr X" using ApplyDiff_slot[OF app] by blast
  note e = ApplyDiff_effect[OF A app X assms(3,4)]
  have at: "\<exists>d'. committed A sl D i m (if i \<in> D then preserveDestroyedAccountData A i m else Some d) (accountsTree m' i) (Some d')" if "X i = Some d" for d
    using e that by blast
  have ch: "\<exists>a2. accountsTree m' i = Some a2 \<and> changed A (diffOf A ds i) (accountOr A i m) a2" if Xi: "i \<notin> D" "X i = Some d" for d
  proof -
    obtain d1 a1 a2 where "decayCredits A sl (accountsTree m i \<noteq> None) d (accountOr A i m) = Inr (d1, a1)" "applyAccount A d1 a1 = Inr a2" "accountsTree m' i = Some a2"
      using at[OF Xi(2)] Xi(1) by (auto simp: committed_def)
    then show ?thesis using account_changed[OF A _ _ slotDiffs_fields(2)[OF X Xi(2)]] by blast
  qed
  show "i \<in> D \<Longrightarrow> ds i \<noteq> None \<Longrightarrow> accountsTree m' i = None"
    using slotDiffs_fields(1)[OF X, of i] at by (auto simp: committed_def)
  show "i \<notin> D \<Longrightarrow> ds i \<noteq> None \<Longrightarrow> \<exists>a2. accountsTree m' i = Some a2 \<and> changed A (diffOf A ds i) (accountOr A i m) a2"
    using slotDiffs_fields(1)[OF X, of i] ch by blast
  show "accountsTree m' i = accountsTree m i \<or> (\<exists>a2. accountsTree m' i = Some a2 \<and> changed A (NewAccountDiff (api A)) (accountOr A i m) a2)"
    if "i \<notin> D" "ds i = None"
  proof (cases "X i")
    case None
    then show ?thesis using e by blast
  next
    case (Some d)
    then show ?thesis using ch[OF that(1) Some] that(2) by (simp add: diffOf_def)
  qed
qed

text \<open>What the commit has done before it applies the diffs of the accounts.\<close>

lemma commit_prepared:
  assumes "account_env_ok (accEnv E)" "stateDiffs (memPool L) sl = Some sd" "diffSlot sd = sl" "unique_outputs E sd"
    and "at_latest (accEnv E) (accountsLedger L)" "Ledger_CommitSlot E sl L = Inr (roots, L')"
  shows "\<exists>cre con D ds1 ds cost. (\<forall>i out. cre i = Some out \<longleftrightarrow> createdBy E sd i out) \<and> (\<forall>i out. con i = Some out \<longleftrightarrow> consumedBy E sd i out) \<and>
    (\<forall>i. i \<in> D \<longleftrightarrow> cre i = None \<and> (\<exists>out. consumedBy E sd i out \<and> isAccountOut (DecodedOutput E out))) \<and> diffs_plain (accEnv E) (accountsLedger L) ds1 \<and>
    (\<forall>i. prepared E (accountsLedger L) (con i) (cre i) i ds1 (ds i)) \<and> ApplyDiff (accEnv E) sl cost ds D (accountsLedger L) = Inr (accountsLedger L') \<and> finite (dom ds)"
proof -
  let ?A = "accEnv E" and ?m = "accountsLedger L"
  obtain sp outs ds0 cre con D ds1 ds cost where p: "processStateDiffTransactions E L sd = Inr (sp, outs, ds0)"
    "processCreatedAndConsumedAccountOutputs E sd ds0 = Inr (cre, con, D, ds1)" "prepareAccountDiffs E ?m ds1 sl con cre = Inr ds"
    "ApplyDiff ?A sl cost ds D ?m = Inr (accountsLedger L')" using CommitSlot_accounts[OF assms(6,2)] by blast
  have sl: "sl = latestCommittedSlot ?m + 1" using ApplyDiff_slot[OF p(4)] by blast
  have "diffs_plain ?A ?m ds0" using processStateDiffTransactions_plain[OF assms(5) _ p(1)] assms(3) sl by simp
  note o = account_outputs[OF assms(1,4) this p(2)]
  have fin: "finite (dom cre)" "finite (dom con)"
    using assms(4) o(1,2) finite_states[of "createdOutputs sd" cre "createdID E"] finite_states[of "spentOutputs sd" con "consumedID E"]
    by (auto simp: unique_outputs_def createdBy_def consumedBy_def)
  have prep: "prepared E ?m (con i) (cre i) i ds1 (ds i)" for i
    using prepareAccountDiffs_prepared[OF assms(1,5) fin(2,1)] p(3) sl by simp
  then have keep: "ds i = ds1 i" if "con i = None" "cre i = None" for i using that prep[of i] by (simp add: prepared_def)
  have "dom ds \<subseteq> dom ds1 \<union> dom con \<union> dom cre" by (rule subsetI) (use keep in \<open>metis UnCI domIff\<close>)
  then have "finite (dom ds)" using fin o(4) by (auto simp: diffs_plain_def intro: finite_subset)
  with o prep p(4) show ?thesis by blast
qed

text \<open>What the node knows of the accounts of the slot when it commits the slot.\<close>

definition accounts_known :: "'c ledger_env \<Rightarrow> StateDiff \<Rightarrow> AccountsManager \<Rightarrow> bool" where
  "accounts_known E sd m \<longleftrightarrow>
     (\<forall>i out. consumedBy E sd i out \<longrightarrow> (\<exists>a. accountsTree m i = Some a \<and> mirrors E a out)) \<and>
     (\<forall>i out. createdBy E sd i out \<longrightarrow> outputID out \<noteq> EmptyOutputID (api (accEnv E)) \<and>
        ((\<exists>old. consumedBy E sd i old) \<or> accountsTree m i = None))"

lemma prepared_account:
  assumes env: "account_env_ok (accEnv E)" "keys_has_ok E" and sd: "unique_outputs E sd" and known: "accounts_known E sd m"
    and ds: "diffs_plain (accEnv E) m ds1" and out: "\<And>i out. cre i = Some out \<longleftrightarrow> createdBy E sd i out" "\<And>i out. con i = Some out \<longleftrightarrow> consumedBy E sd i out"
    and prep: "prepared E m (con i) (cre i) i ds1 (ds i)" and cre: "createdBy E sd i new"
    and c: "changed (accEnv E) (diffOf (accEnv E) ds i) (accountOr (accEnv E) i m) a2"
  shows "mirrors E a2 new"
proof -
  have plain: "plain (accEnv E) m i (diffOf (accEnv E) ds1 i)"
    using ds plain_new[of "accEnv E" m i] by (auto simp: diffs_plain_def diffOf_def split: option.splits)
  have new: "cre i = Some new" "createdID E new = Some i" "outputID new \<noteq> EmptyOutputID (api (accEnv E))"
    using cre out(1) known by (auto simp: createdBy_def stateOf_def accounts_known_def)
  show ?thesis
  proof (cases "con i")
    case None
    then have "\<nexists>old. consumedBy E sd i old" using out(2)[of i] by simp
    then have "accountsTree m i = None" using known cre unfolding accounts_known_def by blast
    have "ds i \<noteq> None \<and> ds i = creationDiff E new (diffOf (accEnv E) ds1 i)" using prep unfolding prepared_def None new(1) option.case prod.case .
    then have "creationDiff E new (diffOf (accEnv E) ds1 i) = Some (diffOf (accEnv E) ds i)" by (metis diffOf_Some)
    with \<open>accountsTree m i = None\<close> show ?thesis using creation_mirrors[OF env(1) plain new(2)] c new(3) by (simp add: accountOr_def)
  next
    case (Some old)
    then have "consumedBy E sd i old" using out(2) by simp
    then obtain a where a: "accountsTree m i = Some a" "mirrors E a old" using known unfolding accounts_known_def by blast
    have "ds i \<noteq> None \<and> ds i = transitionDiff E old new a (diffOf (accEnv E) ds1 i)" using prep a(1) unfolding prepared_def Some new(1) option.case prod.case by (metis option.inject)
    then have "transitionDiff E old new a (diffOf (accEnv E) ds1 i) = Some (diffOf (accEnv E) ds i)" by (metis diffOf_Some)
    with a show ?thesis using transition_mirrors[OF env _ plain] c new(3) by (simp add: accountOr_def)
  qed
qed

section \<open>Properties\<close>

text \<open>C30: Committing a slot brings the account tree in line with the outputs of the slot. If the
  accounts consumed in the slot mirror their outputs and the new ones are not in the tree, then after
  a commit that returns every account created or transitioned in the slot mirrors its new output: its
  output ID, expiry slot, block issuer keys and staking data are those of the output. An account
  output consumed without a successor has its account removed from the tree, and an account that is neither
  consumed nor created keeps its output, expiry, keys and stake, whatever allotments, delegations, burned mana
  and version signals the slot has for it.\<close>

theorem commit_mirrors_outputs:
  assumes "account_env_ok (accEnv E)" "keys_has_ok E"
    and "stateDiffs (memPool L) sl = Some sd" "diffSlot sd = sl" "unique_outputs E sd"
    and "at_latest (accEnv E) (accountsLedger L)" "slotDiff (accountsLedger L) sl = Some NewAccountDiffs"
    and "accounts_known E sd (accountsLedger L)"
    and "Ledger_CommitSlot E sl L = Inr (roots, L')"
  defines "before \<equiv> accountsTree (accountsLedger L)" and "after \<equiv> accountsTree (accountsLedger L')"
  shows "(\<forall>i out. createdBy E sd i out \<longrightarrow> (\<exists>a. after i = Some a \<and> mirrors E a out)) \<and>
    (\<forall>i out. consumedBy E sd i out \<and> isAccountOut (DecodedOutput E out) \<and> (\<nexists>new. createdBy E sd i new) \<longrightarrow> after i = None) \<and>
    (\<forall>i a. before i = Some a \<and> (\<nexists>old. consumedBy E sd i old) \<and> (\<nexists>new. createdBy E sd i new) \<longrightarrow>
       (\<exists>a'. after i = Some a' \<and> accountOutputID a' = accountOutputID a \<and> ExpirySlot a' = ExpirySlot a \<and> BlockIssuerKeys a' = BlockIssuerKeys a \<and>
          ValidatorStake a' = ValidatorStake a \<and> StakeEndEpoch a' = StakeEndEpoch a \<and> FixedCost a' = FixedCost a))"
proof -
  let ?A = "accEnv E" and ?m = "accountsLedger L"
  obtain cre con D ds1 ds cost where o: "\<And>i out. cre i = Some out \<longleftrightarrow> createdBy E sd i out" "\<And>i out. con i = Some out \<longleftrightarrow> consumedBy E sd i out"
    "\<And>i. i \<in> D \<longleftrightarrow> cre i = None \<and> (\<exists>out. consumedBy E sd i out \<and> isAccountOut (DecodedOutput E out))" "diffs_plain ?A ?m ds1"
    and prep: "\<And>i. prepared E ?m (con i) (cre i) i ds1 (ds i)" and app: "ApplyDiff ?A sl cost ds D ?m = Inr (accountsLedger L')" "finite (dom ds)"
    using commit_prepared[OF assms(1,3-6,9)] by blast
  have keep: "ds i = ds1 i" if "con i = None" "cre i = None" for i using prep[of i] that by (simp add: prepared_def)
  note c = commit_account[OF assms(1) app assms(7)]
  have ne: "ds i \<noteq> None" if "con i \<noteq> None \<or> cre i \<noteq> None" for i by (rule prepared_ne[OF prep that])
  have "\<exists>a. after i = Some a \<and> mirrors E a out" if cr: "createdBy E sd i out" for i out
  proof -
    have "cre i = Some out" using o(1) cr by blast
    then obtain a where a: "after i = Some a" "changed ?A (diffOf ?A ds i) (accountOr ?A i ?m) a" using c(2)[of i] o(3) ne[of i] by (auto simp: after_def)
    moreover have "mirrors E a out"
      by (rule prepared_account[where cre = cre and con = con and ds = ds and i = i, OF assms(1,2,5,8) o(4) o(1,2) prep[of i] cr a(2)])
    ultimately show ?thesis by blast
  qed
  moreover have "after i = None" if "consumedBy E sd i out" "isAccountOut (DecodedOutput E out)" "\<nexists>new. createdBy E sd i new" for i out
    using c(1)[of i] ne[of i] o(1-3) that by (metis after_def not_None_eq)
  moreover have "\<exists>a'. after i = Some a' \<and> accountOutputID a' = accountOutputID a \<and> ExpirySlot a' = ExpirySlot a \<and> BlockIssuerKeys a' = BlockIssuerKeys a \<and>
      ValidatorStake a' = ValidatorStake a \<and> StakeEndEpoch a' = StakeEndEpoch a \<and> FixedCost a' = FixedCost a"
    if i: "before i = Some a" "\<nexists>old. consumedBy E sd i old" "\<nexists>new. createdBy E sd i new" for i a
  proof -
    have none: "con i = None" "cre i = None" "i \<notin> D" using i(2,3) o(1-3) by (metis not_None_eq)+
    then have "ds i = ds1 i" by (intro keep)
    then have "plain ?A ?m i (diffOf ?A ds i)" using o(4) plain_new[of ?A ?m i] by (auto simp: diffs_plain_def diffOf_def split: option.splits)
    then show ?thesis
      using c(2,3)[OF none(3)] plain_keeps[of ?A ?m i "diffOf ?A ds i" a] plain_keeps[OF plain_new[of ?A ?m i], of a] i(1)
      by (cases "ds i") (auto simp: before_def after_def accountOr_def)
  qed
  ultimately show ?thesis by blast
qed

text \<open>C31: A slot that consumes the account output which created an account can not be committed. This is about account
  outputs with a block issuer or a staking feature that still have the zero account ID. The account of such an output is kept
  under the hash of its output ID, but when the output is consumed the code looks the account up under the
  zero ID; there is no account with that ID, and the commit ends with an error or a panic. Implicit
  accounts are created by basic outputs, which have the same ID on both sides, and are not concerned.\<close>

theorem consumed_new_account_blocks_commit:
  assumes "account_env_ok (accEnv E)"
    and "stateDiffs (memPool L) sl = Some sd" "diffSlot sd = sl" "unique_outputs E sd"
    and "at_latest (accEnv E) (accountsLedger L)"
    and "md \<in> ran (spentOutputs sd)" "metaState md = OutputState out" "DecodedOutput E out = AccountOut ao"
    and "aoBlockIssuer ao \<noteq> None \<or> aoStaking ao \<noteq> None" "aoAccountID ao = EmptyAccountID E"
    and "accountsTree (accountsLedger L) (EmptyAccountID E) = None"
  shows "createdID E out = Some (AccountIDFromOutputID E (outputID out)) \<and> consumedID E out = Some (EmptyAccountID E) \<and>
    (\<exists>e. Ledger_CommitSlot E sl L = Inl e) \<and> (\<forall>b x. DecodedOutput E b = BasicOut x \<longrightarrow> createdID E b = consumedID E b)"
proof -
  let ?m = "accountsLedger L" and ?i = "EmptyAccountID E"
  have "False" if ok: "Ledger_CommitSlot E sl L = Inr r" for r
  proof -
    obtain roots L' where r: "r = (roots, L')" by fastforce
    obtain cre con D ds1 ds cost where o: "\<And>i out. con i = Some out \<longleftrightarrow> consumedBy E sd i out"
      and prep: "\<And>i. prepared E ?m (con i) (cre i) i ds1 (ds i)"
      using commit_prepared[OF assms(1-5) ok[unfolded r]] by blast
    have "consumedBy E sd ?i out" using assms(6-10) by (auto simp: consumedBy_def stateOf_def consumedID_def)
    then have "con ?i = Some out" using o by blast
    then show False using prep[of ?i] assms(11) by (cases "cre ?i") (auto simp: prepared_def)
  qed
  then have "\<exists>e. Ledger_CommitSlot E sl L = Inl e" by (cases "Ledger_CommitSlot E sl L") auto
  then show ?thesis using assms(8-10) by (auto simp: createdID_def createdAccountID_def consumedID_def)
qed

text \<open>C32: An output that the ledger has recorded as spent is not found once the mempool does not
  hold its state any more: the lookup returns the error of the mempool instead of the record of the
  spending, which is in the database. The error does contain the sentinel for a spent input, but
  the code asks the question with the two errors exchanged.\<close>

theorem spent_output_not_found:
  assumes "cachedStateRequests (memPool L) (ReferencedStateID E (UTXOInput i)) = None"
    and "\<not> IsOutputIDUnspentWithoutLocking (utxoEnv E) (utxoLedger L) i"
    and "ReadSpentForOutputIDWithoutLocking (utxoEnv E) (utxoLedger L) i = Inr sp"
  shows "\<exists>err. OutputOrSpent E L i = Inl (PoolError err) \<and> Ledger_Output E L i = Inl (PoolError err) \<and>
    ierrors_Is err (Sentinel ErrInputAlreadySpent) \<and> \<not> ierrors_Is (Sentinel ErrInputAlreadySpent) err"
  using assms(1,2)
  by (auto simp: OutputOrSpent_def Ledger_Output_def PoolStateMetadata_def requestState_def resolveState_def)

section \<open>An example\<close>

text \<open>
  Account \<open>[7]\<close> is transitioned in slot 5: it gives up its stake, changes its key and its expiry slot
  and receives an allotment. Outputs are decoded by their ID; \<open>[7, 2]\<close> creates an account.
\<close>

definition accountOut :: "bytes \<Rightarrow> Output" where
  "accountOut i = \<lparr>outputID = i, blockID = [9], slotBooked = 1, encodedOutput = [1, 2, 3], encodedProof = [4]\<rparr>"

definition exampleDecode :: "Output \<Rightarrow> ledger_output" where
  "exampleDecode out =
     (if outputID out = [7, 1] then AccountOut \<lparr>aoAccountID = [7], aoStaking = Some (100, 3, 1), aoBlockIssuer = Some ([[0, 5]], 9)\<rparr>
      else if outputID out = [7, 4] then AccountOut \<lparr>aoAccountID = [7], aoStaking = None, aoBlockIssuer = Some ([[0, 6]], 12)\<rparr>
      else if outputID out = [7, 2] then AccountOut \<lparr>aoAccountID = [0], aoStaking = None, aoBlockIssuer = Some ([[0, 6]], 12)\<rparr>
      else OtherOut)"

definition exampleLedgerEnv :: "(bytes \<rightharpoonup> Mana) ledger_env" where
  "exampleLedgerEnv = \<lparr>manaEnv = exampleMana, cacheOps = mapCache, rmcEnv = exampleRmcEnv, diffEnv = exampleDiffEnv, DecodedOutput = exampleDecode,
     AccountIDFromOutputID = (\<lambda>i. 1 # i), DelegationIDFromOutputID = (\<lambda>i. 2 # i), EmptyAccountID = [0], EmptyDelegationID = [0],
     KeysHas = (\<lambda>ks k. k \<in> set ks), TransactionIDOf = (\<lambda>i. [hd i]), BlockIDSlot = (\<lambda>_. 5), TransactionIDSlot = (\<lambda>_. 5), MutationsRoot = (\<lambda>S. if S = {} then [] else [1]),
     commitmentAt = (\<lambda>_. Inr None), CommitmentIDSlot = (\<lambda>_. 0), CommitmentState = (\<lambda>i. OtherState i True),
     ReferencedStateID = (\<lambda>r. case r of UTXOInput i \<Rightarrow> i | _ \<Rightarrow> []), mutationsFunc = (\<lambda>_. True),
     AccountsRoot = (\<lambda>t. if t = Map.empty then [] else [1]), slotMath = safemath_u\<rparr>"

definition exampleTransition :: TransactionMetadata where
  "exampleTransition = \<lparr>txID = [3], txInputs = [NewStateMetadata (OutputState (accountOut [7, 1]))], txOutputs = [NewStateMetadata (OutputState (accountOut [7, 4]))],
     txTransaction = Some \<lparr>txInputRefs = Some [[7, 1]], txAllotments = [([7], 5)]\<rparr>, EarliestIncludedAttachment = [9]\<rparr>"

definition exampleStateDiff :: StateDiff where
  "exampleStateDiff = \<lparr>diffSlot = 5, spentOutputs = [[7, 1] \<mapsto> NewStateMetadata (OutputState (accountOut [7, 1]))],
     createdOutputs = [[7, 4] \<mapsto> NewStateMetadata (OutputState (accountOut [7, 4]))],
     executedTransactions = [([3], exampleTransition)], stateUsageCounters = [[7, 1] \<mapsto> - 1, [7, 4] \<mapsto> 1], mutations = {[3]}\<rparr>"

definition exampleState :: "StateDiff \<Rightarrow> (bytes \<rightharpoonup> AccountData) \<Rightarrow> (bytes \<rightharpoonup> Mana) LedgerState" where
  "exampleState sd tree = \<lparr>utxoLedger = StoreLedgerIndexWithoutLocking exampleUtxo 4 NewManager, accountsLedger = exampleLedger tree Map.empty, manaCache = Map.empty,
     rmcManager = Rmc_SetLatestCommittedSlot 4 NewRmcManager,
     memPool = \<lparr>cachedStateRequests = [[7, 1] \<mapsto> Completed (Inr (NewStateMetadata (OutputState (accountOut [7, 1]))))], cachedTransactions = Map.empty,
       stateDiffs = [5 \<mapsto> sd], lastEvictedSlot = 0, committedTransactions = []\<rparr>\<rparr>"

lemma example_latest: "at_latest exampleEnv (exampleLedger tree b)"
  by (simp add: at_latest_def exampleLedger_def exampleEnv_def)

lemma example_account: "account exampleEnv i 4 (exampleLedger tree b) = Inr (tree i)"
  using account_at_latest[OF example_latest, of i tree b] by (simp add: exampleLedger_def)

lemmas exampleState_simps = exampleState_def exampleLedgerEnv_def exampleMana_def exampleDiffEnv_def

lemma example_env [simp]:
  "manaEnv exampleLedgerEnv = exampleMana" "manaAccounts exampleMana = exampleEnv" "manaOutputs exampleMana = exampleUtxo" "DecodedOutput exampleLedgerEnv = exampleDecode"
  "cacheOps exampleLedgerEnv = mapCache" "rmcEnv exampleLedgerEnv = exampleRmcEnv" "diffEnv exampleLedgerEnv = exampleDiffEnv"
  "slotMath exampleLedgerEnv = safemath_u" "order exampleEnv = sorted_list_of_set" "api exampleEnv = exampleAccounts"
  "EmptyAccountID exampleLedgerEnv = [0]" "MaxCommittableAge exampleEnv sl = 10"
  by (simp_all add: exampleLedgerEnv_def exampleMana_def exampleEnv_def)

lemma exampleState_fields [simp]:
  "accountsLedger (exampleState sd tree) = exampleLedger tree Map.empty" "stateDiffs (memPool (exampleState sd tree)) 5 = Some sd"
  "manaCache (exampleState sd tree) = Map.empty" "lastEvictedSlot (memPool (exampleState sd tree)) = 0"
  by (simp_all add: exampleState_def)

definition exampleAllotted :: AccountDiff where
  "exampleAllotted = (NewAccountDiff exampleAccounts)\<lparr>BICChange := 5, PreviousUpdatedTime := 2, PreviousExpirySlot := 9, NewExpirySlot := 9,
     NewOutputID := [7, 1], PreviousOutputID := [7, 1]\<rparr>"

lemma example_transactions:
  "processStateDiffTransactions exampleLedgerEnv (exampleState exampleStateDiff [[7] \<mapsto> exampleAccount]) exampleStateDiff =
    Inr ([NewSpent (accountOut [7, 1]) [3] 5], [CopyWithBlockIDAndSlotBooked [9] 5 (accountOut [7, 4])], [[7] \<mapsto> exampleAllotted])"
proof -
  have "PoolStateMetadata exampleLedgerEnv (exampleState exampleStateDiff [[7] \<mapsto> exampleAccount]) (UTXOInput [7, 1]) = Inr (NewStateMetadata (OutputState (accountOut [7, 1])))"
    by (simp add: PoolStateMetadata_def exampleState_simps)
  moreover have "outputFromState exampleLedgerEnv (exampleState exampleStateDiff [[7] \<mapsto> exampleAccount]) (OutputState (accountOut [7, 1])) = Inr (accountOut [7, 1])"
    by (simp add: outputFromState_def accountOut_def)
  moreover have "fold_res (processAllotment exampleEnv (exampleLedger [[7] \<mapsto> exampleAccount] Map.empty) 5) [([7], 5)] Map.empty = Inr [[7] \<mapsto> exampleAllotted]"
    by (simp add: processAllotment_def getAccountDiff_def example_account) (simp add: exampleAllotted_def exampleAccount_def NewAccountDiff_def)
  ultimately show ?thesis
    by (simp add: processStateDiffTransactions_def exampleStateDiff_def exampleTransition_def processTransaction_def NewStateMetadata_def)
qed

lemma example_account_outputs:
  "processCreatedAndConsumedAccountOutputs exampleLedgerEnv exampleStateDiff ds = Inr ([[7] \<mapsto> accountOut [7, 4]], [[7] \<mapsto> accountOut [7, 1]], {}, ds)"
  by (simp add: processCreatedAndConsumedAccountOutputs_def exampleStateDiff_def processCreated_def processDestroyed_def NewStateMetadata_def
      exampleDecode_def accountOut_def createdAccountID_def Let_def)

definition exampleTransitioned :: AccountDiff where
  "exampleTransitioned = exampleAllotted\<lparr>PreviousOutputID := [7, 1], NewOutputID := [7, 4], PreviousExpirySlot := 9, NewExpirySlot := 12,
     BlockIssuerKeysAdded := [[0, 6]], BlockIssuerKeysRemoved := [[0, 5]], ValidatorStakeChange := - 100, StakeEndEpochChange := - 3, FixedCostChange := - 1\<rparr>"

lemma example_prepared:
  "prepareAccountDiffs exampleLedgerEnv (exampleLedger [[7] \<mapsto> exampleAccount] Map.empty) [[7] \<mapsto> exampleAllotted] 5 [[7] \<mapsto> accountOut [7, 1]] [[7] \<mapsto> accountOut [7, 4]] =
    Inr [[7] \<mapsto> exampleTransitioned]"
proof -
  have keys: "keysWithout exampleLedgerEnv [[0, 6]] [[0, 5]] = [[0, 6]]" "keysWithout exampleLedgerEnv [[0, 5]] [[0, 6]] = [[0, 5]]"
    by (simp_all add: keysWithout_def) (simp_all add: exampleLedgerEnv_def exampleAccounts_def)
  have "transitionDiff exampleLedgerEnv (accountOut [7, 1]) (accountOut [7, 4]) exampleAccount exampleAllotted = Some exampleTransitioned"
    by (simp add: transitionDiff_def exampleDecode_def accountOut_def exampleAccount_def Let_def)
      (simp add: exampleAccounts_def[THEN arg_cong[where f = KeysAdd]] keys exampleTransitioned_def)
  then show ?thesis
    by (simp add: prepareAccountDiffs_def prepareConsumed_def prepareCreated_def getAccountDiff_eq diffOf_def example_account)
qed

lemma example_applied: "\<exists>ch m'. applyDiffs exampleEnv 5 25 [[7] \<mapsto> exampleTransitioned] {} (exampleLedger [[7] \<mapsto> exampleAccount] Map.empty) = Inr (ch, m')"
proof -
  let ?m = "exampleLedger [[7] \<mapsto> exampleAccount] Map.empty"
  have X: "slotDiffs exampleEnv 5 25 [[7] \<mapsto> exampleTransitioned] ?m = Inr [[7] \<mapsto> exampleTransitioned]"
    by (simp add: AccountsProperties.update_defs exampleLedger_def)
  have "\<exists>a2. bind_res (decayCredits exampleEnv 5 (accountsTree ?m [7] \<noteq> None) exampleTransitioned (accountOr exampleEnv [7] ?m)) (\<lambda>(d, a). applyAccount exampleEnv d a) = Inr a2"
    by (simp add: accountOr_example) (simp add: AccountsProperties.apply_defs exampleTransitioned_def exampleAllotted_def example_defs fits_signed_def)
  then obtain a2 where "bind_res (decayCredits exampleEnv 5 (accountsTree ?m [7] \<noteq> None) exampleTransitioned (accountOr exampleEnv [7] ?m)) (\<lambda>(d, a). applyAccount exampleEnv d a) = Inr a2" ..
  from ApplyDiff_single[OF exampleEnv_ok X _ _ this] have "\<exists>m'. ApplyDiff exampleEnv 5 25 [[7] \<mapsto> exampleTransitioned] {} ?m = Inr m'"
    by (simp add: exampleLedger_def)
  then show ?thesis by (auto simp: ApplyDiff_def)
qed

lemma empty_cache: "Mana_ApplyDiff exampleMana mapCache S sl {} outs ds Map.empty = Inr Map.empty"
proof -
  have "fold_res (updateCached exampleMana mapCache S sl outs ds) xs Map.empty = Inr Map.empty" for xs
    by (induction xs) (simp_all add: updateCached_def mapCache_def)
  then show ?thesis by (simp add: Mana_ApplyDiff_def exampleMana_def exampleEnv_def)
qed

lemma example_commit: "\<exists>roots L'. Ledger_CommitSlot exampleLedgerEnv 5 (exampleState exampleStateDiff [[7] \<mapsto> exampleAccount]) = Inr (roots, L')"
proof -
  let ?L = "exampleState exampleStateDiff [[7] \<mapsto> exampleAccount]"
  have "ReadLedgerIndexWithoutLocking exampleUtxo (utxoLedger ?L) = Inr 4"
    using get_put_le_width(3)[of 4 "[]"]
    by (simp add: exampleState_def ReadLedgerIndexWithoutLocking_def StoreLedgerIndexWithoutLocking_def exampleUtxo_def NewManager_def)
  moreover have "PoolStateDiff exampleLedgerEnv 5 (memPool ?L) = Some (exampleStateDiff, memPool ?L)"
    by (simp add: PoolStateDiff_def exampleState_def exampleLedgerEnv_def)
  moreover have "SafeSub safemath_u (5 :: slot) 10 = None" by (simp add: safemath_u_def checked_unsigned_def fits_unsigned_def)
  moreover have "RMC exampleRmcEnv 0 (rmcManager ?L) = Inr 25"
    by (simp add: RMC_def exampleState_def Rmc_SetLatestCommittedSlot_def NewRmcManager_def exampleRmcEnv_def)
  moreover obtain ch m' where "applyDiffs exampleEnv 5 25 [[7] \<mapsto> exampleTransitioned] {} (exampleLedger [[7] \<mapsto> exampleAccount] Map.empty) = Inr (ch, m')"
    using example_applied by blast
  ultimately show ?thesis
    by (simp add: Ledger_CommitSlot_def example_transactions example_account_outputs example_prepared empty_cache Let_def)
qed

lemma example_outputs:
  "createdBy exampleLedgerEnv exampleStateDiff i out \<longleftrightarrow> i = [7] \<and> out = accountOut [7, 4]"
  "consumedBy exampleLedgerEnv exampleStateDiff i out \<longleftrightarrow> i = [7] \<and> out = accountOut [7, 1]"
  by (auto simp: createdBy_def consumedBy_def stateOf_def exampleStateDiff_def NewStateMetadata_def createdID_def consumedID_def exampleDecode_def accountOut_def
      createdAccountID_def)

theorem commit_mirrors_outputs_witness:
  "\<exists>roots L' a. Ledger_CommitSlot exampleLedgerEnv 5 (exampleState exampleStateDiff [[7] \<mapsto> exampleAccount]) = Inr (roots, L') \<and>
     accountsTree (accountsLedger L') [7] = Some a \<and> accountOutputID a = [7, 4] \<and> ExpirySlot a = 12 \<and> set (BlockIssuerKeys a) = {[0, 6]} \<and> ValidatorStake a = 0"
proof -
  let ?L = "exampleState exampleStateDiff [[7] \<mapsto> exampleAccount]"
  obtain roots L' where ok: "Ledger_CommitSlot exampleLedgerEnv 5 ?L = Inr (roots, L')" using example_commit by blast
  have keys: "keys_has_ok exampleLedgerEnv" by (simp add: keys_has_ok_def exampleLedgerEnv_def)
  have "unique_outputs exampleLedgerEnv exampleStateDiff"
    by (simp add: unique_outputs_def example_outputs) (simp add: exampleStateDiff_def)
  moreover have "accounts_known exampleLedgerEnv exampleStateDiff (accountsLedger ?L)"
    by (simp add: accounts_known_def example_outputs)
      (simp add: mirrors_def exampleDecode_def accountOut_def exampleLedger_def exampleAccount_def exampleAccounts_def keys_ok_def)
  moreover have "slotDiff (accountsLedger ?L) 5 = Some NewAccountDiffs" by (simp add: exampleLedger_def)
  ultimately obtain a where a: "accountsTree (accountsLedger L') [7] = Some a" "mirrors exampleLedgerEnv a (accountOut [7, 4])"
    using commit_mirrors_outputs[OF _ keys, of ?L 5 exampleStateDiff roots L'] ok example_latest
    by (simp add: example_outputs) (auto simp: exampleStateDiff_def)
  from a(2) have "accountOutputID a = [7, 4] \<and> ExpirySlot a = 12 \<and> set (BlockIssuerKeys a) = {[0, 6]} \<and> ValidatorStake a = 0"
    by (simp add: mirrors_def exampleDecode_def accountOut_def)
  with ok a(1) show ?thesis by blast
qed

text \<open>The same ledger, when the output that created account \<open>[1, 7, 2]\<close> is consumed.\<close>

definition consumedCreation :: StateDiff where
  "consumedCreation = exampleStateDiff\<lparr>spentOutputs := [[7, 2] \<mapsto> NewStateMetadata (OutputState (accountOut [7, 2]))], createdOutputs := Map.empty, executedTransactions := []\<rparr>"

theorem consumed_new_account_blocks_commit_witness:
  "createdID exampleLedgerEnv (accountOut [7, 2]) = Some [1, 7, 2] \<and>
   (\<exists>e. Ledger_CommitSlot exampleLedgerEnv 5 (exampleState consumedCreation [[1, 7, 2] \<mapsto> exampleAccount]) = Inl e)"
proof -
  have "unique_outputs exampleLedgerEnv consumedCreation"
    by (auto simp: unique_outputs_def consumedCreation_def createdBy_def consumedBy_def stateOf_def NewStateMetadata_def)
  moreover have "exampleDecode (accountOut [7, 2]) = AccountOut \<lparr>aoAccountID = [0], aoStaking = None, aoBlockIssuer = Some ([[0, 6]], 12)\<rparr>"
    by (simp add: exampleDecode_def accountOut_def)
  moreover have "AccountIDFromOutputID exampleLedgerEnv (outputID (accountOut [7, 2])) = [1, 7, 2]" by (simp add: exampleLedgerEnv_def accountOut_def)
  ultimately show ?thesis
    using consumed_new_account_blocks_commit[of exampleLedgerEnv "exampleState consumedCreation [[1, 7, 2] \<mapsto> exampleAccount]" 5 consumedCreation
      "NewStateMetadata (OutputState (accountOut [7, 2]))" "accountOut [7, 2]" "\<lparr>aoAccountID = [0], aoStaking = None, aoBlockIssuer = Some ([[0, 6]], 12)\<rparr>"]
      example_latest
    by (simp add: exampleLedger_def) (simp add: consumedCreation_def exampleStateDiff_def NewStateMetadata_def)
qed

theorem spent_output_not_found_witness:
  "let L = (exampleState exampleStateDiff Map.empty)\<lparr>utxoLedger := ApplyDiffWithoutLocking exampleUtxo 1 [exampleOut2] [exampleSpent] exampleGenesis\<rparr>
   in ReadSpentForOutputIDWithoutLocking exampleUtxo (utxoLedger L) [7, 0] = Inr exampleSpent \<and> (\<exists>err. OutputOrSpent exampleLedgerEnv L [7, 0] = Inl (PoolError err))"
proof -
  let ?u = "ApplyDiffWithoutLocking exampleUtxo 1 [exampleOut2] [exampleSpent] exampleGenesis"
  let ?L = "(exampleState exampleStateDiff Map.empty)\<lparr>utxoLedger := ?u\<rparr>"
  have id: "spentOutputID exampleSpent = [7, 0]" by (simp add: exampleSpent_def NewSpent_def exampleOut1_def)
  have read: "ReadSpentForOutputIDWithoutLocking exampleUtxo ?u [7, 0] = Inr exampleSpent"
    using applied_diff_read[OF exampleUtxo_ok exampleGenesis_reach exampleDiff_fits, of 1] by (simp add: id)
  have "[7, 0] \<notin> unspentIDs ?u" using unspentIDs_Apply[OF exampleUtxo_ok exampleDiff_fits, of 1] by (simp add: id exampleOut2_def)
  then have "\<not> IsOutputIDUnspentWithoutLocking exampleUtxo ?u [7, 0]"
    by (simp add: IsOutputIDUnspentWithoutLocking_def unspentIDs_def storage_keys[OF exampleUtxo_ok])
  moreover have "cachedStateRequests (memPool ?L) (ReferencedStateID exampleLedgerEnv (UTXOInput [7, 0])) = None" by (simp add: exampleState_def exampleLedgerEnv_def)
  ultimately show ?thesis using spent_output_not_found[of ?L exampleLedgerEnv "[7, 0]" exampleSpent] read by (auto simp: Let_def)
qed

end
