(* ===== verification/Committee.thy ===== *)
theory Committee
  imports AccountsData
begin

text \<open>
  Committees (\<open>pkg/core/account/pool.go\<close>, \<open>accounts.go\<close>, \<open>seated_accounts.go\<close>): the staking pool of a
  validator, a collection of accounts with their pools and total stakes, its byte format, and the
  seats of the members of a committee. A shrinking map is a map; it is iterated in the order \<open>mapOrder\<close>
  of its keys, which the Go runtime chooses. A reader is the list of the bytes it has not delivered yet.
  Locks are not modelled.
\<close>

section \<open>Pools\<close>

record committee_env =
  poolApi :: account_api
  mapOrder :: "bytes set \<Rightarrow> bytes list"

record Pool =
  PoolStake :: base_token
  PoolValidatorStake :: base_token
  PoolFixedCost :: mana

definition poolBytesLength :: nat where
  "poolBytesLength = 3 * 8"

text \<open>The result has the number of bytes read.\<close>

definition PoolFromBytes :: "account_api \<Rightarrow> bytes \<Rightarrow> account_error + (Pool \<times> nat)" where
  "PoolFromBytes A bs =
     bind_res (rd (ReadUint64 (MU A)) bs) (\<lambda>(poolStake, r).
     bind_res (rd (ReadUint64 (MU A)) r) (\<lambda>(validatorStake, r).
     bind_res (rd (ReadUint64 (MU A)) r) (\<lambda>(fixedCost, r).
       Inr (\<lparr>PoolStake = poolStake, PoolValidatorStake = validatorStake, PoolFixedCost = fixedCost\<rparr>, length bs - length r))))"

definition Pool_Bytes :: "account_api \<Rightarrow> Pool \<Rightarrow> bytes" where
  "Pool_Bytes A p =
     WriteUint64 (MU A) (PoolFixedCost p) (WriteUint64 (MU A) (PoolValidatorStake p) (WriteUint64 (MU A) (PoolStake p) []))"

section \<open>Accounts\<close>

record Accounts =
  accountPools :: "bytes \<rightharpoonup> Pool"
  totalStake :: base_token
  totalValidatorStake :: base_token
  reused :: bool

definition NewAccounts :: Accounts where
  "NewAccounts = \<lparr>accountPools = Map.empty, totalStake = 0, totalValidatorStake = 0, reused = False\<rparr>"

definition Accounts_Has :: "bytes \<Rightarrow> Accounts \<Rightarrow> bool" where
  "Accounts_Has i a \<longleftrightarrow> accountPools a i \<noteq> None"

definition Accounts_Size :: "Accounts \<Rightarrow> nat" where
  "Accounts_Size a = card (dom (accountPools a))"

definition IDs :: "committee_env \<Rightarrow> Accounts \<Rightarrow> bytes list" where
  "IDs E a = mapOrder E (dom (accountPools a))"

definition IsReused :: "Accounts \<Rightarrow> bool" where
  "IsReused a = reused a"

definition SetReused :: "Accounts \<Rightarrow> Accounts" where
  "SetReused a = a\<lparr>reused := True\<rparr>"

definition Accounts_Get :: "bytes \<Rightarrow> Accounts \<Rightarrow> Pool option" where
  "Accounts_Get i a = accountPools a i"

definition setWithoutLocking :: "bytes \<Rightarrow> Pool \<Rightarrow> Accounts \<Rightarrow> Accounts" where
  "setWithoutLocking i pool a =
     (let a = (case accountPools a i of
                 None \<Rightarrow> a\<lparr>accountPools := (accountPools a)(i \<mapsto> pool)\<rparr>
               | Some val \<Rightarrow>
                   a\<lparr>totalStake := totalStake a - PoolStake val, totalValidatorStake := totalValidatorStake a - PoolValidatorStake val,
                     accountPools := (accountPools a)(i \<mapsto> pool)\<rparr>)
      in a\<lparr>totalStake := totalStake a + PoolStake pool, totalValidatorStake := totalValidatorStake a + PoolValidatorStake pool\<rparr>)"

definition Accounts_Set :: "bytes \<Rightarrow> Pool \<Rightarrow> Accounts \<Rightarrow> Accounts" where
  "Accounts_Set i pool a = setWithoutLocking i pool a"

definition Accounts_ForEach :: "committee_env \<Rightarrow> (bytes \<Rightarrow> Pool \<Rightarrow> 's \<Rightarrow> 'e + ('s \<times> bool)) \<Rightarrow> Accounts \<Rightarrow> 's \<Rightarrow> 'e + 's" where
  "Accounts_ForEach E callback a s = for_each (\<lambda>i. callback i (the (accountPools a i))) (mapOrder E (dom (accountPools a))) s"

text \<open>
  A pool whose length does not agree ends the reader with \<open>ierrors.Wrap\<close> of a nil error, which is nil or
  an error depending on that library; the flag says that the reader ended there. The result has the
  number of bytes read and the rest of the reader.
\<close>

fun readPools :: "account_api \<Rightarrow> nat \<Rightarrow> Accounts \<Rightarrow> nat \<Rightarrow> bytes \<Rightarrow> account_error + (Accounts \<times> nat \<times> bytes \<times> bool)" where
  "readPools A 0 a n r = Inr (a, n, r, False)"
| "readPools A (Suc k) a n r =
     bind_res (rd (take_bytes (AccountIDLength A)) r) (\<lambda>(accountID, r).
     bind_res (rd (take_bytes poolBytesLength) r) (\<lambda>(poolBytes, r).
     bind_res (PoolFromBytes A poolBytes) (\<lambda>(pool, c).
       if c \<noteq> poolBytesLength then (case WrapfNil A of Some e \<Rightarrow> Inl e | None \<Rightarrow> Inr (a, 0, r, True))
       else readPools A k (setWithoutLocking accountID pool a) (n + AccountIDLength A + poolBytesLength) r)))"

definition Accounts_readFromReadSeeker :: "account_api \<Rightarrow> Accounts \<Rightarrow> bytes \<Rightarrow> account_error + (Accounts \<times> nat \<times> bytes)" where
  "Accounts_readFromReadSeeker A a r =
     (let a = a\<lparr>accountPools := Map.empty\<rparr> in
      bind_res (rd get_le r) (\<lambda>(accountCount :: u32, r).
      bind_res (readPools A (unat accountCount) a 4 r) (\<lambda>(a, n, r, ended).
        if ended then Inr (a, n, r)
        else bind_res (rd get_le r) (\<lambda>(flag :: u8, r). Inr (a\<lparr>reused := flag \<noteq> 0\<rparr>, n + 1, r)))))"

definition AccountsFromReader :: "account_api \<Rightarrow> bytes \<Rightarrow> account_error + (Accounts \<times> nat \<times> bytes)" where
  "AccountsFromReader A r = Accounts_readFromReadSeeker A NewAccounts r"

definition AccountsFromBytes :: "account_api \<Rightarrow> bytes \<Rightarrow> account_error + (Accounts \<times> nat)" where
  "AccountsFromBytes A bs = bind_res (AccountsFromReader A bs) (\<lambda>(a, n, _). Inr (a, n))"

text \<open>Writing a pool does not fail, so the callback never stops the iteration.\<close>

definition Accounts_Bytes :: "committee_env \<Rightarrow> Accounts \<Rightarrow> bytes" where
  "Accounts_Bytes E a =
     (let mu = MU (poolApi E); m = WriteUint32 mu (word_of_nat (Accounts_Size a)) [] in
      WriteBool mu (reused a)
        (fold (\<lambda>i m. WriteBytes mu (Pool_Bytes (poolApi E) (the (accountPools a i))) (WriteBytes mu i m))
           (mapOrder E (dom (accountPools a))) m))"

section \<open>Seats\<close>

record SeatedAccounts =
  seatedOf :: Accounts
  seatsByAccount :: "bytes \<rightharpoonup> seat"

definition SeatIndex_Bytes :: "seat \<Rightarrow> bytes" where
  "SeatIndex_Bytes s = [s]"

definition SeatIndexFromBytes :: "bytes \<Rightarrow> seat option" where
  "SeatIndexFromBytes b = (case b of [x] \<Rightarrow> Some x | _ \<Rightarrow> None)"

definition assignSeats :: "bytes list \<Rightarrow> (bytes \<rightharpoonup> seat)" where
  "assignSeats members = fold (\<lambda>(i, member) m. m(member \<mapsto> word_of_nat i)) (enumerate 0 members) Map.empty"

definition NewSeatedAccounts :: "Accounts \<Rightarrow> bytes list \<Rightarrow> SeatedAccounts" where
  "NewSeatedAccounts a optMembers = \<lparr>seatedOf = a, seatsByAccount = assignSeats (sort optMembers)\<rparr>"

definition SelectCommittee :: "Accounts \<Rightarrow> bytes list \<Rightarrow> SeatedAccounts" where
  "SelectCommittee a members = NewSeatedAccounts a members"

text \<open>The result says whether the seat was added.\<close>

definition Seated_Set :: "seat \<Rightarrow> bytes \<Rightarrow> SeatedAccounts \<Rightarrow> SeatedAccounts \<times> bool" where
  "Seated_Set seat i s =
     (if Accounts_Get i (seatedOf s) = None then (s, False)
      else case seatsByAccount s i of
             Some oldSeat \<Rightarrow> if oldSeat \<noteq> seat then (s, False) else (s\<lparr>seatsByAccount := (seatsByAccount s)(i \<mapsto> seat)\<rparr>, False)
           | None \<Rightarrow> (s\<lparr>seatsByAccount := (seatsByAccount s)(i \<mapsto> seat)\<rparr>, True))"

definition Seated_Delete :: "bytes \<Rightarrow> SeatedAccounts \<Rightarrow> SeatedAccounts \<times> bool" where
  "Seated_Delete i s = (s\<lparr>seatsByAccount := (seatsByAccount s)(i := None)\<rparr>, seatsByAccount s i \<noteq> None)"

definition GetSeat :: "bytes \<Rightarrow> SeatedAccounts \<Rightarrow> seat option" where
  "GetSeat i s = seatsByAccount s i"

definition HasAccount :: "bytes \<Rightarrow> SeatedAccounts \<Rightarrow> bool" where
  "HasAccount i s \<longleftrightarrow> seatsByAccount s i \<noteq> None"

definition SeatCount :: "SeatedAccounts \<Rightarrow> nat" where
  "SeatCount s = card (dom (seatsByAccount s))"

text \<open>A member without an account panics.\<close>

definition Seated_Accounts :: "committee_env \<Rightarrow> SeatedAccounts \<Rightarrow> account_error + Accounts" where
  "Seated_Accounts E s =
     fold_res (\<lambda>i a. bind_res (or_err (AccountMissing i) (Accounts_Get i (seatedOf s))) (\<lambda>pool. Inr (Accounts_Set i pool a)))
       (mapOrder E (dom (seatsByAccount s))) NewAccounts"

section \<open>Well-formed committees\<close>

text \<open>Documented: identifiers have a fixed length; a map is iterated over each of its keys once.\<close>

definition committee_env_ok :: "committee_env \<Rightarrow> bool" where
  "committee_env_ok E \<longleftrightarrow> marshalutil_spec (MU (poolApi E)) \<and> (\<forall>S. finite S \<longrightarrow> distinct (mapOrder E S) \<and> set (mapOrder E S) = S)"

definition totals_ok :: "Accounts \<Rightarrow> bool" where
  "totals_ok a \<longleftrightarrow>
     totalStake a = (\<Sum>i\<in>dom (accountPools a). PoolStake (the (accountPools a i))) \<and>
     totalValidatorStake a = (\<Sum>i\<in>dom (accountPools a). PoolValidatorStake (the (accountPools a i)))"

definition wf_accounts :: "account_api \<Rightarrow> Accounts \<Rightarrow> bool" where
  "wf_accounts A a \<longleftrightarrow> finite (dom (accountPools a)) \<and> (\<forall>i\<in>dom (accountPools a). length i = AccountIDLength A) \<and> totals_ok a"

lemma setWithoutLocking_pools [simp]: "accountPools (setWithoutLocking i p a) = (accountPools a)(i \<mapsto> p)"
  "reused (setWithoutLocking i p a) = reused a"
  by (simp_all add: setWithoutLocking_def split: option.splits)

lemma sum_map_update:
  fixes f :: "'p \<Rightarrow> 'v::ab_group_add"
  assumes "finite (dom m)"
  shows "(\<Sum>k\<in>dom (m(i \<mapsto> p)). f (the ((m(i \<mapsto> p)) k))) =
    (\<Sum>k\<in>dom m. f (the (m k))) - (case m i of None \<Rightarrow> 0 | Some q \<Rightarrow> f q) + f p"
proof -
  have rest: "(\<Sum>k\<in>dom m - {i}. f (the ((m(i \<mapsto> p)) k))) = (\<Sum>k\<in>dom m - {i}. f (the (m k)))" by (rule sum.cong) auto
  have "(\<Sum>k\<in>dom (m(i \<mapsto> p)). f (the ((m(i \<mapsto> p)) k))) = f p + (\<Sum>k\<in>dom m - {i}. f (the (m k)))"
    using assms by (simp add: sum.insert_remove rest del: fun_upd_apply) simp
  moreover have "(\<Sum>k\<in>dom m - {i}. f (the (m k))) = (\<Sum>k\<in>dom m. f (the (m k))) - (case m i of None \<Rightarrow> 0 | Some q \<Rightarrow> f q)"
    using assms by (auto simp: sum_diff1 dom_def split: option.splits)
  ultimately show ?thesis by simp
qed

lemma setWithoutLocking_wf:
  assumes "wf_accounts A a" and "length i = AccountIDLength A"
  shows "wf_accounts A (setWithoutLocking i p a)"
proof -
  have fin: "finite (dom (accountPools a))" and tot: "totals_ok a" using assms(1) by (simp_all add: wf_accounts_def)
  have "totals_ok (setWithoutLocking i p a)"
    using tot unfolding totals_ok_def setWithoutLocking_pools sum_map_update[OF fin]
    by (auto simp: setWithoutLocking_def split: option.splits)
  then show ?thesis using assms by (auto simp: wf_accounts_def)
qed

lemma NewAccounts_wf [simp]: "wf_accounts A NewAccounts"
  by (simp add: wf_accounts_def totals_ok_def NewAccounts_def)

text \<open>Well-formed accounts with the same pools and flag are the same.\<close>

lemma wf_accounts_unique:
  assumes "wf_accounts A a" and "wf_accounts A b" and "accountPools a = accountPools b" and "reused a = reused b"
  shows "a = b"
  using assms by (cases a, cases b) (simp add: wf_accounts_def totals_ok_def)

inductive accounts_reach :: "committee_env \<Rightarrow> Accounts \<Rightarrow> bool" for E where
  new: "accounts_reach E NewAccounts"
| set: "accounts_reach E a \<Longrightarrow> length i = AccountIDLength (poolApi E) \<Longrightarrow> accounts_reach E (Accounts_Set i pool a)"
| reuse: "accounts_reach E a \<Longrightarrow> accounts_reach E (SetReused a)"
| select: "accounts_reach E a \<Longrightarrow> set members \<subseteq> dom (accountPools a) \<Longrightarrow>
    Seated_Accounts E (SelectCommittee a members) = Inr b \<Longrightarrow> accounts_reach E b"
| read: "AccountsFromReader (poolApi E) r = Inr (a, n, r') \<Longrightarrow> accounts_reach E a"

lemma readPools_wf:
  "readPools A k a n r = Inr (b, m, r', e) \<Longrightarrow> wf_accounts A a \<Longrightarrow> wf_accounts A b"
proof (induction k arbitrary: a n r)
  case (Suc k a n r)
  from Suc.prems(1) obtain i r1 pb r2 pool c where *: "take_bytes (AccountIDLength A) r = Some (i, r1)" "take_bytes poolBytesLength r1 = Some (pb, r2)"
    "PoolFromBytes A pb = Inr (pool, c)"
    "(if c \<noteq> poolBytesLength then (case WrapfNil A of Some e \<Rightarrow> Inl e | None \<Rightarrow> Inr (a, 0, r2, True))
      else readPools A k (setWithoutLocking i pool a) (n + AccountIDLength A + poolBytesLength) r2) = Inr (b, m, r', e)"
    by (auto simp: rd_def)
  show ?case
  proof (cases "c = poolBytesLength")
    case True
    have "length i = AccountIDLength A" using *(1) by (auto simp: take_bytes_eq_Some)
    then have "wf_accounts A (setWithoutLocking i pool a)" by (rule setWithoutLocking_wf[OF Suc.prems(2)])
    then show ?thesis using Suc.IH *(4) True by simp
  qed (use *(4) Suc.prems(2) in \<open>auto split: option.splits\<close>)
qed simp

lemma AccountsFromReader_wf:
  assumes "AccountsFromReader A r = Inr (a, n, r')"
  shows "wf_accounts A a"
proof -
  obtain cnt r1 b m r2 e where *: "readPools A cnt (NewAccounts\<lparr>accountPools := Map.empty\<rparr>) 4 r1 = Inr (b, m, r2, e)" "accountPools a = accountPools b"
    "totalStake a = totalStake b" "totalValidatorStake a = totalValidatorStake b"
    using assms by (auto simp: AccountsFromReader_def Accounts_readFromReadSeeker_def split: if_splits)
  have "wf_accounts A (NewAccounts\<lparr>accountPools := Map.empty\<rparr>)" by (simp add: wf_accounts_def totals_ok_def NewAccounts_def)
  from readPools_wf[OF *(1) this] show ?thesis using *(2-4) by (simp add: wf_accounts_def totals_ok_def)
qed

lemma dom_assignSeats: "dom (assignSeats members) = set members"
proof -
  have "dom (fold (\<lambda>(i, member) m. m(member \<mapsto> word_of_nat i)) (enumerate n xs) f) = set xs \<union> dom f" for n xs and f :: "bytes \<rightharpoonup> seat"
    by (induction xs arbitrary: n f) auto
  then show ?thesis by (simp add: assignSeats_def)
qed

lemma Seated_Accounts_pools:
  assumes "committee_env_ok E" and "finite (dom (seatsByAccount s))" and "wf_accounts (poolApi E) (seatedOf s)"
    and "Seated_Accounts E s = Inr b"
  shows "wf_accounts (poolApi E) b" and "accountPools b = accountPools (seatedOf s) |` dom (seatsByAccount s)" and "\<not> reused b"
proof -
  let ?f = "\<lambda>i a. bind_res (or_err (AccountMissing i) (Accounts_Get i (seatedOf s))) (\<lambda>pool. Inr (Accounts_Set i pool a))"
  have "wf_accounts (poolApi E) b \<and> accountPools b = (accountPools (seatedOf s) |` set xs) ++ accountPools a \<and> reused b = reused a"
    if "fold_res ?f xs a = Inr b" "wf_accounts (poolApi E) a" "accountPools a \<subseteq>\<^sub>m accountPools (seatedOf s)" for xs a
    using that
  proof (induction xs arbitrary: a)
    case (Cons i xs)
    obtain p where p: "accountPools (seatedOf s) i = Some p" "fold_res ?f xs (setWithoutLocking i p a) = Inr b"
      using Cons.prems(1) by (auto simp: Accounts_Get_def Accounts_Set_def)
    have "length i = AccountIDLength (poolApi E)" using p(1) assms(3) by (auto simp: wf_accounts_def)
    then have wf: "wf_accounts (poolApi E) (setWithoutLocking i p a)" by (rule setWithoutLocking_wf[OF Cons.prems(2)])
    have le: "accountPools (setWithoutLocking i p a) \<subseteq>\<^sub>m accountPools (seatedOf s)"
      using Cons.prems(3) p(1) by (auto simp: map_le_def)
    have "(accountPools (seatedOf s) |` set xs) ++ (accountPools a)(i \<mapsto> p) = (accountPools (seatedOf s) |` set (i # xs)) ++ accountPools a"
      using p(1) Cons.prems(3) unfolding map_le_def by (auto simp: fun_eq_iff map_add_def restrict_map_def split: option.splits) (metis domI option.inject)
    then show ?case using Cons.IH[OF p(2) wf le] unfolding setWithoutLocking_pools by (simp only: simp_thms)
  qed simp
  note folded = this[of "mapOrder E (dom (seatsByAccount s))" NewAccounts]
  have "accountPools NewAccounts = Map.empty" "\<not> reused NewAccounts" by (simp_all add: NewAccounts_def)
  moreover have "set (mapOrder E (dom (seatsByAccount s))) = dom (seatsByAccount s)" using assms(1,2) by (simp add: committee_env_ok_def)
  ultimately show "wf_accounts (poolApi E) b" and "accountPools b = accountPools (seatedOf s) |` dom (seatsByAccount s)" and "\<not> reused b"
    using folded assms(4) unfolding Seated_Accounts_def by simp_all
qed

lemma accounts_reach_wf:
  assumes "committee_env_ok E" and "accounts_reach E a"
  shows "wf_accounts (poolApi E) a"
  using assms(2)
proof induction
  case (set a i pool)
  then show ?case by (simp add: Accounts_Set_def setWithoutLocking_wf)
next
  case (select a members b)
  then show ?case
    by (intro Seated_Accounts_pools(1)[OF assms(1) _ _ select(3)]) (simp_all add: SelectCommittee_def NewSeatedAccounts_def dom_assignSeats)
next
  case (reuse a)
  then show ?case by (simp add: SetReused_def wf_accounts_def totals_ok_def)
next
  case (read r a n r')
  then show ?case by (rule AccountsFromReader_wf)
qed simp

section \<open>The byte format\<close>

lemma Pool_read_back [simp]:
  assumes "marshalutil_spec (MU A)"
  shows "PoolFromBytes A (Pool_Bytes A p) = Inr (p, poolBytesLength)" and "length (Pool_Bytes A p) = poolBytesLength"
  using assms get_put_le_width(4)[of _ "[]"]
  by (simp_all add: marshalutil_spec_iff PoolFromBytes_def Pool_Bytes_def rd_def codec_simps poolBytesLength_def)

lemma readPools_read_back:
  assumes "marshalutil_spec (MU A)" and "\<forall>i\<in>set xs. length i = AccountIDLength A"
  shows "readPools A (length xs) a n (concat (map (\<lambda>i. i @ Pool_Bytes A (P i)) xs) @ r) =
    Inr (fold (\<lambda>i. setWithoutLocking i (P i)) xs a, n + length xs * (AccountIDLength A + poolBytesLength), r, False)"
  using assms by (induction xs arbitrary: a n) (simp_all add: rd_def take_bytes_append)

lemma fold_set_pools: "accountPools (fold (\<lambda>i. setWithoutLocking i (P i)) xs a) = (\<lambda>i. if i \<in> set xs then Some (P i) else accountPools a i)"
  "reused (fold (\<lambda>i. setWithoutLocking i (P i)) xs a) = reused a"
  by (induction xs arbitrary: a) (auto simp: fun_eq_iff)

lemma fold_set_wf:
  "wf_accounts A a \<Longrightarrow> \<forall>i\<in>set xs. length i = AccountIDLength A \<Longrightarrow> wf_accounts A (fold (\<lambda>i. setWithoutLocking i (P i)) xs a)"
  by (induction xs arbitrary: a) (simp_all add: setWithoutLocking_wf)

lemma Accounts_Bytes_eq:
  assumes "committee_env_ok E"
  shows "Accounts_Bytes E a = put_le (word_of_nat (Accounts_Size a) :: u32) @
    concat (map (\<lambda>i. i @ Pool_Bytes (poolApi E) (the (accountPools a i))) (mapOrder E (dom (accountPools a)))) @ [if reused a then 1 else 0]"
proof -
  have mu: "MU (poolApi E) = marshalutil_le" using assms by (simp add: committee_env_ok_def marshalutil_spec_iff)
  have "fold (\<lambda>i m. m @ i @ Pool_Bytes (poolApi E) (the (accountPools a i))) xs m =
    m @ concat (map (\<lambda>i. i @ Pool_Bytes (poolApi E) (the (accountPools a i))) xs)" for xs m
    by (induction xs arbitrary: m) simp_all
  then show ?thesis by (simp add: Accounts_Bytes_def mu codec_simps Let_def)
qed

lemma AccountsFromReader_read_back:
  assumes ok: "committee_env_ok E" and wf: "wf_accounts (poolApi E) a" and small: "Accounts_Size a < 2 ^ 32"
  shows "AccountsFromReader (poolApi E) (Accounts_Bytes E a @ r) = Inr (a, length (Accounts_Bytes E a), r)"
proof -
  let ?A = "poolApi E"
  let ?xs = "mapOrder E (dom (accountPools a))"
  let ?P = "\<lambda>i. the (accountPools a i)"
  have fin: "finite (dom (accountPools a))" using wf by (simp add: wf_accounts_def)
  have mu: "marshalutil_spec (MU ?A)" using ok by (simp add: committee_env_ok_def)
  have xs: "distinct ?xs" "set ?xs = dom (accountPools a)" using ok fin by (simp_all add: committee_env_ok_def)
  have len: "\<forall>i\<in>set ?xs. length i = AccountIDLength ?A" using wf xs(2) by (simp add: wf_accounts_def)
  have size: "unat (word_of_nat (Accounts_Size a) :: u32) = length ?xs"
    using small xs by (simp add: unat_of_nat_small Accounts_Size_def flip: distinct_card)
  let ?b = "fold (\<lambda>i. setWithoutLocking i (?P i)) ?xs NewAccounts"
  have pools: "accountPools ?b = accountPools a"
    unfolding fold_set_pools xs(2) by (rule ext) (auto simp: NewAccounts_def domIff)
  have b: "?b\<lparr>reused := reused a\<rparr> = a"
    using fold_set_wf[OF NewAccounts_wf len, of ?P] pools wf by (intro wf_accounts_unique[of ?A]) (simp_all add: wf_accounts_def totals_ok_def)
  have init: "NewAccounts\<lparr>accountPools := Map.empty\<rparr> = NewAccounts" by (simp add: NewAccounts_def)
  have "length (Accounts_Bytes E a) = 4 + length ?xs * (AccountIDLength ?A + poolBytesLength) + 1"
  proof -
    have "length (concat (map (\<lambda>i. i @ Pool_Bytes ?A (?P i)) ys)) = length ys * (AccountIDLength ?A + poolBytesLength)" if "set ys \<subseteq> set ?xs" for ys
      using that len mu by (induction ys) (auto simp: algebra_simps)
    then show ?thesis by (simp add: Accounts_Bytes_eq[OF ok])
  qed
  moreover have "get_le ((if reused a then 1 else 0) # r) = Some (if reused a then 1 else 0 :: u8, r)"
    using get_put_le_width(1)[of "if reused a then 1 else 0" r] by (simp add: put_le_u8)
  ultimately show ?thesis
    using b by (cases "reused a") (simp_all add: AccountsFromReader_def Accounts_readFromReadSeeker_def Accounts_Bytes_eq[OF ok] rd_def codec_simps size init
      readPools_read_back[OF mu len])
qed

interpretation committee: codec "Accounts_Bytes E"
  "\<lambda>bs. case AccountsFromReader (poolApi E) bs of Inl _ \<Rightarrow> None | Inr (a, _, r) \<Rightarrow> Some (a, r)"
  "\<lambda>a. committee_env_ok E \<and> wf_accounts (poolApi E) a \<and> Accounts_Size a < 2 ^ 32" for E
  by unfold_locales (simp add: AccountsFromReader_read_back)

section \<open>Seats by rank\<close>

lemma assignSeats_nth:
  assumes "distinct xs" and "i < length xs"
  shows "assignSeats xs (xs ! i) = Some (word_of_nat i)"
proof -
  have "fold (\<lambda>(i, member) m. m(member \<mapsto> word_of_nat i)) (enumerate n xs) f (xs ! i) = Some (word_of_nat (n + i))"
    if "distinct xs" "i < length xs" for n i xs and f :: "bytes \<rightharpoonup> seat"
    using that
  proof (induction xs arbitrary: n i f)
    case (Cons x xs)
    have other: "x \<notin> set xs \<Longrightarrow> fold (\<lambda>(i, member) m. m(member \<mapsto> word_of_nat i)) (enumerate n xs) f x = f x" for n and f :: "bytes \<rightharpoonup> seat"
      by (induction xs arbitrary: n f) auto
    show ?case
    proof (cases i)
      case 0
      then show ?thesis using Cons.prems(1) other[of "Suc n" "f(x \<mapsto> word_of_nat n)"] by (simp del: fun_upd_apply) simp
    next
      case (Suc j)
      then show ?thesis using Cons.IH[of j "Suc n" "f(x \<mapsto> word_of_nat n)"] Cons.prems by (simp del: fun_upd_apply)
    qed
  qed simp
  from this[of xs i 0] assms show ?thesis by (simp add: assignSeats_def)
qed

lemma seats_injective_iff:
  assumes "distinct xs"
  shows "inj_on (assignSeats xs) (set xs) \<longleftrightarrow> length xs \<le> 256"
proof
  assume inj: "inj_on (assignSeats xs) (set xs)"
  show "length xs \<le> 256"
  proof (rule ccontr)
    assume "\<not> length xs \<le> 256"
    then have l: "0 < length xs" "256 < length xs" by auto
    have "assignSeats xs (xs ! 0) = assignSeats xs (xs ! 256)" using l by (simp add: assignSeats_nth[OF assms])
    then have "xs ! 0 = xs ! 256" using inj l by (meson inj_onD nth_mem)
    then show False using nth_eq_iff_index_eq[OF assms l] by simp
  qed
next
  assume small: "length xs \<le> 256"
  show "inj_on (assignSeats xs) (set xs)"
  proof (rule inj_onI)
    fix x y assume "x \<in> set xs" "y \<in> set xs" and eq: "assignSeats xs x = assignSeats xs y"
    then obtain i j where ij: "i < length xs" "x = xs ! i" "j < length xs" "y = xs ! j" by (metis in_set_conv_nth)
    then have "unat (word_of_nat i :: seat) = unat (word_of_nat j :: seat)" using eq by (simp add: assignSeats_nth[OF assms])
    then have "i = j" using ij small by (simp add: unat_of_nat_small)
    then show "x = y" using ij by simp
  qed
qed

section \<open>Properties\<close>

text \<open>C34: However accounts are built, by setting pools, marking them as reused, selecting a committee among
  them or reading them from bytes, their identifiers have the fixed length and the totals are the sums
  of the stakes of the pools (in 64 bits). Their bytes are read back as the same accounts, whatever
  follows them and whatever order the map is iterated in.\<close>

theorem accounts_read_back_with_totals:
  assumes "committee_env_ok E" and "accounts_reach E a" and "Accounts_Size a < 2 ^ 32"
  shows "(\<forall>i. Accounts_Has i a \<longrightarrow> length i = AccountIDLength (poolApi E)) \<and>
    totalStake a = (\<Sum>i\<in>set (IDs E a). PoolStake (the (Accounts_Get i a))) \<and>
    totalValidatorStake a = (\<Sum>i\<in>set (IDs E a). PoolValidatorStake (the (Accounts_Get i a))) \<and>
    AccountsFromReader (poolApi E) (Accounts_Bytes E a @ r) = Inr (a, length (Accounts_Bytes E a), r)"
proof -
  have wf: "wf_accounts (poolApi E) a" by (rule accounts_reach_wf[OF assms(1,2)])
  then have "set (IDs E a) = dom (accountPools a)" using assms(1) by (simp add: IDs_def wf_accounts_def committee_env_ok_def)
  then show ?thesis using wf AccountsFromReader_read_back[OF assms(1) wf assms(3)]
    by (auto simp: wf_accounts_def totals_ok_def Accounts_Has_def Accounts_Get_def)
qed

definition exampleCommittee :: committee_env where
  "exampleCommittee = \<lparr>poolApi = exampleAccounts, mapOrder = sorted_list_of_set\<rparr>"

lemma exampleCommittee_ok [simp]: "committee_env_ok exampleCommittee"
  by (simp add: committee_env_ok_def exampleCommittee_def exampleAccounts_def)

definition examplePools :: Accounts where
  "examplePools = SetReused (Accounts_Set [4] \<lparr>PoolStake = 30, PoolValidatorStake = 10, PoolFixedCost = 1\<rparr>
     (Accounts_Set [9] \<lparr>PoolStake = 70, PoolValidatorStake = 50, PoolFixedCost = 2\<rparr> NewAccounts))"

lemma examplePools_reach: "accounts_reach exampleCommittee examplePools"
  unfolding examplePools_def by (intro accounts_reach.intros) (simp_all add: exampleCommittee_def exampleAccounts_def)

lemma examplePools_size: "Accounts_Size examplePools = 2" "set (IDs exampleCommittee examplePools) = {[4], [9]}"
  by (simp_all add: Accounts_Size_def IDs_def examplePools_def SetReused_def Accounts_Set_def NewAccounts_def exampleCommittee_def)

theorem accounts_read_back_with_totals_witness:
  "totalStake examplePools = 100 \<and>
   AccountsFromReader exampleAccounts (Accounts_Bytes exampleCommittee examplePools @ [1]) =
     Inr (examplePools, length (Accounts_Bytes exampleCommittee examplePools), [1])"
proof -
  have pools: "Accounts_Get [4] examplePools = Some \<lparr>PoolStake = 30, PoolValidatorStake = 10, PoolFixedCost = 1\<rparr>"
    "Accounts_Get [9] examplePools = Some \<lparr>PoolStake = 70, PoolValidatorStake = 50, PoolFixedCost = 2\<rparr>"
    by (simp_all add: Accounts_Get_def examplePools_def SetReused_def Accounts_Set_def NewAccounts_def)
  have "poolApi exampleCommittee = exampleAccounts" by (simp add: exampleCommittee_def)
  then show ?thesis
    using accounts_read_back_with_totals[OF exampleCommittee_ok examplePools_reach, of "[1]"] by (simp add: examplePools_size pools)
qed

text \<open>C35: The seats of a committee are the ranks of its members in the order of their bytes, whatever
  order the members are given in. No two members share a seat exactly if there are at most 256.\<close>

theorem seats_follow_rank:
  assumes "distinct members"
  shows "(\<forall>i < length members. GetSeat (sort members ! i) (SelectCommittee a members) = Some (word_of_nat i)) \<and>
    (\<forall>i. i \<notin> set members \<longrightarrow> GetSeat i (SelectCommittee a members) = None) \<and>
    (\<forall>ms. distinct ms \<and> set ms = set members \<longrightarrow> SelectCommittee a ms = SelectCommittee a members) \<and>
    SeatCount (SelectCommittee a members) = length members \<and>
    (inj_on (\<lambda>i. GetSeat i (SelectCommittee a members)) (set members) \<longleftrightarrow> length members \<le> 256)"
proof -
  have d: "distinct (sort members)" using assms by simp
  have "SelectCommittee a ms = SelectCommittee a members" if "distinct ms" "set ms = set members" for ms
  proof -
    have "sort ms = sort members" using that assms by (intro sorted_distinct_set_unique) simp_all
    then show ?thesis by (simp add: SelectCommittee_def NewSeatedAccounts_def)
  qed
  moreover have "i \<notin> set members \<Longrightarrow> GetSeat i (SelectCommittee a members) = None" for i
    using dom_assignSeats[of "sort members"] by (auto simp: GetSeat_def SelectCommittee_def NewSeatedAccounts_def domIff)
  ultimately show ?thesis
    using assignSeats_nth[OF d] seats_injective_iff[OF d] distinct_card[OF assms]
    by (simp add: GetSeat_def SeatCount_def SelectCommittee_def NewSeatedAccounts_def dom_assignSeats)
qed

theorem seats_follow_rank_witness:
  "GetSeat [9] (SelectCommittee examplePools [[9], [4]]) = Some 1 \<and> GetSeat [5] (SelectCommittee examplePools [[9], [4]]) = None"
proof -
  let ?s = "SelectCommittee examplePools [[9], [4]]"
  have sorted: "sort [[9], [4]] ! 1 = [9 :: u8]" by simp
  have d: "distinct [[9], [4 :: u8]]" by simp
  note ranks = seats_follow_rank[OF d, of examplePools]
  have "GetSeat (sort [[9], [4]] ! 1) ?s = Some (word_of_nat 1)" using conjunct1[OF ranks, rule_format, of 1] by simp
  moreover have "GetSeat [5] ?s = None" using conjunct1[OF conjunct2[OF ranks], rule_format, of "[5]"] by simp
  ultimately show ?thesis unfolding sorted by simp
qed

end
