(* ===== verification/EpochStore.thy ===== *)
theory EpochStore
  imports External
begin

text \<open>
  What the node keeps per epoch (\<open>pkg/storage/prunable/epochstore/store.go\<close> and \<open>epoch_kv.go\<close>) and how
  far it was pruned (\<open>pkg/model/eviction_index.go\<close>, \<open>pruning_index.go\<close>). A store has one value per
  epoch, a key-value store of epochs one map per epoch; deleting the prefix of an epoch empties it. The
  bytes of an epoch index come from \<open>iota.go\<close>: fields of the record \<open>epoch_codec\<close>. Reads and writes of
  the database do not fail for reasons of their own. A prune that never returns is \<open>None\<close>.
\<close>

section \<open>The eviction index\<close>

record epoch_codec =
  EpochBytes :: "epoch \<Rightarrow> bytes"
  EpochIndexFromBytes :: "bytes \<Rightarrow> epoch option"

definition epoch_codec_ok :: "epoch_codec \<Rightarrow> bool" where
  "epoch_codec_ok C \<longleftrightarrow> (\<forall>e. EpochIndexFromBytes C (EpochBytes C e) = Some e)"

definition epoch_codec_le :: epoch_codec where
  "epoch_codec_le = \<lparr>EpochBytes = put_le, EpochIndexFromBytes = \<lambda>bs. map_option fst (get_le bs)\<rparr>"

lemma epoch_codec_le_ok [simp]: "epoch_codec_ok epoch_codec_le"
  using get_put_le_width(3)[of _ "[]"] by (simp add: epoch_codec_ok_def epoch_codec_le_def)

record 'k EvictionIndex =
  evIndex :: "'k option"

definition NewEvictionIndex :: "'k EvictionIndex" where
  "NewEvictionIndex = \<lparr>evIndex = None\<rparr>"

definition ShouldEvict :: "'w::len word \<Rightarrow> 'w word EvictionIndex \<Rightarrow> bool" where
  "ShouldEvict newIndex e = (case evIndex e of None \<Rightarrow> True | Some i \<Rightarrow> i < newIndex)"

text \<open>The second result is the previous index and whether there was one.\<close>

definition EvictionIndex_MarkEvicted :: "'w::len word \<Rightarrow> 'w word EvictionIndex \<Rightarrow> 'w word EvictionIndex \<times> ('w word \<times> bool)" where
  "EvictionIndex_MarkEvicted index e =
     (e\<lparr>evIndex := Some index\<rparr>, case evIndex e of None \<Rightarrow> (0, False) | Some prev \<Rightarrow> (prev, True))"

definition EvictionIndex_Index :: "'w::len word EvictionIndex \<Rightarrow> 'w word \<times> bool" where
  "EvictionIndex_Index e = (case evIndex e of None \<Rightarrow> (0, False) | Some i \<Rightarrow> (i, True))"

definition EvictionIndex_NextIndex :: "'w::len word EvictionIndex \<Rightarrow> 'w word" where
  "EvictionIndex_NextIndex e = (case evIndex e of None \<Rightarrow> 0 | Some i \<Rightarrow> i + 1)"

definition IsEvicted :: "'w::len word \<Rightarrow> 'w word EvictionIndex \<Rightarrow> bool" where
  "IsEvicted index e = (case evIndex e of None \<Rightarrow> False | Some i \<Rightarrow> index \<le> i)"

section \<open>The pruning index\<close>

text \<open>\<open>piStored\<close> is the value of the index's key in the database.\<close>

record PruningIndex =
  piStored :: "bytes option"
  memLastPrunedEpoch :: "epoch EvictionIndex"

definition NewPruningIndex :: "bytes option \<Rightarrow> PruningIndex" where
  "NewPruningIndex stored = \<lparr>piStored = stored, memLastPrunedEpoch = NewEvictionIndex\<rparr>"

definition PruningIndex_MarkEvicted :: "epoch_codec \<Rightarrow> epoch \<Rightarrow> PruningIndex \<Rightarrow> PruningIndex" where
  "PruningIndex_MarkEvicted C ep p =
     p\<lparr>memLastPrunedEpoch := fst (EvictionIndex_MarkEvicted ep (memLastPrunedEpoch p)), piStored := Some (EpochBytes C ep)\<rparr>"

definition PruningIndex_Index :: "PruningIndex \<Rightarrow> epoch \<times> bool" where
  "PruningIndex_Index p = EvictionIndex_Index (memLastPrunedEpoch p)"

definition PruningIndex_NextIndex :: "PruningIndex \<Rightarrow> epoch" where
  "PruningIndex_NextIndex p = EvictionIndex_NextIndex (memLastPrunedEpoch p)"

text \<open>\<open>None\<close> is the error of stored bytes that are no epoch index.\<close>

definition RestoreFromDisk :: "epoch_codec \<Rightarrow> PruningIndex \<Rightarrow> PruningIndex option" where
  "RestoreFromDisk C p =
     (case piStored p of None \<Rightarrow> Some p
      | Some bs \<Rightarrow> map_option (\<lambda>ep. p\<lparr>memLastPrunedEpoch := fst (EvictionIndex_MarkEvicted ep (memLastPrunedEpoch p))\<rparr>)
          (EpochIndexFromBytes C bs))"

section \<open>The stores\<close>

datatype epoch_error = ErrEpochPruned epoch

record 'v EpochStore =
  esKV :: "epoch \<rightharpoonup> 'v"
  esPruningDelay :: epoch
  esLastPruned :: PruningIndex

definition NewStore :: "(epoch \<rightharpoonup> 'v) \<Rightarrow> bytes option \<Rightarrow> epoch \<Rightarrow> 'v EpochStore" where
  "NewStore kv stored delay = \<lparr>esKV = kv, esPruningDelay = delay, esLastPruned = NewPruningIndex stored\<rparr>"

definition Store_isTooOld :: "epoch \<Rightarrow> 'v EpochStore \<Rightarrow> bool" where
  "Store_isTooOld ep s = (let (prunedEpoch, hasPruned) = PruningIndex_Index (esLastPruned s) in hasPruned \<and> ep \<le> prunedEpoch)"

definition Store_RestoreLastPrunedEpoch :: "epoch_codec \<Rightarrow> 'v EpochStore \<Rightarrow> 'v EpochStore option" where
  "Store_RestoreLastPrunedEpoch C s = map_option (\<lambda>p. s\<lparr>esLastPruned := p\<rparr>) (RestoreFromDisk C (esLastPruned s))"

text \<open>A missing key is the zero value, a nil pointer.\<close>

definition Store_Load :: "epoch \<Rightarrow> 'v EpochStore \<Rightarrow> epoch_error + 'v option" where
  "Store_Load ep s = (if Store_isTooOld ep s then Inl (ErrEpochPruned ep) else Inr (esKV s ep))"

definition Store_Store :: "epoch \<Rightarrow> 'v \<Rightarrow> 'v EpochStore \<Rightarrow> epoch_error + 'v EpochStore" where
  "Store_Store ep val s =
     (if Store_isTooOld ep s then Inl (ErrEpochPruned ep) else Inr (s\<lparr>esKV := (esKV s)(ep \<mapsto> val)\<rparr>))"

definition Store_DeleteEpoch :: "epoch \<Rightarrow> 'v EpochStore \<Rightarrow> 'v EpochStore" where
  "Store_DeleteEpoch ep s = s\<lparr>esKV := (esKV s)(ep := None)\<rparr>"

definition prunedDelay :: "epoch \<Rightarrow> epoch \<Rightarrow> epoch" where
  "prunedDelay defaultPruningDelay own = (if own \<le> defaultPruningDelay then 0 else own - defaultPruningDelay)"

definition Store_Prune :: "epoch_codec \<Rightarrow> epoch \<Rightarrow> epoch \<Rightarrow> 'v EpochStore \<Rightarrow> 'v EpochStore option" where
  "Store_Prune C ep defaultPruningDelay s =
     (let pruningDelay = prunedDelay defaultPruningDelay (esPruningDelay s) in
      if ep < pruningDelay then Some s
      else for_up (\<lambda>i s. s\<lparr>esKV := (esKV s)(i := None), esLastPruned := PruningIndex_MarkEvicted C i (esLastPruned s)\<rparr>)
             (PruningIndex_NextIndex (esLastPruned s)) (ep - pruningDelay) s)"

record ('k, 'v) EpochKVStore =
  ekKV :: "epoch \<Rightarrow> 'k \<rightharpoonup> 'v"
  ekPruningDelay :: epoch
  ekLastPruned :: PruningIndex

definition NewEpochKVStore :: "(epoch \<Rightarrow> 'k \<rightharpoonup> 'v) \<Rightarrow> bytes option \<Rightarrow> epoch \<Rightarrow> ('k, 'v) EpochKVStore" where
  "NewEpochKVStore kv stored delay = \<lparr>ekKV = kv, ekPruningDelay = delay, ekLastPruned = NewPruningIndex stored\<rparr>"

definition EpochKV_isTooOld :: "epoch \<Rightarrow> ('k, 'v) EpochKVStore \<Rightarrow> bool" where
  "EpochKV_isTooOld ep e = (let (prunedEpoch, hasPruned) = PruningIndex_Index (ekLastPruned e) in hasPruned \<and> ep \<le> prunedEpoch)"

definition EpochKV_RestoreLastPrunedEpoch :: "epoch_codec \<Rightarrow> ('k, 'v) EpochKVStore \<Rightarrow> ('k, 'v) EpochKVStore option" where
  "EpochKV_RestoreLastPrunedEpoch C e = map_option (\<lambda>p. e\<lparr>ekLastPruned := p\<rparr>) (RestoreFromDisk C (ekLastPruned e))"

definition GetEpoch :: "epoch \<Rightarrow> ('k, 'v) EpochKVStore \<Rightarrow> epoch_error + ('k \<rightharpoonup> 'v)" where
  "GetEpoch ep e = (if EpochKV_isTooOld ep e then Inl (ErrEpochPruned ep) else Inr (ekKV e ep))"

definition EpochKV_DeleteEpoch :: "epoch \<Rightarrow> ('k, 'v) EpochKVStore \<Rightarrow> ('k, 'v) EpochKVStore" where
  "EpochKV_DeleteEpoch ep e = e\<lparr>ekKV := (ekKV e)(ep := Map.empty)\<rparr>"

definition EpochKV_Prune :: "epoch_codec \<Rightarrow> epoch \<Rightarrow> epoch \<Rightarrow> ('k, 'v) EpochKVStore \<Rightarrow> ('k, 'v) EpochKVStore option" where
  "EpochKV_Prune C ep defaultPruningDelay e =
     (let pruningDelay = prunedDelay defaultPruningDelay (ekPruningDelay e) in
      if ep < pruningDelay then Some e
      else for_up (\<lambda>i e. e\<lparr>ekKV := (ekKV e)(i := Map.empty), ekLastPruned := PruningIndex_MarkEvicted C i (ekLastPruned e)\<rparr>)
             (PruningIndex_NextIndex (ekLastPruned e)) (ep - pruningDelay) e)"

section \<open>Pruning\<close>

text \<open>
  What both stores share: dropping an epoch empties it and marks it as pruned. \<open>readable\<close> is the view of
  a client, \<open>None\<close> for an epoch that is too old.
\<close>

definition too_old :: "PruningIndex \<Rightarrow> epoch \<Rightarrow> bool" where
  "too_old p ep \<longleftrightarrow> (case evIndex (memLastPrunedEpoch p) of None \<Rightarrow> False | Some i \<Rightarrow> ep \<le> i)"

definition stored_in_sync :: "epoch_codec \<Rightarrow> PruningIndex \<Rightarrow> bool" where
  "stored_in_sync C p \<longleftrightarrow> piStored p = map_option (EpochBytes C) (evIndex (memLastPrunedEpoch p))"

lemmas index_defs = EvictionIndex_MarkEvicted_def EvictionIndex_Index_def EvictionIndex_NextIndex_def NewEvictionIndex_def
  PruningIndex_MarkEvicted_def PruningIndex_Index_def PruningIndex_NextIndex_def NewPruningIndex_def RestoreFromDisk_def

lemma isTooOld_iff: "Store_isTooOld ep s \<longleftrightarrow> too_old (esLastPruned s) ep" "EpochKV_isTooOld ep e \<longleftrightarrow> too_old (ekLastPruned e) ep"
  by (auto simp: Store_isTooOld_def EpochKV_isTooOld_def too_old_def index_defs split: option.splits)

lemma restart_in_sync:
  assumes "epoch_codec_ok C" and "stored_in_sync C p"
  shows "RestoreFromDisk C (NewPruningIndex (piStored p)) = Some p"
  using assms by (cases "evIndex (memLastPrunedEpoch p)") (auto simp: index_defs stored_in_sync_def epoch_codec_ok_def)

locale pruned_store =
  fixes C :: epoch_codec and contents :: "'s \<Rightarrow> epoch \<Rightarrow> 'c" and index :: "'s \<Rightarrow> PruningIndex"
    and drop_epoch :: "epoch \<Rightarrow> 's \<Rightarrow> 's" and empty :: 'c
  assumes contents_drop: "contents (drop_epoch i s) = (contents s)(i := empty)"
    and index_drop: "index (drop_epoch i s) = PruningIndex_MarkEvicted C i (index s)"
begin

definition readable :: "'s \<Rightarrow> epoch \<Rightarrow> 'c option" where
  "readable s ep = (if too_old (index s) ep then None else Some (contents s ep))"

lemma contents_fold: "contents (fold drop_epoch xs s) = (\<lambda>ep. if ep \<in> set xs then empty else contents s ep)"
  by (induction xs arbitrary: s) (auto simp: contents_drop)

lemma index_fold: "index (fold drop_epoch xs s) = (if xs = [] then index s else PruningIndex_MarkEvicted C (last xs) (index s))"
  by (induction xs arbitrary: s) (auto simp: index_drop index_defs)

lemma sync_fold: "stored_in_sync C (index s) \<Longrightarrow> stored_in_sync C (index (fold drop_epoch xs s))"
  by (auto simp: index_fold stored_in_sync_def index_defs)

lemma prune_readable:
  assumes hi: "hi \<noteq> - 1" and old: "evIndex (memLastPrunedEpoch (index s)) \<noteq> Some (- 1)"
  shows "\<exists>t. for_up drop_epoch (PruningIndex_NextIndex (index s)) hi s = Some t \<and>
    readable t = (\<lambda>ep. if ep \<le> hi then None else readable s ep) \<and>
    contents t = (\<lambda>ep. if PruningIndex_NextIndex (index s) \<le> ep \<and> ep \<le> hi then empty else contents s ep) \<and>
    (stored_in_sync C (index s) \<longrightarrow> stored_in_sync C (index t))"
proof -
  let ?lo = "PruningIndex_NextIndex (index s)"
  let ?t = "fold drop_epoch (wrange ?lo hi) s"
  have next_iff: "too_old (index s) ep \<longleftrightarrow> ep < ?lo" for ep
  proof (cases "evIndex (memLastPrunedEpoch (index s))")
    case (Some i)
    then have "unat (i + 1) = Suc (unat i)" using word_Suc_no_wrap[of i i] old by simp
    then show ?thesis using Some by (simp add: too_old_def index_defs word_le_nat_alt word_less_nat_alt less_Suc_eq_le)
  qed (simp add: too_old_def index_defs)
  have "readable ?t ep = (if ep \<le> hi then None else readable s ep)" for ep
  proof (cases "?lo \<le> hi")
    case True
    then have "wrange ?lo hi \<noteq> []" using hi by (simp add: wrange_Cons)
    moreover have "last (wrange ?lo hi) = hi" using True by (simp add: wrange_def word_le_nat_alt)
    ultimately have "too_old (index ?t) ep \<longleftrightarrow> ep \<le> hi" by (simp add: index_fold too_old_def index_defs)
    moreover have "too_old (index s) ep \<Longrightarrow> ep \<le> hi" using True next_iff by fastforce
    ultimately show ?thesis by (auto simp: readable_def contents_fold)
  next
    case False
    then have "wrange ?lo hi = []" by simp
    then show ?thesis using False next_iff[of ep] by (auto simp: readable_def)
  qed
  then have "readable ?t = (\<lambda>ep. if ep \<le> hi then None else readable s ep)" by (rule ext)
  moreover have "stored_in_sync C (index s) \<longrightarrow> stored_in_sync C (index ?t)" using sync_fold by simp
  moreover have "contents ?t = (\<lambda>ep. if ?lo \<le> ep \<and> ep \<le> hi then empty else contents s ep)" by (simp add: contents_fold)
  ultimately show ?thesis using for_up_returns[OF hi, of drop_epoch ?lo s] by (intro exI[of _ ?t] conjI)
qed

end

interpretation value_store: pruned_store C esKV esLastPruned
  "\<lambda>i s. s\<lparr>esKV := (esKV s)(i := None), esLastPruned := PruningIndex_MarkEvicted C i (esLastPruned s)\<rparr>" None for C
  by unfold_locales simp_all

interpretation map_store: pruned_store C ekKV ekLastPruned
  "\<lambda>i e. e\<lparr>ekKV := (ekKV e)(i := Map.empty), ekLastPruned := PruningIndex_MarkEvicted C i (ekLastPruned e)\<rparr>" Map.empty for C
  by unfold_locales simp_all

text \<open>The last epoch that a call prunes: with the larger of the two delays before the current epoch.\<close>

definition prunedUpTo :: "epoch \<Rightarrow> epoch \<Rightarrow> epoch \<Rightarrow> epoch" where
  "prunedUpTo ep defaultPruningDelay own = ep - prunedDelay defaultPruningDelay own"

lemma prunedUpTo_exact:
  assumes "\<not> ep < prunedDelay d own"
  shows "unat (prunedUpTo ep d own) + max (unat d) (unat own) = unat ep + unat d"
proof (cases "own \<le> d")
  case False
  then have "unat (own - d) = unat own - unat d" by (simp add: unat_sub)
  moreover from assms False have "unat (ep - (own - d)) = unat ep - unat (own - d)" "unat (own - d) \<le> unat ep"
    by (simp_all add: prunedDelay_def unat_sub word_le_nat_alt not_less)
  ultimately show ?thesis using False by (simp add: prunedUpTo_def prunedDelay_def word_le_nat_alt)
qed (simp add: prunedUpTo_def prunedDelay_def word_le_nat_alt max_def)

lemma Load_readable: "Store_Load ep s = or_err (ErrEpochPruned ep) (value_store.readable s ep)"
  "GetEpoch ep e = or_err (ErrEpochPruned ep) (map_store.readable e ep)"
  by (auto simp: Store_Load_def GetEpoch_def isTooOld_iff value_store.readable_def map_store.readable_def)

lemma Store_Prune_correct:
  assumes "epoch_codec_ok C" and "stored_in_sync C (esLastPruned s)" and "evIndex (memLastPrunedEpoch (esLastPruned s)) \<noteq> Some (- 1)"
    and "\<not> ep < prunedDelay d (esPruningDelay s)" and "prunedUpTo ep d (esPruningDelay s) \<noteq> - 1"
  shows "\<exists>t. Store_Prune C ep d s = Some t \<and>
    (\<forall>e. Store_Load e t = (if e \<le> prunedUpTo ep d (esPruningDelay s) then Inl (ErrEpochPruned e) else Store_Load e s)) \<and>
    (\<forall>e. esKV t e = (if PruningIndex_NextIndex (esLastPruned s) \<le> e \<and> e \<le> prunedUpTo ep d (esPruningDelay s) then None else esKV s e)) \<and>
    Store_RestoreLastPrunedEpoch C (NewStore (esKV t) (piStored (esLastPruned t)) (esPruningDelay t)) = Some t"
proof -
  let ?hi = "prunedUpTo ep d (esPruningDelay s)"
  obtain t where t: "Store_Prune C ep d s = Some t" "value_store.readable t = (\<lambda>e. if e \<le> ?hi then None else value_store.readable s e)"
    "stored_in_sync C (esLastPruned t)"
    "esKV t = (\<lambda>e. if PruningIndex_NextIndex (esLastPruned s) \<le> e \<and> e \<le> ?hi then None else esKV s e)"
    using value_store.prune_readable[OF assms(5,3), of C] assms(2,4) unfolding Store_Prune_def prunedUpTo_def Let_def by auto
  have "Store_RestoreLastPrunedEpoch C (NewStore (esKV t) (piStored (esLastPruned t)) (esPruningDelay t)) = Some t"
    using restart_in_sync[OF assms(1) t(3)] by (simp add: Store_RestoreLastPrunedEpoch_def NewStore_def)
  then show ?thesis using t(1,4) by (auto simp: Load_readable t(2))
qed

lemma EpochKV_Prune_correct:
  assumes "epoch_codec_ok C" and "stored_in_sync C (ekLastPruned s)" and "evIndex (memLastPrunedEpoch (ekLastPruned s)) \<noteq> Some (- 1)"
    and "\<not> ep < prunedDelay d (ekPruningDelay s)" and "prunedUpTo ep d (ekPruningDelay s) \<noteq> - 1"
  shows "\<exists>t. EpochKV_Prune C ep d s = Some t \<and>
    (\<forall>e. GetEpoch e t = (if e \<le> prunedUpTo ep d (ekPruningDelay s) then Inl (ErrEpochPruned e) else GetEpoch e s)) \<and>
    (\<forall>e. ekKV t e = (if PruningIndex_NextIndex (ekLastPruned s) \<le> e \<and> e \<le> prunedUpTo ep d (ekPruningDelay s) then Map.empty else ekKV s e)) \<and>
    EpochKV_RestoreLastPrunedEpoch C (NewEpochKVStore (ekKV t) (piStored (ekLastPruned t)) (ekPruningDelay t)) = Some t"
proof -
  let ?hi = "prunedUpTo ep d (ekPruningDelay s)"
  obtain t where t: "EpochKV_Prune C ep d s = Some t" "map_store.readable t = (\<lambda>e. if e \<le> ?hi then None else map_store.readable s e)"
    "stored_in_sync C (ekLastPruned t)"
    "ekKV t = (\<lambda>e. if PruningIndex_NextIndex (ekLastPruned s) \<le> e \<and> e \<le> ?hi then Map.empty else ekKV s e)"
    using map_store.prune_readable[OF assms(5,3), of C] assms(2,4) unfolding EpochKV_Prune_def prunedUpTo_def Let_def by auto
  have "EpochKV_RestoreLastPrunedEpoch C (NewEpochKVStore (ekKV t) (piStored (ekLastPruned t)) (ekPruningDelay t)) = Some t"
    using restart_in_sync[OF assms(1) t(3)] by (simp add: EpochKV_RestoreLastPrunedEpoch_def NewEpochKVStore_def)
  then show ?thesis using t(1,4) by (auto simp: Load_readable t(2))
qed

text \<open>C33: Pruning an epoch store returns unless the bound is the last epoch of the type. It deletes from the
  database exactly the epochs after the ones pruned before, up to the larger of the two delays before the
  current epoch, and leaves the contents of all others. Afterwards the epochs up to that bound are
  reported as pruned, every later epoch reads as before, and a store that is opened again from the
  database answers the same. This holds for the store of values and for the key-value stores of epochs.\<close>

theorem prune_keeps_recent_epochs:
  assumes "epoch_codec_ok C" and "stored_in_sync C (esLastPruned s)" and "evIndex (memLastPrunedEpoch (esLastPruned s)) \<noteq> Some (- 1)"
    and "\<not> ep < prunedDelay d (esPruningDelay s)" and "prunedUpTo ep d (esPruningDelay s) \<noteq> - 1"
    and "ekLastPruned k = esLastPruned s" and "ekPruningDelay k = esPruningDelay s"
  defines "last_pruned \<equiv> prunedUpTo ep d (esPruningDelay s)"
  shows "unat last_pruned + max (unat d) (unat (esPruningDelay s)) = unat ep + unat d \<and>
    (\<exists>t. Store_Prune C ep d s = Some t \<and>
      (\<forall>e. Store_Load e t = (if e \<le> last_pruned then Inl (ErrEpochPruned e) else Store_Load e s)) \<and>
      (\<forall>e. esKV t e = (if PruningIndex_NextIndex (esLastPruned s) \<le> e \<and> e \<le> last_pruned then None else esKV s e)) \<and>
      Store_RestoreLastPrunedEpoch C (NewStore (esKV t) (piStored (esLastPruned t)) (esPruningDelay t)) = Some t) \<and>
    (\<exists>t. EpochKV_Prune C ep d k = Some t \<and>
      (\<forall>e. GetEpoch e t = (if e \<le> last_pruned then Inl (ErrEpochPruned e) else GetEpoch e k)) \<and>
      (\<forall>e. ekKV t e = (if PruningIndex_NextIndex (ekLastPruned k) \<le> e \<and> e \<le> last_pruned then Map.empty else ekKV k e)) \<and>
      EpochKV_RestoreLastPrunedEpoch C (NewEpochKVStore (ekKV t) (piStored (ekLastPruned t)) (ekPruningDelay t)) = Some t)"
  unfolding last_pruned_def
  using prunedUpTo_exact[OF assms(4)] Store_Prune_correct[OF assms(1-5)] EpochKV_Prune_correct[of C k ep d] assms(1-7) by simp

definition exampleStore :: "nat EpochStore" where
  "exampleStore = \<lparr>esKV = [3 \<mapsto> 30, 5 \<mapsto> 50], esPruningDelay = 4,
     esLastPruned = \<lparr>piStored = Some (put_le (2 :: epoch)), memLastPrunedEpoch = \<lparr>evIndex = Some 2\<rparr>\<rparr>\<rparr>"

definition exampleKVStore :: "(nat, nat) EpochKVStore" where
  "exampleKVStore = \<lparr>ekKV = \<lambda>e. if e = 3 then [0 \<mapsto> 30] else Map.empty, ekPruningDelay = 4, ekLastPruned = esLastPruned exampleStore\<rparr>"

theorem prune_keeps_recent_epochs_witness:
  "\<exists>t. Store_Prune epoch_codec_le 6 2 exampleStore = Some t \<and> Store_Load 3 t = Inl (ErrEpochPruned 3) \<and> esKV t 3 = None \<and>
     Store_Load 5 t = Inr (Some 50) \<and> esKV t 5 = Some 50"
proof -
  have "prunedUpTo 6 2 (esPruningDelay exampleStore) = 4" by (simp add: prunedUpTo_def prunedDelay_def exampleStore_def)
  moreover have "stored_in_sync epoch_codec_le (esLastPruned exampleStore)" by (simp add: stored_in_sync_def exampleStore_def epoch_codec_le_def)
  moreover have "PruningIndex_NextIndex (esLastPruned exampleStore) = 3" by (simp add: exampleStore_def index_defs)
  ultimately obtain t where t: "Store_Prune epoch_codec_le 6 2 exampleStore = Some t"
    "\<forall>e. Store_Load e t = (if e \<le> 4 then Inl (ErrEpochPruned e) else Store_Load e exampleStore)"
    "\<forall>e. esKV t e = (if 3 \<le> e \<and> e \<le> 4 then None else esKV exampleStore e)"
    using prune_keeps_recent_epochs[of epoch_codec_le exampleStore 6 2 exampleKVStore]
    by (auto simp: exampleStore_def exampleKVStore_def prunedDelay_def)
  moreover have "Store_Load 5 exampleStore = Inr (Some 50)" by (simp add: Store_Load_def isTooOld_iff too_old_def exampleStore_def)
  moreover have "esKV exampleStore 5 = Some 50" by (simp add: exampleStore_def)
  ultimately show ?thesis by auto
qed

end
