(* ===== verification/Performance.thy ===== *)
theory Performance
  imports Committee EpochStore AccountsLedger "HOL-Library.Signed_Division"
begin

text \<open>
  The performance tracker of the sybil protection
  (\<open>pkg/protocol/sybilprotection/sybilprotectionv1/performance/performance.go\<close> and \<open>rewards.go\<close>) with the
  records it stores (\<open>pkg/model/poolstats.go\<close>, \<open>validator_performance.go\<close>): the validation blocks a
  committee member issued per slot, the rewards of the pools of an epoch, and what a validator or a
  delegator may claim of them. Protocol parameters, the time provider, checked arithmetic and mana decay
  come from outside: the fields of \<open>reward_api\<close> and \<open>tracker_env\<close>. A store of a slot that can not be
  opened is \<open>None\<close>. Errors and panics end a call; a loop that never ends is the error \<open>Diverges\<close>.
  Times are integers in nanoseconds. The error handler only reports.
\<close>

section \<open>Records\<close>

record PoolsStats =
  statsTotalStake :: base_token
  statsTotalValidatorStake :: base_token
  statsProfitMargin :: u64

definition PoolsStatsFromBytes :: "account_api \<Rightarrow> bytes \<Rightarrow> account_error + (PoolsStats \<times> nat)" where
  "PoolsStatsFromBytes A bs =
     bind_res (rd (ReadUint64 (MU A)) bs) (\<lambda>(stake, r).
     bind_res (rd (ReadUint64 (MU A)) r) (\<lambda>(validatorStake, r).
     bind_res (rd (ReadUint64 (MU A)) r) (\<lambda>(margin, r).
       Inr (\<lparr>statsTotalStake = stake, statsTotalValidatorStake = validatorStake, statsProfitMargin = margin\<rparr>, length bs - length r))))"

definition PoolsStats_Bytes :: "account_api \<Rightarrow> PoolsStats \<Rightarrow> bytes" where
  "PoolsStats_Bytes A p =
     WriteUint64 (MU A) (statsProfitMargin p) (WriteUint64 (MU A) (statsTotalValidatorStake p) (WriteUint64 (MU A) (statsTotalStake p) []))"

record PoolRewards =
  rewardPoolStake :: base_token
  rewardAmount :: mana
  rewardFixedCost :: mana

definition PoolRewardsFromBytes :: "account_api \<Rightarrow> bytes \<Rightarrow> account_error + (PoolRewards \<times> nat)" where
  "PoolRewardsFromBytes A bs =
     bind_res (rd (ReadUint64 (MU A)) bs) (\<lambda>(stake, r).
     bind_res (rd (ReadUint64 (MU A)) r) (\<lambda>(amount, r).
     bind_res (rd (ReadUint64 (MU A)) r) (\<lambda>(cost, r).
       Inr (\<lparr>rewardPoolStake = stake, rewardAmount = amount, rewardFixedCost = cost\<rparr>, length bs - length r))))"

definition PoolRewards_Bytes :: "account_api \<Rightarrow> PoolRewards \<Rightarrow> bytes" where
  "PoolRewards_Bytes A p =
     WriteUint64 (MU A) (rewardFixedCost p) (WriteUint64 (MU A) (rewardAmount p) (WriteUint64 (MU A) (rewardPoolStake p) []))"

record ValidatorPerformance =
  SlotActivityVector :: u32
  BlockIssuedCount :: u8
  HighestSupportedVersionAndHash :: VersionAndHash

definition NewValidatorPerformance :: "account_api \<Rightarrow> ValidatorPerformance" where
  "NewValidatorPerformance A = \<lparr>SlotActivityVector = 0, BlockIssuedCount = 0, HighestSupportedVersionAndHash = noVersionAndHash A\<rparr>"

section \<open>The tracker\<close>

record reward_api =
  EpochStart :: "epoch \<Rightarrow> slot"
  EpochEnd :: "epoch \<Rightarrow> slot"
  EpochFromSlot :: "slot \<Rightarrow> epoch"
  EpochSlots :: slot
  SlotsPerEpochExponent :: u8
  SlotDurationSeconds :: u8
  SlotStartTime :: "slot \<Rightarrow> int"
  BlocksPerSlot :: u8
  ProfitMarginExponent :: u8
  PoolCoefficientExponent :: u8
  TargetReward :: "epoch \<Rightarrow> mana option"
  RewardsWithDecay :: "mana \<Rightarrow> epoch \<Rightarrow> epoch \<Rightarrow> mana option"
  CommittableAge :: slot
  EpochNearingThreshold :: slot

record tracker_env =
  APIForEpoch :: "epoch \<Rightarrow> reward_api"
  APIForSlot :: "slot \<Rightarrow> reward_api"
  rewardMath :: "u64 safemath"
  SafeLeftShift :: "u64 \<Rightarrow> u8 \<Rightarrow> u64 option"
  Safe64MulDiv :: "u64 \<Rightarrow> u64 \<Rightarrow> u64 \<Rightarrow> u64 option"
  committeeEnv :: committee_env
  RewardsTreeRoot :: "(bytes \<rightharpoonup> PoolRewards) \<Rightarrow> bytes"

datatype tracker_error =
  StoreError epoch_error | CommitteeMissing epoch | StatsMissing epoch | ArithmeticError epoch | TargetRewardError epoch |
  DecayFailed epoch | DivisionByZero | NegativeShift | Diverges

record Tracker =
  rewardsStore :: "(bytes, PoolRewards) EpochKVStore"
  poolStatsStore :: "PoolsStats EpochStore"
  committeeStore :: "Accounts EpochStore"
  performances :: "slot \<Rightarrow> (bytes \<rightharpoonup> ValidatorPerformance) option"
  latestAppliedEpoch :: epoch

definition NewTracker ::
  "(bytes, PoolRewards) EpochKVStore \<Rightarrow> PoolsStats EpochStore \<Rightarrow> Accounts EpochStore \<Rightarrow>
   (slot \<Rightarrow> (bytes \<rightharpoonup> ValidatorPerformance) option) \<Rightarrow> epoch \<Rightarrow> Tracker" where
  "NewTracker rewards stats committees perf applied =
     \<lparr>rewardsStore = rewards, poolStatsStore = stats, committeeStore = committees, performances = perf, latestAppliedEpoch = applied\<rparr>"

definition RegisterCommittee :: "epoch \<Rightarrow> Accounts \<Rightarrow> Tracker \<Rightarrow> tracker_error + Tracker" where
  "RegisterCommittee ep committee t =
     bind_res (lift_err StoreError (Store_Store ep committee (committeeStore t))) (\<lambda>s. Inr (t\<lparr>committeeStore := s\<rparr>))"

definition LoadCommitteeForEpoch :: "epoch \<Rightarrow> Tracker \<Rightarrow> tracker_error + Accounts option" where
  "LoadCommitteeForEpoch ep t = lift_err StoreError (Store_Load ep (committeeStore t))"

text \<open>A missing committee is a nil pointer whose accounts are iterated.\<close>

definition EligibleValidatorCandidates :: "epoch \<Rightarrow> Tracker \<Rightarrow> tracker_error + bytes set" where
  "EligibleValidatorCandidates ep t =
     bind_res (lift_err StoreError (Store_Load (ep - 1) (committeeStore t))) (\<lambda>c.
     case c of None \<Rightarrow> Inl (CommitteeMissing (ep - 1)) | Some committee \<Rightarrow> Inr (dom (accountPools committee)))"

definition ValidatorCandidates :: "epoch \<Rightarrow> bytes set" where
  "ValidatorCandidates ep = {}"

subsection \<open>Tracking blocks\<close>

text \<open>The error that no committee is known is \<open>None\<close>; a failed load panics.\<close>

definition isCommitteeMember :: "tracker_env \<Rightarrow> slot \<Rightarrow> bytes \<Rightarrow> Tracker \<Rightarrow> tracker_error + bool option" where
  "isCommitteeMember E sl i t =
     (let ep = EpochFromSlot (APIForEpoch E (latestAppliedEpoch t)) sl
      in bind_res (LoadCommitteeForEpoch ep t) (\<lambda>c. Inr (map_option (Accounts_Has i) c)))"

definition subslotIndex :: "tracker_env \<Rightarrow> slot \<Rightarrow> int \<Rightarrow> Tracker \<Rightarrow> tracker_error + int" where
  "subslotIndex E sl issuingTime t =
     (let epochAPI = APIForEpoch E (latestAppliedEpoch t); valBlocksNum = uint (BlocksPerSlot epochAPI) in
      if valBlocksNum = 0 then Inl DivisionByZero
      else let subslotDur = uint (SlotDurationSeconds epochAPI) * 1000000000 div valBlocksNum in
           if subslotDur = 0 then Inl DivisionByZero
           else Inr ((issuingTime - SlotStartTime epochAPI sl) sdiv subslotDur))"

definition trackCommitteeMemberPerformance :: "tracker_env \<Rightarrow> u8 \<Rightarrow> bytes \<Rightarrow> issuer_block \<Rightarrow> Tracker \<Rightarrow> tracker_error + Tracker" where
  "trackCommitteeMemberPerformance E version hash block t =
     (case performances t (ibSlot block) of
        None \<Rightarrow> Inr t
      | Some validatorPerformances \<Rightarrow>
          let perf = (case validatorPerformances (ibIssuer block) of Some p \<Rightarrow> p | None \<Rightarrow> NewValidatorPerformance (poolApi (committeeEnv E)))
          in bind_res (subslotIndex E (ibSlot block) (ibIssuingTime block) t) (\<lambda>subslot.
             if subslot < 0 then Inl NegativeShift
             else
               let perf = perf\<lparr>SlotActivityVector := or (SlotActivityVector perf) (push_bit (nat subslot) 1)\<rparr>;
                   perf = (if BlockIssuedCount perf < BlocksPerSlot (APIForSlot E (ibSlot block)) + 1
                           then perf\<lparr>BlockIssuedCount := BlockIssuedCount perf + 1\<rparr> else perf);
                   perf = perf\<lparr>HighestSupportedVersionAndHash := \<lparr>vhVersion = version, vhHash = hash\<rparr>\<rparr>
               in Inr (t\<lparr>performances := (performances t)(ibSlot block \<mapsto> validatorPerformances(ibIssuer block \<mapsto> perf))\<rparr>)))"

definition TrackValidationBlock :: "tracker_env \<Rightarrow> issuer_block \<Rightarrow> Tracker \<Rightarrow> tracker_error + Tracker" where
  "TrackValidationBlock E block t =
     (case ibBody block of
        ValidationBody version hash \<Rightarrow>
          bind_res (isCommitteeMember E (ibSlot block) (ibIssuer block) t) (\<lambda>member.
            if member = Some True then trackCommitteeMemberPerformance E version hash block t else Inr t)
      | _ \<Rightarrow> Inr t)"

subsection \<open>Pool rewards\<close>

text \<open>\<open>bits.OnesCount32\<close> of the standard library.\<close>

definition OnesCount32 :: "u32 \<Rightarrow> nat" where
  "OnesCount32 w = length (filter (bit w) [0..<32])"

text \<open>\<open>None\<close>: a slot has more blocks than allowed.\<close>

fun sumSlotFactors :: "u8 \<Rightarrow> ValidatorPerformance option list \<Rightarrow> u64 \<Rightarrow> u64 option" where
  "sumSlotFactors allowed [] acc = Some acc"
| "sumSlotFactors allowed (None # pfs) acc = sumSlotFactors allowed pfs acc"
| "sumSlotFactors allowed (Some pf # pfs) acc =
     (if allowed < BlockIssuedCount pf then None
      else sumSlotFactors allowed pfs (acc + word_of_nat (OnesCount32 (SlotActivityVector pf))))"

definition aggregatePerformanceFactors :: "tracker_env \<Rightarrow> ValidatorPerformance option list \<Rightarrow> epoch \<Rightarrow> u64" where
  "aggregatePerformanceFactors E slotActivityVector ep =
     (if slotActivityVector = [] then 0
      else case sumSlotFactors (BlocksPerSlot (APIForEpoch E ep)) slotActivityVector 0 of
             None \<Rightarrow> 0
           | Some epochPerformanceFactor \<Rightarrow> drop_bit (unat (SlotsPerEpochExponent (APIForEpoch E ep))) epochPerformanceFactor)"

definition calculatePoolCoefficient ::
  "tracker_env \<Rightarrow> base_token \<Rightarrow> base_token \<Rightarrow> base_token \<Rightarrow> base_token \<Rightarrow> slot \<Rightarrow> tracker_error + u64" where
  "calculatePoolCoefficient E poolStake totStake validatorStake totValidatorStake sl =
     (let ep = EpochFromSlot (APIForSlot E sl) sl; e = PoolCoefficientExponent (APIForSlot E sl) in
      bind_res (or_err (ArithmeticError ep) (SafeLeftShift E poolStake e)) (\<lambda>scaledUpPoolStake.
      bind_res (or_err (ArithmeticError ep) (SafeDiv (rewardMath E) scaledUpPoolStake totStake)) (\<lambda>result1.
      bind_res (or_err (ArithmeticError ep) (SafeLeftShift E validatorStake e)) (\<lambda>scaledUpValidatorStake.
      bind_res (or_err (ArithmeticError ep) (SafeDiv (rewardMath E) scaledUpValidatorStake totValidatorStake)) (\<lambda>result2.
        or_err (ArithmeticError ep) (SafeAdd (rewardMath E) result1 result2))))))"

definition poolReward ::
  "tracker_env \<Rightarrow> slot \<Rightarrow> base_token \<Rightarrow> base_token \<Rightarrow> base_token \<Rightarrow> base_token \<Rightarrow> u64 \<Rightarrow> tracker_error + mana" where
  "poolReward E sl totValidatorsStake totStake poolStake validatorStake performanceFactor =
     (let params = APIForSlot E sl; ep = EpochFromSlot params sl in
      bind_res (or_err (TargetRewardError ep) (TargetReward params ep)) (\<lambda>targetReward.
      bind_res (calculatePoolCoefficient E poolStake totStake validatorStake totValidatorsStake sl) (\<lambda>poolCoefficient.
      bind_res (or_err (ArithmeticError ep) (SafeMul (rewardMath E) poolCoefficient targetReward)) (\<lambda>result.
      bind_res (or_err (ArithmeticError ep) (SafeMul (rewardMath E) result performanceFactor)) (\<lambda>scaledPoolReward.
      bind_res (or_err (ArithmeticError ep) (SafeDiv (rewardMath E) scaledPoolReward (ucast (BlocksPerSlot params)))) (\<lambda>result.
        Inr (drop_bit (unat (PoolCoefficientExponent params + 1)) result)))))))"

text \<open>The sum of the stakes wraps; a sum of zero is a division by zero.\<close>

definition calculateProfitMargin :: "tracker_env \<Rightarrow> base_token \<Rightarrow> base_token \<Rightarrow> epoch \<Rightarrow> tracker_error + u64" where
  "calculateProfitMargin E totValidatorsStake totPoolStake ep =
     bind_res (or_err (ArithmeticError ep) (SafeLeftShift E totValidatorsStake (ProfitMarginExponent (APIForEpoch E ep)))) (\<lambda>scaledUp.
       if totValidatorsStake + totPoolStake = 0 then Inl DivisionByZero
       else Inr (scaledUp div (totValidatorsStake + totPoolStake)))"

definition rewardsMap :: "epoch \<Rightarrow> Tracker \<Rightarrow> tracker_error + (bytes \<rightharpoonup> PoolRewards)" where
  "rewardsMap ep t = lift_err StoreError (GetEpoch ep (rewardsStore t))"

definition RewardsRoot :: "tracker_env \<Rightarrow> epoch \<Rightarrow> Tracker \<Rightarrow> tracker_error + bytes" where
  "RewardsRoot E ep t = bind_res (rewardsMap ep t) (\<lambda>m. Inr (RewardsTreeRoot E m))"

definition rewardsForAccount :: "bytes \<Rightarrow> epoch \<Rightarrow> Tracker \<Rightarrow> tracker_error + PoolRewards option" where
  "rewardsForAccount i ep t = bind_res (rewardsMap ep t) (\<lambda>m. Inr (m i))"

text \<open>The vector starts with as many nil pointers as the epoch has slots; the slots are appended to it.\<close>

definition slotPerformances :: "tracker_env \<Rightarrow> epoch \<Rightarrow> bytes \<Rightarrow> Tracker \<Rightarrow> tracker_error + ValidatorPerformance option list" where
  "slotPerformances E ep i t =
     (let timeProvider = APIForEpoch E ep in
      or_err Diverges
        (for_up (\<lambda>sl validatorPerformances.
            validatorPerformances @ [case performances t sl of None \<Rightarrow> None | Some st \<Rightarrow> st i])
          (EpochStart timeProvider ep) (EpochEnd timeProvider ep) (replicate (unat (EpochSlots timeProvider)) None)))"

definition applyPool :: "tracker_env \<Rightarrow> epoch \<Rightarrow> Accounts \<Rightarrow> Tracker \<Rightarrow> bytes \<Rightarrow> Pool \<Rightarrow> (bytes \<rightharpoonup> PoolRewards) \<Rightarrow>
    tracker_error + ((bytes \<rightharpoonup> PoolRewards) \<times> bool)" where
  "applyPool E ep committee t i pool rewards =
     bind_res (slotPerformances E ep i t) (\<lambda>validatorPerformances.
     let pf = aggregatePerformanceFactors E validatorPerformances ep in
     if pf = 0 then Inr (rewards, True)
     else bind_res (poolReward E (EpochEnd (APIForEpoch E ep) ep) (totalValidatorStake committee) (totalStake committee)
                      (PoolStake pool) (PoolValidatorStake pool) pf) (\<lambda>reward.
          Inr (rewards(i \<mapsto> \<lparr>rewardPoolStake = PoolStake pool, rewardAmount = reward, rewardFixedCost = PoolFixedCost pool\<rparr>), True)))"

definition ApplyEpoch :: "tracker_env \<Rightarrow> epoch \<Rightarrow> Accounts \<Rightarrow> Tracker \<Rightarrow> tracker_error + Tracker" where
  "ApplyEpoch E ep committee t =
     bind_res (calculateProfitMargin E (totalValidatorStake committee) (totalStake committee) ep) (\<lambda>profitMargin.
     let poolsStats = \<lparr>statsTotalStake = totalStake committee, statsTotalValidatorStake = totalValidatorStake committee,
                       statsProfitMargin = profitMargin\<rparr> in
     bind_res (lift_err StoreError (Store_Store ep poolsStats (poolStatsStore t))) (\<lambda>stats.
     bind_res (rewardsMap ep t) (\<lambda>rewards.
     bind_res (Accounts_ForEach (committeeEnv E) (applyPool E ep committee t) committee rewards) (\<lambda>rewards.
       Inr (t\<lparr>poolStatsStore := stats, rewardsStore := (rewardsStore t)\<lparr>ekKV := (ekKV (rewardsStore t))(ep := rewards)\<rparr>,
              latestAppliedEpoch := ep\<rparr>)))))"

subsection \<open>Claims\<close>

definition scaleUpComplement :: "tracker_env \<Rightarrow> u64 \<Rightarrow> u8 \<Rightarrow> u64 option" where
  "scaleUpComplement E val shift =
     (case SafeLeftShift E 1 shift of None \<Rightarrow> None | Some shiftedOne \<Rightarrow> SafeSub (rewardMath E) shiftedOne val)"

text \<open>The reward of the validator for an epoch before decay, when the pool reward covers the fixed cost.\<close>

definition validatorShare :: "tracker_env \<Rightarrow> epoch \<Rightarrow> PoolsStats \<Rightarrow> PoolRewards \<Rightarrow> base_token \<Rightarrow> tracker_error + u64" where
  "validatorShare E ep stats r stakeAmount =
     (let poolRewardsNoFixedCost = rewardAmount r - rewardFixedCost r;
          e = ProfitMarginExponent (APIForEpoch E ep);
          arith = or_err (ArithmeticError ep) in
      bind_res (arith (scaleUpComplement E (statsProfitMargin stats) e)) (\<lambda>profitMarginComplement.
      bind_res (arith (SafeMul (rewardMath E) (statsProfitMargin stats) poolRewardsNoFixedCost)) (\<lambda>result.
      let profitMarginFactor = drop_bit (unat e) result in
      bind_res (arith (SafeMul (rewardMath E) profitMarginComplement poolRewardsNoFixedCost)) (\<lambda>result.
      bind_res (arith (Safe64MulDiv E (drop_bit (unat e) result) stakeAmount (rewardPoolStake r))) (\<lambda>residualValidatorFactor.
      bind_res (arith (SafeAdd (rewardMath E) (rewardFixedCost r) profitMarginFactor)) (\<lambda>result.
        arith (SafeAdd (rewardMath E) result residualValidatorFactor)))))))"

definition delegatorShare :: "tracker_env \<Rightarrow> epoch \<Rightarrow> PoolsStats \<Rightarrow> PoolRewards \<Rightarrow> base_token \<Rightarrow> tracker_error + u64" where
  "delegatorShare E ep stats r delegatedAmount =
     (let e = ProfitMarginExponent (APIForEpoch E ep);
          arith = or_err (ArithmeticError ep) in
      bind_res (arith (scaleUpComplement E (statsProfitMargin stats) e)) (\<lambda>profitMarginComplement.
      let poolRewardLeft = (if rewardFixedCost r \<le> rewardAmount r then rewardAmount r - rewardFixedCost r else rewardAmount r) in
      bind_res (arith (SafeMul (rewardMath E) profitMarginComplement poolRewardLeft)) (\<lambda>result.
      bind_res (arith (SafeMul (rewardMath E) (drop_bit (unat e) result) delegatedAmount)) (\<lambda>result.
        arith (SafeDiv (rewardMath E) result (rewardPoolStake r))))))"

definition loadStats :: "epoch \<Rightarrow> Tracker \<Rightarrow> tracker_error + PoolsStats" where
  "loadStats ep t =
     bind_res (lift_err StoreError (Store_Load ep (poolStatsStore t))) (or_err (StatsMissing ep))"

definition decayed :: "tracker_env \<Rightarrow> epoch \<Rightarrow> epoch \<Rightarrow> mana \<Rightarrow> tracker_error + mana" where
  "decayed E ep epochEnd unDecayed = or_err (DecayFailed ep) (RewardsWithDecay (APIForEpoch E ep) unDecayed ep epochEnd)"

definition validatorEpoch ::
  "tracker_env \<Rightarrow> Tracker \<Rightarrow> bytes \<Rightarrow> base_token \<Rightarrow> epoch \<Rightarrow> epoch \<Rightarrow> mana \<times> epoch \<Rightarrow> tracker_error + (mana \<times> epoch)" where
  "validatorEpoch E t validatorID stakeAmount epochEnd ep = (\<lambda>(validatorReward, epochStart).
     bind_res (rewardsForAccount validatorID ep t) (\<lambda>r.
     case r of
       None \<Rightarrow> Inr (validatorReward, if ep < epochEnd \<and> epochStart = ep then ep + 1 else epochStart)
     | Some r \<Rightarrow>
         if rewardPoolStake r = 0 then Inr (validatorReward, if ep < epochEnd \<and> epochStart = ep then ep + 1 else epochStart)
         else bind_res (loadStats ep t) (\<lambda>stats.
           if rewardAmount r < rewardFixedCost r then Inr (validatorReward, epochStart)
           else bind_res (validatorShare E ep stats r stakeAmount) (\<lambda>unDecayed.
                bind_res (decayed E ep epochEnd unDecayed) (\<lambda>d.
                bind_res (or_err (ArithmeticError ep) (SafeAdd (rewardMath E) validatorReward d)) (\<lambda>total. Inr (total, epochStart)))))))"

definition delegatorEpoch ::
  "tracker_env \<Rightarrow> Tracker \<Rightarrow> bytes \<Rightarrow> base_token \<Rightarrow> epoch \<Rightarrow> epoch \<Rightarrow> mana \<times> epoch \<Rightarrow> tracker_error + (mana \<times> epoch)" where
  "delegatorEpoch E t validatorID delegatedAmount epochEnd ep = (\<lambda>(delegatorsReward, epochStart).
     bind_res (rewardsForAccount validatorID ep t) (\<lambda>r.
     case r of
       None \<Rightarrow> Inr (delegatorsReward, if epochStart = ep then ep + 1 else epochStart)
     | Some r \<Rightarrow>
         if rewardPoolStake r = 0 then Inr (delegatorsReward, if epochStart = ep then ep + 1 else epochStart)
         else bind_res (loadStats ep t) (\<lambda>stats.
              bind_res (delegatorShare E ep stats r delegatedAmount) (\<lambda>unDecayed.
              bind_res (decayed E ep epochEnd unDecayed) (\<lambda>d. Inr (delegatorsReward + d, epochStart))))))"

text \<open>The results are the reward and the first and last epoch it is for.\<close>

definition ValidatorReward ::
  "tracker_env \<Rightarrow> bytes \<Rightarrow> base_token \<Rightarrow> epoch \<Rightarrow> epoch \<Rightarrow> Tracker \<Rightarrow> tracker_error + (mana \<times> epoch \<times> epoch)" where
  "ValidatorReward E validatorID stakeAmount epochStart epochEnd t =
     (let epochEnd = (if latestAppliedEpoch t < epochEnd then latestAppliedEpoch t else epochEnd) in
      bind_res (or_err Diverges (for_up_res (validatorEpoch E t validatorID stakeAmount epochEnd) epochStart epochEnd (0, epochStart)))
        (\<lambda>r. bind_res r (\<lambda>(reward, epochStart). Inr (reward, epochStart, epochEnd))))"

definition DelegatorReward ::
  "tracker_env \<Rightarrow> bytes \<Rightarrow> base_token \<Rightarrow> epoch \<Rightarrow> epoch \<Rightarrow> Tracker \<Rightarrow> tracker_error + (mana \<times> epoch \<times> epoch)" where
  "DelegatorReward E validatorID delegatedAmount epochStart epochEnd t =
     (let epochEnd = (if latestAppliedEpoch t < epochEnd then latestAppliedEpoch t else epochEnd) in
      bind_res (or_err Diverges (for_up_res (delegatorEpoch E t validatorID delegatedAmount epochEnd) epochStart epochEnd (0, epochStart)))
        (\<lambda>r. bind_res r (\<lambda>(reward, epochStart). Inr (reward, epochStart, epochEnd))))"

end
