(* ===== verification/RewardProperties.thy ===== *)
theory RewardProperties
  imports Performance
begin

text \<open>
  What the rewards of the performance tracker guarantee. The pools of an epoch together never receive
  more than its target reward, a validator that issues too many blocks receives nothing, and what a
  validator and its delegators claim of a pool never exceeds the rewards of that pool.
\<close>

section \<open>What the tracker relies on\<close>

text \<open>Documented: shifts and the product-quotient are exact or fail.\<close>

definition tracker_env_ok :: "tracker_env \<Rightarrow> bool" where
  "tracker_env_ok E \<longleftrightarrow>
     safemath_unsigned (rewardMath E) \<and> committee_env_ok (committeeEnv E) \<and>
     (\<forall>x s. SafeLeftShift E x s = checked_unsigned (uint x * 2 ^ unat s)) \<and>
     (\<forall>x y z. Safe64MulDiv E x y z = (if z = 0 then None else checked_unsigned (uint x * uint y div uint z)))"

lemma tracker_math:
  assumes "tracker_env_ok E"
  shows "SafeAdd (rewardMath E) a b = Some c \<longleftrightarrow> uint c = uint a + uint b"
    and "SafeSub (rewardMath E) a b = Some c \<longleftrightarrow> uint c = uint a - uint b"
    and "SafeMul (rewardMath E) a b = Some c \<longleftrightarrow> uint c = uint a * uint b"
    and "SafeDiv (rewardMath E) a b = Some c \<longleftrightarrow> b \<noteq> 0 \<and> uint c = uint a div uint b"
    and "SafeLeftShift E a s = Some c \<longleftrightarrow> uint c = uint a * 2 ^ unat s"
    and "Safe64MulDiv E a b d = Some c \<longleftrightarrow> d \<noteq> 0 \<and> uint c = uint a * uint b div uint d"
proof -
  have sm: "safemath_unsigned (rewardMath E)" using assms by (simp add: tracker_env_ok_def)
  have "c = a div b \<longleftrightarrow> uint c = uint a div uint b" by (simp add: word_uint_eq_iff uint_div)
  then show "SafeDiv (rewardMath E) a b = Some c \<longleftrightarrow> b \<noteq> 0 \<and> uint c = uint a div uint b" by (simp add: safe_unsigned_iff[OF sm])
qed (use assms in \<open>auto simp: tracker_env_ok_def safe_unsigned_iff checked_unsigned_eq_Some\<close>)

lemma uint_drop_bit: "uint (drop_bit n w) = uint w div 2 ^ n"
proof -
  have "take_bit LENGTH('a) (uint w) = uint w" for w :: "'a::len word" by (rule take_bit_int_eq_self[OF uint_ge_0 uint_bounded])
  then show ?thesis unfolding unsigned_drop_bit_eq by (simp only: drop_bit_eq_div)
qed

section \<open>Sums of rounded shares\<close>

lemma div_add_le: "(0::int) < p \<Longrightarrow> a div p + b div p \<le> (a + b) div p"
  using div_add1_eq[of a b p] pos_imp_zdiv_nonneg_iff[of p "a mod p + b mod p"] by simp

lemma sum_list_div_le: "(0::int) < p \<Longrightarrow> (\<Sum>d\<leftarrow>ds. f d div p) \<le> (\<Sum>d\<leftarrow>ds. f d) div p"
proof (induction ds)
  case (Cons d ds)
  then show ?case using div_add_le[of p "f d" "\<Sum>d\<leftarrow>ds. f d"] by simp
qed simp

lemma sum_div_le:
  assumes "(0::int) < p"
  shows "(\<Sum>i\<in>S. f i div p) \<le> (\<Sum>i\<in>S. f i) div p"
proof (induction S rule: infinite_finite_induct)
  case (insert x S)
  then show ?case using div_add_le[OF assms, of "f x" "\<Sum>i\<in>S. f i"] by simp
qed simp_all

text \<open>Shares of an amount in proportion to stakes that do not exceed the whole.\<close>

lemma shares_le:
  assumes "0 < p" and "0 \<le> x" and "s + (\<Sum>d\<leftarrow>ds. g d) \<le> (p::int)"
  shows "x * s div p + (\<Sum>d\<leftarrow>ds. x * g d div p) \<le> x"
proof -
  have "x * s div p + (\<Sum>d\<leftarrow>ds. x * g d div p) \<le> (x * s + (\<Sum>d\<leftarrow>ds. x * g d)) div p"
    using sum_list_div_le[OF assms(1), of "\<lambda>d. x * g d" ds] div_add_le[OF assms(1), of "x * s" "\<Sum>d\<leftarrow>ds. x * g d"] by linarith
  also have "\<dots> \<le> x * p div p"
    using assms by (intro zdiv_mono1) (simp_all add: sum_list_const_mult flip: distrib_left, simp add: mult_left_mono)
  finally show ?thesis using assms(1) by simp
qed

section \<open>Shares of a pool\<close>

text \<open>What is left for the stakes after fixed cost and profit margin.\<close>

definition residual :: "tracker_env \<Rightarrow> epoch \<Rightarrow> PoolsStats \<Rightarrow> int \<Rightarrow> int" where
  "residual E ep stats amount =
     (2 ^ unat (ProfitMarginExponent (APIForEpoch E ep)) - uint (statsProfitMargin stats)) * amount
       div 2 ^ unat (ProfitMarginExponent (APIForEpoch E ep))"

lemma scaleUpComplement_exact:
  assumes "tracker_env_ok E" and "scaleUpComplement E v e = Some c"
  shows "uint c = 2 ^ unat e - uint v"
  using assms by (auto simp: scaleUpComplement_def tracker_math[OF assms(1)] split: option.splits)

lemma validatorShare_exact:
  assumes ok: "tracker_env_ok E" and "validatorShare E ep stats r stake = Inr w" and cost: "rewardFixedCost r \<le> rewardAmount r"
  defines "left \<equiv> uint (rewardAmount r) - uint (rewardFixedCost r)" and "e \<equiv> unat (ProfitMarginExponent (APIForEpoch E ep))"
  shows "uint w = uint (rewardFixedCost r) + uint (statsProfitMargin stats) * left div 2 ^ e +
    residual E ep stats left * uint stake div uint (rewardPoolStake r)"
    and "uint (statsProfitMargin stats) \<le> 2 ^ e"
proof -
  have left: "uint (rewardAmount r - rewardFixedCost r) = left"
    using cost by (simp add: left_def uint_minus_simple_alt[symmetric] word_le_def)
  obtain c where c: "scaleUpComplement E (statsProfitMargin stats) (ProfitMarginExponent (APIForEpoch E ep)) = Some c"
    and w: "uint w = uint (rewardFixedCost r) + uint (statsProfitMargin stats) * left div 2 ^ e +
      uint c * left div 2 ^ e * uint stake div uint (rewardPoolStake r)"
    using assms(2) by (auto simp: validatorShare_def Let_def tracker_math[OF ok] uint_drop_bit left e_def)
  note c = scaleUpComplement_exact[OF ok c, folded e_def]
  then show "uint w = uint (rewardFixedCost r) + uint (statsProfitMargin stats) * left div 2 ^ e +
    residual E ep stats left * uint stake div uint (rewardPoolStake r)"
    using w by (simp add: residual_def e_def)
  show "uint (statsProfitMargin stats) \<le> 2 ^ e" using c uint_ge_0[of c] by linarith
qed

lemma delegatorShare_exact:
  assumes ok: "tracker_env_ok E" and "delegatorShare E ep stats r d = Inr w"
  defines "left \<equiv> (if rewardFixedCost r \<le> rewardAmount r then uint (rewardAmount r) - uint (rewardFixedCost r) else uint (rewardAmount r))"
  shows "uint w = residual E ep stats left * uint d div uint (rewardPoolStake r)"
    and "uint (statsProfitMargin stats) \<le> 2 ^ unat (ProfitMarginExponent (APIForEpoch E ep))"
proof -
  have left: "uint (if rewardFixedCost r \<le> rewardAmount r then rewardAmount r - rewardFixedCost r else rewardAmount r) = left"
    by (simp add: left_def uint_minus_simple_alt[symmetric] word_le_def)
  obtain c where c: "scaleUpComplement E (statsProfitMargin stats) (ProfitMarginExponent (APIForEpoch E ep)) = Some c"
    and w: "uint w = uint c * left div 2 ^ unat (ProfitMarginExponent (APIForEpoch E ep)) * uint d div uint (rewardPoolStake r)"
    using assms(2) left by (auto simp: delegatorShare_def Let_def tracker_math[OF ok] uint_drop_bit)
  note c = scaleUpComplement_exact[OF ok c]
  then show "uint w = residual E ep stats left * uint d div uint (rewardPoolStake r)" using w by (simp add: residual_def)
  show "uint (statsProfitMargin stats) \<le> 2 ^ unat (ProfitMarginExponent (APIForEpoch E ep))" using c uint_ge_0[of c] by linarith
qed

lemma residual_bounds:
  assumes "0 \<le> amount" and "uint (statsProfitMargin stats) \<le> 2 ^ unat (ProfitMarginExponent (APIForEpoch E ep))"
  defines "e \<equiv> unat (ProfitMarginExponent (APIForEpoch E ep))"
  shows "0 \<le> residual E ep stats amount"
    and "uint (statsProfitMargin stats) * amount div 2 ^ e + residual E ep stats amount \<le> amount"
proof -
  show "0 \<le> residual E ep stats amount" using assms by (simp add: residual_def pos_imp_zdiv_nonneg_iff)
  have "uint (statsProfitMargin stats) * amount + (2 ^ e - uint (statsProfitMargin stats)) * amount = amount * 2 ^ e" by (simp add: algebra_simps)
  then show "uint (statsProfitMargin stats) * amount div 2 ^ e + residual E ep stats amount \<le> amount"
    using div_add_le[of "2 ^ e" "uint (statsProfitMargin stats) * amount" "(2 ^ e - uint (statsProfitMargin stats)) * amount"]
    by (simp add: residual_def e_def)
qed

section \<open>What an epoch pays\<close>

text \<open>Documented: decay never adds mana.\<close>

definition decay_ok :: "tracker_env \<Rightarrow> bool" where
  "decay_ok E \<longleftrightarrow> (\<forall>ep m a b d. RewardsWithDecay (APIForEpoch E ep) m a b = Some d \<longrightarrow> d \<le> m)"

definition validatorPaid :: "tracker_env \<Rightarrow> Tracker \<Rightarrow> bytes \<Rightarrow> base_token \<Rightarrow> epoch \<Rightarrow> epoch \<Rightarrow> int" where
  "validatorPaid E t v stake epochEnd ep = (case validatorEpoch E t v stake epochEnd ep (0, 0) of Inl _ \<Rightarrow> 0 | Inr (m, _) \<Rightarrow> uint m)"

definition delegatorPaid :: "tracker_env \<Rightarrow> Tracker \<Rightarrow> bytes \<Rightarrow> epoch \<Rightarrow> epoch \<Rightarrow> base_token \<Rightarrow> int" where
  "delegatorPaid E t v epochEnd ep d = (case delegatorEpoch E t v d epochEnd ep (0, 0) of Inl _ \<Rightarrow> 0 | Inr (m, _) \<Rightarrow> uint m)"

definition poolRewardAt :: "Tracker \<Rightarrow> bytes \<Rightarrow> epoch \<Rightarrow> int" where
  "poolRewardAt t v ep = (case rewardsForAccount v ep t of Inr (Some r) \<Rightarrow> uint (rewardAmount r) | _ \<Rightarrow> 0)"

lemma validatorEpoch_adds:
  assumes "tracker_env_ok E" and "validatorEpoch E t v stake epochEnd ep (m, st) = Inr (m', st')"
  shows "uint m' = uint m + validatorPaid E t v stake epochEnd ep"
proof -
  have add0: "SafeAdd (rewardMath E) 0 d = Some d" for d by (simp add: tracker_math[OF assms(1)])
  show ?thesis
    using assms(2) by (auto simp: validatorEpoch_def validatorPaid_def tracker_math[OF assms(1)] add0 split: option.splits if_splits)
qed

lemma delegatorEpoch_adds:
  assumes "delegatorEpoch E t v d epochEnd ep (m, st) = Inr (m', st')"
  shows "uint m' \<le> uint m + delegatorPaid E t v epochEnd ep d"
proof -
  obtain ro where ro: "rewardsForAccount v ep t = Inr ro" using assms by (auto simp: delegatorEpoch_def)
  show ?thesis
  proof (cases ro)
    case (Some r)
    then show ?thesis using assms ro by (cases "rewardPoolStake r = 0") (auto simp: delegatorEpoch_def delegatorPaid_def intro: uint_add_le)
  qed (use assms ro in \<open>auto simp: delegatorEpoch_def delegatorPaid_def\<close>)
qed

lemma fold_epochs_le:
  assumes "fold_res f eps (m, st) = Inr (m', st')"
    and "\<And>ep m st m' st'. f ep (m, st) = Inr (m', st') \<Longrightarrow> uint m' \<le> uint m + paid ep"
  shows "uint (m' :: mana) \<le> uint m + (\<Sum>ep\<leftarrow>eps. paid ep)"
  using assms(1)
proof (induction eps arbitrary: m st)
  case (Cons ep eps)
  then obtain m1 st1 where "f ep (m, st) = Inr (m1, st1)" "fold_res f eps (m1, st1) = Inr (m', st')" by auto
  then show ?case using Cons.IH assms(2) by fastforce
qed simp

text \<open>The parts of one epoch, when the pool has a stake.\<close>

lemma validatorPaid_le:
  assumes ok: "tracker_env_ok E" and decay: "decay_ok E" and r: "rewardsForAccount v ep t = Inr (Some r)" and stats: "loadStats ep t = Inr stats"
    and margin: "uint (statsProfitMargin stats) \<le> 2 ^ unat (ProfitMarginExponent (APIForEpoch E ep))" and "rewardPoolStake r \<noteq> 0"
  defines "left \<equiv> uint (rewardAmount r) - uint (rewardFixedCost r)"
  shows "validatorPaid E t v stake epochEnd ep \<le>
    (if rewardAmount r < rewardFixedCost r then 0
     else uint (rewardAmount r) - residual E ep stats left + residual E ep stats left * uint stake div uint (rewardPoolStake r))"
proof (cases "rewardAmount r < rewardFixedCost r")
  case False
  then have cost: "rewardFixedCost r \<le> rewardAmount r" "0 \<le> left" by (simp_all add: left_def word_le_def not_less)
  have "0 < uint (rewardPoolStake r)" using assms(6) by (simp add: word_neq_0_conv word_less_def)
  then have nonneg: "0 \<le> residual E ep stats left * uint stake div uint (rewardPoolStake r)"
    using residual_bounds(1)[OF cost(2) margin] by (simp add: pos_imp_zdiv_nonneg_iff)
  note split = residual_bounds(2)[OF cost(2) margin]
  have "uint d \<le> uint (rewardFixedCost r) + left - residual E ep stats left + residual E ep stats left * uint stake div uint (rewardPoolStake r)"
    if "validatorShare E ep stats r stake = Inr w" "decayed E ep epochEnd w = Inr d" for w d
  proof -
    have "uint d \<le> uint w" using that(2) decay by (auto simp: decayed_def decay_ok_def word_le_def)
    then show ?thesis using validatorShare_exact(1)[OF ok that(1) cost(1)] split by (simp add: left_def)
  qed
  moreover have "0 \<le> uint (statsProfitMargin stats) * left div 2 ^ unat (ProfitMarginExponent (APIForEpoch E ep))"
    using cost(2) by (simp add: pos_imp_zdiv_nonneg_iff)
  then have "0 \<le> uint (rewardAmount r) - residual E ep stats left"
    using split uint_ge_0[of "rewardFixedCost r"] unfolding left_def by linarith
  ultimately show ?thesis
    using False nonneg assms(6) r stats tracker_math(1)[OF ok, of 0]
    by (auto simp: validatorPaid_def validatorEpoch_def left_def bind_res_def split: sum.splits)
qed (use assms in \<open>auto simp: validatorPaid_def validatorEpoch_def\<close>)

lemma delegatorPaid_le:
  assumes ok: "tracker_env_ok E" and decay: "decay_ok E" and r: "rewardsForAccount v ep t = Inr (Some r)" and stats: "loadStats ep t = Inr stats"
    and margin: "uint (statsProfitMargin stats) \<le> 2 ^ unat (ProfitMarginExponent (APIForEpoch E ep))" and "rewardPoolStake r \<noteq> 0"
  defines "left \<equiv> (if rewardFixedCost r \<le> rewardAmount r then uint (rewardAmount r) - uint (rewardFixedCost r) else uint (rewardAmount r))"
  shows "delegatorPaid E t v epochEnd ep d \<le> residual E ep stats left * uint d div uint (rewardPoolStake r)"
proof -
  have "0 \<le> left" by (simp add: left_def word_le_def)
  moreover have "0 < uint (rewardPoolStake r)" using assms(6) by (simp add: word_neq_0_conv word_less_def)
  ultimately have nonneg: "0 \<le> residual E ep stats left * uint d div uint (rewardPoolStake r)"
    using residual_bounds(1)[OF _ margin] by (simp add: pos_imp_zdiv_nonneg_iff)
  have "uint x \<le> residual E ep stats left * uint d div uint (rewardPoolStake r)"
    if "delegatorShare E ep stats r d = Inr w" "decayed E ep epochEnd w = Inr x" for w x
  proof -
    have "uint x \<le> uint w" using that(2) decay by (auto simp: decayed_def decay_ok_def word_le_def)
    then show ?thesis using delegatorShare_exact(1)[OF ok that(1)] by (simp add: left_def)
  qed
  then show ?thesis
    using nonneg assms(6) r stats by (auto simp: delegatorPaid_def delegatorEpoch_def bind_res_def split: sum.splits)
qed

lemma nothing_paid:
  assumes "tracker_env_ok E"
    and "\<And>r stats. rewardsForAccount v ep t = Inr (Some r) \<Longrightarrow> rewardPoolStake r \<noteq> 0 \<Longrightarrow> loadStats ep t = Inr stats \<Longrightarrow>
      2 ^ unat (ProfitMarginExponent (APIForEpoch E ep)) < uint (statsProfitMargin stats)"
  shows "validatorPaid E t v stake epochEnd ep = 0" and "delegatorPaid E t v epochEnd ep d = 0"
proof -
  have no_share: "\<not> validatorShare E ep stats r stake = Inr w" if "rewardFixedCost r \<le> rewardAmount r"
    "2 ^ unat (ProfitMarginExponent (APIForEpoch E ep)) < uint (statsProfitMargin stats)" for stats r w
    using validatorShare_exact(2)[OF assms(1) _ that(1), of ep stats stake w] that(2) by fastforce
  have no_dshare: "\<not> delegatorShare E ep stats r d = Inr w" if "2 ^ unat (ProfitMarginExponent (APIForEpoch E ep)) < uint (statsProfitMargin stats)" for stats r w
    using delegatorShare_exact(2)[OF assms(1), of ep stats r d w] that by fastforce
  show "validatorPaid E t v stake epochEnd ep = 0"
    unfolding validatorPaid_def validatorEpoch_def bind_res_def using assms(2) no_share
    by (auto simp: not_less split: sum.splits option.splits if_splits)
  show "delegatorPaid E t v epochEnd ep d = 0"
    unfolding delegatorPaid_def delegatorEpoch_def bind_res_def using assms(2) no_dshare
    by (auto split: sum.splits option.splits if_splits)
qed

lemma epoch_paid_le:
  assumes ok: "tracker_env_ok E" and decay: "decay_ok E"
    and stakes: "\<And>r. rewardsForAccount v ep t = Inr (Some r) \<Longrightarrow> uint stake + (\<Sum>d\<leftarrow>ds. uint d) \<le> uint (rewardPoolStake r)"
  shows "validatorPaid E t v stake epochEnd ep + (\<Sum>d\<leftarrow>ds. delegatorPaid E t v epochEnd ep d) \<le> poolRewardAt t v ep"
proof (cases "\<exists>r stats. rewardsForAccount v ep t = Inr (Some r) \<and> rewardPoolStake r \<noteq> 0 \<and> loadStats ep t = Inr stats \<and>
    uint (statsProfitMargin stats) \<le> 2 ^ unat (ProfitMarginExponent (APIForEpoch E ep))")
  case True
  then obtain r stats where *: "rewardsForAccount v ep t = Inr (Some r)" "loadStats ep t = Inr stats"
    "uint (statsProfitMargin stats) \<le> 2 ^ unat (ProfitMarginExponent (APIForEpoch E ep))" "rewardPoolStake r \<noteq> 0" by blast
  let ?left = "if rewardFixedCost r \<le> rewardAmount r then uint (rewardAmount r) - uint (rewardFixedCost r) else uint (rewardAmount r)"
  let ?x = "residual E ep stats ?left"
  let ?p = "uint (rewardPoolStake r)"
  have left: "0 \<le> ?left" by (simp add: word_le_def)
  have p: "0 < ?p" using *(4) by (simp add: word_neq_0_conv word_less_def)
  note x = residual_bounds[OF left *(3)]
  have x_le: "?x \<le> ?left" using x(2) pos_imp_zdiv_nonneg_iff[of "2 ^ unat (ProfitMarginExponent (APIForEpoch E ep))" "uint (statsProfitMargin stats) * ?left"] left by simp
  have "(\<Sum>d\<leftarrow>ds. delegatorPaid E t v epochEnd ep d) \<le> (\<Sum>d\<leftarrow>ds. ?x * uint d div ?p)"
    by (rule sum_list_mono) (rule delegatorPaid_le[OF ok decay *])
  moreover have "?x * uint stake div ?p + (\<Sum>d\<leftarrow>ds. ?x * uint d div ?p) \<le> ?x" by (rule shares_le[OF p x(1) stakes[OF *(1)]])
  moreover have "0 \<le> ?x * uint stake div ?p" using x(1) p by (simp add: pos_imp_zdiv_nonneg_iff)
  moreover note validatorPaid_le[OF ok decay *, of stake epochEnd]
  ultimately show ?thesis using *(1) x_le by (simp add: poolRewardAt_def not_less split: if_splits)
next
  case False
  have "validatorPaid E t v stake epochEnd ep = 0" "delegatorPaid E t v epochEnd ep d = 0" for d
    by (rule nothing_paid[OF ok]; use False in force)+
  then show ?thesis by (simp add: poolRewardAt_def split: sum.splits option.splits)
qed

section \<open>Claims over several epochs\<close>

lemma claim_end:
  assumes "latestAppliedEpoch t \<noteq> - 1"
  shows "(if latestAppliedEpoch t < e then latestAppliedEpoch t else e) = min e (latestAppliedEpoch t)"
    and "min e (latestAppliedEpoch t) \<noteq> - 1"
  using assms by (auto simp: min_def not_less word_order.extremum_unique)

lemma ValidatorReward_le:
  assumes "tracker_env_ok E" and "latestAppliedEpoch t \<noteq> - 1" and "ValidatorReward E v stake s e t = Inr (vr, s1, e1)"
  shows "uint vr \<le> (\<Sum>ep\<leftarrow>wrange s (min e (latestAppliedEpoch t)). validatorPaid E t v stake (min e (latestAppliedEpoch t)) ep)"
proof -
  let ?e = "min e (latestAppliedEpoch t)"
  have "fold_res (validatorEpoch E t v stake ?e) (wrange s ?e) (0, s) = Inr (vr, s1)"
    using assms(3) unfolding ValidatorReward_def Let_def claim_end(1)[OF assms(2)] for_up_res_returns[OF claim_end(2)[OF assms(2)]] by auto
  from fold_epochs_le[OF this, of "validatorPaid E t v stake ?e"] validatorEpoch_adds[OF assms(1)] show ?thesis by fastforce
qed

lemma DelegatorReward_le:
  assumes "latestAppliedEpoch t \<noteq> - 1" and "DelegatorReward E v d s e t = Inr (q, s1, e1)"
  shows "uint q \<le> (\<Sum>ep\<leftarrow>wrange s (min e (latestAppliedEpoch t)). delegatorPaid E t v (min e (latestAppliedEpoch t)) ep d)"
proof -
  let ?e = "min e (latestAppliedEpoch t)"
  have "fold_res (delegatorEpoch E t v d ?e) (wrange s ?e) (0, s) = Inr (q, s1)"
    using assms(2) unfolding DelegatorReward_def Let_def claim_end(1)[OF assms(1)] for_up_res_returns[OF claim_end(2)[OF assms(1)]] by auto
  from fold_epochs_le[OF this, of "\<lambda>ep. delegatorPaid E t v ?e ep d"] delegatorEpoch_adds show ?thesis by fastforce
qed

text \<open>C36: What a validator and its delegators claim for a range of epochs never exceeds what the pool earned in
  these epochs, when the stakes they claim for are at most the stake of the pool: rounding, profit
  margin, fixed cost and decay only lose mana.\<close>

theorem claims_within_pool_rewards:
  assumes ok: "tracker_env_ok E" and decay: "decay_ok E" and applied: "latestAppliedEpoch t \<noteq> - 1"
    and vclaim: "ValidatorReward E v stake s e t = Inr (vr, s1, e1)"
    and dclaims: "list_all2 (\<lambda>d q. \<exists>s2 e2. DelegatorReward E v d s e t = Inr (q, s2, e2)) ds qs"
    and stakes: "\<And>ep r. s \<le> ep \<Longrightarrow> ep \<le> e \<Longrightarrow> rewardsForAccount v ep t = Inr (Some r) \<Longrightarrow>
      uint stake + (\<Sum>d\<leftarrow>ds. uint d) \<le> uint (rewardPoolStake r)"
  shows "uint vr + (\<Sum>q\<leftarrow>qs. uint q) \<le> (\<Sum>ep\<leftarrow>wrange s (min e (latestAppliedEpoch t)). poolRewardAt t v ep)"
proof -
  let ?e = "min e (latestAppliedEpoch t)"
  let ?eps = "wrange s ?e"
  have "(\<Sum>q\<leftarrow>qs. uint q) \<le> (\<Sum>d\<leftarrow>ds. \<Sum>ep\<leftarrow>?eps. delegatorPaid E t v ?e ep d)"
    using dclaims by (induction rule: list_all2_induct) (auto intro!: add_mono DelegatorReward_le[OF applied])
  also have "\<dots> = (\<Sum>ep\<leftarrow>?eps. \<Sum>d\<leftarrow>ds. delegatorPaid E t v ?e ep d)"
    by (induction ds) (simp_all add: sum_list_addf)
  finally have "uint vr + (\<Sum>q\<leftarrow>qs. uint q) \<le> (\<Sum>ep\<leftarrow>?eps. validatorPaid E t v stake ?e ep + (\<Sum>d\<leftarrow>ds. delegatorPaid E t v ?e ep d))"
    using ValidatorReward_le[OF ok applied vclaim] by (simp add: sum_list_addf)
  also have "\<dots> \<le> (\<Sum>ep\<leftarrow>?eps. poolRewardAt t v ep)"
    by (rule sum_list_mono) (rule epoch_paid_le[OF ok decay], auto intro: stakes)
  finally show ?thesis .
qed

section \<open>Activity of validators\<close>

text \<open>
  A validator has at most as many active subslots as blocks counted, unless more blocks than allowed
  were counted; with 255 allowed blocks the counter's bound wraps to zero and nothing is counted.
\<close>

definition activity_ok :: "u8 \<Rightarrow> ValidatorPerformance \<Rightarrow> bool" where
  "activity_ok allowed p \<longleftrightarrow>
     OnesCount32 (SlotActivityVector p) \<le> unat (BlockIssuedCount p) \<or> allowed < BlockIssuedCount p \<or> allowed = 255"

definition activities_ok :: "tracker_env \<Rightarrow> Tracker \<Rightarrow> bool" where
  "activities_ok E t \<longleftrightarrow>
     (\<forall>sl st i p. performances t sl = Some st \<longrightarrow> st i = Some p \<longrightarrow> activity_ok (BlocksPerSlot (APIForSlot E sl)) p)"

lemma OnesCount32_le: "OnesCount32 w \<le> 32"
  unfolding OnesCount32_def using length_filter_le[of "bit w" "[0..<32]"] by simp

lemma OnesCount32_set_bit: "OnesCount32 (or w (push_bit n 1)) \<le> Suc (OnesCount32 w)"
proof -
  have "set (filter (bit (or w (push_bit n 1))) [0..<32]) \<subseteq> insert n (set (filter (bit w) [0..<32]))"
    by (auto simp: bit_simps)
  then have "card (set (filter (bit (or w (push_bit n 1))) [0..<32])) \<le> card (insert n (set (filter (bit w) [0..<32])))"
    by (intro card_mono) simp_all
  also have "\<dots> \<le> Suc (card (set (filter (bit w) [0..<32])))" by (simp add: card_insert_if)
  finally show ?thesis unfolding OnesCount32_def by (simp only: distinct_card distinct_filter distinct_upt)
qed

lemma activity_counted:
  assumes "activity_ok allowed p" and "SlotActivityVector q = or (SlotActivityVector p) (push_bit n 1)"
    and "BlockIssuedCount q = (if BlockIssuedCount p < allowed + 1 then BlockIssuedCount p + 1 else BlockIssuedCount p)"
  shows "activity_ok allowed q"
proof (cases "allowed = 255")
  case False
  have "(255 :: u8) = - 1" by simp
  with False have max: "allowed \<noteq> - 1" by metis
  then have a: "unat (allowed + 1) = Suc (unat allowed)" using word_Suc_no_wrap[of allowed allowed] by simp
  show ?thesis
  proof (cases "BlockIssuedCount p < allowed + 1")
    case True
    then have le: "BlockIssuedCount p \<le> allowed" using a by (simp add: word_less_nat_alt word_le_nat_alt)
    then have "unat (BlockIssuedCount p + 1) = Suc (unat (BlockIssuedCount p))" using max word_Suc_no_wrap[of "BlockIssuedCount p" allowed] by simp
    moreover have "OnesCount32 (SlotActivityVector p) \<le> unat (BlockIssuedCount p)" using assms(1) le False by (auto simp: activity_ok_def)
    ultimately show ?thesis
      using assms(2,3) True OnesCount32_set_bit[of "SlotActivityVector p" n] by (simp add: activity_ok_def)
  next
    case over: False
    then show ?thesis using assms(3) a by (simp add: activity_ok_def word_less_nat_alt)
  qed
qed (simp add: activity_ok_def)

inductive tracker_reach :: "tracker_env \<Rightarrow> Tracker \<Rightarrow> bool" for E where
  start: "(\<And>sl st. performances t sl = Some st \<Longrightarrow> st = Map.empty) \<Longrightarrow> tracker_reach E t"
| track: "tracker_reach E t \<Longrightarrow> TrackValidationBlock E block t = Inr t' \<Longrightarrow> tracker_reach E t'"
| register: "tracker_reach E t \<Longrightarrow> RegisterCommittee ep committee t = Inr t' \<Longrightarrow> tracker_reach E t'"
| applied: "tracker_reach E t \<Longrightarrow> ApplyEpoch E ep committee t = Inr t' \<Longrightarrow> tracker_reach E t'"
| pruned: "tracker_reach E t \<Longrightarrow> tracker_reach E (t\<lparr>performances := (performances t)(sl := None)\<rparr>)"

lemma track_activities:
  assumes "activities_ok E t" and "TrackValidationBlock E block t = Inr t'"
  shows "activities_ok E t'"
proof (cases "t' = t")
  case False
  then obtain version hash where run: "trackCommitteeMemberPerformance E version hash block t = Inr t'"
    using assms(2) by (auto simp: TrackValidationBlock_def split: block_body.splits if_splits)
  then obtain st where st: "performances t (ibSlot block) = Some st"
    using False by (auto simp: trackCommitteeMemberPerformance_def split: option.splits)
  define old where "old = (case st (ibIssuer block) of Some p \<Rightarrow> p | None \<Rightarrow> NewValidatorPerformance (poolApi (committeeEnv E)))"
  have old: "activity_ok (BlocksPerSlot (APIForSlot E (ibSlot block))) old"
    using assms(1) st by (auto simp: old_def activities_ok_def activity_ok_def NewValidatorPerformance_def OnesCount32_def split: option.splits)
  from run st obtain q n where q: "performances t' = (performances t)(ibSlot block \<mapsto> st(ibIssuer block \<mapsto> q))"
    "SlotActivityVector q = or (SlotActivityVector old) (push_bit n 1)"
    "BlockIssuedCount q = (if BlockIssuedCount old < BlocksPerSlot (APIForSlot E (ibSlot block)) + 1 then BlockIssuedCount old + 1 else BlockIssuedCount old)"
    by (auto simp: trackCommitteeMemberPerformance_def Let_def old_def simp del: push_bit_of_1 split: if_splits)
  from activity_counted[OF old q(2,3)] show ?thesis using assms(1) q(1) st by (auto simp: activities_ok_def)
qed (use assms in simp)

lemma performances_unchanged:
  "RegisterCommittee ep c t = Inr t' \<Longrightarrow> performances t' = performances t"
  "ApplyEpoch E ep c t = Inr t' \<Longrightarrow> performances t' = performances t"
  by (auto simp: RegisterCommittee_def ApplyEpoch_def Let_def)

lemma tracker_reach_activities: "tracker_reach E t \<Longrightarrow> activities_ok E t"
proof (induction rule: tracker_reach.induct)
  case (start t)
  then show ?case by (fastforce simp: activities_ok_def)
next
  case (track t block t')
  then show ?case using track_activities by blast
next
  case (pruned t sl)
  then show ?case by (auto simp: activities_ok_def)
qed (auto simp: activities_ok_def dest!: performances_unchanged)

section \<open>The performance factor\<close>

text \<open>
  Documented: protocol parameters change at epoch boundaries only; an epoch has \<open>2\<close> to the exponent many
  slots and does not end at the last slot of the type.
\<close>

definition epoch_api_ok :: "tracker_env \<Rightarrow> epoch \<Rightarrow> bool" where
  "epoch_api_ok E ep \<longleftrightarrow>
     (let api = APIForEpoch E ep in
      EpochEnd api ep \<noteq> - 1 \<and> unat (EpochEnd api ep) + 1 = unat (EpochStart api ep) + 2 ^ unat (SlotsPerEpochExponent api) \<and>
      (\<forall>sl. EpochStart api ep \<le> sl \<and> sl \<le> EpochEnd api ep \<longrightarrow> BlocksPerSlot (APIForSlot E sl) = BlocksPerSlot api) \<and>
      EpochFromSlot (APIForSlot E (EpochEnd api ep)) (EpochEnd api ep) = ep \<and> APIForSlot E (EpochEnd api ep) = api \<and>
      unat (PoolCoefficientExponent api) < 255)"

definition slotActivity :: "Tracker \<Rightarrow> bytes \<Rightarrow> slot \<Rightarrow> ValidatorPerformance option" where
  "slotActivity t i sl = (case performances t sl of None \<Rightarrow> None | Some st \<Rightarrow> st i)"

lemma slotPerformances_eq:
  assumes "epoch_api_ok E ep"
  shows "slotPerformances E ep i t = Inr (replicate (unat (EpochSlots (APIForEpoch E ep))) None @
    map (slotActivity t i) (wrange (EpochStart (APIForEpoch E ep) ep) (EpochEnd (APIForEpoch E ep) ep)))"
proof -
  have "fold (\<lambda>sl xs. xs @ [g sl]) sls ys = ys @ map g sls" for g :: "slot \<Rightarrow> ValidatorPerformance option" and sls ys
    by (induction sls arbitrary: ys) simp_all
  moreover have "EpochEnd (APIForEpoch E ep) ep \<noteq> - 1" using assms by (simp add: epoch_api_ok_def Let_def)
  ultimately show ?thesis by (simp add: slotPerformances_def Let_def for_up_returns slotActivity_def)
qed

lemma sumSlotFactors_le:
  assumes "sumSlotFactors allowed pfs acc = Some f" and "\<forall>pf. Some pf \<in> set pfs \<longrightarrow> activity_ok allowed pf"
  shows "unat f \<le> unat acc + length (filter (\<lambda>pf. pf \<noteq> None) pfs) * unat allowed"
  using assms
proof (induction allowed pfs acc rule: sumSlotFactors.induct)
  case (3 allowed pf pfs acc)
  have within: "\<not> allowed < BlockIssuedCount pf" using 3(2) by (auto split: if_splits)
  have ones: "OnesCount32 (SlotActivityVector pf) \<le> unat allowed"
  proof -
    have "activity_ok allowed pf" using 3(3) by simp
    then show ?thesis using within OnesCount32_le[of "SlotActivityVector pf"] by (auto simp: activity_ok_def not_less word_le_nat_alt)
  qed
  have "unat (acc + word_of_nat (OnesCount32 (SlotActivityVector pf))) \<le> unat acc + OnesCount32 (SlotActivityVector pf)"
    using OnesCount32_le[of "SlotActivityVector pf"] by (simp add: unat_word_ariths unat_of_nat_small)
  then show ?case using 3(1)[OF within] 3(2,3) within ones by (simp add: algebra_simps)
qed simp_all

lemma sumSlotFactors_None:
  "Some pf \<in> set pfs \<Longrightarrow> allowed < BlockIssuedCount pf \<Longrightarrow> sumSlotFactors allowed pfs acc = None"
  by (induction allowed pfs acc rule: sumSlotFactors.induct) auto

lemma performance_factor_le:
  assumes ok: "epoch_api_ok E ep" and act: "activities_ok E t"
  shows "unat (aggregatePerformanceFactors E (replicate n None @
      map (slotActivity t i) (wrange (EpochStart (APIForEpoch E ep) ep) (EpochEnd (APIForEpoch E ep) ep))) ep)
    \<le> unat (BlocksPerSlot (APIForEpoch E ep))" (is "unat (aggregatePerformanceFactors E ?pfs ep) \<le> unat ?vb")
proof (cases "sumSlotFactors ?vb ?pfs 0")
  case (Some f)
  let ?sls = "wrange (EpochStart (APIForEpoch E ep) ep) (EpochEnd (APIForEpoch E ep) ep)"
  let ?e = "unat (SlotsPerEpochExponent (APIForEpoch E ep))"
  have "activity_ok ?vb pf" if "Some pf \<in> set ?pfs" for pf
  proof -
    from that obtain sl where "sl \<in> set ?sls" "slotActivity t i sl = Some pf" by auto
    then have "activity_ok (BlocksPerSlot (APIForSlot E sl)) pf"
      using act unfolding activities_ok_def slotActivity_def by (simp split: option.splits)
    moreover have "BlocksPerSlot (APIForSlot E sl) = ?vb" using ok \<open>sl \<in> set ?sls\<close> by (simp add: epoch_api_ok_def Let_def)
    ultimately show ?thesis by simp
  qed
  then have total: "unat f \<le> length (filter (\<lambda>pf. pf \<noteq> None) ?pfs) * unat ?vb" using sumSlotFactors_le[OF Some] by simp
  have "length (filter (\<lambda>pf. pf \<noteq> None) ?pfs) \<le> length ?sls" by (simp add: filter_map)
  also have "\<dots> = 2 ^ ?e" using ok by (simp add: wrange_def epoch_api_ok_def Let_def)
  finally have "unat f \<le> 2 ^ ?e * unat ?vb" using order_trans[OF total mult_le_mono1] by blast
  from div_le_mono[OF this, of "2 ^ ?e"] have "unat f div 2 ^ ?e \<le> unat ?vb" by simp
  moreover have "unat (drop_bit ?e f) = unat f div 2 ^ ?e"
    using uint_drop_bit[of ?e f] by (simp add: nat_div_distrib nat_power_eq flip: nat_uint_eq)
  ultimately show ?thesis using Some by (simp add: aggregatePerformanceFactors_def)
qed (simp add: aggregatePerformanceFactors_def)

section \<open>The rewards of an epoch\<close>

lemma calculatePoolCoefficient_exact:
  assumes "tracker_env_ok E" and "calculatePoolCoefficient E ps ts vs tvs sl = Inr c"
  defines "k \<equiv> unat (PoolCoefficientExponent (APIForSlot E sl))"
  shows "uint c = uint ps * 2 ^ k div uint ts + uint vs * 2 ^ k div uint tvs" and "ts \<noteq> 0" and "tvs \<noteq> 0"
  using assms(2) by (auto simp: calculatePoolCoefficient_def Let_def tracker_math[OF assms(1)] k_def)

lemma poolReward_le:
  assumes ok: "tracker_env_ok E" and api: "epoch_api_ok E ep" and sl: "sl = EpochEnd (APIForEpoch E ep) ep"
    and run: "poolReward E sl tvs ts ps vs pf = Inr w" and pf: "unat pf \<le> unat (BlocksPerSlot (APIForEpoch E ep))"
    and target: "TargetReward (APIForEpoch E ep) ep = Some T"
  defines "k \<equiv> unat (PoolCoefficientExponent (APIForEpoch E ep))"
  shows "uint w * 2 ^ (k + 1) \<le> (uint ps * 2 ^ k div uint ts + uint vs * 2 ^ k div uint tvs) * uint T" and "ts \<noteq> 0" and "tvs \<noteq> 0"
proof -
  let ?vb = "uint (BlocksPerSlot (APIForEpoch E ep))"
  have slot: "APIForSlot E sl = APIForEpoch E ep" "EpochFromSlot (APIForEpoch E ep) sl = ep" "k < 255"
    using api by (auto simp: epoch_api_ok_def Let_def sl k_def)
  have "PoolCoefficientExponent (APIForEpoch E ep) \<noteq> - 1" using slot(3) unfolding k_def by (auto simp: unsigned_minus_1_eq_mask mask_eq_exp_minus_1)
  then have e: "unat (PoolCoefficientExponent (APIForEpoch E ep) + 1) = k + 1" using word_Suc_no_wrap[of _ "PoolCoefficientExponent (APIForEpoch E ep)"] by (simp add: k_def)
  have cast: "uint (ucast (BlocksPerSlot (APIForEpoch E ep)) :: u64) = ?vb" by (rule uint_up_ucast) (simp add: is_up)
  have cast0: "(ucast (BlocksPerSlot (APIForEpoch E ep)) :: u64) = 0 \<longleftrightarrow> ?vb = 0"
    using cast by (simp only: uint_0_iff[symmetric])
  obtain c where c: "calculatePoolCoefficient E ps ts vs tvs sl = Inr c"
    and w: "uint w = (uint c * uint T * uint pf) div ?vb div 2 ^ (k + 1)" and vb: "?vb \<noteq> 0"
    using run by (auto simp: poolReward_def Let_def slot target tracker_math[OF ok] uint_drop_bit e cast cast0)
  note exact = calculatePoolCoefficient_exact[OF ok c, unfolded slot(1), folded k_def]
  have vb: "0 < ?vb" using vb uint_ge_0[of "BlocksPerSlot (APIForEpoch E ep)"] by linarith
  have "uint pf \<le> ?vb" using pf unfolding uint_nat by (simp only: of_nat_le_iff)
  then have "uint c * uint T * uint pf \<le> uint c * uint T * ?vb" by (intro mult_left_mono) simp_all
  then have "uint c * uint T * uint pf div ?vb \<le> uint c * uint T" using zdiv_mono1[OF _ vb] vb by fastforce
  moreover have "uint w * 2 ^ (k + 1) \<le> uint c * uint T * uint pf div ?vb"
    unfolding w using div_times_less_eq_dividend[of _ "2 ^ (k + 1)"] by (simp add: minus_mod_eq_div_mult[symmetric])
  ultimately show "uint w * 2 ^ (k + 1) \<le> (uint ps * 2 ^ k div uint ts + uint vs * 2 ^ k div uint tvs) * uint T"
    using exact(1) by simp
  show "ts \<noteq> 0" "tvs \<noteq> 0" by (fact exact)+
qed

definition factorOf :: "tracker_env \<Rightarrow> epoch \<Rightarrow> Tracker \<Rightarrow> bytes \<Rightarrow> u64" where
  "factorOf E ep t i = aggregatePerformanceFactors E (replicate (unat (EpochSlots (APIForEpoch E ep))) None @
     map (slotActivity t i) (wrange (EpochStart (APIForEpoch E ep) ep) (EpochEnd (APIForEpoch E ep) ep))) ep"

lemma applyPool_continues: "applyPool E ep c t i p m = Inr (m', b) \<Longrightarrow> b"
  by (auto simp: applyPool_def Let_def split: if_splits)

lemma applyPools_rewards:
  assumes "epoch_api_ok E ep" and "for_each (\<lambda>i. applyPool E ep c t i (the (accountPools c i))) xs m = Inr m'"
  shows "m' i = m i \<or> i \<in> set xs \<and> factorOf E ep t i \<noteq> 0 \<and>
    (\<exists>w. m' i = Some \<lparr>rewardPoolStake = PoolStake (the (accountPools c i)), rewardAmount = w, rewardFixedCost = PoolFixedCost (the (accountPools c i))\<rparr> \<and>
      poolReward E (EpochEnd (APIForEpoch E ep) ep) (totalValidatorStake c) (totalStake c)
        (PoolStake (the (accountPools c i))) (PoolValidatorStake (the (accountPools c i))) (factorOf E ep t i) = Inr w)"
  using assms(2)
proof (induction xs arbitrary: m)
  case (Cons x xs)
  from Cons.prems obtain m1 b where step: "applyPool E ep c t x (the (accountPools c x)) m = Inr (m1, b)"
    and rest: "(if b then for_each (\<lambda>i. applyPool E ep c t i (the (accountPools c i))) xs m1 else Inr m1) = Inr m'" by auto
  note rest = rest[unfolded eqTrueI[OF applyPool_continues[OF step]] if_True]
  from step have "m1 = m \<or> factorOf E ep t x \<noteq> 0 \<and>
    (\<exists>w. m1 = m(x \<mapsto> \<lparr>rewardPoolStake = PoolStake (the (accountPools c x)), rewardAmount = w, rewardFixedCost = PoolFixedCost (the (accountPools c x))\<rparr>) \<and>
      poolReward E (EpochEnd (APIForEpoch E ep) ep) (totalValidatorStake c) (totalStake c)
        (PoolStake (the (accountPools c x))) (PoolValidatorStake (the (accountPools c x))) (factorOf E ep t x) = Inr w)"
    by (auto simp: applyPool_def slotPerformances_eq[OF assms(1)] Let_def factorOf_def split: if_splits)
  with Cons.IH[OF rest] show ?case by (cases "i = x") auto
qed simp

lemma word_sum_exact:
  assumes "(\<Sum>i\<in>S. uint (f i)) < 2 ^ LENGTH('w)"
  shows "uint (\<Sum>i\<in>S. f i :: 'w::len word) = (\<Sum>i\<in>S. uint (f i))"
proof -
  have "(\<Sum>i\<in>S. f i) = word_of_int (\<Sum>i\<in>S. uint (f i))" by simp
  moreover have "uint (word_of_int (\<Sum>i\<in>S. uint (f i)) :: 'w word) = (\<Sum>i\<in>S. uint (f i))"
    unfolding uint_word_of_int_eq using assms by (intro take_bit_int_eq_self) (simp_all add: sum_nonneg)
  ultimately show ?thesis by metis
qed

lemma coefficients_le:
  assumes "finite D" and "ts = (\<Sum>i\<in>D. uint (f i))" and "ts \<noteq> 0"
  shows "(\<Sum>i\<in>D. uint (f i) * 2 ^ k div ts) \<le> 2 ^ k"
proof -
  have "0 < ts" using assms(2,3) by (simp add: sum_nonneg order_le_neq_trans)
  then have "(\<Sum>i\<in>D. uint (f i) * 2 ^ k div ts) \<le> (\<Sum>i\<in>D. uint (f i) * 2 ^ k) div ts" by (rule sum_div_le)
  also have "\<dots> = 2 ^ k" using assms(2,3) by (simp flip: sum_distrib_right)
  finally show ?thesis .
qed

lemma total_rewards_le:
  assumes fin: "finite D" and sub: "R \<subseteq> D" and ts: "ts = (\<Sum>i\<in>D. uint (f i))" and tvs: "tvs = (\<Sum>i\<in>D. uint (g i))"
    and each: "\<And>i. i \<in> R \<Longrightarrow> w i * 2 ^ (k + 1) \<le> (uint (f i) * 2 ^ k div ts + uint (g i) * 2 ^ k div tvs) * uint T"
    and nonzero: "R \<noteq> {} \<Longrightarrow> ts \<noteq> 0 \<and> tvs \<noteq> 0"
  shows "(\<Sum>i\<in>R. w i) \<le> uint T"
proof (cases "R = {}")
  case False
  have pos: "0 < ts" "0 < tvs" using nonzero[OF False] ts tvs by (simp_all add: sum_nonneg order_le_neq_trans)
  have "(\<Sum>i\<in>R. w i) * 2 ^ (k + 1) \<le> (\<Sum>i\<in>R. (uint (f i) * 2 ^ k div ts + uint (g i) * 2 ^ k div tvs) * uint T)"
    unfolding sum_distrib_right by (rule sum_mono) (rule each)
  also have "\<dots> \<le> (\<Sum>i\<in>D. (uint (f i) * 2 ^ k div ts + uint (g i) * 2 ^ k div tvs) * uint T)"
    using pos by (intro sum_mono2[OF fin sub] mult_nonneg_nonneg add_nonneg_nonneg) (simp_all add: pos_imp_zdiv_nonneg_iff)
  also have "\<dots> = ((\<Sum>i\<in>D. uint (f i) * 2 ^ k div ts) + (\<Sum>i\<in>D. uint (g i) * 2 ^ k div tvs)) * uint T"
    by (simp only: sum.distrib[symmetric] sum_distrib_right)
  also have "\<dots> \<le> (2 ^ k + 2 ^ k) * uint T"
    using coefficients_le[OF fin ts] coefficients_le[OF fin tvs] pos by (intro mult_right_mono add_mono) auto
  finally have "(\<Sum>i\<in>R. w i) * 2 ^ (k + 1) \<le> uint T * 2 ^ (k + 1)" by (simp add: algebra_simps)
  then show ?thesis by simp
qed simp

text \<open>What a rewarded pool received, and who receives nothing.\<close>

lemma rewarded_pool_bound:
  assumes ok: "tracker_env_ok E" and reach: "tracker_reach E t" and api: "epoch_api_ok E ep"
    and target: "TargetReward (APIForEpoch E ep) ep = Some T"
    and m: "for_each (\<lambda>i. applyPool E ep c t i (the (accountPools c i))) xs Map.empty = Inr m" and i: "i \<in> dom m"
  defines "k \<equiv> unat (PoolCoefficientExponent (APIForEpoch E ep))"
  shows "uint (rewardAmount (the (m i))) * 2 ^ (k + 1) \<le>
      (uint (PoolStake (the (accountPools c i))) * 2 ^ k div uint (totalStake c) +
       uint (PoolValidatorStake (the (accountPools c i))) * 2 ^ k div uint (totalValidatorStake c)) * uint T"
    and "i \<in> set xs" and "uint (totalStake c) \<noteq> 0 \<and> uint (totalValidatorStake c) \<noteq> 0"
proof -
  have factor: "unat (factorOf E ep t i) \<le> unat (BlocksPerSlot (APIForEpoch E ep))"
    unfolding factorOf_def by (rule performance_factor_le[OF api tracker_reach_activities[OF reach]])
  from applyPools_rewards[OF api m, of i] i obtain w where w: "rewardAmount (the (m i)) = w"
    "poolReward E (EpochEnd (APIForEpoch E ep) ep) (totalValidatorStake c) (totalStake c)
      (PoolStake (the (accountPools c i))) (PoolValidatorStake (the (accountPools c i))) (factorOf E ep t i) = Inr w"
    and "i \<in> set xs" by auto
  then show "i \<in> set xs" by simp
  note bound = poolReward_le[OF ok api refl w(2) factor target, folded k_def]
  show "uint (rewardAmount (the (m i))) * 2 ^ (k + 1) \<le>
      (uint (PoolStake (the (accountPools c i))) * 2 ^ k div uint (totalStake c) +
       uint (PoolValidatorStake (the (accountPools c i))) * 2 ^ k div uint (totalValidatorStake c)) * uint T"
    unfolding w(1) by (rule bound)
  show "uint (totalStake c) \<noteq> 0 \<and> uint (totalValidatorStake c) \<noteq> 0" using bound(2,3) by (simp add: uint_0_iff)
qed

lemma overproducer_unrewarded:
  assumes "epoch_api_ok E ep" and "for_each (\<lambda>i. applyPool E ep c t i (the (accountPools c i))) xs Map.empty = Inr m"
    and "EpochStart (APIForEpoch E ep) ep \<le> sl" and "sl \<le> EpochEnd (APIForEpoch E ep) ep"
    and "slotActivity t i sl = Some p" and "BlocksPerSlot (APIForEpoch E ep) < BlockIssuedCount p"
  shows "m i = None"
proof -
  have "Some p \<in> slotActivity t i ` set (wrange (EpochStart (APIForEpoch E ep) ep) (EpochEnd (APIForEpoch E ep) ep))"
    using assms(3-5) by (intro image_eqI[of _ _ sl]) simp_all
  then have "factorOf E ep t i = 0" using sumSlotFactors_None[OF _ assms(6)] by (simp add: factorOf_def aggregatePerformanceFactors_def)
  then show ?thesis using applyPools_rewards[OF assms(1,2), of i] by auto
qed

text \<open>C37: In every execution the rewards that an epoch gives to the pools of its committee add up to at most the
  target reward of the epoch, and a validator that issued more blocks than allowed in a slot of the
  epoch receives none.\<close>

theorem epoch_rewards_within_target:
  assumes ok: "tracker_env_ok E" and reach: "tracker_reach E t" and api: "epoch_api_ok E ep"
    and target: "TargetReward (APIForEpoch E ep) ep = Some T" and committee: "accounts_reach (committeeEnv E) c"
    and stakes: "(\<Sum>i\<in>dom (accountPools c). uint (PoolStake (the (accountPools c i)))) < 2 ^ 64"
      "(\<Sum>i\<in>dom (accountPools c). uint (PoolValidatorStake (the (accountPools c i)))) < 2 ^ 64"
    and fresh: "rewardsMap ep t = Inr Map.empty" and run: "ApplyEpoch E ep c t = Inr t'"
  shows "\<exists>rewards. rewardsMap ep t' = Inr rewards \<and> dom rewards \<subseteq> dom (accountPools c) \<and>
    (\<Sum>i\<in>dom rewards. uint (rewardAmount (the (rewards i)))) \<le> uint T \<and>
    (\<forall>i sl p. EpochStart (APIForEpoch E ep) ep \<le> sl \<and> sl \<le> EpochEnd (APIForEpoch E ep) ep \<and> slotActivity t i sl = Some p \<and>
       BlocksPerSlot (APIForEpoch E ep) < BlockIssuedCount p \<longrightarrow> rewards i = None)"
proof -
  let ?D = "dom (accountPools c)"
  have env: "committee_env_ok (committeeEnv E)" using ok by (simp add: tracker_env_ok_def)
  have wf: "finite ?D" "totals_ok c" using accounts_reach_wf[OF env committee] by (simp_all add: wf_accounts_def)
  have ts: "uint (totalStake c) = (\<Sum>i\<in>?D. uint (PoolStake (the (accountPools c i))))"
    and tvs: "uint (totalValidatorStake c) = (\<Sum>i\<in>?D. uint (PoolValidatorStake (the (accountPools c i))))"
    using wf(2) stakes by (simp_all add: totals_ok_def word_sum_exact)
  have ord: "set (mapOrder (committeeEnv E) ?D) = ?D" using env wf(1) by (simp add: committee_env_ok_def)
  obtain m where m: "for_each (\<lambda>i. applyPool E ep c t i (the (accountPools c i))) (mapOrder (committeeEnv E) ?D) Map.empty = Inr m"
    and m': "ekKV (rewardsStore t') ep = m" "ekLastPruned (rewardsStore t') = ekLastPruned (rewardsStore t)"
    using run fresh by (auto simp: ApplyEpoch_def Accounts_ForEach_def Let_def)
  have map': "rewardsMap ep t' = Inr m" using fresh m' by (auto simp: rewardsMap_def GetEpoch_def isTooOld_iff split: if_splits)
  note rewarded = rewarded_pool_bound[OF ok reach api target m]
  have sub: "dom m \<subseteq> ?D" using rewarded(2) ord by blast
  have "(\<Sum>i\<in>dom m. uint (rewardAmount (the (m i)))) \<le> uint T"
    by (rule total_rewards_le[OF wf(1) sub ts tvs rewarded(1)]) (use rewarded(3) in blast)+
  then show ?thesis using map' sub overproducer_unrewarded[OF api m] by blast
qed

section \<open>A concrete epoch\<close>

definition exampleRewardApi :: reward_api where
  "exampleRewardApi =
     \<lparr>EpochStart = (\<lambda>e. 2 * e), EpochEnd = (\<lambda>e. 2 * e + 1), EpochFromSlot = (\<lambda>s. s div 2), EpochSlots = 2, SlotsPerEpochExponent = 1,
      SlotDurationSeconds = 10, SlotStartTime = (\<lambda>s. 10000000000 * uint s), BlocksPerSlot = 2, ProfitMarginExponent = 4,
      PoolCoefficientExponent = 3, TargetReward = (\<lambda>_. Some 1000), RewardsWithDecay = (\<lambda>m _ _. Some m), CommittableAge = 1,
      EpochNearingThreshold = 1\<rparr>"

definition exampleTrackerEnv :: tracker_env where
  "exampleTrackerEnv =
     \<lparr>APIForEpoch = (\<lambda>_. exampleRewardApi), APIForSlot = (\<lambda>_. exampleRewardApi), rewardMath = safemath_u,
      SafeLeftShift = (\<lambda>x s. checked_unsigned (uint x * 2 ^ unat s)),
      Safe64MulDiv = (\<lambda>x y z. if z = 0 then None else checked_unsigned (uint x * uint y div uint z)),
      committeeEnv = exampleCommittee, RewardsTreeRoot = (\<lambda>m. if m = Map.empty then [0] else [1])\<rparr>"

lemma exampleTrackerEnv_simps [simp]:
  "APIForEpoch exampleTrackerEnv e = exampleRewardApi" "APIForSlot exampleTrackerEnv sl = exampleRewardApi"
  "committeeEnv exampleTrackerEnv = exampleCommittee"
  by (simp_all add: exampleTrackerEnv_def)

lemma exampleTrackerEnv_ok [simp]: "tracker_env_ok exampleTrackerEnv" "decay_ok exampleTrackerEnv"
  by (simp_all add: tracker_env_ok_def decay_ok_def exampleTrackerEnv_def exampleRewardApi_def)

definition exampleTracker :: Tracker where
  "exampleTracker = NewTracker (NewEpochKVStore (\<lambda>_. Map.empty) None 4) (NewStore Map.empty None 4) (NewStore [1 \<mapsto> examplePools, 2 \<mapsto> examplePools] None 4)
     (\<lambda>_. Some Map.empty) 0"

definition exampleBlock :: "slot \<Rightarrow> issuer_block" where
  "exampleBlock sl = \<lparr>ibID = [1], ibSlot = sl, ibIssuer = [9], ibIssuingTime = 10000000000 * uint sl + 7000000000, ibWorkScore = 1,
     ibBody = ValidationBody 3 [1]\<rparr>"

definition exampleActivity :: ValidatorPerformance where
  "exampleActivity = \<lparr>SlotActivityVector = 2, BlockIssuedCount = 1, HighestSupportedVersionAndHash = \<lparr>vhVersion = 3, vhHash = [1]\<rparr>\<rparr>"

lemma exampleTrack:
  assumes "sl \<in> {2, 3}" and "performances t sl = Some Map.empty" and "committeeStore t = committeeStore exampleTracker" and "latestAppliedEpoch t = 0"
  shows "TrackValidationBlock exampleTrackerEnv (exampleBlock sl) t = Inr (t\<lparr>performances := (performances t)(sl \<mapsto> [[9] \<mapsto> exampleActivity])\<rparr>)"
proof -
  have ep: "EpochFromSlot exampleRewardApi sl = 1" using assms(1) by (auto simp: exampleRewardApi_def)
  have "isCommitteeMember exampleTrackerEnv sl [9] t = Inr (Some True)"
    using assms(3,4) ep by (simp add: isCommitteeMember_def LoadCommitteeForEpoch_def Store_Load_def isTooOld_iff too_old_def exampleTracker_def
      NewTracker_def NewStore_def index_defs Accounts_Has_def examplePools_def SetReused_def Accounts_Set_def)
  moreover have "subslotIndex exampleTrackerEnv sl (10000000000 * uint sl + 7000000000) t = Inr 1"
    by (simp add: subslotIndex_def exampleRewardApi_def signed_divide_int_def)
  ultimately show ?thesis
    using assms(2) by (simp add: TrackValidationBlock_def exampleBlock_def trackCommitteeMemberPerformance_def NewValidatorPerformance_def
      exampleActivity_def exampleRewardApi_def)
qed

lemma exampleEpoch_ok: "epoch_api_ok exampleTrackerEnv 1"
  by (simp add: epoch_api_ok_def exampleTrackerEnv_def exampleRewardApi_def)

definition exampleTracked :: Tracker where
  "exampleTracked = exampleTracker\<lparr>performances := (\<lambda>_. Some Map.empty)(2 \<mapsto> [[9] \<mapsto> exampleActivity], 3 \<mapsto> [[9] \<mapsto> exampleActivity])\<rparr>"

lemma exampleTracked_reach: "tracker_reach exampleTrackerEnv exampleTracked"
proof -
  have new: "performances exampleTracker = (\<lambda>_. Some Map.empty)" "latestAppliedEpoch exampleTracker = 0" by (simp_all add: exampleTracker_def NewTracker_def)
  have 0: "tracker_reach exampleTrackerEnv exampleTracker" by (rule tracker_reach.start) (simp add: new)
  have 1: "tracker_reach exampleTrackerEnv (exampleTracker\<lparr>performances := (performances exampleTracker)(2 \<mapsto> [[9] \<mapsto> exampleActivity])\<rparr>)"
    by (rule tracker_reach.track[OF 0 exampleTrack[of 2]]) (simp_all add: new)
  have "TrackValidationBlock exampleTrackerEnv (exampleBlock 3) (exampleTracker\<lparr>performances := (performances exampleTracker)(2 \<mapsto> [[9] \<mapsto> exampleActivity])\<rparr>) = Inr exampleTracked"
    by (subst exampleTrack) (simp_all add: new exampleTracked_def)
  then show ?thesis by (rule tracker_reach.track[OF 1])
qed

lemma examplePool_lookup:
  "accountPools examplePools = [[4] \<mapsto> \<lparr>PoolStake = 30, PoolValidatorStake = 10, PoolFixedCost = 1\<rparr>, [9] \<mapsto> \<lparr>PoolStake = 70, PoolValidatorStake = 50, PoolFixedCost = 2\<rparr>]"
  "totalStake examplePools = 100" "totalValidatorStake examplePools = 60"
  by (simp_all add: examplePools_def SetReused_def Accounts_Set_def NewAccounts_def setWithoutLocking_def fun_upd_twist)

lemma exampleFactor: "factorOf exampleTrackerEnv 1 exampleTracked [9] = 1" "factorOf exampleTrackerEnv 1 exampleTracked [4] = 0"
proof -
  have "wrange 2 (3 :: slot) = [2, 3]" by (simp add: wrange_Cons)
  moreover have "replicate 2 (None :: ValidatorPerformance option) = [None, None]" by (simp add: numeral_2_eq_2)
  moreover have "OnesCount32 2 = 1" by (simp add: OnesCount32_def upt_rec bit_simps)
  ultimately
  show "factorOf exampleTrackerEnv 1 exampleTracked [9] = 1" "factorOf exampleTrackerEnv 1 exampleTracked [4] = 0"
    by (simp_all add: factorOf_def exampleRewardApi_def aggregatePerformanceFactors_def slotActivity_def exampleTracked_def
      exampleActivity_def)
qed

lemma exampleReward:
  "poolReward exampleTrackerEnv 3 60 100 70 50 1 = Inr 343"
  by (simp add: poolReward_def calculatePoolCoefficient_def exampleTrackerEnv_def exampleRewardApi_def safemath_u_def checked_unsigned_def fits_unsigned_def)

definition exampleRewarded :: Tracker where
  "exampleRewarded = exampleTracked\<lparr>
     poolStatsStore := NewStore [1 \<mapsto> \<lparr>statsTotalStake = 100, statsTotalValidatorStake = 60, statsProfitMargin = 6\<rparr>] None 4,
     rewardsStore := NewEpochKVStore ((\<lambda>_. Map.empty)(1 := [[9] \<mapsto> \<lparr>rewardPoolStake = 70, rewardAmount = 343, rewardFixedCost = 2\<rparr>])) None 4,
     latestAppliedEpoch := 1\<rparr>"

lemma exampleApply:
  "ApplyEpoch exampleTrackerEnv 1 examplePools exampleTracked = Inr exampleRewarded"
proof -
  have api: "EpochEnd exampleRewardApi 1 = 3" by (simp add: exampleRewardApi_def)
  have "calculateProfitMargin exampleTrackerEnv 60 100 1 = Inr 6"
    by (simp add: calculateProfitMargin_def exampleTrackerEnv_def exampleRewardApi_def checked_unsigned_def fits_unsigned_def)
  moreover have "mapOrder exampleCommittee (dom (accountPools examplePools)) = [[4], [9]]" by (simp add: exampleCommittee_def examplePool_lookup)
  moreover have "applyPool exampleTrackerEnv 1 examplePools exampleTracked i p m =
      (if factorOf exampleTrackerEnv 1 exampleTracked i = 0 then Inr (m, True)
       else bind_res (poolReward exampleTrackerEnv 3 60 100 (PoolStake p) (PoolValidatorStake p) (factorOf exampleTrackerEnv 1 exampleTracked i)) (\<lambda>w.
         Inr (m(i \<mapsto> \<lparr>rewardPoolStake = PoolStake p, rewardAmount = w, rewardFixedCost = PoolFixedCost p\<rparr>), True)))" for i p m
    by (simp add: applyPool_def slotPerformances_eq[OF exampleEpoch_ok] factorOf_def Let_def examplePool_lookup api)
  moreover have "rewardsMap 1 exampleTracked = Inr Map.empty"
    by (simp add: rewardsMap_def GetEpoch_def isTooOld_iff too_old_def exampleTracked_def exampleTracker_def NewTracker_def NewEpochKVStore_def index_defs)
  ultimately show ?thesis
    by (simp add: ApplyEpoch_def Accounts_ForEach_def examplePool_lookup api exampleFactor exampleReward)
      (simp add: exampleRewarded_def exampleTracked_def exampleTracker_def NewTracker_def Store_Store_def isTooOld_iff too_old_def NewStore_def index_defs NewEpochKVStore_def)
qed

theorem epoch_rewards_within_target_witness:
  "\<exists>t rewards. ApplyEpoch exampleTrackerEnv 1 examplePools exampleTracked = Inr t \<and> rewardsMap 1 t = Inr rewards \<and>
     (\<Sum>i\<in>dom rewards. uint (rewardAmount (the (rewards i)))) \<le> 1000 \<and> rewards [9] \<noteq> None"
proof -
  have reach: "accounts_reach (committeeEnv exampleTrackerEnv) examplePools" using examplePools_reach by simp
  have fresh: "rewardsMap 1 exampleTracked = Inr Map.empty"
    by (simp add: rewardsMap_def GetEpoch_def isTooOld_iff too_old_def exampleTracked_def exampleTracker_def NewTracker_def NewEpochKVStore_def index_defs)
  have target: "TargetReward (APIForEpoch exampleTrackerEnv 1) 1 = Some 1000" by (simp add: exampleRewardApi_def)
  note within = epoch_rewards_within_target[OF exampleTrackerEnv_ok(1) exampleTracked_reach exampleEpoch_ok target reach _ _ fresh exampleApply]
  obtain rewards where rewards: "rewardsMap 1 exampleRewarded = Inr rewards" "(\<Sum>i\<in>dom rewards. uint (rewardAmount (the (rewards i)))) \<le> uint (1000 :: mana)"
    using within by (auto simp: examplePool_lookup)
  moreover have "rewards [9] \<noteq> None"
    using rewards(1) by (auto simp: exampleRewarded_def rewardsMap_def GetEpoch_def isTooOld_iff too_old_def NewEpochKVStore_def index_defs)
  ultimately show ?thesis using exampleApply by (intro exI[of _ exampleRewarded] exI[of _ rewards]) simp
qed

lemma exampleClaims:
  "ValidatorReward exampleTrackerEnv [9] 50 1 1 exampleRewarded = Inr (281, 1, 1)"
  "DelegatorReward exampleTrackerEnv [9] 20 1 1 exampleRewarded = Inr (60, 1, 1)"
proof -
  let ?r = "\<lparr>rewardPoolStake = 70, rewardAmount = 343, rewardFixedCost = 2\<rparr>"
  let ?s = "\<lparr>statsTotalStake = 100, statsTotalValidatorStake = 60, statsProfitMargin = 6\<rparr>"
  have r: "rewardsForAccount [9] 1 exampleRewarded = Inr (Some ?r)" "loadStats 1 exampleRewarded = Inr ?s" "latestAppliedEpoch exampleRewarded = 1"
    by (simp_all add: rewardsForAccount_def rewardsMap_def GetEpoch_def isTooOld_iff too_old_def exampleRewarded_def NewEpochKVStore_def NewStore_def index_defs
      loadStats_def Store_Load_def)
  have range: "wrange 1 (1 :: epoch) = [1]" by (simp add: wrange_def)
  note eval = exampleTrackerEnv_def exampleRewardApi_def safemath_u_def checked_unsigned_def fits_unsigned_def scaleUpComplement_def
  have "validatorShare exampleTrackerEnv 1 ?s ?r 50 = Inr 281" "delegatorShare exampleTrackerEnv 1 ?s ?r 20 = Inr 60"
    by (simp_all add: validatorShare_def delegatorShare_def eval)
  moreover have "decayed exampleTrackerEnv 1 1 x = Inr x" "SafeAdd (rewardMath exampleTrackerEnv) 0 281 = Some 281" for x
    by (simp_all add: decayed_def eval)
  ultimately show "ValidatorReward exampleTrackerEnv [9] 50 1 1 exampleRewarded = Inr (281, 1, 1)"
    "DelegatorReward exampleTrackerEnv [9] 20 1 1 exampleRewarded = Inr (60, 1, 1)"
    by (simp_all add: ValidatorReward_def DelegatorReward_def r for_up_res_returns range validatorEpoch_def delegatorEpoch_def)
qed

theorem claims_within_pool_rewards_witness:
  "\<exists>vr q. ValidatorReward exampleTrackerEnv [9] 50 1 1 exampleRewarded = Inr (vr, 1, 1) \<and>
     DelegatorReward exampleTrackerEnv [9] 20 1 1 exampleRewarded = Inr (q, 1, 1) \<and> uint vr + uint q \<le> 343"
proof -
  have r: "rewardsForAccount [9] ep exampleRewarded = Inr (if ep = 1 then Some \<lparr>rewardPoolStake = 70, rewardAmount = 343, rewardFixedCost = 2\<rparr> else None)" for ep
    by (simp add: rewardsForAccount_def rewardsMap_def GetEpoch_def isTooOld_iff too_old_def exampleRewarded_def NewEpochKVStore_def index_defs)
  have l: "latestAppliedEpoch exampleRewarded = 1" by (simp add: exampleRewarded_def)
  have "(\<Sum>ep\<leftarrow>wrange 1 (min 1 (latestAppliedEpoch exampleRewarded)). poolRewardAt exampleRewarded [9] ep) = 343"
    by (simp add: l wrange_def poolRewardAt_def r)
  moreover have "list_all2 (\<lambda>d q. \<exists>s2 e2. DelegatorReward exampleTrackerEnv [9] d 1 1 exampleRewarded = Inr (q, s2, e2)) [20] [60]"
    using exampleClaims(2) by auto
  ultimately have "uint (281 :: mana) + (\<Sum>q\<leftarrow>[60 :: mana]. uint q) \<le> 343"
    using claims_within_pool_rewards[OF exampleTrackerEnv_ok _ exampleClaims(1), of "[20]" "[60]"] by (simp add: l r)
  then show ?thesis using exampleClaims by auto
qed

end
