(* ===== verification/SybilProtection.thy ===== *)
theory SybilProtection
  imports RewardProperties
begin

text \<open>
  The sybil protection (\<open>pkg/protocol/sybilprotection/sybilprotectionv1/sybilprotection.go\<close>): which
  committee serves in an epoch, when it is selected or reused, and what it adds to a slot commitment;
  and the seat manager of the proof of authority (\<open>pkg/protocol/sybilprotection/seatmanager/poa/poa.go\<close>):
  the seats of the committee and which of them were active recently. Accounts are found by a function
  that the ledger passes in. Triggered events are appended to logs. Times are integers, zero is Go's zero
  time. The priority queue and the set tree come from \<open>hive.go\<close>: fields of \<open>sybil_env\<close>. The mutexes
  serialize the calls and are left out; the error handler only reports.
\<close>

section \<open>The seat manager\<close>

datatype seat_event = OnlineCommitteeSeatAdded seat bytes | OnlineCommitteeSeatRemoved seat | BlockProcessed bytes

record sybil_env =
  trackerEnv :: tracker_env
  PopUntil :: "int \<Rightarrow> (seat \<times> int) list \<Rightarrow> seat list \<times> (seat \<times> int) list"
  activityWindow :: int
  onlineCommitteeStartup :: "bytes list"
  CommitteeTreeRoot :: "bytes set \<Rightarrow> bytes"
  WrapfNilIsError :: bool

record SeatManager =
  smAccounts :: Accounts
  smCommittee :: "SeatedAccounts option"
  onlineCommittee :: "seat set"
  inactivityQueue :: "(seat \<times> int) list"
  lastActivities :: "seat \<rightharpoonup> int"
  lastActivityTime :: int
  seatEvents :: "seat_event list"

definition NewSeatManager :: SeatManager where
  "NewSeatManager =
     \<lparr>smAccounts = NewAccounts, smCommittee = None, onlineCommittee = {}, inactivityQueue = [], lastActivities = Map.empty,
      lastActivityTime = 0, seatEvents = []\<rparr>"

definition RotateCommittee :: "epoch \<Rightarrow> Accounts \<Rightarrow> SeatManager \<Rightarrow> SeatedAccounts option" where
  "RotateCommittee ep candidates s = smCommittee s"

definition SeatManager_Committee :: "slot \<Rightarrow> SeatManager \<Rightarrow> SeatedAccounts option" where
  "SeatManager_Committee sl s = smCommittee s"

definition OnlineCommittee :: "SeatManager \<Rightarrow> seat set" where
  "OnlineCommittee s = onlineCommittee s"

text \<open>Without a committee the call dereferences a nil pointer.\<close>

definition SeatManager_SeatCount :: "SeatManager \<Rightarrow> nat option" where
  "SeatManager_SeatCount s = map_option SeatCount (smCommittee s)"

definition markSeatInactive :: "seat \<Rightarrow> SeatManager \<Rightarrow> SeatManager" where
  "markSeatInactive seat s =
     s\<lparr>lastActivities := (lastActivities s)(seat := None), onlineCommittee := onlineCommittee s - {seat},
       seatEvents := seatEvents s @ [OnlineCommitteeSeatRemoved seat]\<rparr>"

definition checkInactive :: "int \<Rightarrow> seat \<Rightarrow> SeatManager \<Rightarrow> SeatManager" where
  "checkInactive activityThreshold inactiveSeat s =
     (case lastActivities s inactiveSeat of
        Some t \<Rightarrow> if activityThreshold < t then s else markSeatInactive inactiveSeat s
      | None \<Rightarrow> markSeatInactive inactiveSeat s)"

definition markSeatActive :: "sybil_env \<Rightarrow> seat \<Rightarrow> bytes \<Rightarrow> int \<Rightarrow> SeatManager \<Rightarrow> SeatManager" where
  "markSeatActive E seat i seatActivityTime s =
     (if (case lastActivities s seat of Some lastActivity \<Rightarrow> seatActivityTime < lastActivity | None \<Rightarrow> False) \<or>
         seatActivityTime < lastActivityTime s - activityWindow E
      then s
      else
        let s = (if lastActivities s seat = None
                 then s\<lparr>onlineCommittee := insert seat (onlineCommittee s), seatEvents := seatEvents s @ [OnlineCommitteeSeatAdded seat i]\<rparr>
                 else s);
            s = s\<lparr>lastActivities := (lastActivities s)(seat \<mapsto> seatActivityTime),
                  inactivityQueue := inactivityQueue s @ [(seat, seatActivityTime)]\<rparr>
        in if seatActivityTime < lastActivityTime s then s
           else
             let s = s\<lparr>lastActivityTime := seatActivityTime\<rparr>;
                 activityThreshold = seatActivityTime - activityWindow E;
                 (popped, queue) = PopUntil E activityThreshold (inactivityQueue s);
                 s = s\<lparr>inactivityQueue := queue\<rparr>
             in fold (checkInactive activityThreshold) popped s)"

definition SetCommittee :: "sybil_env \<Rightarrow> epoch \<Rightarrow> Accounts \<Rightarrow> SeatManager \<Rightarrow> SeatManager" where
  "SetCommittee E ep validators s =
     s\<lparr>smAccounts := validators, smCommittee := Some (SelectCommittee validators (IDs (committeeEnv (trackerEnv E)) validators))\<rparr>"

text \<open>The loop ends at the first validator that is not in the committee.\<close>

fun markOnline :: "sybil_env \<Rightarrow> int \<Rightarrow> SeatedAccounts \<Rightarrow> bytes list \<Rightarrow> SeatManager \<Rightarrow> SeatManager" where
  "markOnline E activityTime committee [] s = s"
| "markOnline E activityTime committee (v # vs) s =
     (case GetSeat v committee of
        None \<Rightarrow> s
      | Some seat \<Rightarrow> markOnline E activityTime committee vs (markSeatActive E seat v activityTime s))"

definition ImportCommittee :: "sybil_env \<Rightarrow> int \<Rightarrow> epoch \<Rightarrow> Accounts \<Rightarrow> SeatManager \<Rightarrow> SeatManager" where
  "ImportCommittee E acceptedTime ep validators s =
     (let s = SetCommittee E ep validators s;
          onlineValidators = (if onlineCommitteeStartup E \<noteq> [] then onlineCommitteeStartup E
                              else IDs (committeeEnv (trackerEnv E)) validators)
      in markOnline E acceptedTime (the (smCommittee s)) onlineValidators s)"

text \<open>The hook on blocks that passed the filter; \<open>None\<close> without a committee.\<close>

definition onBlockAllowed :: "sybil_env \<Rightarrow> issuer_block \<Rightarrow> SeatManager \<Rightarrow> SeatManager option" where
  "onBlockAllowed E block s =
     map_option (\<lambda>committee.
       let s = (case GetSeat (ibIssuer block) committee of
                  Some seat \<Rightarrow> markSeatActive E seat (ibIssuer block) (ibIssuingTime block) s
                | None \<Rightarrow> s)
       in s\<lparr>seatEvents := seatEvents s @ [BlockProcessed (ibID block)]\<rparr>) (SeatManager_Committee (ibSlot block) s)"

section \<open>The sybil protection\<close>

datatype sybil_error =
  TrackerFailed tracker_error | CommitteeNotFound epoch | NilCommittee | AccountFailed bytes | NilAccount bytes

record SybilProtection =
  seatManager :: SeatManager
  lastCommittedSlot :: slot
  performanceTracker :: Tracker
  CommitteeSelected :: "(Accounts \<times> epoch) list"

text \<open>The constructor hook of the provider: the latest applied epoch is the epoch of the latest committed slot.\<close>

definition constructed :: "sybil_env \<Rightarrow> slot \<Rightarrow> Accounts option \<Rightarrow> Tracker \<Rightarrow> SeatManager \<Rightarrow> sybil_error + SybilProtection" where
  "constructed E committedSlot initialCommittee stores sm =
     (let latestCommittedEpoch = EpochFromSlot (APIForSlot (trackerEnv E) committedSlot) committedSlot;
          t = NewTracker (rewardsStore stores) (poolStatsStore stores) (committeeStore stores) (performances stores) latestCommittedEpoch in
      bind_res (case initialCommittee of None \<Rightarrow> Inr t | Some c \<Rightarrow> lift_err TrackerFailed (RegisterCommittee 0 c t)) (\<lambda>t.
        Inr \<lparr>seatManager = sm, lastCommittedSlot = committedSlot, performanceTracker = t, CommitteeSelected = []\<rparr>))"

definition initialized :: "sybil_env \<Rightarrow> reward_api \<Rightarrow> slot \<Rightarrow> int \<Rightarrow> SybilProtection \<Rightarrow> sybil_error + SybilProtection" where
  "initialized E latestAPI committedSlot acceptedTime o' =
     (let currentEpoch = EpochFromSlot latestAPI committedSlot in
      bind_res (lift_err TrackerFailed (LoadCommitteeForEpoch currentEpoch (performanceTracker o'))) (\<lambda>c.
      case c of None \<Rightarrow> Inl (CommitteeNotFound currentEpoch)
      | Some committee \<Rightarrow>
          let o' = o'\<lparr>seatManager := ImportCommittee E acceptedTime currentEpoch committee (seatManager o')\<rparr> in
          bind_res (lift_err TrackerFailed (LoadCommitteeForEpoch (currentEpoch + 1) (performanceTracker o'))) (\<lambda>c.
          Inr (case c of None \<Rightarrow> o'
               | Some nextCommittee \<Rightarrow>
                   o'\<lparr>seatManager := ImportCommittee E acceptedTime (currentEpoch + 1) nextCommittee (seatManager o')\<rparr>))))"

definition Sybil_TrackValidationBlock :: "sybil_env \<Rightarrow> issuer_block \<Rightarrow> SybilProtection \<Rightarrow> sybil_error + SybilProtection" where
  "Sybil_TrackValidationBlock E block o' =
     bind_res (lift_err TrackerFailed (TrackValidationBlock (trackerEnv E) block (performanceTracker o'))) (\<lambda>t.
       Inr (o'\<lparr>performanceTracker := t\<rparr>))"

text \<open>A missing committee wraps a nil error, which is an error or none depending on that library.\<close>

definition emptyIdentifier :: "sybil_env \<Rightarrow> bytes" where
  "emptyIdentifier E = replicate (IdentifierLength (poolApi (committeeEnv (trackerEnv E)))) 0"

definition committeeRoot :: "sybil_env \<Rightarrow> epoch \<Rightarrow> SybilProtection \<Rightarrow> sybil_error + bytes" where
  "committeeRoot E ep o' =
     bind_res (lift_err TrackerFailed (LoadCommitteeForEpoch ep (performanceTracker o'))) (\<lambda>c.
     case c of None \<Rightarrow> if WrapfNilIsError E then Inl (CommitteeNotFound ep) else Inr (emptyIdentifier E)
     | Some committee \<Rightarrow> Inr (CommitteeTreeRoot E (dom (accountPools committee))))"

text \<open>The current committee serves in the next epoch if no other was selected until the point of no return.\<close>

definition reuseCommittee :: "sybil_env \<Rightarrow> epoch \<Rightarrow> SybilProtection \<Rightarrow> sybil_error + SybilProtection" where
  "reuseCommittee E currentEpoch o' =
     (let nextEpoch = currentEpoch + 1 in
      bind_res (lift_err TrackerFailed (LoadCommitteeForEpoch nextEpoch (performanceTracker o'))) (\<lambda>next.
      case next of Some _ \<Rightarrow> Inr o'
      | None \<Rightarrow>
          bind_res (lift_err TrackerFailed (LoadCommitteeForEpoch currentEpoch (performanceTracker o'))) (\<lambda>c.
          case c of None \<Rightarrow> Inl (CommitteeNotFound currentEpoch)
          | Some committee \<Rightarrow>
              let committee = SetReused committee;
                  o' = o'\<lparr>seatManager := SetCommittee E nextEpoch committee (seatManager o'),
                          CommitteeSelected := CommitteeSelected o' @ [(committee, nextEpoch)]\<rparr>
              in bind_res (lift_err TrackerFailed (RegisterCommittee nextEpoch committee (performanceTracker o'))) (\<lambda>t.
                 Inr (o'\<lparr>performanceTracker := t\<rparr>)))))"

text \<open>\<open>None\<close>: the call ends with the wrapped nil error.\<close>

definition finishEpoch :: "sybil_env \<Rightarrow> epoch \<Rightarrow> SybilProtection \<Rightarrow> sybil_error + SybilProtection option" where
  "finishEpoch E currentEpoch o' =
     bind_res (lift_err TrackerFailed (LoadCommitteeForEpoch currentEpoch (performanceTracker o'))) (\<lambda>c.
     case c of None \<Rightarrow> if WrapfNilIsError E then Inl (CommitteeNotFound currentEpoch) else Inr None
     | Some committee \<Rightarrow>
         bind_res (lift_err TrackerFailed (ApplyEpoch (trackerEnv E) currentEpoch committee (performanceTracker o'))) (\<lambda>t.
         Inr (Some (o'\<lparr>performanceTracker := t\<rparr>))))"

text \<open>The results are the roots of the committee and of the rewards.\<close>

definition Sybil_CommitSlot :: "sybil_env \<Rightarrow> slot \<Rightarrow> SybilProtection \<Rightarrow> sybil_error + (bytes \<times> bytes \<times> SybilProtection)" where
  "Sybil_CommitSlot E sl o' =
     (let apiForSlot = APIForSlot (trackerEnv E) sl;
          currentEpoch = EpochFromSlot apiForSlot sl;
          nextEpoch = currentEpoch + 1;
          maxCommittableAge = CommittableAge apiForSlot in
      bind_res (if EpochEnd apiForSlot currentEpoch = sl + maxCommittableAge then reuseCommittee E currentEpoch o' else Inr o') (\<lambda>o'.
      bind_res (if EpochEnd apiForSlot currentEpoch = sl then finishEpoch E currentEpoch o' else Inr (Some o')) (\<lambda>finished.
      case finished of None \<Rightarrow> Inr (emptyIdentifier E, emptyIdentifier E, o')
      | Some o' \<Rightarrow>
      let targetCommitteeEpoch = (if sl + maxCommittableAge < EpochEnd apiForSlot currentEpoch then currentEpoch else nextEpoch) in
      bind_res (committeeRoot E targetCommitteeEpoch o') (\<lambda>committee.
      let targetRewardsEpoch = (if EpochEnd apiForSlot currentEpoch = sl then nextEpoch else currentEpoch) in
      bind_res (lift_err TrackerFailed (RewardsRoot (trackerEnv E) targetRewardsEpoch (performanceTracker o'))) (\<lambda>rewards.
        Inr (committee, rewards, o'\<lparr>lastCommittedSlot := sl\<rparr>))))))"

type_synonym account_lookup = "bytes \<Rightarrow> slot \<Rightarrow> account_error + AccountData option"

text \<open>
  The loop over the candidates: an error ends it and is reported; an account that does not exist is
  dereferenced.
\<close>

fun weightedCandidates :: "account_lookup \<Rightarrow> slot \<Rightarrow> bytes list \<Rightarrow> Accounts \<Rightarrow> sybil_error + Accounts" where
  "weightedCandidates ledgerAccount sl [] w = Inr w"
| "weightedCandidates ledgerAccount sl (c # cs) w =
     (case ledgerAccount c sl of
        Inl _ \<Rightarrow> Inr w
      | Inr None \<Rightarrow> Inl (NilAccount c)
      | Inr (Some a) \<Rightarrow> weightedCandidates ledgerAccount sl cs
          (Accounts_Set c \<lparr>PoolStake = ValidatorStake a + DelegationStake a, PoolValidatorStake = ValidatorStake a, PoolFixedCost = FixedCost a\<rparr> w))"

definition selectNewCommittee :: "sybil_env \<Rightarrow> account_lookup \<Rightarrow> slot \<Rightarrow> SybilProtection \<Rightarrow> sybil_error + (Accounts \<times> SybilProtection)" where
  "selectNewCommittee E ledgerAccount sl o' =
     (let nextEpoch = EpochFromSlot (APIForSlot (trackerEnv E) sl) sl + 1; ce = committeeEnv (trackerEnv E) in
      bind_res (lift_err TrackerFailed (EligibleValidatorCandidates nextEpoch (performanceTracker o'))) (\<lambda>candidates.
      bind_res (weightedCandidates ledgerAccount sl (mapOrder ce candidates) NewAccounts) (\<lambda>weighted.
      case RotateCommittee nextEpoch weighted (seatManager o') of
        None \<Rightarrow> Inl NilCommittee
      | Some newCommittee \<Rightarrow>
          bind_res (lift_err (\<lambda>_. NilCommittee) (Seated_Accounts ce newCommittee)) (\<lambda>weightedCommittee.
          Inr (weightedCommittee,
               case RegisterCommittee nextEpoch weightedCommittee (performanceTracker o') of
                 Inl _ \<Rightarrow> o'
               | Inr t \<Rightarrow> o'\<lparr>performanceTracker := t\<rparr>)))))"

definition slotFinalized :: "sybil_env \<Rightarrow> account_lookup \<Rightarrow> slot \<Rightarrow> SybilProtection \<Rightarrow> sybil_error + SybilProtection" where
  "slotFinalized E ledgerAccount sl o' =
     (let apiForSlot = APIForSlot (trackerEnv E) sl; ep = EpochFromSlot apiForSlot sl; epochEndSlot = EpochEnd apiForSlot ep in
      if sl + EpochNearingThreshold apiForSlot = epochEndSlot \<and> lastCommittedSlot o' + CommittableAge apiForSlot < epochEndSlot
      then bind_res (selectNewCommittee E ledgerAccount sl o') (\<lambda>(newCommittee, o').
             Inr (o'\<lparr>CommitteeSelected := CommitteeSelected o' @ [(newCommittee, ep + 1)]\<rparr>))
      else Inr o')"

definition IsCandidateActive :: "bytes \<Rightarrow> epoch \<Rightarrow> SybilProtection \<Rightarrow> sybil_error + bool" where
  "IsCandidateActive validatorID ep o' =
     bind_res (lift_err TrackerFailed (EligibleValidatorCandidates ep (performanceTracker o'))) (\<lambda>active. Inr (validatorID \<in> active))"

definition eligibleValidator :: "account_lookup \<Rightarrow> epoch \<Rightarrow> SybilProtection \<Rightarrow> bytes \<Rightarrow> AccountData list \<Rightarrow> sybil_error + AccountData list" where
  "eligibleValidator ledgerAccount ep o' candidate validators =
     bind_res (lift_err (\<lambda>_. AccountFailed candidate) (ledgerAccount candidate (lastCommittedSlot o'))) (\<lambda>a.
     case a of None \<Rightarrow> Inl (AccountFailed candidate)
     | Some a \<Rightarrow> Inr (if StakeEndEpoch a \<le> ep then validators else validators @ [AccountData_Clone a]))"

definition EligibleValidators :: "sybil_env \<Rightarrow> account_lookup \<Rightarrow> epoch \<Rightarrow> SybilProtection \<Rightarrow> sybil_error + AccountData list" where
  "EligibleValidators E ledgerAccount ep o' =
     bind_res (lift_err TrackerFailed (EligibleValidatorCandidates ep (performanceTracker o'))) (\<lambda>candidates.
       fold_res (eligibleValidator ledgerAccount ep o') (mapOrder (committeeEnv (trackerEnv E)) candidates) [])"

end
