(* ===== verification/SybilProperties.thy ===== *)
theory SybilProperties
  imports SybilProtection
begin

text \<open>
  What the sybil protection guarantees: the online committee is the set of seats that were active within
  the window, the committee of a slot is always known when the slot is committed, and the reward root of
  every commitment is the root of an empty map.
\<close>

section \<open>Online seats\<close>

text \<open>Documented: \<open>PopUntil\<close> removes the entries up to a time; those at that very time may stay.\<close>

definition pop_ok :: "sybil_env \<Rightarrow> bool" where
  "pop_ok E \<longleftrightarrow> (\<forall>t q. \<exists>popped. mset q = mset popped + mset (snd (PopUntil E t q)) \<and> fst (PopUntil E t q) = map fst popped \<and>
     (\<forall>(seat, x) \<in> set popped. x \<le> t) \<and> (\<forall>(seat, x) \<in> set (snd (PopUntil E t q)). t \<le> x))"

definition seats_inv :: "sybil_env \<Rightarrow> SeatManager \<Rightarrow> bool" where
  "seats_inv E s \<longleftrightarrow> onlineCommittee s = dom (lastActivities s) \<and>
     (\<forall>seat a. lastActivities s seat = Some a \<longrightarrow>
        (seat, a) \<in> set (inactivityQueue s) \<and> lastActivityTime s - activityWindow E \<le> a \<and> a \<le> lastActivityTime s)"

lemma fold_checkInactive:
  defines "gone popped thr s seat \<equiv> seat \<in> set popped \<and> (case lastActivities s seat of None \<Rightarrow> True | Some a \<Rightarrow> a \<le> thr)"
  shows "lastActivities (fold (checkInactive thr) popped s) = (\<lambda>seat. if gone popped thr s seat then None else lastActivities s seat)"
    and "onlineCommittee (fold (checkInactive thr) popped s) = onlineCommittee s - {seat. gone popped thr s seat}"
    and "inactivityQueue (fold (checkInactive thr) popped s) = inactivityQueue s"
    and "lastActivityTime (fold (checkInactive thr) popped s) = lastActivityTime s"
    and "smCommittee (fold (checkInactive thr) popped s) = smCommittee s"
proof (induction popped arbitrary: s)
  case (Cons p popped)
  { case 1 show ?case by (simp add: Cons.IH(1)) (auto simp: fun_eq_iff gone_def checkInactive_def markSeatInactive_def split: option.splits) }
  { case 2 show ?case by (simp add: Cons.IH(2)) (auto simp: gone_def checkInactive_def markSeatInactive_def split: option.splits if_splits) }
qed (auto simp: gone_def checkInactive_def markSeatInactive_def split: option.splits)

text \<open>The state after an accepted activity was recorded and before old seats are dropped.\<close>

definition recordActivity :: "seat \<Rightarrow> bytes \<Rightarrow> int \<Rightarrow> SeatManager \<Rightarrow> SeatManager" where
  "recordActivity seat i time s =
     (let s = (if lastActivities s seat = None
               then s\<lparr>onlineCommittee := insert seat (onlineCommittee s), seatEvents := seatEvents s @ [OnlineCommitteeSeatAdded seat i]\<rparr> else s)
      in s\<lparr>lastActivities := (lastActivities s)(seat \<mapsto> time), inactivityQueue := inactivityQueue s @ [(seat, time)]\<rparr>)"

definition stale :: "sybil_env \<Rightarrow> seat \<Rightarrow> int \<Rightarrow> SeatManager \<Rightarrow> bool" where
  "stale E seat time s \<longleftrightarrow> (case lastActivities s seat of Some lastActivity \<Rightarrow> time < lastActivity | None \<Rightarrow> False) \<or>
     time < lastActivityTime s - activityWindow E"

lemma markSeatActive_eq:
  "markSeatActive E seat i time s =
    (if stale E seat time s then s
     else if time < lastActivityTime s then recordActivity seat i time s
     else let q = PopUntil E (time - activityWindow E) (inactivityQueue (recordActivity seat i time s)) in
       fold (checkInactive (time - activityWindow E)) (fst q) ((recordActivity seat i time s)\<lparr>lastActivityTime := time, inactivityQueue := snd q\<rparr>))"
  by (simp add: markSeatActive_def stale_def recordActivity_def Let_def split_beta)

lemma recordActivity_simps:
  "lastActivities (recordActivity seat i time s) = (lastActivities s)(seat \<mapsto> time)"
  "inactivityQueue (recordActivity seat i time s) = inactivityQueue s @ [(seat, time)]"
  "lastActivityTime (recordActivity seat i time s) = lastActivityTime s"
  "smCommittee (recordActivity seat i time s) = smCommittee s"
  "onlineCommittee s = dom (lastActivities s) \<Longrightarrow> onlineCommittee (recordActivity seat i time s) = insert seat (dom (lastActivities s))"
  by (auto simp: recordActivity_def)

lemma markSeatActive_inv:
  assumes pop: "pop_ok E" and window: "0 \<le> activityWindow E" and inv: "seats_inv E s"
  shows "seats_inv E (markSeatActive E seat i time s)"
proof -
  let ?r = "recordActivity seat i time s"
  let ?thr = "time - activityWindow E"
  have r: "onlineCommittee ?r = dom (lastActivities ?r)" using inv by (auto simp: seats_inv_def recordActivity_simps)
  have queued: "(x, a) \<in> set (inactivityQueue ?r)" if "lastActivities ?r x = Some a" for x a
    using that inv by (auto simp: seats_inv_def recordActivity_simps split: if_splits)
  consider "stale E seat time s" | "\<not> stale E seat time s" "time < lastActivityTime s" | "\<not> stale E seat time s" "\<not> time < lastActivityTime s" by blast
  then show ?thesis
  proof cases
    case 1
    then show ?thesis using inv by (simp add: markSeatActive_eq)
  next
    case 2
    then have "lastActivityTime s - activityWindow E \<le> time" by (auto simp: stale_def)
    then show ?thesis using 2 inv r queued
      by (auto simp: markSeatActive_eq seats_inv_def recordActivity_simps split: if_splits)
  next
    case 3
    obtain popped rest where q: "PopUntil E ?thr (inactivityQueue ?r) = (map fst popped, rest)"
      and parts: "mset (inactivityQueue ?r) = mset popped + mset rest"
      and old: "\<forall>(seat, x) \<in> set popped. x \<le> ?thr" and recent: "\<forall>(seat, x) \<in> set rest. ?thr \<le> x"
      using pop unfolding pop_ok_def by (metis prod.collapse)
    have split: "set (inactivityQueue ?r) = set popped \<union> set rest" using parts by (metis set_mset_mset set_mset_union)
    let ?s = "fold (checkInactive ?thr) (map fst popped) (?r\<lparr>lastActivityTime := time, inactivityQueue := rest\<rparr>)"
    note fold = fold_checkInactive[of ?thr "map fst popped" "?r\<lparr>lastActivityTime := time, inactivityQueue := rest\<rparr>"]
    have "(x, a) \<in> set rest \<and> ?thr \<le> a \<and> a \<le> time" if "lastActivities ?s x = Some a" for x a
    proof -
      have a: "lastActivities ?r x = Some a" "\<not> (x \<in> set (map fst popped) \<and> a \<le> ?thr)" using that by (auto simp: fold(1) split: if_splits)
      then have "(x, a) \<in> set rest" using queued[OF a(1)] split old by force
      moreover have "a \<le> time"
      proof (cases "x = seat")
        case False
        then have "a \<le> lastActivityTime s" using a(1) inv by (simp add: seats_inv_def recordActivity_simps)
        then show ?thesis using 3(2) by simp
      qed (use a(1) in \<open>simp add: recordActivity_simps\<close>)
      ultimately show ?thesis using recent by auto
    qed
    moreover have "onlineCommittee ?s = dom (lastActivities ?s)" using r by (auto simp: fold(1,2) split: if_splits) force
    ultimately have "seats_inv E ?s" by (auto simp: seats_inv_def fold(3,4))
    then show ?thesis using 3 by (simp add: markSeatActive_eq q)
  qed
qed

text \<open>
  The activities that were reported so far, in their order, as pairs of a seat and a time; reports that the code
  ignores are among them. Its latest time, starting with the zero time, is what the window is measured from.
\<close>

definition latestTime :: "(seat \<times> int) list \<Rightarrow> int" where
  "latestTime H = fold max (map snd H) 0"

lemma latestTime_snoc [simp]: "latestTime (H @ [p]) = max (snd p) (latestTime H)"
  by (simp add: latestTime_def)

text \<open>Every activity within the window is covered by the recorded one of its seat, and nothing else is recorded.\<close>

definition records :: "sybil_env \<Rightarrow> (seat \<times> int) list \<Rightarrow> SeatManager \<Rightarrow> bool" where
  "records E H s \<longleftrightarrow> seats_inv E s \<and> lastActivityTime s = latestTime H \<and>
     (\<forall>seat a. lastActivities s seat = Some a \<longrightarrow> (seat, a) \<in> set H) \<and>
     (\<forall>seat t. (seat, t) \<in> set H \<and> latestTime H - activityWindow E < t \<longrightarrow> (\<exists>a. lastActivities s seat = Some a \<and> t \<le> a))"

lemma markSeatActive_records:
  assumes pop: "pop_ok E" and window: "0 \<le> activityWindow E" and inv: "records E H s"
  shows "records E (H @ [(seat, time)]) (markSeatActive E seat i time s)"
proof -
  let ?r = "recordActivity seat i time s" and ?s = "markSeatActive E seat i time s" and ?thr = "time - activityWindow E"
  let ?covers = "\<lambda>thr s. \<forall>x t. (x, t) \<in> set (H @ [(seat, time)]) \<and> thr < t \<longrightarrow> (\<exists>a. lastActivities s x = Some a \<and> t \<le> a)"
  have si: "seats_inv E s" and L: "lastActivityTime s = latestTime H" using inv by (simp_all add: records_def)
  have sub: "(x, a) \<in> set (H @ [(seat, time)])" if "lastActivities ?r x = Some a" for x a
    using that inv by (auto simp: records_def recordActivity_simps split: if_splits)
  have rec: "?covers (latestTime H - activityWindow E) ?r" if "\<not> stale E seat time s"
    using that inv by (fastforce simp: records_def recordActivity_simps stale_def split: if_splits option.splits)
  consider "stale E seat time s" | "\<not> stale E seat time s" "time < lastActivityTime s" | "\<not> stale E seat time s" "\<not> time < lastActivityTime s" by blast
  then have "lastActivityTime ?s = latestTime (H @ [(seat, time)]) \<and> (\<forall>x a. lastActivities ?s x = Some a \<longrightarrow> (x, a) \<in> set (H @ [(seat, time)])) \<and>
      ?covers (latestTime (H @ [(seat, time)]) - activityWindow E) ?s"
  proof cases
    case 1
    then have "time \<le> latestTime H" using si window L by (fastforce simp: stale_def seats_inv_def split: option.splits)
    moreover have "\<exists>a. lastActivities s seat = Some a \<and> time \<le> a" if "latestTime H - activityWindow E < time"
      using 1 that L by (auto simp: stale_def split: option.splits)
    ultimately show ?thesis using 1 inv by (auto simp: markSeatActive_eq records_def max_def)
  next
    case 2
    then show ?thesis using L rec[OF 2(1)] sub by (auto simp: markSeatActive_eq recordActivity_simps(3) max_def)
  next
    case 3
    define q where "q = PopUntil E ?thr (inactivityQueue ?r)"
    define z where "z = ?r\<lparr>lastActivityTime := time, inactivityQueue := snd q\<rparr>"
    have s: "?s = fold (checkInactive ?thr) (fst q) z" using 3 by (simp add: markSeatActive_eq q_def z_def Let_def)
    have z: "lastActivities z = lastActivities ?r" "lastActivityTime z = time" by (simp_all add: z_def)
    note fold = fold_checkInactive[of ?thr "fst q" z, folded s, unfolded z]
    have "?covers (latestTime H - activityWindow E) ?r" by (rule rec[OF 3(1)])
    then have "?covers ?thr ?s" using 3(2) L by (fastforce simp: fold(1))
    then show ?thesis using 3(2) L sub by (auto simp: fold(1,4) max_def split: if_splits)
  qed
  then show ?thesis using markSeatActive_inv[OF pop window si] by (simp add: records_def)
qed

text \<open>The activities that a list of validators reports: up to the first one without a seat.\<close>

definition reported :: "SeatedAccounts \<Rightarrow> int \<Rightarrow> bytes list \<Rightarrow> (seat \<times> int) list" where
  "reported c time vs = map (\<lambda>v. (the (GetSeat v c), time)) (takeWhile (\<lambda>v. GetSeat v c \<noteq> None) vs)"

lemma markOnline_records:
  assumes "pop_ok E" and "0 \<le> activityWindow E"
  shows "records E H s \<Longrightarrow> records E (H @ reported c time vs) (markOnline E time c vs s)"
proof (induction vs arbitrary: H s)
  case (Cons v vs)
  show ?case
  proof (cases "GetSeat v c")
    case (Some seat)
    then show ?thesis using Cons.IH[OF markSeatActive_records[OF assms Cons.prems, of seat time v]] by (simp add: reported_def)
  qed (use Cons.prems in \<open>simp add: reported_def\<close>)
qed (simp add: reported_def)

text \<open>The executions of the seat manager, with the activities that were reported in them.\<close>

inductive seats_run :: "sybil_env \<Rightarrow> (seat \<times> int) list \<Rightarrow> SeatManager \<Rightarrow> bool" for E where
  new: "seats_run E [] NewSeatManager"
| set: "seats_run E H s \<Longrightarrow> seats_run E H (SetCommittee E ep validators s)"
| import_committee: "seats_run E H s \<Longrightarrow> ids = IDs (committeeEnv (trackerEnv E)) validators \<Longrightarrow>
    seats_run E (H @ reported (SelectCommittee validators ids) time (if onlineCommitteeStartup E \<noteq> [] then onlineCommitteeStartup E else ids))
      (ImportCommittee E time ep validators s)"
| allowed: "seats_run E H s \<Longrightarrow> SeatManager_Committee (ibSlot block) s = Some c \<Longrightarrow> onBlockAllowed E block s = Some s' \<Longrightarrow>
    seats_run E (H @ reported c (ibIssuingTime block) [ibIssuer block]) s'"

lemma records_unchanged [simp]:
  "records E H (SetCommittee E ep validators s) \<longleftrightarrow> records E H s" "records E H (s\<lparr>seatEvents := ev\<rparr>) \<longleftrightarrow> records E H s"
  by (simp_all add: records_def seats_inv_def SetCommittee_def)

lemma seats_run_records:
  assumes "pop_ok E" and "0 \<le> activityWindow E" and "seats_run E H s"
  shows "records E H s"
  using assms(3)
proof induction
  case new
  then show ?case by (simp add: records_def seats_inv_def NewSeatManager_def latestTime_def)
next
  case (set H s ep validators)
  then show ?case by simp
next
  case (import_committee H s ids validators time ep)
  then have "records E H (SetCommittee E ep validators s)" by simp
  moreover have "the (smCommittee (SetCommittee E ep validators s)) = SelectCommittee validators ids" using import_committee(2) by (simp add: SetCommittee_def)
  ultimately show ?case using markOnline_records[OF assms(1,2)] import_committee(2) by (simp add: ImportCommittee_def Let_def)
next
  case (allowed H s block c s')
  then show ?case using allowed markOnline_records[OF assms(1,2), of H s c "ibIssuingTime block" "[ibIssuer block]"]
    by (auto simp: onBlockAllowed_def Let_def split: option.splits)
qed

text \<open>C40: In every execution of the seat manager the activities that were reported decide which seats are online, in
  whatever order they arrive; reported are the blocks of committee members that passed the filter and the members marked at
  an import. The window starts its length before the latest reported activity of any seat. Every
  seat with an activity after the start of the window is online, and every online seat has an activity at or
  after the start of the window. Whether a seat whose last activity is exactly at the start is
  online depends on the queue.\<close>

theorem online_committee_is_recent:
  assumes "pop_ok E" and "0 \<le> activityWindow E" and "seats_run E H s"
  defines "windowStart \<equiv> latestTime H - activityWindow E"
  shows "{seat. \<exists>t. (seat, t) \<in> set H \<and> windowStart < t} \<subseteq> OnlineCommittee s \<and>
    OnlineCommittee s \<subseteq> {seat. \<exists>t. (seat, t) \<in> set H \<and> windowStart \<le> t}"
  using seats_run_records[OF assms(1-3)] by (fastforce simp: records_def seats_inv_def OnlineCommittee_def windowStart_def)

section \<open>Committees and rewards of a run\<close>

text \<open>
  Documented behaviour of the time provider, for the slots of the first half of the type: slots follow each
  other through the epochs, parameters change between epochs only, the committable age is positive and an
  epoch is longer than it.
\<close>

definition epochOf :: "sybil_env \<Rightarrow> slot \<Rightarrow> epoch" where
  "epochOf E sl = EpochFromSlot (APIForSlot (trackerEnv E) sl) sl"

definition endOf :: "sybil_env \<Rightarrow> slot \<Rightarrow> slot" where
  "endOf E sl = EpochEnd (APIForSlot (trackerEnv E) sl) (epochOf E sl)"

definition ageOf :: "sybil_env \<Rightarrow> slot \<Rightarrow> slot" where
  "ageOf E sl = CommittableAge (APIForSlot (trackerEnv E) sl)"

definition time_ok :: "sybil_env \<Rightarrow> bool" where
  "time_ok E \<longleftrightarrow> (\<forall>sl. unat sl < 2 ^ 31 \<longrightarrow>
     0 < ageOf E sl \<and> sl \<le> endOf E sl \<and> unat (endOf E sl) + unat (ageOf E sl) < 2 ^ 32 \<and> epochOf E sl \<noteq> - 1 \<and>
     (if sl < endOf E sl
      then epochOf E (sl + 1) = epochOf E sl \<and> endOf E (sl + 1) = endOf E sl \<and> ageOf E (sl + 1) = ageOf E sl
      else epochOf E (sl + 1) = epochOf E sl + 1 \<and> unat (sl + 1) + unat (ageOf E (sl + 1)) \<le> unat (endOf E (sl + 1))))"

definition committeeOf :: "SybilProtection \<Rightarrow> epoch \<Rightarrow> Accounts option" where
  "committeeOf s ep = esKV (committeeStore (performanceTracker s)) ep"

definition rewardsOf :: "SybilProtection \<Rightarrow> epoch \<Rightarrow> (bytes \<rightharpoonup> PoolRewards)" where
  "rewardsOf s ep = ekKV (rewardsStore (performanceTracker s)) ep"

definition unpruned :: "SybilProtection \<Rightarrow> bool" where
  "unpruned s \<longleftrightarrow> evIndex (memLastPrunedEpoch (esLastPruned (committeeStore (performanceTracker s)))) = None \<and>
     evIndex (memLastPrunedEpoch (ekLastPruned (rewardsStore (performanceTracker s)))) = None"

definition committees_known :: "sybil_env \<Rightarrow> SybilProtection \<Rightarrow> bool" where
  "committees_known E s \<longleftrightarrow>
     (let l = lastCommittedSlot s in
      unpruned s \<and> committeeOf s (epochOf E l) \<noteq> None \<and>
      (unat (endOf E l) \<le> unat l + unat (ageOf E l) \<longrightarrow> committeeOf s (epochOf E l + 1) \<noteq> None))"

definition rewards_pending :: "sybil_env \<Rightarrow> SybilProtection \<Rightarrow> bool" where
  "rewards_pending E s \<longleftrightarrow>
     (let l = lastCommittedSlot s in
      \<forall>ep. (if l = endOf E l then epochOf E l < ep else epochOf E l \<le> ep) \<longrightarrow> rewardsOf s ep = Map.empty)"

lemma committed_slot_simps [simp]:
  "unpruned (s\<lparr>lastCommittedSlot := l\<rparr>) = unpruned s" "committeeOf (s\<lparr>lastCommittedSlot := l\<rparr>) = committeeOf s"
  "rewardsOf (s\<lparr>lastCommittedSlot := l\<rparr>) = rewardsOf s"
  by (simp_all add: unpruned_def committeeOf_def rewardsOf_def fun_eq_iff)

lemma load_unpruned [simp]: "unpruned s \<Longrightarrow> LoadCommitteeForEpoch ep (performanceTracker s) = Inr (committeeOf s ep)"
  by (simp add: unpruned_def LoadCommitteeForEpoch_def Store_Load_def isTooOld_iff too_old_def committeeOf_def)

lemma register_unpruned:
  "unpruned s \<Longrightarrow> RegisterCommittee ep c (performanceTracker s) =
    Inr ((performanceTracker s)\<lparr>committeeStore := (committeeStore (performanceTracker s))\<lparr>esKV := (esKV (committeeStore (performanceTracker s)))(ep \<mapsto> c)\<rparr>\<rparr>)"
  by (simp add: unpruned_def RegisterCommittee_def Store_Store_def isTooOld_iff too_old_def)

lemma rewardsRoot_unpruned: "unpruned s \<Longrightarrow> RewardsRoot T ep (performanceTracker s) = Inr (RewardsTreeRoot T (rewardsOf s ep))"
  by (simp add: unpruned_def RewardsRoot_def rewardsMap_def GetEpoch_def isTooOld_iff too_old_def rewardsOf_def)

text \<open>The parts of a commit, when the committees are known.\<close>

lemma reuse_known:
  assumes "unpruned s" and "committeeOf s ep \<noteq> None"
  shows "\<exists>t. reuseCommittee E ep s = Inr t \<and> unpruned t \<and> committeeOf t (ep + 1) \<noteq> None \<and>
    (\<forall>e. committeeOf s e \<noteq> None \<longrightarrow> committeeOf t e \<noteq> None) \<and> rewardsOf t = rewardsOf s"
proof (cases "committeeOf s (ep + 1)")
  case None
  obtain c where "committeeOf s ep = Some c" using assms(2) by blast
  then show ?thesis using assms(1) None
    by (auto simp: reuseCommittee_def Let_def register_unpruned unpruned_def committeeOf_def rewardsOf_def fun_eq_iff)
qed (use assms in \<open>auto simp: reuseCommittee_def Let_def\<close>)

lemma ApplyEpoch_effect:
  assumes "ApplyEpoch T ep c t = Inr t'"
  shows "committeeStore t' = committeeStore t" and "ekLastPruned (rewardsStore t') = ekLastPruned (rewardsStore t)"
    and "e \<noteq> ep \<Longrightarrow> ekKV (rewardsStore t') e = ekKV (rewardsStore t) e"
  using assms by (auto simp: ApplyEpoch_def Let_def)

lemma finish_known:
  assumes "unpruned s" and "committeeOf s ep = Some c"
  shows "(\<exists>e. ApplyEpoch (trackerEnv E) ep c (performanceTracker s) = Inl e \<and> finishEpoch E ep s = Inl (TrackerFailed e)) \<or>
    (\<exists>t. finishEpoch E ep s = Inr (Some t) \<and> unpruned t \<and> committeeOf t = committeeOf s \<and> (\<forall>e. e \<noteq> ep \<longrightarrow> rewardsOf t e = rewardsOf s e))"
proof (cases "ApplyEpoch (trackerEnv E) ep c (performanceTracker s)")
  case (Inr t)
  then show ?thesis using assms ApplyEpoch_effect[OF Inr]
    by (auto simp: finishEpoch_def unpruned_def[of s] unpruned_def[of "s\<lparr>performanceTracker := t\<rparr>"] committeeOf_def rewardsOf_def fun_eq_iff)
qed (use assms in \<open>simp add: finishEpoch_def\<close>)

text \<open>What a state must know before a slot is committed, and the epoch whose committee goes into its commitment.\<close>

definition ready_for :: "sybil_env \<Rightarrow> slot \<Rightarrow> SybilProtection \<Rightarrow> bool" where
  "ready_for E sl s \<longleftrightarrow> unpruned s \<and> committeeOf s (epochOf E sl) \<noteq> None \<and>
     (unat (endOf E sl) < unat sl + unat (ageOf E sl) \<longrightarrow> committeeOf s (epochOf E sl + 1) \<noteq> None) \<and>
     (\<forall>ep. epochOf E sl \<le> ep \<longrightarrow> rewardsOf s ep = Map.empty)"

definition committedEpoch :: "sybil_env \<Rightarrow> slot \<Rightarrow> epoch" where
  "committedEpoch E sl = (if unat sl + unat (ageOf E sl) < unat (endOf E sl) then epochOf E sl else epochOf E sl + 1)"

lemma next_slot_ready:
  assumes time: "time_ok E" and l: "unat (lastCommittedSlot s) < 2 ^ 31 - 1" and known: "committees_known E s" and pending: "rewards_pending E s"
  shows "ready_for E (lastCommittedSlot s + 1) s"
proof -
  let ?l = "lastCommittedSlot s"
  have small: "unat ?l < 2 ^ 31" using l by simp
  have suc: "unat (?l + 1) = Suc (unat ?l)" using l by (simp add: unat_word_ariths)
  note t = time[unfolded time_ok_def, rule_format, OF small]
  have end_l: "?l \<le> endOf E ?l" using t by blast
  show ?thesis
  proof (cases "?l < endOf E ?l")
    case True
    then have "epochOf E (?l + 1) = epochOf E ?l" "endOf E (?l + 1) = endOf E ?l" "ageOf E (?l + 1) = ageOf E ?l" using t by simp_all
    moreover have "?l \<noteq> endOf E ?l" using True by auto
    ultimately show ?thesis using known pending suc by (auto simp: ready_for_def committees_known_def rewards_pending_def Let_def)
  next
    case False
    then have l_end: "?l = endOf E ?l" using end_l by simp
    have next_ep: "epochOf E (?l + 1) = epochOf E ?l + 1" "unat (?l + 1) + unat (ageOf E (?l + 1)) \<le> unat (endOf E (?l + 1))" using t False by simp_all
    have "unat (epochOf E ?l + 1) = Suc (unat (epochOf E ?l))" using t word_Suc_no_wrap[of "epochOf E ?l" "epochOf E ?l"] by simp
    then have "epochOf E ?l < ep" if "epochOf E ?l + 1 \<le> ep" for ep using that by (simp add: word_less_nat_alt word_le_nat_alt)
    moreover have "committeeOf s (epochOf E ?l + 1) \<noteq> None" using known l_end by (simp add: committees_known_def Let_def)
    ultimately show ?thesis using known pending l_end next_ep by (auto simp: ready_for_def committees_known_def rewards_pending_def Let_def)
  qed
qed

lemma commit_ready:
  assumes time: "time_ok E" and small: "unat sl < 2 ^ 31" and ready: "ready_for E sl s"
  shows "(\<exists>e c. sl = endOf E sl \<and> committeeOf s (epochOf E sl) = Some c \<and>
       ApplyEpoch (trackerEnv E) (epochOf E sl) c (performanceTracker s) = Inl e \<and> Sybil_CommitSlot E sl s = Inl (TrackerFailed e)) \<or>
    (\<exists>c t. Sybil_CommitSlot E sl s = Inr (CommitteeTreeRoot E (dom (accountPools c)), RewardsTreeRoot (trackerEnv E) Map.empty, t) \<and>
       committeeOf t (committedEpoch E sl) = Some c \<and> lastCommittedSlot t = sl \<and> committees_known E t \<and> rewards_pending E t)"
proof -
  let ?ep = "epochOf E sl"
  let ?epEnd = "endOf E sl"
  let ?age = "ageOf E sl"
  note t = time[unfolded time_ok_def, rule_format, OF small]
  have le: "sl \<le> ?epEnd" "unat sl + unat ?age < 2 ^ 32" using t by (auto simp: word_le_nat_alt)
  have add: "unat (sl + ?age) = unat sl + unat ?age" using le(2) by (simp add: unat_word_ariths)
  have ep: "?ep + 1 \<noteq> ?ep" "\<And>e. ?ep + 1 \<le> e \<Longrightarrow> ?ep < e" "?ep < ?ep + 1"
    using t word_Suc_no_wrap[of ?ep ?ep] by (auto simp: word_less_nat_alt word_le_nat_alt)
  obtain s1 where s1: "(if ?epEnd = sl + ?age then reuseCommittee E ?ep s else Inr s) = Inr s1" "unpruned s1"
    "committeeOf s1 ?ep \<noteq> None" "unat ?epEnd \<le> unat sl + unat ?age \<Longrightarrow> committeeOf s1 (?ep + 1) \<noteq> None" "rewardsOf s1 = rewardsOf s"
  proof (cases "?epEnd = sl + ?age")
    case True
    then show ?thesis using that reuse_known[of s ?ep E] ready by (auto simp: ready_for_def)
  next
    case False
    then have "unat ?epEnd \<noteq> unat sl + unat ?age" using add by (metis word_unat_eq_iff)
    then show ?thesis using that[of s] False ready by (auto simp: ready_for_def)
  qed
  have empty: "\<And>e. ?ep \<le> e \<Longrightarrow> rewardsOf s1 e = Map.empty" using s1(5) ready by (simp add: ready_for_def)
  obtain c0 where c0: "committeeOf s1 ?ep = Some c0" using s1(3) by blast
  have commit: "Sybil_CommitSlot E sl s =
     bind_res (if ?epEnd = sl then finishEpoch E ?ep s1 else Inr (Some s1)) (\<lambda>finished.
      case finished of None \<Rightarrow> Inr (emptyIdentifier E, emptyIdentifier E, s1)
      | Some o' \<Rightarrow>
      bind_res (committeeRoot E (if sl + ?age < ?epEnd then ?ep else ?ep + 1) o') (\<lambda>committee.
      bind_res (lift_err TrackerFailed (RewardsRoot (trackerEnv E) (if ?epEnd = sl then ?ep + 1 else ?ep) (performanceTracker o'))) (\<lambda>rewards.
        Inr (committee, rewards, o'\<lparr>lastCommittedSlot := sl\<rparr>))))"
    using s1(1) unfolding endOf_def ageOf_def epochOf_def by (simp only: Sybil_CommitSlot_def Let_def bind_res_simps)
  have target: "(if sl + ?age < ?epEnd then ?ep else ?ep + 1) = committedEpoch E sl"
    by (simp add: committedEpoch_def word_less_nat_alt add)
  have finish: ?thesis if f: "(if ?epEnd = sl then finishEpoch E ?ep s1 else Inr (Some s1)) = Inr (Some s2)" "unpruned s2" "committeeOf s2 = committeeOf s1"
      "\<And>e. (if ?epEnd = sl then ?ep + 1 else ?ep) \<le> e \<Longrightarrow> rewardsOf s2 e = Map.empty" for s2
  proof -
    obtain c where c: "committeeOf s2 (committedEpoch E sl) = Some c"
      using f(3) s1(3,4) by (cases "unat sl + unat ?age < unat ?epEnd") (auto simp: committedEpoch_def)
    have "Sybil_CommitSlot E sl s = Inr (CommitteeTreeRoot E (dom (accountPools c)), RewardsTreeRoot (trackerEnv E) Map.empty, s2\<lparr>lastCommittedSlot := sl\<rparr>)"
      unfolding commit f(1) target using c f(2) f(4)[of "if ?epEnd = sl then ?ep + 1 else ?ep"] by (simp add: committeeRoot_def rewardsRoot_unpruned)
    moreover have "committees_known E (s2\<lparr>lastCommittedSlot := sl\<rparr>)"
      using f(2,3) s1(3,4) by (auto simp: committees_known_def Let_def)
    moreover have "rewards_pending E (s2\<lparr>lastCommittedSlot := sl\<rparr>)"
      using f(4) by (auto simp: rewards_pending_def Let_def inc_le)
    ultimately show ?thesis using c by (intro disjI2 exI[of _ c] exI[of _ "s2\<lparr>lastCommittedSlot := sl\<rparr>"]) simp
  qed
  show ?thesis
  proof (cases "?epEnd = sl")
    case True
    from finish_known[OF s1(2) c0, of E] show ?thesis
    proof (elim disjE exE conjE)
      fix e assume "ApplyEpoch (trackerEnv E) ?ep c0 (performanceTracker s1) = Inl e" "finishEpoch E ?ep s1 = Inl (TrackerFailed e)"
      moreover have "s1 = s" using s1(1) True t by (auto simp: word_gt_0)
      ultimately show ?thesis using True commit c0 by (intro disjI1) auto
    next
      fix s2 assume s2: "finishEpoch E ?ep s1 = Inr (Some s2)" "unpruned s2" "committeeOf s2 = committeeOf s1" "\<forall>e. e \<noteq> ?ep \<longrightarrow> rewardsOf s2 e = rewardsOf s1 e"
      have "rewardsOf s2 e = Map.empty" if "?ep + 1 \<le> e" for e
        using s2(4) empty[of e] ep(2)[OF that] by (metis order_less_imp_le order_less_irrefl)
      then show ?thesis using True s2 by (intro finish[of s2]) auto
    qed
  next
    case False
    then show ?thesis using s1(2) empty by (intro finish[of s1]) auto
  qed
qed

text \<open>
  A run of the sybil protection: committed slots follow each other; validation blocks are tracked, blocks
  pass the filter and slots are finalized in between, in any order. It starts from a state that knows
  what the next slot needs, as the genesis does.
\<close>

inductive sybil_run :: "sybil_env \<Rightarrow> account_lookup \<Rightarrow> SybilProtection \<Rightarrow> bool" for E ledgerAccount where
  start: "ready_for E (lastCommittedSlot s + 1) s \<Longrightarrow> sybil_run E ledgerAccount s"
| commit: "sybil_run E ledgerAccount s \<Longrightarrow> unat (lastCommittedSlot s) < 2 ^ 31 - 1 \<Longrightarrow>
    Sybil_CommitSlot E (lastCommittedSlot s + 1) s = Inr (committee, rewards, t) \<Longrightarrow> sybil_run E ledgerAccount t"
| track: "sybil_run E ledgerAccount s \<Longrightarrow> Sybil_TrackValidationBlock E block s = Inr t \<Longrightarrow> sybil_run E ledgerAccount t"
| finalized: "sybil_run E ledgerAccount s \<Longrightarrow> slotFinalized E ledgerAccount sl s = Inr t \<Longrightarrow> sybil_run E ledgerAccount t"
| allowed: "sybil_run E ledgerAccount s \<Longrightarrow> onBlockAllowed E block (seatManager s) = Some sm \<Longrightarrow> sybil_run E ledgerAccount (s\<lparr>seatManager := sm\<rparr>)"

lemma constructed_ready:
  assumes c: "constructed E sl (Some committee) (NewTracker (NewEpochKVStore (\<lambda>_. Map.empty) None d1) (NewStore stats None d2) (NewStore Map.empty None d3) perfs ep) sm = Inr s"
    and genesis: "epochOf E (sl + 1) = 0" "unat (sl + 1) + unat (ageOf E (sl + 1)) \<le> unat (endOf E (sl + 1))"
  shows "ready_for E (lastCommittedSlot s + 1) s"
  using assms by (auto simp: constructed_def Let_def RegisterCommittee_def Store_Store_def isTooOld_iff too_old_def NewTracker_def NewStore_def
    NewEpochKVStore_def index_defs ready_for_def unpruned_def committeeOf_def rewardsOf_def)

text \<open>The steps between commits keep the rewards and add committees only.\<close>

definition extended :: "SybilProtection \<Rightarrow> SybilProtection \<Rightarrow> bool" where
  "extended s t \<longleftrightarrow> lastCommittedSlot t = lastCommittedSlot s \<and> (unpruned s \<longrightarrow> unpruned t) \<and> rewardsOf t = rewardsOf s \<and>
     (\<forall>ep. committeeOf s ep \<noteq> None \<longrightarrow> committeeOf t ep \<noteq> None)"

lemma extended_ready: "extended s t \<Longrightarrow> ready_for E sl s \<Longrightarrow> ready_for E sl t"
  unfolding extended_def ready_for_def by metis

lemma trackMember_result:
  assumes "trackCommitteeMemberPerformance T version hash block t = Inr t'"
  shows "\<exists>p. t' = t\<lparr>performances := p\<rparr>"
proof (cases "performances t (ibSlot block)")
  case None
  then have "t' = t\<lparr>performances := performances t\<rparr>" using assms by (simp add: trackCommitteeMemberPerformance_def)
  then show ?thesis by (rule exI[of "\<lambda>p. t' = t\<lparr>performances := p\<rparr>"])
next
  case (Some perfs)
  then obtain subslot where "subslotIndex T (ibSlot block) (ibIssuingTime block) t = Inr subslot" "\<not> subslot < 0"
    using assms by (auto simp: trackCommitteeMemberPerformance_def Let_def simp del: fun_upd_apply split: if_splits)
  then show ?thesis using assms Some by (auto simp only: trackCommitteeMemberPerformance_def Let_def bind_res_simps if_False option.case sum.inject)
qed

lemma track_result: "TrackValidationBlock T block t = Inr t' \<Longrightarrow> \<exists>p. t' = t\<lparr>performances := p\<rparr>"
  using trackMember_result[of T _ _ block t t'] exI[of "\<lambda>p. t' = t\<lparr>performances := p\<rparr>" "performances t"]
  by (auto simp: TrackValidationBlock_def split: block_body.splits if_splits)

lemma track_extends: "Sybil_TrackValidationBlock E block s = Inr t \<Longrightarrow> extended s t"
  by (auto simp: Sybil_TrackValidationBlock_def lift_err_eq_Inr extended_def unpruned_def committeeOf_def rewardsOf_def fun_eq_iff dest!: track_result)

lemma register_extends: "RegisterCommittee ep c (performanceTracker s) = Inr t \<Longrightarrow> extended s (s\<lparr>performanceTracker := t, CommitteeSelected := l\<rparr>)"
  by (auto simp: RegisterCommittee_def Store_Store_def lift_err_eq_Inr extended_def unpruned_def committeeOf_def rewardsOf_def fun_eq_iff
    split: sum.splits if_splits)

lemma finalized_extends: "slotFinalized E ledgerAccount sl s = Inr t \<Longrightarrow> extended s t"
  using register_extends[of _ _ s]
  by (auto simp: slotFinalized_def selectNewCommittee_def Let_def lift_err_eq_Inr extended_def unpruned_def committeeOf_def rewardsOf_def fun_eq_iff
    split: if_splits option.splits sum.splits)

lemma sybil_run_ready:
  assumes time: "time_ok E" and run: "sybil_run E ledgerAccount s"
  shows "unat (lastCommittedSlot s) < 2 ^ 31 - 1 \<longrightarrow> ready_for E (lastCommittedSlot s + 1) s"
  using run
proof induction
  case (commit s committee rewards t)
  have "unat (lastCommittedSlot s + 1) < 2 ^ 31" using commit(2) by (simp add: unat_word_ariths)
  then have "committees_known E t" "rewards_pending E t"
    using commit_ready[OF time, of "lastCommittedSlot s + 1" s] commit by auto
  then show ?case using next_slot_ready[OF time] by blast
next
  case (track s block t)
  then show ?case using track_extends[of E block s t] extended_ready[of s t E] by (auto simp: extended_def)
next
  case (finalized s sl t)
  then show ?case using finalized_extends[of E ledgerAccount sl s t] extended_ready[of s t E] by (auto simp: extended_def)
next
  case (allowed s block sm)
  then show ?case by (simp add: ready_for_def unpruned_def committeeOf_def rewardsOf_def)
qed simp

text \<open>C38: In every run the next slot is committed with the root of the committee of the epoch that the slot
  points to: the committee is always known. The only failure is one of the reward calculation at the
  end of an epoch.\<close>

theorem committee_known_at_every_commit:
  assumes time: "time_ok E" and run: "sybil_run E ledgerAccount s" and bound: "unat (lastCommittedSlot s) < 2 ^ 31 - 1" and sl: "sl = lastCommittedSlot s + 1"
  shows "(\<exists>c rewards t. Sybil_CommitSlot E sl s = Inr (CommitteeTreeRoot E (dom (accountPools c)), rewards, t) \<and>
      LoadCommitteeForEpoch (committedEpoch E sl) (performanceTracker t) = Inr (Some c) \<and> lastCommittedSlot t = sl) \<or>
    (\<exists>e c. sl = endOf E sl \<and> LoadCommitteeForEpoch (epochOf E sl) (performanceTracker s) = Inr (Some c) \<and>
      ApplyEpoch (trackerEnv E) (epochOf E sl) c (performanceTracker s) = Inl e \<and> Sybil_CommitSlot E sl s = Inl (TrackerFailed e))"
proof -
  have small: "unat sl < 2 ^ 31" using bound sl by (simp add: unat_word_ariths)
  have ready: "ready_for E sl s" using sybil_run_ready[OF time run] bound sl by simp
  then have "unpruned s" by (simp add: ready_for_def)
  with commit_ready[OF time small ready] show ?thesis by (fastforce simp: committees_known_def Let_def)
qed

text \<open>C39: The root of the rewards in a commitment is in every run the root of an empty map, also after epochs with
  rewards: it is taken of the epoch in progress, whose rewards are written when it ends.\<close>

theorem rewards_root_of_empty_map:
  assumes time: "time_ok E" and run: "sybil_run E ledgerAccount s" and bound: "unat (lastCommittedSlot s) < 2 ^ 31 - 1"
    and commit: "Sybil_CommitSlot E (lastCommittedSlot s + 1) s = Inr (committee, rewards, t)"
  shows "rewards = RewardsTreeRoot (trackerEnv E) Map.empty"
proof -
  have "unat (lastCommittedSlot s + 1) < 2 ^ 31" using bound by (simp add: unat_word_ariths)
  moreover have "ready_for E (lastCommittedSlot s + 1) s" using sybil_run_ready[OF time run] bound by simp
  ultimately show ?thesis using commit_ready[OF time] commit by fastforce
qed

section \<open>A concrete instance\<close>

text \<open>Epochs of two slots; the first epoch with rewards ends with slot 3.\<close>

definition exampleSybilEnv :: sybil_env where
  "exampleSybilEnv = \<lparr>trackerEnv = exampleTrackerEnv, PopUntil = (\<lambda>t q. (map fst (filter (\<lambda>x. snd x \<le> t) q), filter (\<lambda>x. t < snd x) q)),
     activityWindow = 30, onlineCommitteeStartup = [], CommitteeTreeRoot = (\<lambda>ids. concat (sorted_list_of_set ids)), WrapfNilIsError = False\<rparr>"

lemma exampleSybilEnv_simps [simp]: "trackerEnv exampleSybilEnv = exampleTrackerEnv" "activityWindow exampleSybilEnv = 30"
  by (simp_all add: exampleSybilEnv_def)

lemma exampleSybilEnv_pop [simp]: "pop_ok exampleSybilEnv"
proof -
  have "mset q = mset (filter (\<lambda>x. snd x \<le> t) q) + mset (filter (\<lambda>x. t < snd x) q)" for q :: "(seat \<times> int) list" and t
    by (induction q) auto
  then show ?thesis unfolding pop_ok_def by (intro allI exI) (auto simp: exampleSybilEnv_def)
qed

lemma exampleSybilEnv_time: "time_ok exampleSybilEnv"
proof -
  have eqs: "epochOf exampleSybilEnv sl = sl div 2" "endOf exampleSybilEnv sl = 2 * (sl div 2) + 1" "ageOf exampleSybilEnv sl = 1" for sl
    by (simp_all add: epochOf_def endOf_def ageOf_def exampleRewardApi_def)
  have step: "sl \<le> 2 * (sl div 2) + 1 \<and> unat (2 * (sl div 2) + 1) + 1 < 2 ^ 32 \<and> sl div 2 \<noteq> - 1 \<and>
      (if sl < 2 * (sl div 2) + 1 then (sl + 1) div 2 = sl div 2
       else (sl + 1) div 2 = sl div 2 + 1 \<and> unat (sl + 1) + 1 \<le> unat (2 * ((sl + 1) div 2) + 1))" if "unat sl < 2 ^ 31" for sl :: slot
  proof -
    have n: "unat (sl div 2) = unat sl div 2" "unat (2 * (sl div 2) + 1) = 2 * (unat sl div 2) + 1" "unat (sl + 1) = unat sl + 1"
      "unat ((sl + 1) div 2) = (unat sl + 1) div 2" "unat (2 * ((sl + 1) div 2) + 1) = 2 * ((unat sl + 1) div 2) + 1" "unat (sl div 2 + 1) = unat sl div 2 + 1"
      using that by (simp_all add: unat_div_distrib unat_word_ariths)
    have "unat (- 1 :: slot) = 2 ^ 32 - 1" by (simp add: unsigned_minus_1_eq_mask mask_eq_exp_minus_1)
    then have "sl div 2 \<noteq> - 1" using n(1) that by auto
    then show ?thesis unfolding word_le_nat_alt word_less_nat_alt word_unat_eq_iff[of "(sl + 1) div 2"] n using that by (simp split: if_splits) presburger
  qed
  show ?thesis unfolding time_ok_def eqs
  proof (intro allI impI)
    fix sl :: slot assume "unat sl < 2 ^ 31"
    note step = step[OF this]
    have one: "0 < (1 :: slot)" "unat (1 :: slot) = 1" by simp_all
    show "0 < (1 :: slot) \<and> sl \<le> 2 * (sl div 2) + 1 \<and> unat (2 * (sl div 2) + 1) + unat (1 :: slot) < 2 ^ 32 \<and> sl div 2 \<noteq> - 1 \<and>
      (if sl < 2 * (sl div 2) + 1
       then (sl + 1) div 2 = sl div 2 \<and> 2 * ((sl + 1) div 2) + 1 = 2 * (sl div 2) + 1 \<and> (1 :: slot) = 1
       else (sl + 1) div 2 = sl div 2 + 1 \<and> unat (sl + 1) + unat (1 :: slot) \<le> unat (2 * ((sl + 1) div 2) + 1))"
    proof (cases "sl < 2 * (sl div 2) + 1")
      case False
      then show ?thesis using step one unfolding one(2) if_not_P[OF False] by blast
    qed (use step in simp)
  qed
qed

definition exampleSybil :: SybilProtection where
  "exampleSybil = \<lparr>seatManager = NewSeatManager, lastCommittedSlot = 2, performanceTracker = exampleTracked, CommitteeSelected = []\<rparr>"

lemma exampleSybil_run: "sybil_run exampleSybilEnv ledgerAccount exampleSybil"
  by (rule sybil_run.start) (simp add: ready_for_def exampleSybil_def epochOf_def endOf_def ageOf_def exampleRewardApi_def unpruned_def committeeOf_def rewardsOf_def
    exampleTracked_def exampleTracker_def NewTracker_def NewStore_def NewEpochKVStore_def index_defs)

lemma exampleSybil_simps [simp]: "lastCommittedSlot exampleSybil = 2" "performanceTracker exampleSybil = exampleTracked"
  by (simp_all add: exampleSybil_def)

lemma exampleEnd: "endOf exampleSybilEnv 3 = 3" "epochOf exampleSybilEnv 3 = 1" "committedEpoch exampleSybilEnv 3 = 2"
  by (simp_all add: committedEpoch_def epochOf_def endOf_def ageOf_def exampleRewardApi_def)

lemma exampleLoad: "ep \<in> {1, 2} \<Longrightarrow> LoadCommitteeForEpoch ep exampleTracked = Inr (Some examplePools)"
  by (auto simp: LoadCommitteeForEpoch_def Store_Load_def isTooOld_iff too_old_def exampleTracked_def exampleTracker_def NewTracker_def NewStore_def index_defs)

theorem committee_known_at_every_commit_witness:
  "\<exists>c rewards t. Sybil_CommitSlot exampleSybilEnv 3 exampleSybil = Inr (CommitteeTreeRoot exampleSybilEnv (dom (accountPools c)), rewards, t) \<and>
     LoadCommitteeForEpoch 2 (performanceTracker t) = Inr (Some c) \<and> lastCommittedSlot t = 3"
  using committee_known_at_every_commit[OF exampleSybilEnv_time exampleSybil_run, of 3]
  by (auto simp: exampleEnd exampleLoad exampleApply)

lemma exampleCommit:
  "Sybil_CommitSlot exampleSybilEnv 3 exampleSybil = Inr ([4, 9], [0], exampleSybil\<lparr>performanceTracker := exampleRewarded, lastCommittedSlot := 3\<rparr>)"
proof -
  have rewarded: "LoadCommitteeForEpoch 2 exampleRewarded = Inr (Some examplePools)" "RewardsRoot exampleTrackerEnv 2 exampleRewarded = Inr [0]"
    by (simp_all add: LoadCommitteeForEpoch_def Store_Load_def isTooOld_iff too_old_def exampleRewarded_def exampleTracked_def exampleTracker_def NewTracker_def
      NewStore_def index_defs RewardsRoot_def rewardsMap_def GetEpoch_def NewEpochKVStore_def exampleTrackerEnv_def)
  have "CommitteeTreeRoot exampleSybilEnv (dom (accountPools examplePools)) = [4, 9]"
    by (simp add: exampleSybilEnv_def examplePool_lookup)
  moreover have "EpochFromSlot exampleRewardApi 3 = 1" "EpochEnd exampleRewardApi 1 = 3" "CommittableAge exampleRewardApi = 1"
    by (simp_all add: exampleRewardApi_def)
  ultimately show ?thesis
    by (simp add: Sybil_CommitSlot_def finishEpoch_def committeeRoot_def exampleLoad exampleApply rewarded)
qed

theorem rewards_root_of_empty_map_witness:
  "\<exists>rewards t. Sybil_CommitSlot exampleSybilEnv 3 exampleSybil = Inr ([4, 9], rewards, t) \<and> rewards = RewardsTreeRoot exampleTrackerEnv Map.empty \<and>
     rewardsMap 1 (performanceTracker t) = Inr [[9] \<mapsto> \<lparr>rewardPoolStake = 70, rewardAmount = 343, rewardFixedCost = 2\<rparr>]"
proof -
  have "[0] = RewardsTreeRoot (trackerEnv exampleSybilEnv) Map.empty"
    by (rule rewards_root_of_empty_map[OF exampleSybilEnv_time exampleSybil_run]) (use exampleCommit in simp_all)
  moreover have "rewardsMap 1 exampleRewarded = Inr [[9] \<mapsto> \<lparr>rewardPoolStake = 70, rewardAmount = 343, rewardFixedCost = 2\<rparr>]"
    by (simp add: exampleRewarded_def rewardsMap_def GetEpoch_def isTooOld_iff too_old_def NewEpochKVStore_def index_defs)
  ultimately show ?thesis using exampleCommit by simp
qed

text \<open>Two members, the first active at time 100: it is still online when the second is active at 120, and no longer at 140.\<close>

definition exampleAllowed :: "bytes \<Rightarrow> int \<Rightarrow> SeatManager \<Rightarrow> SeatManager" where
  "exampleAllowed i t s = the (onBlockAllowed exampleSybilEnv ((exampleBlock 2)\<lparr>ibIssuer := i, ibIssuingTime := t\<rparr>) s)"

definition exampleSeats :: SeatManager where
  "exampleSeats = exampleAllowed [4] 100 (SetCommittee exampleSybilEnv 1 examplePools NewSeatManager)"

lemma exampleSelected:
  "GetSeat [4] (SelectCommittee examplePools (IDs exampleCommittee examplePools)) = Some 0"
  "GetSeat [9] (SelectCommittee examplePools (IDs exampleCommittee examplePools)) = Some 1"
  by (simp_all add: IDs_def exampleCommittee_def examplePool_lookup SelectCommittee_def NewSeatedAccounts_def GetSeat_def assignSeats_def)

lemma exampleAllowed_run:
  assumes "seats_run exampleSybilEnv H s" and "smCommittee s = Some (SelectCommittee examplePools (IDs exampleCommittee examplePools))"
    and "GetSeat i (SelectCommittee examplePools (IDs exampleCommittee examplePools)) = Some seat"
  shows "seats_run exampleSybilEnv (H @ [(seat, t)]) (exampleAllowed i t s)" and "smCommittee (exampleAllowed i t s) = smCommittee s"
proof -
  let ?b = "(exampleBlock 2)\<lparr>ibIssuer := i, ibIssuingTime := t\<rparr>"
  have ok: "onBlockAllowed exampleSybilEnv ?b s = Some (exampleAllowed i t s)"
    using assms(2) by (auto simp: exampleAllowed_def onBlockAllowed_def SeatManager_Committee_def)
  show "seats_run exampleSybilEnv (H @ [(seat, t)]) (exampleAllowed i t s)"
    using seats_run.allowed[OF assms(1) _ ok] assms(2,3) by (simp add: SeatManager_Committee_def reported_def)
  show "smCommittee (exampleAllowed i t s) = smCommittee s"
    using assms(2,3) by (simp add: exampleAllowed_def onBlockAllowed_def SeatManager_Committee_def markSeatActive_eq fold_checkInactive(5) recordActivity_simps(4) Let_def)
qed

lemma exampleSeats_run: "seats_run exampleSybilEnv [(0, 100), (1, t)] (exampleAllowed [9] t exampleSeats)"
proof -
  let ?s = "SetCommittee exampleSybilEnv 1 examplePools NewSeatManager"
  have c: "smCommittee ?s = Some (SelectCommittee examplePools (IDs exampleCommittee examplePools))" by (simp add: SetCommittee_def)
  have "seats_run exampleSybilEnv [] ?s" by (intro seats_run.intros)
  note first = exampleAllowed_run[OF this c exampleSelected(1), of 100, folded exampleSeats_def]
  show ?thesis using exampleAllowed_run(1)[OF first(1) _ exampleSelected(2), of t] first(2) c by simp
qed

theorem online_committee_is_recent_witness:
  "OnlineCommittee (exampleAllowed [9] 120 exampleSeats) = {0, 1} \<and> OnlineCommittee (exampleAllowed [9] 140 exampleSeats) = {1}"
proof -
  have "latestTime [(0, 100), (1, 120)] = 120" "latestTime [(0, 100), (1, 140)] = 140" by (simp_all add: latestTime_def)
  then show ?thesis
    using online_committee_is_recent[OF exampleSybilEnv_pop _ exampleSeats_run, of 120] online_committee_is_recent[OF exampleSybilEnv_pop _ exampleSeats_run, of 140]
    by auto
qed

end
