(* ===== verification/Spec2Isabelle.thy ===== *)
theory Spec2Isabelle
  imports Votes Weight SlotFinalization SchedulerSelection UtxoSnapshot AccountsSnapshot LedgerProperties SybilProperties
begin

text \<open>
  Verification library for the core of \<open>iota-core\<close>, the node software of an IOTA 2.0 network. All paths
  below are relative to \<open>src/pkg\<close>.

  \<^bold>\<open>The program.\<close> Blocks enter an engine. The scheduler lets them pass in the order that the mana of their
  issuers gives; validation blocks carry votes, which accumulate to weights on transactions and to
  voters on slots. When a slot becomes old enough it is committed: the mempool hands over the
  accepted transactions as a state diff; the ledger turns it into changes of outputs (UTXO ledger) and of
  accounts (accounts ledger), derives the mana of the accounts and adapts the reference mana cost;
  the sybil protection adds the root of the committee and of the rewards. Slots with the votes of a
  supermajority are finalized, and the finalization selects the committee of the next epoch. At the end of an
  epoch the performance tracker turns the activity of the validators into rewards, which validators and
  delegators claim later. Snapshots carry ledgers to other nodes.

  \<^bold>\<open>Conventions.\<close> Go structs are records, enumerations are datatypes, fixed width integers are words, \<open>int\<close>
  counters that can not overflow are \<open>int\<close> or \<open>nat\<close>. Errors and panics are values (\<open>Inl\<close>), and loops that may not
  end are partial functions whose value is then \<open>None\<close>; theorems that such a loop returns are stated as such.
  No fuel is used. Code outside of the repository (\<open>hive.go\<close>, \<open>iota.go\<close>) is a record of functions passed to the
  definitions (\<open>utxo_env\<close>, \<open>account_api\<close>, \<open>tracker_env\<close> and so on); its documented behaviour is a predicate on that
  record (names ending in \<open>_ok\<close>), which the example instance at the end of each component satisfies. Locks
  serialize the operations and are left out; events are logs of what was triggered.

  \<^bold>\<open>Foundations.\<close>
  \<^item> \<open>Prelude\<close>: machine integers, results, loop shapes and the list, map and word lemmas shared by all.
  \<^item> \<open>External\<close>: checked arithmetic, marshalling and other packages as records with their contracts; the locale
    \<open>codec\<close> of a byte format that is read back and of sequences of such.
  \<^item> \<open>Float64\<close>: the floating point operations of the thresholds, exactly rounded.
  \<^item> \<open>GoHeap\<close>, \<open>GoRing\<close>: \<open>container/heap\<close> (with the contract \<open>inbox_heap\<close>) and \<open>container/ring\<close> of the standard library.
  \<^item> \<open>IoUtils\<close>: the positioned writer of \<open>utils/ioutils.go\<close>; patched bookmarks do not move anything else.

  \<^bold>\<open>Consensus.\<close>
  \<^item> \<open>Votes\<close> (\<open>votes/utils.go\<close>, \<open>core/acceptance/threshold_provider.go\<close>): the float thresholds agree with the exact
    ones for up to 256 seats, and two quorums share an honest seat (locale \<open>quorum\<close>, interpreted for both rules).
  \<^item> \<open>Weight\<close> (\<open>core/weight\<close>, \<open>core/vote\<close>, \<open>core/acceptance/state.go\<close>): what is announced is what is stored,
    up to the acceptance state, which is set silently; the comparison is a total preorder (locale \<open>comparator\<close>).
  \<^item> \<open>SlotFinalization\<close> (\<open>votes/slottracker\<close>, \<open>totalweightslotgadget/gadget.go\<close>): slots are finalized in order and
    only with a supermajority; the tracker refines a set of votes; when its loop ends.

  \<^bold>\<open>Congestion control\<close> (\<open>protocol/engine/congestioncontrol\<close>).
  \<^item> \<open>Queues\<close> (\<open>scheduler/drr/issuerqueue.go\<close>, \<open>validatorqueue.go\<close>): no block is lost or invented (locale
    \<open>block_queue\<close>, interpreted for both queues over \<open>inbox_heap\<close>).
  \<^item> \<open>Buffer\<close> (\<open>scheduler/drr/drrbuffer.go\<close>): the ring of queues; submitting drops to the limit; what removing
    an issuer does to the ring.
  \<^item> \<open>Scheduler\<close>, \<open>SchedulerSelection\<close> (\<open>scheduler/drr/scheduler.go\<close>): deficits stay in range in every reachable
    state; the selection serves a due block when every issuer has a quantum; when it does not return.
  \<^item> \<open>Rmc\<close> (\<open>rmc/rmc.go\<close>): the reference mana cost follows the work of the slots.

  \<^bold>\<open>Ledger\<close> (\<open>protocol/engine\<close>).
  \<^item> \<open>UtxoCodec\<close>, \<open>UtxoLedger\<close>, \<open>UtxoProperties\<close>, \<open>UtxoSnapshot\<close> (\<open>utxoledger\<close>): database layout and manager; applied
    diffs are read back, rollback undoes apply over any number of slots, the state tree commits to the
    unspent outputs, the supply is kept, snapshots restore the target slot.
  \<^item> \<open>AccountsData\<close>, \<open>AccountsLedger\<close>, \<open>AccountsHistory\<close>, \<open>AccountsProperties\<close>, \<open>AccountsSnapshot\<close> (\<open>accounts\<close>,
    \<open>accounts/accountsledger\<close>, \<open>model/account_diff.go\<close>, \<open>storage/prunable/slotstore/accountdiffs.go\<close>): formats are read
    back, commits keep the answers for past slots, snapshots answer alike, and where the code fails to do so.
  \<^item> \<open>ManaManager\<close> (\<open>accounts/mana\<close>): the cache answers as an empty one for the accounts that a diff touches, and
    when it does for the others.
  \<^item> \<open>StateDiff\<close> (\<open>mempool/v1/state_diff.go\<close>): the compacted changes are the net effect of the transactions.
  \<^item> \<open>LedgerCommit\<close>, \<open>LedgerProperties\<close> (\<open>ledger/ledger/ledger.go\<close>): committing a slot mirrors the outputs of accounts in
    the account tree; the slots that can not be committed.

  \<^bold>\<open>Committee and rewards.\<close>
  \<^item> \<open>EpochStore\<close> (\<open>storage/prunable/epochstore\<close>, \<open>model/eviction_index.go\<close>, \<open>model/pruning_index.go\<close>): pruning deletes
    the old epochs and keeps all others (locale \<open>pruned_store\<close>, interpreted for both kinds of store).
  \<^item> \<open>Committee\<close> (\<open>core/account\<close>): totals are the sums of the pools, bytes are read back, seats follow the rank.
  \<^item> \<open>Performance\<close>, \<open>RewardProperties\<close> (\<open>protocol/sybilprotection/sybilprotectionv1/performance\<close>, \<open>model/poolstats.go\<close>,
    \<open>model/validator_performance.go\<close>): the pools of an epoch together receive at most its target, and claims
    never exceed the rewards of the pool.
  \<^item> \<open>SybilProtection\<close>, \<open>SybilProperties\<close> (\<open>protocol/sybilprotection/sybilprotectionv1/sybilprotection.go\<close>,
    \<open>protocol/sybilprotection/seatmanager/poa\<close>): the seats with a reported activity in
    the window are online, every commit knows its committee, and which rewards the committed root covers.

  \<^bold>\<open>Bounds.\<close> The thresholds are proved for committees of at most 256 seats, the range of a seat index. Statements
  about runs of the sybil protection are about the slots below \<open>2 ^ 31\<close>, so that slot arithmetic near the end of an
  epoch does not wrap, and about stores from which nothing was pruned. Statements about sums of stakes or
  rewards say under which bound the 64 bit sums do not wrap.

  \<^bold>\<open>Not modelled.\<close>
  \<^item> The reactive parts: attachments and acceptance in the mempool, the conflict graph, block graph,
    booker, tip manager, block gadget and chain manager are networks of callbacks and promises on worker pools
    over \<open>hive.go\<close>, whose behaviour is the order in which the packages run the callbacks.
  \<^item> The parts that depend on time and devices: clock, token bucket of the scheduler queues, sync
    manager, database engines and files, network, HTTP and gRPC services, tools, tests.
  \<^item> Sequential parts that are left: attestations, notarization, eviction state, upgrade orchestrator, the
    snapshot of the performance tracker, settings, block filters.
\<close>

end
